(* ===== verification/Prelude.thy ===== *)
theory Prelude
  imports Main "HOL-Library.Word" "HOL-Library.Monad_Syntax"
begin

text \<open>
  Shared vocabulary of the development: machine integers, NUL-terminated byte strings,
  status codes, the reading of \<^typ>\<open>'a option\<close> as "the C expression has defined
  behaviour", and the generic lemmas the components use.

  Conventions.
  \<^item> A computation that may touch memory returns an \<open>option\<close>. \<open>None\<close> is a memory fault:
    a read or write through a null or freed pointer, or past the end of an object. In C
    all of these are undefined behaviour, so nothing is said about what follows them.
  \<^item> An error code of the source is a value, never \<open>None\<close>.
  \<^item> Pointers are addresses; the null pointer is \<open>None :: addr option\<close>. A freed address is
    one the store no longer maps. Addresses are never handed out twice, so a stale pointer
    is always recognised as such.
\<close>

unbundle bit_operations_syntax

section \<open>Machine integers and bytes\<close>

type_synonym u8 = "8 word"
type_synonym u16 = "16 word"
type_synonym u32 = "32 word"
type_synonym u64 = "64 word"
type_synonym bytes = "u8 list"
type_synonym addr = nat

text \<open>\<open>EG_STATUS_OK\<close> and \<open>EG_STATUS_ERR\<close> of eagle.h.\<close>

datatype status = EG_STATUS_OK | EG_STATUS_ERR

text \<open>\<open>BIT_CHECK(a, b)\<close> of eagle.h: \<open>a & (1UL << b)\<close>, as a truth value.\<close>

definition BIT_CHECK :: "'w::len word \<Rightarrow> nat \<Rightarrow> bool" where
  "BIT_CHECK a b \<longleftrightarrow> a AND push_bit b 1 \<noteq> 0"

section \<open>Collections of simplification facts\<close>

named_theorems fault_simps \<open>how the fault monad computes\<close>
named_theorems rep_intros \<open>representation predicates are kept by the operations\<close>

lemmas [fault_simps] = bind_eq_Some_conv

section \<open>Words\<close>

lemma BIT_CHECK_iff_bit: "BIT_CHECK a b \<longleftrightarrow> bit a b"
  by (simp add: BIT_CHECK_def bit_iff_and_push_bit_not_eq_0)

lemma unat_of_nat32: "n < 2 ^ 32 \<Longrightarrow> unat (of_nat n :: u32) = n"
  by (simp add: unat_of_nat)

lemma sint_of_nat32: "n < 2 ^ 31 \<Longrightarrow> sint (of_nat n :: u32) = int n"
  by (simp add: signed_of_nat signed_take_bit_int_eq_self)

lemma of_nat32_eq_0_iff: "n < 2 ^ 32 \<Longrightarrow> (of_nat n :: u32) = 0 \<longleftrightarrow> n = 0"
  by (auto simp: word_of_nat_eq_0_iff dest: nat_dvd_not_less)

end
