(* ===== verification/Dll.thy ===== *)
theory Dll
  imports Prelude
begin

text \<open>
  Doubly linked nodes in an explicit store. list.c, queue.c and keylist.c declare the same
  node shape three times (\<open>ListNode\<close>, \<open>QueueNode\<close>, \<open>KeylistNode\<close>); this theory holds
  the shape, the pointer accesses with their faults, and the segment predicate all three
  correctness proofs rest on. A list object owns its nodes: they are reachable only through
  it, so every list carries its own store and no separation between lists has to be proved.
\<close>

section \<open>Nodes, stores and pointer accesses\<close>

record 'v node =
  nprev :: "addr option"
  nnext :: "addr option"
  nvalue :: 'v

type_synonym 'v store = "addr \<rightharpoonup> 'v node"

text \<open>\<open>*p\<close>: faults on the null pointer and on a freed node.\<close>

definition load :: "'v store \<Rightarrow> addr option \<Rightarrow> 'v node option" where
  "load m p = Option.bind p m"

text \<open>\<open>p->prev = x\<close> and \<open>p->next = x\<close>.\<close>

definition set_prev :: "'v store \<Rightarrow> addr option \<Rightarrow> addr option \<Rightarrow> 'v store option" where
  "set_prev m p x = do { a \<leftarrow> p; nd \<leftarrow> m a; Some (m(a \<mapsto> nd\<lparr>nprev := x\<rparr>)) }"

definition set_next :: "'v store \<Rightarrow> addr option \<Rightarrow> addr option \<Rightarrow> 'v store option" where
  "set_next m p x = do { a \<leftarrow> p; nd \<leftarrow> m a; Some (m(a \<mapsto> nd\<lparr>nnext := x\<rparr>)) }"

lemma load_simps [simp]: "load m None = None" "load m (Some a) = m a"
  by (simp_all add: load_def)

lemma set_prev_simps [simp]:
  "set_prev m None x = None"
  "set_prev m (Some a) x = map_option (\<lambda>nd. m(a \<mapsto> nd\<lparr>nprev := x\<rparr>)) (m a)"
  by (simp_all add: set_prev_def map_option_case split: option.split)

lemma set_next_simps [simp]:
  "set_next m None x = None"
  "set_next m (Some a) x = map_option (\<lambda>nd. m(a \<mapsto> nd\<lparr>nnext := x\<rparr>)) (m a)"
  by (simp_all add: set_next_def map_option_case split: option.split)

section \<open>List segments\<close>

text \<open>
  \<open>dseg m p f xs l n\<close>: starting at pointer \<open>f\<close>, whose node's \<open>prev\<close> is \<open>p\<close>, the store holds
  the nodes \<open>xs\<close> (address and value, in order), the last of them is \<open>l\<close>, and the last
  node's \<open>next\<close> is \<open>n\<close>.
\<close>

fun dseg :: "'v store \<Rightarrow> addr option \<Rightarrow> addr option \<Rightarrow> (addr \<times> 'v) list \<Rightarrow>
    addr option \<Rightarrow> addr option \<Rightarrow> bool" where
  "dseg m p f [] l n \<longleftrightarrow> f = n \<and> l = p"
| "dseg m p f ((a, v) # xs) l n \<longleftrightarrow> f = Some a \<and>
     (\<exists>nx. m a = Some \<lparr>nprev = p, nnext = nx, nvalue = v\<rparr> \<and> dseg m (Some a) nx xs l n)"

abbreviation addrs :: "(addr \<times> 'v) list \<Rightarrow> addr list" where
  "addrs xs \<equiv> map fst xs"

abbreviation vals :: "(addr \<times> 'v) list \<Rightarrow> 'v list" where
  "vals xs \<equiv> map snd xs"

lemma dseg_append:
  "dseg m p f (xs @ ys) l n \<longleftrightarrow> (\<exists>k g. dseg m p f xs k g \<and> dseg m k g ys l n)"
proof (induction xs arbitrary: p f)
  case Nil
  then show ?case by auto
next
  case (Cons x xs)
  then show ?case by (cases x) auto
qed

lemma dseg_frame [simp]:
  "a \<notin> fst ` set xs \<Longrightarrow> dseg (m(a := z)) p f xs l n = dseg m p f xs l n"
  by (induction m p f xs l n rule: dseg.induct) auto

lemma dseg_dom: "dseg m p f xs l n \<Longrightarrow> fst ` set xs \<subseteq> dom m"
  by (induction m p f xs l n rule: dseg.induct) auto

lemma dseg_split:
  "dseg m p f (xs @ (a, v) # ys) l n \<longleftrightarrow>
     (\<exists>k nx. dseg m p f xs k (Some a) \<and> m a = Some \<lparr>nprev = k, nnext = nx, nvalue = v\<rparr>
        \<and> dseg m (Some a) nx ys l n)"
  by (auto simp: dseg_append)

text \<open>The two ends of a segment: what its first and last pointers are.\<close>

lemma dseg_first: "dseg m p f xs l n \<Longrightarrow> f = (case xs of [] \<Rightarrow> n | x # _ \<Rightarrow> Some (fst x))"
  by (cases xs) auto

lemma dseg_last: "dseg m p f xs l n \<Longrightarrow> l = (if xs = [] then p else Some (fst (last xs)))"
proof (induction m p f xs l n rule: dseg.induct)
  case (2 m p f a v xs l n)
  then obtain nx where "dseg m (Some a) nx xs l n" by auto
  with 2 show ?case by (cases xs) auto
qed auto

text \<open>Writing the \<open>next\<close> of the last node, or the \<open>prev\<close> of the first, moves the end.\<close>

lemma dseg_relink_last:
  assumes "dseg m p f (xs @ [(a, v)]) l n" and "a \<notin> fst ` set xs"
  shows "dseg (m(a \<mapsto> (the (m a))\<lparr>nnext := n'\<rparr>)) p f (xs @ [(a, v)]) l n'"
  using assms by (auto simp: dseg_append)

lemma dseg_relink_first:
  assumes "dseg m p f ((a, v) # xs) l n" and "a \<notin> fst ` set xs"
  shows "dseg (m(a \<mapsto> (the (m a))\<lparr>nprev := p'\<rparr>)) p' f ((a, v) # xs) l n"
  using assms by auto

section \<open>List objects\<close>

text \<open>
  The fields \<open>List\<close>, \<open>Queue\<close> and \<open>Keylist\<close> share. \<open>mem\<close> is the store of the nodes the
  object owns and \<open>brk\<close> the next address the allocator returns for it; \<open>len\<close> is the
  \<open>unsigned int\<close> counter. \<open>xmalloc\<close> ends the process when memory runs out, so an
  allocation always succeeds.
\<close>

record 'v chain =
  head :: "addr option"
  tail :: "addr option"
  len :: u32
  mem :: "'v store"
  brk :: addr

text \<open>
  The blocks the three files have in common: linking a new first or last node, unlinking a
  node, and one step of an iterator.
\<close>

definition link_head :: "('v, 'z) chain_scheme \<Rightarrow> 'v \<Rightarrow> ('v, 'z) chain_scheme option" where
  "link_head l v = (let a = brk l in
     if len l = 0 then
       Some (l\<lparr>head := Some a, tail := Some a, len := len l + 1,
               mem := (mem l)(a \<mapsto> \<lparr>nprev = None, nnext = None, nvalue = v\<rparr>), brk := Suc a\<rparr>)
     else do {
       m \<leftarrow> set_prev ((mem l)(a \<mapsto> \<lparr>nprev = None, nnext = head l, nvalue = v\<rparr>)) (head l) (Some a);
       Some (l\<lparr>head := Some a, len := len l + 1, mem := m, brk := Suc a\<rparr>) })"

definition link_tail :: "('v, 'z) chain_scheme \<Rightarrow> 'v \<Rightarrow> ('v, 'z) chain_scheme option" where
  "link_tail l v = (let a = brk l in
     if len l = 0 then
       Some (l\<lparr>head := Some a, tail := Some a, len := len l + 1,
               mem := (mem l)(a \<mapsto> \<lparr>nprev = None, nnext = None, nvalue = v\<rparr>), brk := Suc a\<rparr>)
     else do {
       m \<leftarrow> set_next ((mem l)(a \<mapsto> \<lparr>nprev = tail l, nnext = None, nvalue = v\<rparr>)) (tail l) (Some a);
       Some (l\<lparr>tail := Some a, len := len l + 1, mem := m, brk := Suc a\<rparr>) })"

text \<open>The value of the unlinked node is returned: it is what the free method is given.\<close>

definition unlink_node :: "('v, 'z) chain_scheme \<Rightarrow> addr \<Rightarrow> (('v, 'z) chain_scheme \<times> 'v) option" where
  "unlink_node l a = do {
     nd \<leftarrow> load (mem l) (Some a);
     l1 \<leftarrow> (case nprev nd of
              Some p \<Rightarrow> do { m \<leftarrow> set_next (mem l) (Some p) (nnext nd); Some (l\<lparr>mem := m\<rparr>) }
            | None \<Rightarrow> Some (l\<lparr>head := nnext nd\<rparr>));
     nd1 \<leftarrow> load (mem l1) (Some a);
     l2 \<leftarrow> (case nnext nd1 of
              Some q \<Rightarrow> do { m \<leftarrow> set_prev (mem l1) (Some q) (nprev nd1); Some (l1\<lparr>mem := m\<rparr>) }
            | None \<Rightarrow> Some (l1\<lparr>tail := nprev nd1\<rparr>));
     nd2 \<leftarrow> load (mem l2) (Some a);
     Some (l2\<lparr>mem := (mem l2)(a := None), len := len l2 - 1\<rparr>, nvalue nd2) }"

text \<open>
  The release loop \<open>while (len--)\<close>: it follows \<open>next\<close> from \<open>current\<close>, hands each value to the
  free method and frees the node. The result lists the values in the order they are freed.
\<close>

fun release_nodes :: "nat \<Rightarrow> 'v store \<Rightarrow> addr option \<Rightarrow> ('v list \<times> 'v store) option" where
  "release_nodes 0 m cur = Some ([], m)"
| "release_nodes (Suc k) m cur = do {
     nd \<leftarrow> load m cur;
     a \<leftarrow> cur;
     (vs, m') \<leftarrow> release_nodes k (m(a := None)) (nnext nd);
     Some (nvalue nd # vs, m') }"

datatype direction = EG_START_HEAD | EG_START_TAIL

definition iter_step :: "'v store \<Rightarrow> direction \<Rightarrow> addr option \<Rightarrow> (addr option \<times> addr option) option" where
  "iter_step m dir nx = (case nx of
     None \<Rightarrow> Some (None, None)
   | Some a \<Rightarrow> do { nd \<leftarrow> m a;
                   Some (Some a, if dir = EG_START_HEAD then nnext nd else nprev nd) })"

section \<open>What a list object represents\<close>

text \<open>
  \<open>owns l xs\<close>: the nodes of \<open>l\<close> are exactly \<open>xs\<close> and \<open>len\<close> counts them. The counter is a
  32-bit word, so at most \<open>2 ^ 32 - 1\<close> nodes can be represented.
\<close>

definition owns :: "('v, 'z) chain_scheme \<Rightarrow> (addr \<times> 'v) list \<Rightarrow> bool" where
  "owns l xs \<longleftrightarrow> distinct (addrs xs) \<and> dom (mem l) = fst ` set xs \<and>
     (\<forall>a \<in> fst ` set xs. a < brk l) \<and> len l = of_nat (length xs) \<and> length xs < 2 ^ 32"

definition dl_rep :: "('v, 'z) chain_scheme \<Rightarrow> (addr \<times> 'v) list \<Rightarrow> bool" where
  "dl_rep l xs \<longleftrightarrow> owns l xs \<and> dseg (mem l) None (head l) xs (tail l) None"

definition room :: "(addr \<times> 'v) list \<Rightarrow> bool" where
  "room xs \<longleftrightarrow> Suc (length xs) < 2 ^ 32"

lemma ownsD:
  assumes "owns l xs"
  shows "distinct (addrs xs)" "dom (mem l) = fst ` set xs" "len l = of_nat (length xs)"
    "length xs < 2 ^ 32" "brk l \<notin> fst ` set xs"
  using assms by (auto simp: owns_def)

lemma owns_len_0: "owns l xs \<Longrightarrow> len l = 0 \<longleftrightarrow> xs = []"
  by (simp add: owns_def of_nat32_eq_0_iff)

lemma owns_unat_len: "owns l xs \<Longrightarrow> unat (len l) = length xs"
  by (simp add: owns_def unat_of_nat32)

lemma owns_Cons:
  assumes "owns l xs" "room xs" "mem l' = m'" "dom m' = insert (brk l) (dom (mem l))"
    "len l' = len l + 1" "brk l' = Suc (brk l)"
  shows "owns l' ((brk l, v) # xs)"
  using assms by (auto simp: owns_def room_def less_Suc_eq)

lemma owns_snoc:
  assumes "owns l xs" "room xs" "mem l' = m'" "dom m' = insert (brk l) (dom (mem l))"
    "len l' = len l + 1" "brk l' = Suc (brk l)"
  shows "owns l' (xs @ [(brk l, v)])"
  using owns_Cons [OF assms, of v] by (auto simp: owns_def)

text \<open>Linking at the head, whatever the last node's \<open>next\<close> is.\<close>

lemma link_head_seg:
  assumes o: "owns l xs" and r: "room xs"
    and s: "xs \<noteq> [] \<Longrightarrow> dseg (mem l) None (head l) xs (tail l) n"
  obtains l' where "link_head l v = Some l'" "owns l' ((brk l, v) # xs)"
    "dseg (mem l') None (head l') ((brk l, v) # xs) (tail l') (if xs = [] then None else n)"
    "brk l' = Suc (brk l)" "dom (mem l') = insert (brk l) (dom (mem l))" "chain.more l' = chain.more l"
proof (cases xs)
  case Nil
  then show ?thesis
    using that o r by (auto simp: link_head_def Let_def owns_def room_def)
next
  case (Cons x ys)
  obtain a w where x: "x = (a, w)" by (cases x)
  have len: "len l \<noteq> 0" using o Cons by (simp add: owns_len_0)
  have seg: "dseg (mem l) None (head l) ((a, w) # ys) (tail l) n" using s Cons x by simp
  then obtain nx where h: "head l = Some a"
    and a: "mem l a = Some \<lparr>nprev = None, nnext = nx, nvalue = w\<rparr>"
    and rest: "dseg (mem l) (Some a) nx ys (tail l) n" by auto
  have d: "a \<notin> fst ` set ys" "brk l \<notin> fst ` set ys" "a \<noteq> brk l" "brk l \<notin> dom (mem l)"
    using ownsD [OF o] Cons x by auto
  let ?m = "(mem l)(brk l \<mapsto> \<lparr>nprev = None, nnext = Some a, nvalue = v\<rparr>,
      a \<mapsto> \<lparr>nprev = Some (brk l), nnext = nx, nvalue = w\<rparr>)"
  let ?l = "l\<lparr>head := Some (brk l), len := len l + 1, mem := ?m, brk := Suc (brk l)\<rparr>"
  have "link_head l v = Some ?l"
    using len a d(3) by (simp add: link_head_def Let_def h)
  moreover have "owns ?l ((brk l, v) # xs)"
    using o r a by (intro owns_Cons) (auto split: if_splits)
  moreover have "dseg (mem ?l) None (head ?l) ((brk l, v) # xs) (tail ?l) n"
    using rest d Cons x by auto
  ultimately show ?thesis using that Cons a by auto
qed

text \<open>Linking at the tail overwrites the last node's \<open>next\<close>, so it does not matter.\<close>

lemma link_tail_seg:
  assumes o: "owns l xs" and r: "room xs"
    and s: "xs \<noteq> [] \<Longrightarrow> dseg (mem l) None (head l) xs (tail l) n"
  obtains l' where "link_tail l v = Some l'" "dl_rep l' (xs @ [(brk l, v)])"
    "tail l' = Some (brk l)" "brk l' = Suc (brk l)" "chain.more l' = chain.more l"
proof (cases xs rule: rev_cases)
  case Nil
  then show ?thesis
    using that o r by (auto simp: link_tail_def Let_def dl_rep_def owns_def room_def)
next
  case (snoc ys x)
  obtain a w where x: "x = (a, w)" by (cases x)
  have len: "len l \<noteq> 0" using o snoc by (simp add: owns_len_0)
  have seg: "dseg (mem l) None (head l) (ys @ [(a, w)]) (tail l) n" using s snoc x by simp
  then obtain k where k: "dseg (mem l) None (head l) ys k (Some a)" and t: "tail l = Some a"
    and a: "mem l a = Some \<lparr>nprev = k, nnext = n, nvalue = w\<rparr>" by (auto simp: dseg_append)
  have d: "a \<notin> fst ` set ys" "brk l \<notin> fst ` set ys" "a \<noteq> brk l" "brk l \<notin> dom (mem l)"
    using ownsD [OF o] snoc x by auto
  let ?m = "(mem l)(brk l \<mapsto> \<lparr>nprev = Some a, nnext = None, nvalue = v\<rparr>,
      a \<mapsto> \<lparr>nprev = k, nnext = Some (brk l), nvalue = w\<rparr>)"
  let ?l = "l\<lparr>tail := Some (brk l), len := len l + 1, mem := ?m, brk := Suc (brk l)\<rparr>"
  have "link_tail l v = Some ?l"
    using len a d(3) by (simp add: link_tail_def Let_def t)
  moreover have "owns ?l (xs @ [(brk l, v)])"
    using o r a by (intro owns_snoc) (auto split: if_splits)
  moreover have "dseg (mem ?l) None (head ?l) (xs @ [(brk l, v)]) (tail ?l) None"
    using k d snoc x by (auto simp: dseg_append)
  ultimately show ?thesis using that by (auto simp: dl_rep_def)
qed

text \<open>
  Unlinking. The last node's \<open>next\<close> must be null when that node is the one unlinked: the code
  reads it to decide whether \<open>tail\<close> moves.
\<close>

lemma owns_remove:
  assumes "owns l (xs @ (a, v) # ys)" "dom (mem l') = dom (mem l) - {a}"
    "len l' = len l - 1" "brk l' = brk l"
  shows "owns l' (xs @ ys)"
  using assms by (auto simp: owns_def)

lemma unlink_node_seg:
  assumes o: "owns l (xs @ (a, v) # ys)"
    and s: "dseg (mem l) None (head l) (xs @ (a, v) # ys) (tail l) n"
    and n: "ys = [] \<Longrightarrow> n = None"
  obtains l' where "unlink_node l a = Some (l', v)" "owns l' (xs @ ys)"
    "dseg (mem l') None (head l') (xs @ ys) (tail l') n"
    "brk l' = brk l" "dom (mem l') = dom (mem l) - {a}" "chain.more l' = chain.more l"
proof -
  obtain k nx where k: "dseg (mem l) None (head l) xs k (Some a)"
    and a: "mem l a = Some \<lparr>nprev = k, nnext = nx, nvalue = v\<rparr>"
    and r: "dseg (mem l) (Some a) nx ys (tail l) n"
    using s by (auto simp: dseg_split)
  have d: "a \<notin> fst ` set xs" "a \<notin> fst ` set ys" "distinct (addrs xs)" "distinct (addrs ys)"
    "fst ` set xs \<inter> fst ` set ys = {}"
    using ownsD(1) [OF o] by auto
  note done_if = that [OF _ owns_remove [OF o]]
  show ?thesis
  proof (cases xs rule: rev_cases)
    case Nil
    then have kn: "k = None" using k by simp
    show ?thesis
    proof (cases ys)
      case Nil' : Nil
      then show ?thesis
        using Nil a r kn n done_if by (auto simp: unlink_node_def)
    next
      case (Cons y zs)
      obtain b w where y: "y = (b, w)" by (cases y)
      then obtain nb where b: "nx = Some b" "mem l b = Some \<lparr>nprev = Some a, nnext = nb, nvalue = w\<rparr>"
        "dseg (mem l) (Some b) nb zs (tail l) n" using r Cons by auto
      then show ?thesis
        using Nil Cons y a kn d done_if by (auto simp: unlink_node_def)
    qed
  next
    case (snoc us u)
    obtain c w where u: "u = (c, w)" by (cases u)
    obtain j where c: "k = Some c" "dseg (mem l) None (head l) us j (Some c)"
      "mem l c = Some \<lparr>nprev = j, nnext = Some a, nvalue = w\<rparr>"
      using k snoc u by (auto simp: dseg_append)
    show ?thesis
    proof (cases ys)
      case Nil
      then show ?thesis
        using snoc u a r c n d done_if by (auto simp: unlink_node_def dseg_append)
    next
      case (Cons y zs)
      obtain b w' where y: "y = (b, w')" by (cases y)
      then obtain nb where b: "nx = Some b" "mem l b = Some \<lparr>nprev = Some a, nnext = nb, nvalue = w'\<rparr>"
        "dseg (mem l) (Some b) nb zs (tail l) n" using r Cons by auto
      then show ?thesis
        using snoc u Cons y a c d done_if by (auto simp: unlink_node_def dseg_append)
    qed
  qed
qed

text \<open>Releasing a whole segment frees every node and yields the values in order.\<close>

lemma release_nodes_seg:
  assumes "dseg m p f xs l n" and "distinct (addrs xs)"
  shows "\<exists>m'. release_nodes (length xs) m f = Some (vals xs, m') \<and>
    (\<forall>a. m' a = (if a \<in> fst ` set xs then None else m a))"
  using assms
proof (induction xs arbitrary: m p f)
  case Nil
  then show ?case by simp
next
  case (Cons x xs)
  obtain a v where x: "x = (a, v)" by (cases x)
  obtain nx where a: "f = Some a" "m a = Some \<lparr>nprev = p, nnext = nx, nvalue = v\<rparr>"
    and s: "dseg m (Some a) nx xs l n" using Cons.prems x by auto
  have "dseg (m(a := None)) (Some a) nx xs l n" "distinct (addrs xs)"
    using s Cons.prems x by simp_all
  from Cons.IH [OF this] obtain m' where
    "release_nodes (length xs) (m(a := None)) nx = Some (vals xs, m')"
    "\<forall>b. m' b = (if b \<in> fst ` set xs then None else (m(a := None)) b)"
    by blast
  then show ?case using a x by auto
qed

end
