(* ===== verification/SeqIface.thy ===== *)
theory SeqIface
  imports Dll
begin

text \<open>
  The interface the rest of the server uses its containers through: an ordered collection of
  nodes that can be iterated, extended at both ends and shortened at any node, also while an
  iteration is running. The laws speak about \<open>rep l xs\<close>, "\<open>l\<close> holds the nodes \<open>xs\<close>"; the
  client lemmas show that the two idioms the source uses everywhere (appending value after
  value, and sweeping over a list while deleting the node the iterator has just passed) do on
  pointers what they do on plain lists.
\<close>

definition first_addr :: "(addr \<times> 'v) list \<Rightarrow> addr option" where
  "first_addr xs = (case xs of [] \<Rightarrow> None | x # _ \<Rightarrow> Some (fst x))"

lemma first_addr_simps [simp]: "first_addr [] = None" "first_addr ((a, v) # xs) = Some a"
  by (simp_all add: first_addr_def)

text \<open>
  The loop \<open>while ((node = next(&it)) != NULL) if (P(node->value)) delete(node);\<close>. The iterator
  is advanced before the body runs, as \<open>list_next_node\<close> does.
\<close>

partial_function (option) sweep ::
  "('l \<Rightarrow> addr option \<Rightarrow> (addr option \<times> addr option) option) \<Rightarrow> ('l \<Rightarrow> addr \<Rightarrow> 'v option) \<Rightarrow>
   ('l \<Rightarrow> addr \<Rightarrow> ('l \<times> 'v list) option) \<Rightarrow> ('v \<Rightarrow> bool) \<Rightarrow> 'l \<Rightarrow> addr option \<Rightarrow> 'l option" where [code]:
  "sweep nxt val_of del P l it =
     Option.bind (nxt l it) (\<lambda>(cur, it').
       case cur of
         None \<Rightarrow> Some l
       | Some a \<Rightarrow> Option.bind (val_of l a) (\<lambda>v.
           if P v then Option.bind (del l a) (\<lambda>(l', fr). sweep nxt val_of del P l' it')
           else sweep nxt val_of del P l it'))"

locale linked_seq =
  fixes rep :: "'l \<Rightarrow> (addr \<times> 'v) list \<Rightarrow> bool"
    and create :: 'l
    and first :: "'l \<Rightarrow> addr option"
    and nxt :: "'l \<Rightarrow> addr option \<Rightarrow> (addr option \<times> addr option) option"
    and val_of :: "'l \<Rightarrow> addr \<Rightarrow> 'v option"
    and del :: "'l \<Rightarrow> addr \<Rightarrow> ('l \<times> 'v list) option"
  assumes rep_create: "rep create []"
    and rep_first: "rep l xs \<Longrightarrow> first l = first_addr xs"
    and rep_next_None: "nxt l None = Some (None, None)"
    and rep_next: "rep l (xs @ (a, v) # ys) \<Longrightarrow> nxt l (Some a) = Some (Some a, first_addr ys)"
    and rep_val: "rep l (xs @ (a, v) # ys) \<Longrightarrow> val_of l a = Some v"
    and rep_del: "rep l (xs @ (a, v) # ys) \<Longrightarrow>
      \<exists>l' fr. del l a = Some (l', fr) \<and> set fr \<subseteq> {v} \<and> rep l' (xs @ ys)"
begin

text \<open>Deleting the node just passed never disturbs the iterator, and the sweep keeps the rest.\<close>

lemma sweep_rep:
  "rep l (xs @ ys) \<Longrightarrow>
   \<exists>l'. sweep nxt val_of del P l (first_addr ys) = Some l' \<and>
        rep l' (xs @ filter (\<lambda>x. \<not> P (snd x)) ys)"
proof (induction ys arbitrary: l xs)
  case Nil
  then show ?case by (simp add: sweep.simps rep_next_None)
next
  case (Cons y ys)
  obtain a v where y: "y = (a, v)" by (cases y)
  have r: "rep l (xs @ (a, v) # ys)" using Cons.prems y by simp
  show ?case
  proof (cases "P v")
    case True
    obtain l' fr where l': "del l a = Some (l', fr)" "rep l' (xs @ ys)"
      using rep_del [OF r] by blast
    show ?thesis
      using Cons.IH [OF l'(2)] True y
      by (simp add: sweep.simps [of _ _ _ _ l "Some a"] rep_next [OF r] rep_val [OF r] l'(1))
  next
    case False
    have "rep l ((xs @ [(a, v)]) @ ys)" using r by simp
    from Cons.IH [OF this] False y show ?thesis
      by (simp add: sweep.simps [of _ _ _ _ l "Some a"] rep_next [OF r] rep_val [OF r])
  qed
qed

lemma sweep_from_head:
  "rep l xs \<Longrightarrow>
   \<exists>l'. sweep nxt val_of del P l (first l) = Some l' \<and> rep l' (filter (\<lambda>x. \<not> P (snd x)) xs)"
  using sweep_rep [of l "[]" xs P] by (simp add: rep_first)

lemma sweep_all: "rep l xs \<Longrightarrow> \<exists>l'. sweep nxt val_of del (\<lambda>_. True) l (first l) = Some l' \<and> rep l' []"
  using sweep_from_head [of l xs "\<lambda>_. True"] by simp

end

text \<open>Collections that also grow at both ends.\<close>

locale linked_deque = linked_seq +
  fixes add_head :: "'l \<Rightarrow> 'v \<Rightarrow> 'l option"
    and add_tail :: "'l \<Rightarrow> 'v \<Rightarrow> 'l option"
  assumes rep_add_head: "rep l xs \<Longrightarrow> room xs \<Longrightarrow>
      \<exists>l' a. add_head l v = Some l' \<and> a \<notin> fst ` set xs \<and> rep l' ((a, v) # xs)"
    and rep_add_tail: "rep l xs \<Longrightarrow> room xs \<Longrightarrow>
      \<exists>l' a. add_tail l v = Some l' \<and> a \<notin> fst ` set xs \<and> rep l' (xs @ [(a, v)])"
begin

primrec add_all :: "'l \<Rightarrow> 'v list \<Rightarrow> 'l option" where
  "add_all l [] = Some l"
| "add_all l (v # vs) = Option.bind (add_tail l v) (\<lambda>l'. add_all l' vs)"

lemma add_all_rep:
  "rep l xs \<Longrightarrow> length xs + length vs < 2 ^ 32 \<Longrightarrow>
   \<exists>l' ys. add_all l vs = Some l' \<and> rep l' (xs @ ys) \<and> vals ys = vs"
proof (induction vs arbitrary: l xs)
  case Nil
  then show ?case by (auto intro: exI [of _ "[]"])
next
  case (Cons v vs)
  then have "room xs" by (simp add: room_def)
  then obtain l1 a where l1: "add_tail l v = Some l1" "rep l1 (xs @ [(a, v)])"
    using rep_add_tail Cons.prems(1) by blast
  moreover have "length (xs @ [(a, v)]) + length vs < 2 ^ 32" using Cons.prems(2) by simp
  ultimately obtain l' ys where "add_all l1 vs = Some l'" "rep l' ((xs @ [(a, v)]) @ ys)" "vals ys = vs"
    using Cons.IH by blast
  then show ?case using l1(1) by (auto intro!: exI [of _ "(a, v) # ys"])
qed

lemma build_and_sweep:
  assumes "length vs < 2 ^ 32"
  shows "\<exists>l l' ys. add_all create vs = Some l \<and> sweep nxt val_of del P l (first l) = Some l' \<and>
    rep l' ys \<and> vals ys = filter (\<lambda>v. \<not> P v) vs"
proof -
  obtain l xs where l: "add_all create vs = Some l" "rep l xs" "vals xs = vs"
    using add_all_rep [OF rep_create, of vs] assms by auto
  obtain l' where l': "sweep nxt val_of del P l (first l) = Some l'"
      "rep l' (filter (\<lambda>x. \<not> P (snd x)) xs)"
    using sweep_from_head [OF l(2)] by blast
  have "vals (filter (\<lambda>x. \<not> P (snd x)) xs) = filter (\<lambda>v. \<not> P v) vs"
    unfolding l(3) [symmetric] by (simp add: filter_map comp_def)
  with l l' show ?thesis by blast
qed

end

end
