(* ===== verification/ListLib.thy ===== *)
theory ListLib
  imports SeqIface
begin

text \<open>
  src/list.c: the doubly linked list of the server. Every operation is translated on
  pointers; the refinement theorems show that a list built by them behaves as the HOL list
  of its values, which is how the components above it see it.
\<close>

section \<open>The list object\<close>

text \<open>
  \<open>List\<close> of list.h. \<open>lfree\<close> says whether a free method is installed: operations that call it
  return the values they pass to it, in order, and the caller runs the method on them.
\<close>

record 'v List = "'v chain" +
  lfree :: bool
  lmatch :: "('v \<Rightarrow> 'v \<Rightarrow> bool) option"

record ListIterator =
  inext :: "addr option"
  idirection :: direction

section \<open>Operations\<close>

definition list_create :: "'v List" where
  "list_create = \<lparr>head = None, tail = None, len = 0, mem = Map.empty, brk = 0,
                  lfree = False, lmatch = None\<rparr>"

text \<open>\<open>list_release\<close>: the values given to the free method and what is left of the store.\<close>

definition list_release :: "'v List \<Rightarrow> ('v list \<times> 'v store) option" where
  "list_release l = do {
     (vs, m) \<leftarrow> release_nodes (unat (len l)) (mem l) (head l);
     Some (if lfree l then vs else [], m) }"

definition list_add_value_head :: "'v List \<Rightarrow> 'v \<Rightarrow> 'v List option" where
  "list_add_value_head l v = link_head l v"

definition list_add_value_tail :: "'v List \<Rightarrow> 'v \<Rightarrow> 'v List option" where
  "list_add_value_tail l v = link_tail l v"

definition list_delete_node :: "'v List \<Rightarrow> addr \<Rightarrow> ('v List \<times> 'v list) option" where
  "list_delete_node l a = do {
     (l', v) \<leftarrow> unlink_node l a;
     Some (l', if lfree l then [v] else []) }"

definition list_get_iterator :: "'v List \<Rightarrow> direction \<Rightarrow> ListIterator" where
  "list_get_iterator l dir =
     \<lparr>inext = (if dir = EG_START_HEAD then head l else tail l), idirection = dir\<rparr>"

definition list_rewind :: "'v List \<Rightarrow> ListIterator" where
  "list_rewind l = \<lparr>inext = head l, idirection = EG_START_HEAD\<rparr>"

definition list_next_node :: "'v List \<Rightarrow> ListIterator \<Rightarrow> (addr option \<times> ListIterator) option" where
  "list_next_node l it = do {
     (cur, nx) \<leftarrow> iter_step (mem l) (idirection it) (inext it);
     Some (cur, it\<lparr>inext := nx\<rparr>) }"

text \<open>The search loop; \<open>None\<close> as a result is a fault, \<open>Some None\<close> is \<open>NULL\<close>.\<close>

partial_function (option) search_from ::
  "'v List \<Rightarrow> ListIterator \<Rightarrow> 'v \<Rightarrow> addr option option" where [code]:
  "search_from l it v =
     Option.bind (list_next_node l it) (\<lambda>(cur, it').
       case cur of
         None \<Rightarrow> Some None
       | Some a \<Rightarrow> Option.bind (mem l a) (\<lambda>nd.
           if (case lmatch l of Some f \<Rightarrow> f (nvalue nd) v | None \<Rightarrow> nvalue nd = v)
           then Some (Some a) else search_from l it' v))"

definition list_search_node :: "'v List \<Rightarrow> 'v \<Rightarrow> addr option option" where
  "list_search_node l v = search_from l (list_get_iterator l EG_START_HEAD) v"

definition list_delete_value :: "'v List \<Rightarrow> 'v \<Rightarrow> (status \<times> 'v List \<times> 'v list) option" where
  "list_delete_value l v = do {
     r \<leftarrow> list_search_node l v;
     (case r of
        None \<Rightarrow> Some (EG_STATUS_ERR, l, [])
      | Some a \<Rightarrow> do { (l', fr) \<leftarrow> list_delete_node l a; Some (EG_STATUS_OK, l', fr) }) }"

definition list_rotate :: "'v List \<Rightarrow> 'v List option" where
  "list_rotate l =
     (if unat (len l) \<le> 1 then Some l
      else do {
        tnd \<leftarrow> load (mem l) (tail l);
        t \<leftarrow> tail l;
        m1 \<leftarrow> set_next (mem l) (nprev tnd) None;
        m2 \<leftarrow> set_prev m1 (head l) (Some t);
        m3 \<leftarrow> set_prev m2 (Some t) None;
        m4 \<leftarrow> set_next m3 (Some t) (head l);
        Some (l\<lparr>tail := nprev tnd, head := Some t, mem := m4\<rparr>) })"

section \<open>Correctness\<close>

definition list_val :: "'v List \<Rightarrow> addr \<Rightarrow> 'v option" where
  "list_val l a = map_option nvalue (mem l a)"

definition list_step :: "'v List \<Rightarrow> addr option \<Rightarrow> (addr option \<times> addr option) option" where
  "list_step l it = map_option (\<lambda>(cur, it'). (cur, inext it'))
     (list_next_node l \<lparr>inext = it, idirection = EG_START_HEAD\<rparr>)"

lemma dl_rep_split:
  "dl_rep l (xs @ (a, v) # ys) \<Longrightarrow>
   \<exists>k. mem l a = Some \<lparr>nprev = k, nnext = first_addr ys, nvalue = v\<rparr>"
  by (auto simp: dl_rep_def dseg_split first_addr_def dest: dseg_first split: list.splits)

interpretation dl: linked_deque dl_rep list_create head list_step list_val list_delete_node
  list_add_value_head list_add_value_tail
proof unfold_locales
  show "dl_rep list_create []" by (simp add: dl_rep_def owns_def list_create_def)
  show "head l = first_addr xs" if "dl_rep l xs" for l :: "'v List" and xs
    using that by (auto simp: dl_rep_def first_addr_def dest: dseg_first split: list.splits)
  show "list_step l None = Some (None, None)" for l :: "'v List"
    by (simp add: list_step_def list_next_node_def iter_step_def)
  show "list_step l (Some a) = Some (Some a, first_addr ys)" if "dl_rep l (xs @ (a, v) # ys)"
    for l :: "'v List" and xs ys a v
    using dl_rep_split [OF that] by (auto simp: list_step_def list_next_node_def iter_step_def)
  show "list_val l a = Some v" if "dl_rep l (xs @ (a, v) # ys)" for l :: "'v List" and xs ys a v
    using dl_rep_split [OF that] by (auto simp: list_val_def)
  show "\<exists>l' fr. list_delete_node l a = Some (l', fr) \<and> set fr \<subseteq> {v} \<and> dl_rep l' (xs @ ys)"
    if "dl_rep l (xs @ (a, v) # ys)" for l :: "'v List" and xs ys a v
    using that unfolding dl_rep_def
    by (elim conjE, rule_tac unlink_node_seg) (auto simp: list_delete_node_def)
  show "\<exists>l' a. list_add_value_head l v = Some l' \<and> a \<notin> fst ` set xs \<and> dl_rep l' ((a, v) # xs)"
    if "dl_rep l xs" "room xs" for l :: "'v List" and xs v
  proof -
    have o: "owns l xs" and s: "dseg (mem l) None (head l) xs (tail l) None"
      using that(1) by (auto simp: dl_rep_def)
    show ?thesis
      by (rule link_head_seg [OF o that(2) s, of v])
        (auto simp: list_add_value_head_def dl_rep_def ownsD(5) [OF o] split: if_splits)
  qed
  show "\<exists>l' a. list_add_value_tail l v = Some l' \<and> a \<notin> fst ` set xs \<and> dl_rep l' (xs @ [(a, v)])"
    if "dl_rep l xs" "room xs" for l :: "'v List" and xs v
  proof -
    have o: "owns l xs" and s: "dseg (mem l) None (head l) xs (tail l) None"
      using that(1) by (auto simp: dl_rep_def)
    show ?thesis
      using ownsD(5) [OF o]
      by (rule_tac link_tail_seg [OF o that(2) s, of v]) (auto simp: list_add_value_tail_def)
  qed
qed

section \<open>The list as a sequence of values\<close>

text \<open>
  The abstract counterpart of the operations, on the values alone. The components above the
  list library are written with these; the theorems below relate them to the pointers.
\<close>

definition seq_delete :: "'v \<Rightarrow> 'v list \<Rightarrow> status \<times> 'v list" where
  "seq_delete v vs = (if v \<in> set vs then (EG_STATUS_OK, remove1 v vs) else (EG_STATUS_ERR, vs))"

definition seq_rotate :: "'v list \<Rightarrow> 'v list" where
  "seq_rotate vs = (if length vs \<le> 1 then vs else last vs # butlast vs)"

text \<open>A list object whose values are \<open>vs\<close>.\<close>

definition list_abs :: "'v List \<Rightarrow> 'v list \<Rightarrow> bool" where
  "list_abs l vs \<longleftrightarrow> (\<exists>xs. dl_rep l xs \<and> vals xs = vs)"

lemma list_abs_create: "list_abs list_create []"
  using dl.rep_create by (auto simp: list_abs_def)

lemma search_from_rep:
  "dl_rep l (xs @ ys) \<Longrightarrow> lmatch l = None \<Longrightarrow>
   search_from l \<lparr>inext = first_addr ys, idirection = EG_START_HEAD\<rparr> v =
     Some (map_option fst (find (\<lambda>x. snd x = v) ys))"
proof (induction ys arbitrary: xs)
  case Nil
  then show ?case by (simp add: search_from.simps list_next_node_def iter_step_def)
next
  case (Cons y ys)
  obtain a w where y: "y = (a, w)" by (cases y)
  have r: "dl_rep l (xs @ (a, w) # ys)" using Cons.prems(1) y by simp
  obtain k where a: "mem l a = Some \<lparr>nprev = k, nnext = first_addr ys, nvalue = w\<rparr>"
    using dl_rep_split [OF r] by auto
  have "dl_rep l ((xs @ [(a, w)]) @ ys)" using r by simp
  from Cons.IH [OF this Cons.prems(2)] a y Cons.prems(2) show ?case
    by (simp add: search_from.simps [of l "\<lparr>inext = Some a, idirection = EG_START_HEAD\<rparr>"]
        list_next_node_def iter_step_def)
qed

lemma list_search_node_rep:
  assumes "dl_rep l xs" and "lmatch l = None"
  shows "list_search_node l v = Some (map_option fst (find (\<lambda>x. snd x = v) xs))"
  using search_from_rep [of l "[]" xs v] assms dl.rep_first [OF assms(1)]
  by (simp add: list_search_node_def list_get_iterator_def)

lemma find_vals_split:
  assumes "find (\<lambda>x. snd x = v) xs = Some (a, w)"
  shows "\<exists>ys zs. xs = ys @ (a, v) # zs \<and> vals (ys @ zs) = remove1 v (vals xs) \<and> v \<in> set (vals xs)"
  using assms
proof (induction xs)
  case (Cons x xs)
  show ?case
  proof (cases "snd x = v")
    case True
    then show ?thesis using Cons.prems by (intro exI [of _ "[]"] exI [of _ xs]) auto
  next
    case False
    with Cons obtain ys zs where "xs = ys @ (a, v) # zs" "vals (ys @ zs) = remove1 v (vals xs)"
      "v \<in> set (vals xs)" by auto
    then show ?thesis using False by (intro exI [of _ "x # ys"] exI [of _ zs]) auto
  qed
qed simp

lemma more_List:
  fixes l l' :: "'v List"
  shows "chain.more l' = chain.more l \<Longrightarrow> lfree l' = lfree l \<and> lmatch l' = lmatch l"
  by (cases l, cases l') simp

lemma list_delete_node_rep:
  fixes l :: "'v List"
  assumes "dl_rep l (xs @ (a, v) # ys)"
  shows "\<exists>l'. list_delete_node l a = Some (l', if lfree l then [v] else []) \<and> dl_rep l' (xs @ ys)
    \<and> lfree l' = lfree l \<and> lmatch l' = lmatch l"
proof -
  have o: "owns l (xs @ (a, v) # ys)"
    and s: "dseg (mem l) None (head l) (xs @ (a, v) # ys) (tail l) None"
    using assms by (auto simp: dl_rep_def)
  show ?thesis
    by (rule unlink_node_seg [OF o s])
      (auto simp: list_delete_node_def dl_rep_def dest: more_List)
qed

text \<open>A list object with the two values 10 and 20, for the witnesses.\<close>

definition sample_list :: "nat List" where
  "sample_list = \<lparr>head = Some 0, tail = Some 1, len = 2,
     mem = [0 \<mapsto> \<lparr>nprev = None, nnext = Some 1, nvalue = 10\<rparr>, 1 \<mapsto> \<lparr>nprev = Some 0, nnext = None, nvalue = 20\<rparr>],
     brk = 2, lfree = True, lmatch = None\<rparr>"

lemma sample_list_abs: "list_abs sample_list [10, 20]"
  by (auto simp: list_abs_def dl_rep_def owns_def sample_list_def intro!: exI [of _ "[(0, 10), (1, 20)]"])

text \<open>
  C31. \<open>list_delete_value\<close> deletes the first node with the value and reports success exactly
  when there is one; the values that remain keep their order, and the value goes to the free
  method when one is installed.
\<close>

theorem list_delete_value_refines:
  assumes "list_abs l vs" and "lmatch l = None"
  shows "\<exists>l' fr. list_delete_value l v = Some (fst (seq_delete v vs), l', fr) \<and>
    list_abs l' (snd (seq_delete v vs)) \<and> fr = (if v \<in> set vs \<and> lfree l then [v] else [])"
proof -
  obtain xs where xs: "dl_rep l xs" "vals xs = vs" using assms(1) by (auto simp: list_abs_def)
  note search = list_search_node_rep [OF xs(1) assms(2), of v]
  show ?thesis
  proof (cases "find (\<lambda>x. snd x = v) xs")
    case None
    then have "v \<notin> set vs" using xs(2) by (auto simp: find_None_iff)
    then show ?thesis
      using None search assms(1) by (simp add: list_delete_value_def seq_delete_def)
  next
    case (Some y)
    obtain a w where y: "y = (a, w)" by (cases y)
    obtain ys zs where d: "xs = ys @ (a, v) # zs" "vals (ys @ zs) = remove1 v vs" "v \<in> set vs"
      using find_vals_split Some y xs(2) by metis
    have "dl_rep l (ys @ (a, v) # zs)" using xs(1) d(1) by simp
    from list_delete_node_rep [OF this] obtain l'
      where l': "list_delete_node l a = Some (l', if lfree l then [v] else [])" "dl_rep l' (ys @ zs)"
      by blast
    then show ?thesis
      using Some y search d by (auto simp: list_delete_value_def seq_delete_def list_abs_def)
  qed
qed

theorem list_delete_value_refines_witness:
  "\<exists>l'. list_delete_value sample_list 20 = Some (EG_STATUS_OK, l', [20]) \<and> list_abs l' [10]"
  using list_delete_value_refines [OF sample_list_abs, of 20]
  by (auto simp: seq_delete_def sample_list_def)

text \<open>Rotation: the last node becomes the first one.\<close>

lemma list_rotate_rep:
  fixes l :: "'v List"
  assumes "dl_rep l (xs @ [x])"
  shows "\<exists>l'. list_rotate l = Some l' \<and> dl_rep l' (x # xs) \<and> lfree l' = lfree l \<and> lmatch l' = lmatch l"
proof (cases xs rule: rev_cases)
  case Nil
  then show ?thesis
    using assms owns_unat_len [of l "[x]"] by (simp add: list_rotate_def dl_rep_def)
next
  case (snoc us u)
  obtain t v c w where x: "x = (t, v)" and u: "u = (c, w)" by (cases x, cases u)
  have o: "owns l (us @ [(c, w), (t, v)])"
    and s: "dseg (mem l) None (head l) (us @ [(c, w), (t, v)]) (tail l) None"
    using assms snoc x u by (auto simp: dl_rep_def)
  obtain j where j: "dseg (mem l) None (head l) us j (Some c)" "tail l = Some t"
    "mem l c = Some \<lparr>nprev = j, nnext = Some t, nvalue = w\<rparr>"
    "mem l t = Some \<lparr>nprev = Some c, nnext = None, nvalue = v\<rparr>"
    using s by (auto simp: dseg_append)
  have len: "unat (len l) = Suc (Suc (length us))" using owns_unat_len [OF o] by simp
  have d: "c \<noteq> t" "c \<notin> fst ` set us" "t \<notin> fst ` set us" "distinct (addrs us)"
    using ownsD(1) [OF o] by auto
  show ?thesis
  proof (cases us)
    case Nil
    then show ?thesis
      using o j d snoc x u len
      by (simp add: list_rotate_def dl_rep_def owns_def) auto
  next
    case (Cons y ys)
    obtain b z where y: "y = (b, z)" by (cases y)
    then obtain nb where b: "head l = Some b" "mem l b = Some \<lparr>nprev = None, nnext = nb, nvalue = z\<rparr>"
      "dseg (mem l) (Some b) nb ys j (Some c)" using j(1) Cons by auto
    show ?thesis
      using o j d snoc x u y b len Cons
      by (simp add: list_rotate_def dl_rep_def owns_def dseg_append) auto
  qed
qed

text \<open>
  The round-robin step: \<open>list_rotate\<close> moves the last value to the front and keeps the
  others in order, without a fault.
\<close>

lemma list_rotate_refines:
  assumes "list_abs l vs"
  shows "\<exists>l'. list_rotate l = Some l' \<and> list_abs l' (seq_rotate vs)"
proof -
  obtain xs where xs: "dl_rep l xs" "vals xs = vs" using assms by (auto simp: list_abs_def)
  show ?thesis
  proof (cases xs rule: rev_cases)
    case Nil
    then show ?thesis
      using xs owns_unat_len [of l "[]"]
      by (auto simp: list_rotate_def seq_rotate_def list_abs_def dl_rep_def)
  next
    case (snoc ys x)
    then obtain l' where "list_rotate l = Some l'" "dl_rep l' (x # ys)"
      using list_rotate_rep xs(1) by blast
    moreover have "vals (x # ys) = seq_rotate vs"
      using snoc xs(2) by (cases ys) (auto simp: seq_rotate_def)
    ultimately show ?thesis by (auto simp: list_abs_def)
  qed
qed

lemma list_rotate_refines_witness: "\<exists>l'. list_rotate sample_list = Some l' \<and> list_abs l' [20, 10]"
  using list_rotate_refines [OF sample_list_abs] by (simp add: seq_rotate_def)



text \<open>
  C32. Values added at the tail are found in the order they were added, and sweeping over the
  list while deleting the nodes that satisfy a test, as every clean-up loop of the server
  does, keeps exactly the other values in order.
\<close>

theorem list_build_and_sweep:
  assumes "length vs < 2 ^ 32"
  shows "\<exists>l l'. dl.add_all list_create vs = Some l \<and> list_abs l vs \<and>
    sweep list_step list_val list_delete_node P l (head l) = Some l' \<and>
    list_abs l' (filter (\<lambda>v. \<not> P v) vs)"
proof -
  obtain l xs where l: "dl.add_all list_create vs = Some l" "dl_rep l xs" "vals xs = vs"
    using dl.add_all_rep [OF dl.rep_create, of vs] assms by auto
  obtain l' where l': "sweep list_step list_val list_delete_node P l (head l) = Some l'"
      "dl_rep l' (filter (\<lambda>x. \<not> P (snd x)) xs)"
    using dl.sweep_from_head [OF l(2)] by blast
  have "vals (filter (\<lambda>x. \<not> P (snd x)) xs) = filter (\<lambda>v. \<not> P v) vs"
    unfolding l(3) [symmetric] by (simp add: filter_map comp_def)
  with l l' show ?thesis by (auto simp: list_abs_def)
qed

theorem list_build_and_sweep_witness:
  "\<exists>l l'. dl.add_all list_create [1, 2, 3 :: nat] = Some l \<and>
    sweep list_step list_val list_delete_node (\<lambda>v. v = 2) l (head l) = Some l' \<and> list_abs l' [1, 3]"
  using list_build_and_sweep [of "[1, 2, 3 :: nat]" "\<lambda>v. v = 2"] by auto

end
