(* ===== verification/QueueLib.thy ===== *)
theory QueueLib
  imports ListLib
begin

text \<open>
  src/queue.c: the queue of messages. It has the node shape of list.c and two operations of
  its own, \<open>queue_pop_value\<close> and \<open>queue_purge\<close>, that take nodes away without repairing the
  pointers that lead to them: after a pop the \<open>next\<close> of the new last node, and after a purge
  \<open>head\<close> and \<open>tail\<close>, point to freed nodes. The representation predicate \<open>q_rep\<close> says which
  stale pointers may be around, and the theorems say which operations are safe under it.
\<close>

section \<open>The queue object and its operations\<close>

record 'v Queue = "'v chain" +
  qfree :: bool

definition queue_create :: "'v Queue" where
  "queue_create = \<lparr>head = None, tail = None, len = 0, mem = Map.empty, brk = 0, qfree = False\<rparr>"

definition queue_release :: "'v Queue \<Rightarrow> ('v list \<times> 'v store) option" where
  "queue_release q = do {
     (vs, m) \<leftarrow> release_nodes (unat (len q)) (mem q) (head q);
     Some (if qfree q then vs else [], m) }"

definition queue_push_value_head :: "'v Queue \<Rightarrow> 'v \<Rightarrow> 'v Queue option" where
  "queue_push_value_head q v = link_head q v"

definition queue_push_value_tail :: "'v Queue \<Rightarrow> 'v \<Rightarrow> 'v Queue option" where
  "queue_push_value_tail q v = link_tail q v"

definition queue_get_value :: "'v Queue \<Rightarrow> 'v option option" where
  "queue_get_value q =
     (if len q = 0 then Some None
      else do { nd \<leftarrow> load (mem q) (tail q); Some (Some (nvalue nd)) })"

definition queue_pop_value :: "'v Queue \<Rightarrow> ('v option \<times> 'v Queue) option" where
  "queue_pop_value q =
     (if len q = 0 then Some (None, q)
      else do {
        nd \<leftarrow> load (mem q) (tail q);
        t \<leftarrow> tail q;
        Some (Some (nvalue nd),
              q\<lparr>mem := (mem q)(t := None), tail := nprev nd, len := len q - 1\<rparr>) })"

text \<open>\<open>queue_purge\<close> resets only \<open>len\<close>; the values given to the free method come first.\<close>

definition queue_purge :: "'v Queue \<Rightarrow> ('v list \<times> 'v Queue) option" where
  "queue_purge q = do {
     (vs, m) \<leftarrow> release_nodes (unat (len q)) (mem q) (head q);
     Some (if qfree q then vs else [], q\<lparr>mem := m, len := 0\<rparr>) }"

definition queue_delete_node :: "'v Queue \<Rightarrow> addr \<Rightarrow> ('v Queue \<times> 'v list) option" where
  "queue_delete_node q a = do {
     (q', v) \<leftarrow> unlink_node q a;
     Some (q', if qfree q then [v] else []) }"

record QueueIterator =
  qnext :: "addr option"
  qdirection :: direction

definition queue_get_iterator :: "'v Queue \<Rightarrow> direction \<Rightarrow> QueueIterator" where
  "queue_get_iterator q dir =
     \<lparr>qnext = (if dir = EG_START_HEAD then head q else tail q), qdirection = dir\<rparr>"

definition queue_rewind :: "'v Queue \<Rightarrow> QueueIterator" where
  "queue_rewind q = \<lparr>qnext = head q, qdirection = EG_START_HEAD\<rparr>"

definition queue_next_node :: "'v Queue \<Rightarrow> QueueIterator \<Rightarrow> (addr option \<times> QueueIterator) option" where
  "queue_next_node q it = do {
     (cur, nx) \<leftarrow> iter_step (mem q) (qdirection it) (qnext it);
     Some (cur, it\<lparr>qnext := nx\<rparr>) }"

section \<open>Representation\<close>

text \<open>
  \<open>q_rep q xs\<close>: the queue holds the nodes \<open>xs\<close>; the \<open>next\<close> of the last one is null or a freed
  address, and \<open>head\<close> and \<open>tail\<close> of an empty queue are arbitrary.
\<close>

definition q_rep :: "'v Queue \<Rightarrow> (addr \<times> 'v) list \<Rightarrow> bool" where
  "q_rep q xs \<longleftrightarrow> owns q xs \<and>
     (xs \<noteq> [] \<longrightarrow> (\<exists>n. dseg (mem q) None (head q) xs (tail q) n \<and>
        (\<forall>d. n = Some d \<longrightarrow> d \<notin> dom (mem q) \<and> d < brk q)))"

definition queue_abs :: "'v Queue \<Rightarrow> 'v list \<Rightarrow> bool" where
  "queue_abs q vs \<longleftrightarrow> (\<exists>xs. q_rep q xs \<and> vals xs = vs)"

lemma q_repE:
  assumes "q_rep q xs" and "xs \<noteq> []"
  obtains n where "owns q xs" "dseg (mem q) None (head q) xs (tail q) n"
    "\<And>d. n = Some d \<Longrightarrow> d \<notin> dom (mem q) \<and> d < brk q"
  using assms by (auto simp: q_rep_def)

lemma dl_rep_q_rep: "dl_rep q xs \<Longrightarrow> q_rep q xs"
  by (auto simp: dl_rep_def q_rep_def)

lemma q_rep_create: "q_rep queue_create []"
  by (simp add: q_rep_def owns_def queue_create_def)

lemma more_Queue:
  fixes q q' :: "'v Queue"
  shows "chain.more q' = chain.more q \<Longrightarrow> qfree q' = qfree q"
  by (cases q, cases q') simp

lemma queue_push_value_head_rep:
  assumes q: "q_rep q xs" and r: "room xs"
  shows "\<exists>q'. queue_push_value_head q v = Some q' \<and> q_rep q' ((brk q, v) # xs) \<and>
    head q' = Some (brk q) \<and> qfree q' = qfree q"
proof -
  have o: "owns q xs" using q by (simp add: q_rep_def)
  obtain n where n: "xs \<noteq> [] \<Longrightarrow> dseg (mem q) None (head q) xs (tail q) n"
    "\<And>d. xs \<noteq> [] \<Longrightarrow> n = Some d \<Longrightarrow> d \<notin> dom (mem q) \<and> d < brk q"
    using q by (cases "xs = []") (auto simp: q_rep_def)
  show ?thesis
  proof (rule link_head_seg [OF o r n(1), of v])
    fix q' assume q': "link_head q v = Some q'" "owns q' ((brk q, v) # xs)"
      "dseg (mem q') None (head q') ((brk q, v) # xs) (tail q') (if xs = [] then None else n)"
      "brk q' = Suc (brk q)" "dom (mem q') = insert (brk q) (dom (mem q))"
      "chain.more q' = chain.more q"
    have "q_rep q' ((brk q, v) # xs)"
      unfolding q_rep_def using q' n(2) by (force split: if_splits)
    then show ?thesis using q'(1,3,6) by (auto simp: queue_push_value_head_def dest: more_Queue)
  qed simp
qed

lemma queue_push_value_tail_rep:
  assumes q: "q_rep q xs" and r: "room xs"
  shows "\<exists>q'. queue_push_value_tail q v = Some q' \<and> dl_rep q' (xs @ [(brk q, v)]) \<and>
    tail q' = Some (brk q) \<and> qfree q' = qfree q"
proof -
  have o: "owns q xs" using q by (simp add: q_rep_def)
  obtain n where n: "xs \<noteq> [] \<Longrightarrow> dseg (mem q) None (head q) xs (tail q) n"
    using q by (cases "xs = []") (auto simp: q_rep_def)
  show ?thesis
    by (rule link_tail_seg [OF o r n, of v]) (auto simp: queue_push_value_tail_def dest: more_Queue)
qed

lemma queue_pop_value_rep:
  assumes q: "q_rep q (xs @ [(a, v)])"
  shows "\<exists>q'. queue_pop_value q = Some (Some v, q') \<and> q_rep q' xs \<and> qfree q' = qfree q \<and>
    (xs \<noteq> [] \<longrightarrow> (\<exists>nd. load (mem q') (tail q') = Some nd \<and> nnext nd = Some a))"
proof -
  obtain n where o: "owns q (xs @ [(a, v)])"
    and s: "dseg (mem q) None (head q) (xs @ [(a, v)]) (tail q) n"
    using q by (rule q_repE) auto
  obtain k where k: "dseg (mem q) None (head q) xs k (Some a)" "tail q = Some a"
    "mem q a = Some \<lparr>nprev = k, nnext = n, nvalue = v\<rparr>"
    using s by (auto simp: dseg_append)
  have d: "a \<notin> fst ` set xs" "a < brk q" using o by (auto simp: owns_def)
  let ?q = "q\<lparr>mem := (mem q)(a := None), tail := k, len := len q - 1\<rparr>"
  have "queue_pop_value q = Some (Some v, ?q)"
    using k owns_len_0 [OF o] by (simp add: queue_pop_value_def)
  moreover have "owns ?q xs" using o d by (auto simp: owns_def)
  moreover have seg: "dseg (mem ?q) None (head ?q) xs (tail ?q) (Some a)" using k(1) d by simp
  moreover have "\<exists>nd. load (mem ?q) (tail ?q) = Some nd \<and> nnext nd = Some a" if "xs \<noteq> []"
    using seg that by (cases xs rule: rev_cases) (auto simp: dseg_append)
  ultimately show ?thesis using d by (auto simp: q_rep_def)
qed

lemma queue_get_value_rep:
  assumes "q_rep q xs"
  shows "queue_get_value q = Some (if xs = [] then None else Some (snd (last xs)))"
proof (cases xs rule: rev_cases)
  case Nil
  then show ?thesis using assms by (simp add: queue_get_value_def q_rep_def owns_def)
next
  case (snoc ys x)
  obtain n where o: "owns q xs" and s: "dseg (mem q) None (head q) xs (tail q) n"
    using assms snoc by (auto elim: q_repE)
  then show ?thesis
    using snoc owns_len_0 [OF o] by (cases x) (auto simp: queue_get_value_def dseg_append)
qed

lemma queue_release_nodes:
  assumes "q_rep q xs"
  shows "release_nodes (unat (len q)) (mem q) (head q) = Some (vals xs, Map.empty)"
proof (cases "xs = []")
  case True
  then show ?thesis using assms by (auto simp: q_rep_def owns_def)
next
  case False
  obtain n where o: "owns q xs" and s: "dseg (mem q) None (head q) xs (tail q) n"
    using assms False by (auto elim: q_repE)
  obtain m where m: "release_nodes (length xs) (mem q) (head q) = Some (vals xs, m)"
    "\<forall>a. m a = (if a \<in> fst ` set xs then None else mem q a)"
    using release_nodes_seg [OF s ownsD(1) [OF o]] by blast
  have "m = Map.empty" using m(2) ownsD(2) [OF o] by (auto simp: fun_eq_iff)
  then show ?thesis using m(1) owns_unat_len [OF o] by simp
qed

lemma queue_purge_rep:
  assumes "q_rep q xs"
  shows "\<exists>q'. queue_purge q = Some (if qfree q then vals xs else [], q') \<and> q_rep q' [] \<and> qfree q' = qfree q"
  using queue_release_nodes [OF assms] by (simp add: queue_purge_def q_rep_def owns_def)

text \<open>Deleting a node is safe when it is not the last one, or the last one's \<open>next\<close> is null.\<close>

lemma queue_delete_node_inner_rep:
  assumes q: "q_rep q (xs @ (a, v) # ys)" and ys: "ys \<noteq> []"
  shows "\<exists>q'. queue_delete_node q a = Some (q', if qfree q then [v] else []) \<and> q_rep q' (xs @ ys)
    \<and> qfree q' = qfree q"
proof -
  obtain n where o: "owns q (xs @ (a, v) # ys)"
    and s: "dseg (mem q) None (head q) (xs @ (a, v) # ys) (tail q) n"
    and n: "\<And>d. n = Some d \<Longrightarrow> d \<notin> dom (mem q) \<and> d < brk q"
    using q by (rule q_repE) auto
  show ?thesis
    by (rule unlink_node_seg [OF o s])
      (use n ys in \<open>auto simp: queue_delete_node_def q_rep_def dest: more_Queue\<close>)
qed

lemma queue_delete_node_clean_rep:
  fixes q :: "'v Queue"
  assumes "dl_rep q (xs @ (a, v) # ys)"
  shows "\<exists>q'. queue_delete_node q a = Some (q', if qfree q then [v] else []) \<and> dl_rep q' (xs @ ys)
    \<and> qfree q' = qfree q"
proof -
  have o: "owns q (xs @ (a, v) # ys)"
    and s: "dseg (mem q) None (head q) (xs @ (a, v) # ys) (tail q) None"
    using assms by (auto simp: dl_rep_def)
  show ?thesis
    by (rule unlink_node_seg [OF o s])
      (auto simp: queue_delete_node_def dl_rep_def dest: more_Queue)
qed

section \<open>The queue as a first-in first-out buffer\<close>

text \<open>
  What the message queues rely on: messages enter at the head and leave at the tail. \<open>inv q vs\<close>
  lists the values from the newest to the oldest.
\<close>

locale fifo =
  fixes inv :: "'q \<Rightarrow> 'v list \<Rightarrow> bool"
    and empty :: 'q
    and push :: "'q \<Rightarrow> 'v \<Rightarrow> 'q option"
    and get :: "'q \<Rightarrow> 'v option option"
    and pop :: "'q \<Rightarrow> ('v option \<times> 'q) option"
  assumes inv_empty: "inv empty []"
    and push_law: "inv q vs \<Longrightarrow> Suc (length vs) < 2 ^ 32 \<Longrightarrow> \<exists>q'. push q v = Some q' \<and> inv q' (v # vs)"
    and get_empty: "inv q [] \<Longrightarrow> get q = Some None"
    and get_law: "inv q (vs @ [v]) \<Longrightarrow> get q = Some (Some v)"
    and pop_empty: "inv q [] \<Longrightarrow> pop q = Some (None, q)"
    and pop_law: "inv q (vs @ [v]) \<Longrightarrow> \<exists>q'. pop q = Some (Some v, q') \<and> inv q' vs"
begin

primrec push_all :: "'q \<Rightarrow> 'v list \<Rightarrow> 'q option" where
  "push_all q [] = Some q"
| "push_all q (v # vs) = Option.bind (push q v) (\<lambda>q'. push_all q' vs)"

primrec pop_many :: "nat \<Rightarrow> 'q \<Rightarrow> ('v option list \<times> 'q) option" where
  "pop_many 0 q = Some ([], q)"
| "pop_many (Suc n) q = Option.bind (pop q) (\<lambda>(v, q').
     map_option (\<lambda>(vs, q''). (v # vs, q'')) (pop_many n q'))"

lemma push_all_inv:
  "inv q us \<Longrightarrow> length us + length vs < 2 ^ 32 \<Longrightarrow> \<exists>q'. push_all q vs = Some q' \<and> inv q' (rev vs @ us)"
proof (induction vs arbitrary: q us)
  case (Cons v vs)
  then obtain q1 where q1: "push q v = Some q1" "inv q1 (v # us)"
    using push_law [of q us v] by auto
  moreover have "length (v # us) + length vs < 2 ^ 32" using Cons.prems(2) by simp
  ultimately show ?case using Cons.IH [of q1 "v # us"] by auto
qed simp

lemma pop_many_inv:
  "inv q (us @ rev vs) \<Longrightarrow> \<exists>q'. pop_many (length vs) q = Some (map Some vs, q') \<and> inv q' us"
proof (induction vs arbitrary: q)
  case (Cons v vs)
  then have "inv q ((us @ rev vs) @ [v])" by simp
  then obtain q1 where "pop q = Some (Some v, q1)" "inv q1 (us @ rev vs)"
    using pop_law by blast
  with Cons.IH [of q1] show ?case by auto
qed simp

lemma push_then_pop:
  assumes "length vs < 2 ^ 32"
  shows "\<exists>q q'. push_all empty vs = Some q \<and> inv q (rev vs) \<and>
    pop_many (length vs) q = Some (map Some vs, q') \<and> inv q' []"
  using push_all_inv [OF inv_empty, of vs] pop_many_inv [of _ "[]" vs] assms by auto

end

lemma queue_abs_snocE:
  assumes "queue_abs q (vs @ [v])"
  obtains xs a where "q_rep q (xs @ [(a, v)])" "vals xs = vs"
  using assms unfolding queue_abs_def by (auto simp: map_eq_append_conv)

interpretation qu: fifo queue_abs queue_create queue_push_value_head queue_get_value queue_pop_value
proof unfold_locales
  show "queue_abs queue_create []" using q_rep_create by (auto simp: queue_abs_def)
  show "\<exists>q'. queue_push_value_head q v = Some q' \<and> queue_abs q' (v # vs)"
    if q: "queue_abs q vs" and r: "Suc (length vs) < 2 ^ 32" for q :: "'v Queue" and vs v
  proof -
    obtain xs where "q_rep q xs" "vals xs = vs" using q by (auto simp: queue_abs_def)
    then show ?thesis
      using queue_push_value_head_rep [of q xs v] r by (fastforce simp: queue_abs_def room_def)
  qed
  show "queue_get_value q = Some None" if "queue_abs q []" for q :: "'v Queue"
    using that queue_get_value_rep [of q "[]"] by (auto simp: queue_abs_def)
  show "queue_get_value q = Some (Some v)" if "queue_abs q (vs @ [v])" for q :: "'v Queue" and vs v
    using that by (rule queue_abs_snocE) (auto dest: queue_get_value_rep)
  show "queue_pop_value q = Some (None, q)" if "queue_abs q []" for q :: "'v Queue"
    using that by (auto simp: queue_abs_def q_rep_def owns_def queue_pop_value_def)
  show "\<exists>q'. queue_pop_value q = Some (Some v, q') \<and> queue_abs q' vs" if "queue_abs q (vs @ [v])"
    for q :: "'v Queue" and vs v
    using that by (rule queue_abs_snocE) (auto simp: queue_abs_def dest!: queue_pop_value_rep)
qed

text \<open>A queue object with the two values 10 and 20, the latter at the tail, for the witnesses.\<close>

definition sample_fifo :: "nat Queue" where
  "sample_fifo = \<lparr>head = Some 0, tail = Some 1, len = 2,
     mem = [0 \<mapsto> \<lparr>nprev = None, nnext = Some 1, nvalue = 10\<rparr>, 1 \<mapsto> \<lparr>nprev = Some 0, nnext = None, nvalue = 20\<rparr>],
     brk = 2, qfree = True\<rparr>"

lemma sample_fifo_rep: "q_rep sample_fifo [(0, 10), (1, 20)]"
  by (auto simp: q_rep_def owns_def sample_fifo_def)

lemma sample_fifo_abs: "queue_abs sample_fifo [10, 20]" "qfree sample_fifo"
  using sample_fifo_rep by (force simp: queue_abs_def, simp add: sample_fifo_def)

text \<open>
  C12. Messages leave a queue in the order they entered it: pushing \<open>vs\<close> and popping as many
  values returns exactly \<open>vs\<close>, in order, with no fault, and leaves the queue empty.
\<close>

theorem queue_is_fifo:
  assumes "length vs < 2 ^ 32"
  shows "\<exists>q q'. qu.push_all queue_create vs = Some q \<and> queue_abs q (rev vs) \<and>
    qu.pop_many (length vs) q = Some (map Some vs, q') \<and> queue_abs q' []"
  using assms by (rule qu.push_then_pop)

theorem queue_is_fifo_witness:
  "\<exists>q q'. qu.push_all queue_create [4, 5, 6 :: nat] = Some q \<and>
    qu.pop_many (length [4, 5, 6 :: nat]) q = Some (map Some [4, 5, 6], q')"
proof -
  have "length [4, 5, 6 :: nat] < 2 ^ 32" by simp
  from queue_is_fifo [OF this] show ?thesis by blast
qed

text \<open>
  C34. \<open>queue_purge\<close> and \<open>queue_release\<close> free every message exactly once, head first, whatever
  pushes and pops came before.
\<close>

theorem queue_purge_frees_all:
  assumes "queue_abs q vs"
  shows "(\<exists>q'. queue_purge q = Some (if qfree q then vs else [], q') \<and> queue_abs q' []) \<and>
    queue_release q = Some (if qfree q then vs else [], Map.empty)"
proof -
  obtain xs where xs: "q_rep q xs" "vals xs = vs" using assms by (auto simp: queue_abs_def)
  then show ?thesis
    using queue_purge_rep [OF xs(1)] queue_release_nodes [OF xs(1)]
    by (auto simp: queue_abs_def queue_release_def)
qed

theorem queue_purge_frees_all_witness: "queue_release sample_fifo = Some ([10, 20], Map.empty)"
  using queue_purge_frees_all [OF sample_fifo_abs(1)] sample_fifo_abs(2) by simp

text \<open>
  C39. A pop leaves the new last node pointing to the freed one, so deleting that node
  afterwards writes through a dangling pointer: \<open>queue_delete_node\<close> faults on the last node of
  a queue that still holds messages after a pop.
\<close>

theorem queue_delete_after_pop_faults:
  assumes "q_rep q (xs @ [(b, w), (a, v)])" and "queue_pop_value q = Some (r, q')"
  shows "r = Some v \<and> tail q' = Some b \<and> queue_delete_node q' b = None"
proof -
  have "q_rep q ((xs @ [(b, w)]) @ [(a, v)])" using assms(1) by simp
  from queue_pop_value_rep [OF this] assms(2) have r: "r = Some v" and q': "q_rep q' (xs @ [(b, w)])"
    and d: "\<exists>nd. load (mem q') (tail q') = Some nd \<and> nnext nd = Some a" by auto
  obtain n where o: "owns q' (xs @ [(b, w)])"
    and s: "dseg (mem q') None (head q') (xs @ [(b, w)]) (tail q') n"
    using q' by (rule q_repE) auto
  obtain k where k: "tail q' = Some b" "mem q' b = Some \<lparr>nprev = k, nnext = Some a, nvalue = w\<rparr>"
      "dseg (mem q') None (head q') xs k (Some b)"
    using s d by (auto simp: dseg_append)
  have "a \<notin> dom (mem q')" "a \<noteq> b"
    using ownsD(1,2) [OF o] assms(1) by (auto simp: q_rep_def owns_def)
  then have a: "mem q' a = None" "a \<noteq> b" by auto
  have "queue_delete_node q' b = None"
  proof (cases xs rule: rev_cases)
    case Nil
    then show ?thesis using k a by (simp add: queue_delete_node_def unlink_node_def)
  next
    case (snoc us u)
    then obtain c z j where "k = Some c" "c \<noteq> b" "c \<noteq> a"
      "mem q' c = Some \<lparr>nprev = j, nnext = Some b, nvalue = z\<rparr>"
      using k(3) ownsD(1) [OF o] a(1) by (cases u) (fastforce simp: dseg_append)
    then show ?thesis using k a by (simp add: queue_delete_node_def unlink_node_def)
  qed
  then show ?thesis using r k(1) by simp
qed

theorem queue_delete_after_pop_faults_witness:
  "\<exists>q'. queue_pop_value sample_fifo = Some (Some 20, q') \<and> queue_delete_node q' 0 = None"
proof -
  obtain q' where q': "queue_pop_value sample_fifo = Some (Some 20, q')"
    by (simp add: queue_pop_value_def sample_fifo_def)
  then show ?thesis
    using queue_delete_after_pop_faults [of sample_fifo "[]" 0 10 1 20 "Some 20" q'] sample_fifo_rep by simp
qed

end
