(* ===== verification/KeylistLib.thy ===== *)
theory KeylistLib
  imports QueueLib "HOL-Library.AList"
begin

text \<open>
  src/keylist.c: an association list on doubly linked nodes. A \<open>KeylistNode\<close> is a node whose
  value is the pair of its \<open>key\<close> and \<open>value\<close> fields. The refinement theorems show that it is a
  finite map that keeps the order in which keys were first set.
\<close>

section \<open>The keylist object and its operations\<close>

record ('k, 'v) Keylist = "('k \<times> 'v) chain" +
  kfree :: bool
  kmatch :: "('k \<Rightarrow> 'k \<Rightarrow> bool) option"

definition keylist_create :: "('k, 'v) Keylist" where
  "keylist_create = \<lparr>head = None, tail = None, len = 0, mem = Map.empty, brk = 0,
                     kfree = False, kmatch = None\<rparr>"

definition keylist_release :: "('k, 'v) Keylist \<Rightarrow> (('k \<times> 'v) list \<times> ('k \<times> 'v) store) option" where
  "keylist_release l = do {
     (kvs, m) \<leftarrow> release_nodes (unat (len l)) (mem l) (head l);
     Some (if kfree l then kvs else [], m) }"

text \<open>A keylist iterator is the pointer to the next node.\<close>

definition keylist_rewind :: "('k, 'v) Keylist \<Rightarrow> addr option" where
  "keylist_rewind l = head l"

definition keylist_next_node ::
    "('k, 'v) Keylist \<Rightarrow> addr option \<Rightarrow> (addr option \<times> addr option) option" where
  "keylist_next_node l it = iter_step (mem l) EG_START_HEAD it"

partial_function (option) keylist_get_from ::
    "('k, 'v) Keylist \<Rightarrow> addr option \<Rightarrow> 'k \<Rightarrow> addr option option" where [code]:
  "keylist_get_from l it k =
     Option.bind (keylist_next_node l it) (\<lambda>(cur, it').
       case cur of
         None \<Rightarrow> Some None
       | Some a \<Rightarrow> Option.bind (mem l a) (\<lambda>nd.
           if (case kmatch l of Some f \<Rightarrow> f (fst (nvalue nd)) k | None \<Rightarrow> fst (nvalue nd) = k)
           then Some (Some a) else keylist_get_from l it' k))"

definition keylist_get_value :: "('k, 'v) Keylist \<Rightarrow> 'k \<Rightarrow> addr option option" where
  "keylist_get_value l k = keylist_get_from l (keylist_rewind l) k"

definition keylist_set_value :: "('k, 'v) Keylist \<Rightarrow> 'k \<Rightarrow> 'v \<Rightarrow> ('k, 'v) Keylist option" where
  "keylist_set_value l k v = do {
     node \<leftarrow> keylist_get_value l k;
     (case node of
        Some a \<Rightarrow> do { nd \<leftarrow> mem l a;
                      Some (l\<lparr>mem := (mem l)(a \<mapsto> nd\<lparr>nvalue := (fst (nvalue nd), v)\<rparr>)\<rparr>) }
      | None \<Rightarrow> link_tail l (k, v)) }"

definition keylist_delete_node ::
    "('k, 'v) Keylist \<Rightarrow> addr \<Rightarrow> (('k, 'v) Keylist \<times> ('k \<times> 'v) list) option" where
  "keylist_delete_node l a = do {
     (l', kv) \<leftarrow> unlink_node l a;
     Some (l', if kfree l then [kv] else []) }"

section \<open>Correctness\<close>

definition keylist_val :: "('k, 'v) Keylist \<Rightarrow> addr \<Rightarrow> ('k \<times> 'v) option" where
  "keylist_val l a = map_option nvalue (mem l a)"

text \<open>The match method, when there is one, is equality of the keys (\<open>strcmp\<close> on strings).\<close>

definition match_eq :: "('k, 'v) Keylist \<Rightarrow> bool" where
  "match_eq l \<longleftrightarrow> (case kmatch l of None \<Rightarrow> True | Some f \<Rightarrow> f = (=))"

lemma more_Keylist:
  fixes l l' :: "('k, 'v) Keylist"
  shows "chain.more l' = chain.more l \<Longrightarrow> kfree l' = kfree l \<and> kmatch l' = kmatch l"
  by (cases l, cases l') simp

lemma keylist_delete_node_rep:
  fixes l :: "('k, 'v) Keylist"
  assumes "dl_rep l (xs @ (a, kv) # ys)"
  shows "\<exists>l'. keylist_delete_node l a = Some (l', if kfree l then [kv] else []) \<and>
    dl_rep l' (xs @ ys) \<and> kfree l' = kfree l \<and> kmatch l' = kmatch l"
proof -
  have o: "owns l (xs @ (a, kv) # ys)"
    and s: "dseg (mem l) None (head l) (xs @ (a, kv) # ys) (tail l) None"
    using assms by (auto simp: dl_rep_def)
  show ?thesis
    by (rule unlink_node_seg [OF o s])
      (auto simp: keylist_delete_node_def dl_rep_def dest: more_Keylist)
qed

interpretation kl: linked_seq dl_rep keylist_create head keylist_next_node keylist_val keylist_delete_node
proof unfold_locales
  show "dl_rep keylist_create []" by (simp add: dl_rep_def owns_def keylist_create_def)
  show "head l = first_addr xs" if "dl_rep l xs" for l :: "('k, 'v) Keylist" and xs
    using that by (auto simp: dl_rep_def first_addr_def dest: dseg_first split: list.splits)
  show "keylist_next_node l None = Some (None, None)" for l :: "('k, 'v) Keylist"
    by (simp add: keylist_next_node_def iter_step_def)
  show "keylist_next_node l (Some a) = Some (Some a, first_addr ys)" if "dl_rep l (xs @ (a, v) # ys)"
    for l :: "('k, 'v) Keylist" and xs ys a v
    using dl_rep_split [OF that] by (auto simp: keylist_next_node_def iter_step_def)
  show "keylist_val l a = Some v" if "dl_rep l (xs @ (a, v) # ys)"
    for l :: "('k, 'v) Keylist" and xs ys a v
    using dl_rep_split [OF that] by (auto simp: keylist_val_def)
  show "\<exists>l' fr. keylist_delete_node l a = Some (l', fr) \<and> set fr \<subseteq> {v} \<and> dl_rep l' (xs @ ys)"
    if "dl_rep l (xs @ (a, v) # ys)" for l :: "('k, 'v) Keylist" and xs ys a v
    using keylist_delete_node_rep [OF that] by auto
qed

lemma keylist_get_from_rep:
  "dl_rep l (xs @ ys) \<Longrightarrow> match_eq l \<Longrightarrow>
   keylist_get_from l (first_addr ys) k = Some (map_option fst (find (\<lambda>x. fst (snd x) = k) ys))"
proof (induction ys arbitrary: xs)
  case Nil
  then show ?case by (simp add: keylist_get_from.simps kl.rep_next_None)
next
  case (Cons y ys)
  obtain a kv where y: "y = (a, kv)" by (cases y)
  have r: "dl_rep l (xs @ (a, kv) # ys)" using Cons.prems(1) y by simp
  obtain p where a: "mem l a = Some \<lparr>nprev = p, nnext = first_addr ys, nvalue = kv\<rparr>"
    using dl_rep_split [OF r] by auto
  have "dl_rep l ((xs @ [(a, kv)]) @ ys)" using r by simp
  from Cons.IH [OF this Cons.prems(2)] Cons.prems(2) a y show ?case
    by (cases "kmatch l")
      (simp_all add: keylist_get_from.simps [of l "Some a"] kl.rep_next [OF r] match_eq_def)
qed

lemma keylist_get_value_rep:
  assumes "dl_rep l xs" and "match_eq l"
  shows "keylist_get_value l k = Some (map_option fst (find (\<lambda>x. fst (snd x) = k) xs))"
  using keylist_get_from_rep [of l "[]" xs k] assms kl.rep_first [OF assms(1)]
  by (simp add: keylist_get_value_def keylist_rewind_def)

text \<open>The keylist as an association list, oldest key first.\<close>

definition keylist_abs :: "('k, 'v) Keylist \<Rightarrow> ('k \<times> 'v) list \<Rightarrow> bool" where
  "keylist_abs l kvs \<longleftrightarrow> (\<exists>xs. dl_rep l xs \<and> vals xs = kvs) \<and> distinct (map fst kvs) \<and> match_eq l"

lemma keylist_set_absent:
  assumes "dl_rep l xs" "match_eq l" "k \<notin> fst ` snd ` set xs" "room xs"
  shows "\<exists>l'. keylist_set_value l k v = Some l' \<and> dl_rep l' (xs @ [(brk l, (k, v))]) \<and>
    kmatch l' = kmatch l"
proof -
  have o: "owns l xs" and s: "dseg (mem l) None (head l) xs (tail l) None"
    using assms(1) by (auto simp: dl_rep_def)
  have "find (\<lambda>x. fst (snd x) = k) xs = None" using assms(3) by (force simp: find_None_iff)
  then have "keylist_set_value l k v = link_tail l (k, v)"
    using keylist_get_value_rep [OF assms(1,2), of k] by (simp add: keylist_set_value_def)
  then show ?thesis
    by (rule_tac link_tail_seg [OF o assms(4) s, of "(k, v)"]) (auto dest: more_Keylist)
qed

lemma keylist_set_present:
  assumes r: "dl_rep l (xs @ (a, (k, w)) # ys)" and "match_eq l" and "k \<notin> fst ` snd ` set xs"
  shows "\<exists>l'. keylist_set_value l k v = Some l' \<and> dl_rep l' (xs @ (a, (k, v)) # ys) \<and>
    kmatch l' = kmatch l"
proof -
  have o: "owns l (xs @ (a, (k, w)) # ys)"
    and s: "dseg (mem l) None (head l) (xs @ (a, (k, w)) # ys) (tail l) None"
    using r by (auto simp: dl_rep_def)
  obtain p nx where a: "mem l a = Some \<lparr>nprev = p, nnext = nx, nvalue = (k, w)\<rparr>"
    "dseg (mem l) None (head l) xs p (Some a)" "dseg (mem l) (Some a) nx ys (tail l) None"
    using s by (auto simp: dseg_split)
  have d: "a \<notin> fst ` set xs" "a \<notin> fst ` set ys" using ownsD(1) [OF o] by auto
  have "find (\<lambda>x. fst (snd x) = k) xs = None" using assms(3) by (force simp: find_None_iff)
  then have "find (\<lambda>x. fst (snd x) = k) (xs @ (a, (k, w)) # ys) = Some (a, (k, w))"
    by (induction xs) (auto split: if_splits)
  then have "keylist_get_value l k = Some (Some a)"
    using keylist_get_value_rep [OF r assms(2), of k] by simp
  then show ?thesis
    using a d o by (auto simp: keylist_set_value_def dl_rep_def owns_def dseg_split)
qed

lemma keylist_split:
  assumes "dl_rep l xs" "vals xs = kvs" "distinct (map fst kvs)" "k \<in> fst ` set kvs"
  obtains ys a w zs where "xs = ys @ (a, (k, w)) # zs" "k \<notin> fst ` snd ` set ys"
    "k \<notin> fst ` snd ` set zs" "map_of kvs k = Some w"
proof -
  obtain x where x: "x \<in> set xs" "fst (snd x) = k" using assms(2,4) by auto
  then obtain ys zs where s: "xs = ys @ x # zs" by (auto simp: in_set_conv_decomp)
  obtain a w where ax: "x = (a, (k, w))" using x(2) by (cases x) auto
  have "distinct (map fst (vals (ys @ (a, (k, w)) # zs)))" using assms(2,3) s ax by simp
  then have d: "k \<notin> fst ` snd ` set ys" "k \<notin> fst ` snd ` set zs"
    by (simp_all add: image_image comp_def)
  have "map_of kvs k = Some w"
    using assms(2,3) s ax by (auto intro: map_of_is_SomeI)
  then show ?thesis using that s ax d by blast
qed

text \<open>
  The interface the routes and channels use: a map from keys to values that remembers the
  order of the keys. \<open>inv l kvs\<close> is the content, oldest key first.
\<close>

locale keyed =
  fixes inv :: "'l \<Rightarrow> ('k \<times> 'v) list \<Rightarrow> bool"
    and empty :: 'l
    and get :: "'l \<Rightarrow> 'k \<Rightarrow> 'v option option"
    and set_key :: "'l \<Rightarrow> 'k \<Rightarrow> 'v \<Rightarrow> 'l option"
    and remove :: "'l \<Rightarrow> 'k \<Rightarrow> 'l option"
  assumes inv_empty: "inv empty []"
    and inv_distinct: "inv l kvs \<Longrightarrow> distinct (map fst kvs)"
    and get_law: "inv l kvs \<Longrightarrow> get l k = Some (map_of kvs k)"
    and set_law: "inv l kvs \<Longrightarrow> Suc (length kvs) < 2 ^ 32 \<Longrightarrow>
      \<exists>l'. set_key l k v = Some l' \<and> inv l' (AList.update k v kvs)"
    and remove_law: "inv l kvs \<Longrightarrow> \<exists>l'. remove l k = Some l' \<and> inv l' (AList.delete k kvs)"
begin

lemma get_after_set:
  assumes "inv l kvs" "Suc (length kvs) < 2 ^ 32"
  shows "\<exists>l'. set_key l k v = Some l' \<and> get l' k' = (if k' = k then Some (Some v) else get l k')"
proof -
  obtain l' where l': "set_key l k v = Some l'" "inv l' (AList.update k v kvs)"
    using set_law [OF assms] by blast
  have "get l' k' = Some ((map_of kvs)(k \<mapsto> v)) \<bind> (\<lambda>m. Some (m k'))"
    by (simp add: get_law [OF l'(2)] update_conv)
  then show ?thesis using l'(1) get_law [OF assms(1)] by simp
qed

lemma get_after_remove:
  assumes "inv l kvs"
  shows "\<exists>l'. remove l k = Some l' \<and> get l' k' = (if k' = k then Some None else get l k')"
proof -
  obtain l' where l': "remove l k = Some l'" "inv l' (AList.delete k kvs)"
    using remove_law [OF assms] by blast
  then show ?thesis using get_law [OF l'(2)] get_law [OF assms] by (simp add: delete_conv')
qed

end

text \<open>Looking a key up and reading, or deleting, the node that was found.\<close>

definition keylist_lookup :: "('k, 'v) Keylist \<Rightarrow> 'k \<Rightarrow> 'v option option" where
  "keylist_lookup l k = do {
     node \<leftarrow> keylist_get_value l k;
     (case node of None \<Rightarrow> Some None
      | Some a \<Rightarrow> do { nd \<leftarrow> mem l a; Some (Some (snd (nvalue nd))) }) }"

definition keylist_remove :: "('k, 'v) Keylist \<Rightarrow> 'k \<Rightarrow> ('k, 'v) Keylist option" where
  "keylist_remove l k = do {
     node \<leftarrow> keylist_get_value l k;
     (case node of None \<Rightarrow> Some l
      | Some a \<Rightarrow> do { (l', fr) \<leftarrow> keylist_delete_node l a; Some l' }) }"

lemma find_key_split:
  "k \<notin> fst ` snd ` set xs \<Longrightarrow> find (\<lambda>x. fst (snd x) = k) (xs @ (a, (k, w)) # ys) = Some (a, (k, w))"
  by (induction xs) auto

lemma find_key_None: "k \<notin> fst ` snd ` set xs \<Longrightarrow> find (\<lambda>x. fst (snd x) = k) xs = None"
  by (force simp: find_None_iff)

lemma update_vals_split:
  "k \<notin> fst ` snd ` set ys \<Longrightarrow>
   AList.update k v (vals (ys @ (a, (k, w)) # zs)) = vals (ys @ (a, (k, v)) # zs)"
  by (induction ys) auto

lemma update_absent: "k \<notin> fst ` set kvs \<Longrightarrow> AList.update k v kvs = kvs @ [(k, v)]"
  by (induction kvs) auto

lemma delete_vals_split:
  "k \<notin> fst ` snd ` set ys \<Longrightarrow> k \<notin> fst ` snd ` set zs \<Longrightarrow>
   AList.delete k (vals (ys @ (a, (k, w)) # zs)) = vals (ys @ zs)"
  by (induction ys) (auto simp: image_image intro!: delete_id)

interpretation ka: keyed keylist_abs keylist_create keylist_lookup keylist_set_value keylist_remove
proof unfold_locales
  show "keylist_abs keylist_create []"
    using kl.rep_create by (auto simp: keylist_abs_def match_eq_def keylist_create_def)
  fix l :: "('k, 'v) Keylist" and kvs k
  assume l: "keylist_abs l kvs"
  then obtain xs where xs: "dl_rep l xs" "vals xs = kvs" "distinct (map fst kvs)" "match_eq l"
    by (auto simp: keylist_abs_def)
  show "distinct (map fst kvs)" by (rule xs(3))
  have nk: "k \<notin> fst ` snd ` set xs" "map_of kvs k = None" "AList.delete k kvs = kvs"
      "\<And>v. AList.update k v kvs = kvs @ [(k, v)]" if "k \<notin> fst ` set kvs"
    using that unfolding xs(2) [symmetric]
    by (simp_all add: map_of_eq_None_iff update_absent image_image)
  note get = keylist_get_value_rep [OF xs(1,4), of k]
  show "keylist_lookup l k = Some (map_of kvs k)"
  proof (cases "k \<in> fst ` set kvs")
    case True
    then obtain ys a w zs where s: "xs = ys @ (a, (k, w)) # zs" "k \<notin> fst ` snd ` set ys"
      "map_of kvs k = Some w" using keylist_split [OF xs(1-3)] by metis
    then show ?thesis
      using get kl.rep_val [of l ys a "(k, w)" zs] xs(1)
      by (auto simp: keylist_lookup_def find_key_split keylist_val_def)
  qed (use get nk in \<open>simp add: keylist_lookup_def find_key_None\<close>)
  show "\<exists>l'. keylist_remove l k = Some l' \<and> keylist_abs l' (AList.delete k kvs)"
  proof (cases "k \<in> fst ` set kvs")
    case True
    then obtain ys a w zs where s: "xs = ys @ (a, (k, w)) # zs" "k \<notin> fst ` snd ` set ys"
      "k \<notin> fst ` snd ` set zs" using keylist_split [OF xs(1-3)] by metis
    then show ?thesis
      using get keylist_delete_node_rep [of l ys a "(k, w)" zs] xs delete_vals_split [OF s(2,3), of a w]
      by (auto simp: keylist_remove_def find_key_split keylist_abs_def match_eq_def distinct_delete
          intro!: exI [of _ "ys @ zs"])
  qed (use get nk l in \<open>simp add: keylist_remove_def find_key_None\<close>)
  show "\<exists>l'. keylist_set_value l k v = Some l' \<and> keylist_abs l' (AList.update k v kvs)"
    if "Suc (length kvs) < 2 ^ 32" for v
  proof (cases "k \<in> fst ` set kvs")
    case True
    then obtain ys a w zs where s: "xs = ys @ (a, (k, w)) # zs" "k \<notin> fst ` snd ` set ys"
      using keylist_split [OF xs(1-3)] by metis
    then show ?thesis
      using keylist_set_present [of l ys a k w zs v] xs update_vals_split [OF s(2), of v a w zs]
      by (fastforce simp: keylist_abs_def match_eq_def distinct_update)
  next
    case False
    have "room xs" using that xs(2) by (auto simp: room_def)
    then show ?thesis
      using keylist_set_absent [OF xs(1,4) nk(1) , of v] nk(4) False xs
      by (fastforce simp: keylist_abs_def match_eq_def)
  qed
qed

text \<open>
  C30. A keylist is a map: after \<open>keylist_set_value\<close> the key has the new value and every other
  key the old one; after the node found for a key is deleted the key is absent and the others
  are untouched; keys stay distinct.
\<close>

theorem keylist_is_map:
  assumes "keylist_abs l kvs" and "Suc (length kvs) < 2 ^ 32"
  shows "(\<exists>l'. keylist_set_value l k v = Some l' \<and> keylist_abs l' (AList.update k v kvs) \<and>
      keylist_lookup l' k' = (if k' = k then Some (Some v) else keylist_lookup l k')) \<and>
    (\<exists>l'. keylist_remove l k = Some l' \<and>
      keylist_lookup l' k' = (if k' = k then Some None else keylist_lookup l k'))"
  using ka.get_after_set [OF assms] ka.get_after_remove [OF assms(1)] ka.set_law [OF assms]
  by (metis option.inject)

theorem keylist_is_map_witness:
  "\<exists>l. keylist_set_value (keylist_create :: (nat, nat) Keylist) 7 1 = Some l \<and> keylist_lookup l 7 = Some (Some 1)"
  using keylist_is_map [OF ka.inv_empty, of "7 :: nat" "1 :: nat" 7] by auto

end
