(* ===== verification/Utils.thy ===== *)
theory Utils
  imports Prelude "HOL-Library.Sublist"
begin

text \<open>
  src/utils.c and src/utils.h: the character classes and the three input checks every request
  passes through, the message tags, and the glob matcher of the channel patterns. Memory is
  read through \<open>rd\<close>, which faults past the end, so an over-read of the source is visible.
\<close>

section \<open>Reading memory\<close>

text \<open>\<open>buf[i]\<close> where \<open>buf\<close> is all the memory from the pointer to the end of its object.\<close>

definition rd :: "bytes \<Rightarrow> nat \<Rightarrow> u8 option" where
  "rd buf i = (if i < length buf then Some (buf ! i) else None)"

text \<open>\<open>s[i]\<close> of a string \<open>s\<close> that is stored with its terminating NUL and nothing after it.\<close>

definition rdz :: "bytes \<Rightarrow> nat \<Rightarrow> u8 option" where
  "rdz s i = rd (s @ [0]) i"

text \<open>The string a pointer denotes: the bytes before the first NUL; a fault if there is none.\<close>

definition cstr :: "bytes \<Rightarrow> bytes option" where
  "cstr buf = (if 0 \<in> set buf then Some (takeWhile (\<lambda>c. c \<noteq> 0) buf) else None)"

section \<open>Character classes\<close>

definition IS_ALPHA :: "u8 \<Rightarrow> bool" where
  "IS_ALPHA c \<longleftrightarrow> 97 \<le> (c OR 0x20) \<and> (c OR 0x20) \<le> 122"

definition IS_NUM :: "u8 \<Rightarrow> bool" where
  "IS_NUM c \<longleftrightarrow> 48 \<le> c \<and> c \<le> 57"

definition IS_ALPHANUM :: "u8 \<Rightarrow> bool" where
  "IS_ALPHANUM c \<longleftrightarrow> IS_ALPHA c \<or> IS_NUM c"

text \<open>\<open>_\<close>, \<open>-\<close>, \<open>.\<close>\<close>

definition IS_EXTRA1 :: "u8 \<Rightarrow> bool" where
  "IS_EXTRA1 c \<longleftrightarrow> c = 95 \<or> c = 45 \<or> c = 46"

text \<open>\<open>*\<close>, \<open>?\<close>, \<open>[\<close>, \<open>]\<close> and backslash\<close>

definition IS_EXTRA2 :: "u8 \<Rightarrow> bool" where
  "IS_EXTRA2 c \<longleftrightarrow> c = 42 \<or> c = 63 \<or> c = 91 \<or> c = 93 \<or> c = 92"

definition IS_EXTRA3 :: "u8 \<Rightarrow> bool" where
  "IS_EXTRA3 c \<longleftrightarrow> IS_EXTRA1 c \<or> IS_EXTRA2 c"

section \<open>Input checks\<close>

text \<open>
  The loop the three checks share: \<open>while (ptr < end_ptr) if (*++ptr == 0) ...\<close>. It looks at the
  bytes 1 to \<open>size\<close>, not 0 to \<open>size - 1\<close>. \<open>i\<close> is \<open>ptr - buffer\<close> and \<open>k\<close> counts \<open>end_ptr - ptr\<close>.
\<close>

fun scan_nul :: "bytes \<Rightarrow> nat \<Rightarrow> nat \<Rightarrow> nat option" where
  "scan_nul buf i 0 = Some 0"
| "scan_nul buf i (Suc k) = do {
     c \<leftarrow> rd buf (Suc i);
     if c = 0 then Some (Suc i) else scan_nul buf (Suc i) k }"

definition check_input_buffer1 :: "bytes \<Rightarrow> nat \<Rightarrow> nat option" where
  "check_input_buffer1 buf sz = do {
     n \<leftarrow> scan_nul buf 0 sz;
     if n = 0 then Some 0
     else if list_all (\<lambda>c. IS_ALPHANUM c \<or> IS_EXTRA1 c) (take n buf) then Some n else Some 0 }"

fun check2_loop :: "bool \<Rightarrow> bytes \<Rightarrow> bool" where
  "check2_loop extra [] = True"
| "check2_loop extra (c # cs) =
     (if IS_EXTRA1 c \<and> extra then False
      else if \<not> IS_ALPHANUM c \<and> \<not> IS_EXTRA1 c then False
      else check2_loop (IS_EXTRA1 c) cs)"

text \<open>The loop runs from the second byte to the last but one.\<close>

definition check_input_buffer2 :: "bytes \<Rightarrow> nat \<Rightarrow> nat option" where
  "check_input_buffer2 buf sz = do {
     n \<leftarrow> scan_nul buf 0 sz;
     if n = 0 then Some 0
     else do {
       c \<leftarrow> rd buf 0;
       if \<not> IS_ALPHA c \<and> c \<noteq> 95 \<and> c \<noteq> 46 then Some 0
       else if check2_loop (c = 95 \<or> c = 46) (take (n - 2) (drop 1 buf)) then Some n
       else Some 0 } }"

definition check_input_buffer3 :: "bytes \<Rightarrow> nat \<Rightarrow> nat option" where
  "check_input_buffer3 buf sz = do {
     n \<leftarrow> scan_nul buf 0 sz;
     if n = 0 then Some 0
     else if list_all (\<lambda>c. IS_ALPHANUM c \<or> IS_EXTRA3 c) (take n buf) then Some n else Some 0 }"

section \<open>Message tags\<close>

text \<open>\<open>make_message_tag\<close>: the time in the high half, the counter in the low half.\<close>

definition make_message_tag :: "u32 \<Rightarrow> u32 \<Rightarrow> u64" where
  "make_message_tag msg_counter time =
     (push_bit 32 (0 OR ucast time)) OR ucast msg_counter"

section \<open>Pattern matching\<close>

text \<open>\<open>tolower\<close> of the C locale on a (sign-extended) character.\<close>

definition tolower :: "int \<Rightarrow> int" where
  "tolower c = (if 65 \<le> c \<and> c \<le> 90 then c + 32 else c)"

text \<open>Equality of two characters as the matcher tests it.\<close>

definition char_eq :: "bool \<Rightarrow> u8 \<Rightarrow> u8 \<Rightarrow> bool" where
  "char_eq nocase a b \<longleftrightarrow>
     (if nocase then tolower (sint a) = tolower (sint b) else a = b)"

text \<open>\<open>while (pattern[1] == '*') { pattern++; plength--; }\<close>\<close>

partial_function (option) skip_stars :: "bytes \<Rightarrow> nat \<Rightarrow> int \<Rightarrow> (nat \<times> int) option" where [code]:
  "skip_stars p pi pl =
     Option.bind (rdz p (Suc pi)) (\<lambda>c.
       if c = 42 then skip_stars p (Suc pi) (pl - 1) else Some (pi, pl))"

text \<open>\<open>while (*pattern == '*') { pattern++; plength--; }\<close>\<close>

partial_function (option) skip_trailing :: "bytes \<Rightarrow> nat \<Rightarrow> int \<Rightarrow> (nat \<times> int) option" where [code]:
  "skip_trailing p pi pl =
     Option.bind (rdz p pi) (\<lambda>c.
       if c = 42 then skip_trailing p (Suc pi) (pl - 1) else Some (pi, pl))"

text \<open>
  The \<open>while (1)\<close> loop of a character class: the position and remaining length at the closing
  bracket (or at the last byte of an unclosed class), and whether some entry matched
  \<open>string[0]\<close>.
\<close>

partial_function (option) class_loop ::
    "bytes \<Rightarrow> nat \<Rightarrow> bytes \<Rightarrow> nat \<Rightarrow> int \<Rightarrow> bool \<Rightarrow> bool \<Rightarrow> (nat \<times> int \<times> bool) option" where [code]:
  "class_loop s si p pi pl nocase matched =
     Option.bind (rdz p pi) (\<lambda>x.
       if x = 92 then
         Option.bind (rdz p (Suc pi)) (\<lambda>y. Option.bind (rdz s si) (\<lambda>ch.
           class_loop s si p (pi + 2) (pl - 2) nocase (matched \<or> y = ch)))
       else if x = 93 then Some (pi, pl, matched)
       else if pl = 0 then Some (pi - 1, pl + 1, matched)
       else
         Option.bind (rdz p (Suc pi)) (\<lambda>y. Option.bind (rdz s si) (\<lambda>ch.
           if y = 45 \<and> pl \<ge> 3 then
             Option.bind (rdz p (pi + 2)) (\<lambda>z.
               let a = sint x; b = sint z;
                   start = (if a > b then b else a); stop = (if a > b then a else b);
                   start' = (if nocase then tolower start else start);
                   stop' = (if nocase then tolower stop else stop);
                   c = (if nocase then tolower (sint ch) else sint ch)
               in class_loop s si p (pi + 3) (pl - 3) nocase (matched \<or> (c \<ge> start' \<and> c \<le> stop')))
           else class_loop s si p (Suc pi) (pl - 1) nocase (matched \<or> char_eq nocase x ch))))"

text \<open>
  One pass through the \<open>switch\<close>, the \<open>*\<close> case apart: \<open>Some None\<close> is \<open>return 0\<close>, otherwise the
  string and pattern positions after the \<open>switch\<close>.
\<close>

definition match_one ::
    "bytes \<Rightarrow> nat \<Rightarrow> int \<Rightarrow> bytes \<Rightarrow> nat \<Rightarrow> int \<Rightarrow> bool \<Rightarrow> (nat \<times> int \<times> nat \<times> int) option option" where
  "match_one s si sl p pi pl nocase = do {
     x \<leftarrow> rdz p pi;
     if x = 63 then
       (if sl = 0 then Some None else Some (Some (Suc si, sl - 1, pi, pl)))
     else if x = 91 then do {
       y \<leftarrow> rdz p (Suc pi);
       let neg = (y = 94);
       let pi1 = (if neg then pi + 2 else Suc pi);
       let pl1 = (if neg then pl - 2 else pl - 1);
       (pi2, pl2, matched) \<leftarrow> class_loop s si p pi1 pl1 nocase False;
       (if matched \<noteq> neg then Some (Some (Suc si, sl - 1, pi2, pl2)) else Some None) }
     else do {
       let esc = (x = 92 \<and> pl \<ge> 2);
       let pi1 = (if esc then Suc pi else pi);
       let pl1 = (if esc then pl - 1 else pl);
       y \<leftarrow> rdz p pi1;
       ch \<leftarrow> rdz s si;
       (if char_eq nocase y ch then Some (Some (Suc si, sl - 1, pi1, pl1)) else Some None) } }"

text \<open>
  \<open>pattern_match_length\<close>. With \<open>star\<close> the control is in the \<open>while (slength)\<close> loop of the \<open>*\<close>
  case; the recursive call there passes the rest of the pattern as the string and the string
  as the pattern, as the source does.
\<close>

partial_function (option) pattern_match_length ::
    "bool \<Rightarrow> bytes \<Rightarrow> nat \<Rightarrow> int \<Rightarrow> bytes \<Rightarrow> nat \<Rightarrow> int \<Rightarrow> bool \<Rightarrow> bool option" where [code]:
  "pattern_match_length star s si sl p pi pl nocase =
     (if star then
        (if sl = 0 then Some False
         else Option.bind (pattern_match_length False p (Suc pi) (pl - 1) s si sl nocase) (\<lambda>b.
           if b then Some True
           else pattern_match_length True s (Suc si) (sl - 1) p pi pl nocase))
      else if pl = 0 then Some (sl = 0)
      else Option.bind (rdz p pi) (\<lambda>x.
        if x = 42 then
          Option.bind (skip_stars p pi pl) (\<lambda>(pi', pl').
            if pl' = 1 then Some True
            else pattern_match_length True s si sl p pi' pl' nocase)
        else
          Option.bind (match_one s si sl p pi pl nocase) (\<lambda>r.
            case r of
              None \<Rightarrow> Some False
            | Some (si', sl', pi', pl') \<Rightarrow>
                if sl' = 0 then
                  Option.bind (skip_trailing p (Suc pi') (pl' - 1)) (\<lambda>(_, pl''). Some (pl'' = 0))
                else pattern_match_length False s si' sl' p (Suc pi') (pl' - 1) nocase)))"

definition pattern_match :: "bytes \<Rightarrow> bytes \<Rightarrow> bool \<Rightarrow> bool option" where
  "pattern_match string pattern nocase =
     pattern_match_length False string 0 (int (length string)) pattern 0 (int (length pattern)) nocase"

section \<open>What the input checks accept\<close>

lemma rd_Some_iff: "rd buf i = Some c \<longleftrightarrow> i < length buf \<and> c = buf ! i"
  by (auto simp: rd_def)

lemma scan_nul_Some:
  "scan_nul buf i k = Some n \<Longrightarrow> n \<noteq> 0 \<Longrightarrow>
   i < n \<and> n \<le> i + k \<and> n < length buf \<and> buf ! n = 0 \<and> (\<forall>j. i < j \<longrightarrow> j < n \<longrightarrow> buf ! j \<noteq> 0)"
proof (induction buf i k rule: scan_nul.induct)
  case (2 buf i k)
  obtain c where c: "Suc i < length buf" "c = buf ! Suc i"
    "(if c = 0 then Some (Suc i) else scan_nul buf (Suc i) k) = Some n"
    using "2.prems"(1) by (auto simp: rd_Some_iff bind_eq_Some_conv)
  show ?case
  proof (cases "c = 0")
    case True
    then show ?thesis using c by auto
  next
    case False
    then have "scan_nul buf (Suc i) k = Some n" using c(3) by simp
    then have n: "Suc i < n \<and> n \<le> Suc i + k \<and> n < length buf \<and> buf ! n = 0 \<and>
        (\<forall>j. Suc i < j \<longrightarrow> j < n \<longrightarrow> buf ! j \<noteq> 0)"
      using "2.IH" [of c] "2.prems"(2) c False by (simp add: rd_Some_iff)
    moreover have "buf ! j \<noteq> 0" if "i < j" "j < n" for j
      using n that False c(2) by (cases "j = Suc i") auto
    ultimately show ?thesis by auto
  qed
qed simp

lemma scan_nul_total: "i + k < length buf \<Longrightarrow> \<exists>n. scan_nul buf i k = Some n"
  by (induction buf i k rule: scan_nul.induct) (auto simp: rd_def)

lemma scan_nul_at:
  "i + k \<ge> n \<Longrightarrow> i < n \<Longrightarrow> n < length buf \<Longrightarrow> buf ! n = 0 \<Longrightarrow> (\<And>j. i < j \<Longrightarrow> j < n \<Longrightarrow> buf ! j \<noteq> 0) \<Longrightarrow>
   scan_nul buf i k = Some n"
proof (induction buf i k rule: scan_nul.induct)
  case (2 buf i k)
  show ?case
  proof (cases "Suc i = n")
    case True
    then show ?thesis using 2 by (simp add: rd_def)
  next
    case False
    then have "buf ! Suc i \<noteq> 0" "scan_nul buf (Suc i) k = Some n"
      using "2.prems" by (auto intro!: "2.IH" simp: rd_def)
    then show ?thesis using 2 by (simp add: rd_def)
  qed
qed simp

lemma cstr_take:
  assumes "n < length buf" "buf ! n = 0" "\<And>j. j < n \<Longrightarrow> buf ! j \<noteq> 0"
  shows "cstr buf = Some (take n buf)"
proof -
  have "takeWhile (\<lambda>c. c \<noteq> 0) buf = take n buf"
    using assms by (intro takeWhile_eq_take_P_nth) auto
  then show ?thesis using assms nth_mem by (fastforce simp: cstr_def)
qed

lemma class_not_nul: "IS_ALPHANUM c \<or> IS_EXTRA3 c \<Longrightarrow> c \<noteq> 0"
  by (auto simp: IS_ALPHANUM_def IS_ALPHA_def IS_NUM_def IS_EXTRA3_def IS_EXTRA1_def IS_EXTRA2_def)

lemma checked_cstr:
  assumes "scan_nul buf 0 sz = Some n" "n \<noteq> 0" "buf ! 0 \<noteq> 0"
  shows "cstr buf = Some (take n buf) \<and> n \<le> sz \<and> n < length buf"
  using scan_nul_Some [OF assms(1,2)] assms(3) cstr_take [of n buf] by (metis add_0 gr0I)

lemma check_input_buffer1_string:
  assumes "check_input_buffer1 buf sz = Some n" "n \<noteq> 0"
  shows "cstr buf = Some (take n buf) \<and> n \<le> sz \<and> n < length buf \<and>
    list_all (\<lambda>c. IS_ALPHANUM c \<or> IS_EXTRA1 c) (take n buf)"
proof -
  have s: "scan_nul buf 0 sz = Some n" and l: "list_all (\<lambda>c. IS_ALPHANUM c \<or> IS_EXTRA1 c) (take n buf)"
    using assms by (auto simp: check_input_buffer1_def bind_eq_Some_conv split: if_splits)
  have "n < length buf" using scan_nul_Some [OF s assms(2)] by simp
  then have "IS_ALPHANUM (buf ! 0) \<or> IS_EXTRA3 (buf ! 0)"
    using l assms(2) by (auto simp: list_all_length IS_EXTRA3_def dest!: spec [of _ 0])
  then show ?thesis using checked_cstr [OF s assms(2)] class_not_nul l by blast
qed

lemma check_input_buffer2_string:
  assumes "check_input_buffer2 buf sz = Some n" "n \<noteq> 0"
  shows "cstr buf = Some (take n buf) \<and> n \<le> sz \<and> n < length buf"
proof -
  have s: "scan_nul buf 0 sz = Some n" and c: "IS_ALPHA (buf ! 0) \<or> buf ! 0 = 95 \<or> buf ! 0 = 46"
    using assms by (auto simp: check_input_buffer2_def bind_eq_Some_conv rd_Some_iff split: if_splits)
  have "buf ! 0 \<noteq> 0" using c by (auto simp: IS_ALPHA_def)
  then show ?thesis using checked_cstr [OF s assms(2)] by blast
qed

lemma check_input_buffer3_string:
  assumes "check_input_buffer3 buf sz = Some n" "n \<noteq> 0"
  shows "cstr buf = Some (take n buf) \<and> n \<le> sz \<and> n < length buf \<and>
    list_all (\<lambda>c. IS_ALPHANUM c \<or> IS_EXTRA3 c) (take n buf)"
proof -
  have s: "scan_nul buf 0 sz = Some n" and l: "list_all (\<lambda>c. IS_ALPHANUM c \<or> IS_EXTRA3 c) (take n buf)"
    using assms by (auto simp: check_input_buffer3_def bind_eq_Some_conv split: if_splits)
  have "n < length buf" using scan_nul_Some [OF s assms(2)] by simp
  then have "IS_ALPHANUM (buf ! 0) \<or> IS_EXTRA3 (buf ! 0)"
    using l assms(2) by (auto simp: list_all_length dest!: spec [of _ 0])
  then show ?thesis using checked_cstr [OF s assms(2)] class_not_nul l by blast
qed

text \<open>
  C35. Whatever one of the three input checks accepts is a non-empty C string that ends inside the
  memory it was read from and whose length is the returned one: the later \<open>strcmp\<close>,
  \<open>strlen\<close> and \<open>xstrdup\<close> of the field never read past it.
\<close>

theorem checked_input_is_string:
  assumes "check_input_buffer1 buf sz = Some n \<or> check_input_buffer2 buf sz = Some n \<or>
    check_input_buffer3 buf sz = Some n" and "n \<noteq> 0"
  shows "\<exists>str. cstr buf = Some str \<and> length str = n \<and> n \<le> sz \<and> n < length buf \<and> 0 \<notin> set str"
proof -
  have "cstr buf = Some (take n buf) \<and> n \<le> sz \<and> n < length buf"
    using assms check_input_buffer1_string check_input_buffer2_string check_input_buffer3_string
    by blast
  moreover from this have "0 \<notin> set (take n buf)"
    by (metis (mono_tags, lifting) cstr_def option.discI option.inject set_takeWhileD)
  ultimately show ?thesis by simp
qed

theorem checked_input_is_string_witness:
  "check_input_buffer2 [97, 45, 98, 0] 3 = Some 3 \<and>
   (\<exists>str. cstr [97, 45, 98, 0] = Some str \<and> length str = 3 \<and> (3::nat) \<le> 3 \<and>
     3 < length [97, 45, 98, 0 :: u8] \<and> 0 \<notin> set str)"
proof -
  have h: "check_input_buffer2 [97, 45, 98, 0] 3 = Some 3" by code_simp
  then show ?thesis using checked_input_is_string [of "[97, 45, 98, 0]" 3 3] by simp
qed

text \<open>
  The check looks one byte past the field: a name of \<open>size\<close> bytes followed by a zero byte is
  accepted with length \<open>size\<close>, so copying it with its terminator needs \<open>size + 1\<close> bytes; and
  \<open>check_input_buffer2\<close> never looks at the last byte of the name.
\<close>

lemma full_length_name_accepted:
  "check_input_buffer2 (replicate 64 97 @ [0]) 64 = Some 64 \<and>
   check_input_buffer2 [97, 7, 0] 64 = Some 2"
proof
  show "check_input_buffer2 (replicate 64 97 @ [0]) 64 = Some 64" by code_simp
  show "check_input_buffer2 [97, 7, 0] 64 = Some 2" by code_simp
qed

section \<open>Tags\<close>

text \<open>
  Two messages get the same tag only when both their counters and their times agree: the two
  halves of a tag do not overlap and nothing is lost.
\<close>

lemma make_message_tag_inject:
  "make_message_tag c t = make_message_tag c' t' \<longleftrightarrow> c = c' \<and> t = t'"
proof
  assume h: "make_message_tag c t = make_message_tag c' t'"
  have lo: "ucast (make_message_tag a b) = a" for a b
    by (rule bit_word_eqI) (auto simp: make_message_tag_def bit_simps)
  have hi: "ucast (drop_bit 32 (make_message_tag a b)) = b" for a b
    by (rule bit_word_eqI) (auto simp: make_message_tag_def bit_simps dest: bit_imp_le_length)
  show "c = c' \<and> t = t'" using h lo hi by metis
qed simp

section \<open>What the pattern matcher computes\<close>

text \<open>The intended meaning of a pattern of literals, \<open>?\<close> and \<open>*\<close>.\<close>

fun glob :: "bytes \<Rightarrow> bytes \<Rightarrow> bool" where
  "glob [] s \<longleftrightarrow> s = []"
| "glob (c # p) s \<longleftrightarrow>
     (if c = 42 then (\<exists>k \<in> set [0..<Suc (length s)]. glob p (drop k s))
      else (case s of [] \<Rightarrow> False | d # s' \<Rightarrow> (c = 63 \<or> c = d) \<and> glob p s'))"

definition simple_char :: "u8 \<Rightarrow> bool" where
  "simple_char c \<longleftrightarrow> c \<noteq> 0 \<and> c \<noteq> 42 \<and> c \<noteq> 91 \<and> c \<noteq> 92"

definition star_at_end :: "bytes \<Rightarrow> bool" where
  "star_at_end p \<longleftrightarrow> list_all simple_char p \<or> (p \<noteq> [] \<and> last p = 42 \<and> list_all simple_char (butlast p))"

lemma rdz_cases: "i \<le> length s \<Longrightarrow> rdz s i = Some (case drop i s of [] \<Rightarrow> 0 | c # _ \<Rightarrow> c)"
  by (cases "drop i s") (auto simp: rdz_def rd_def nth_append dest: hd_drop_conv_nth[symmetric])

lemma glob_star: "glob [42] s"
  by (simp add: Bex_def) (rule exI [of _ "length s"], simp)

lemma star_at_end_Cons:
  "star_at_end (c # p) \<longleftrightarrow> (c = 42 \<and> p = []) \<or> (simple_char c \<and> star_at_end p)"
  by (auto simp: star_at_end_def simple_char_def)

lemma skip_trailing_simple:
  assumes "star_at_end (drop pi p)" "pi \<le> length p"
  shows "\<exists>pi'. skip_trailing p pi (int (length p - pi)) =
    Some (pi', if glob (drop pi p) [] then 0 else int (length p - pi))"
proof (cases "drop pi p")
  case Nil
  then show ?thesis using assms by (subst skip_trailing.simps) (simp add: rdz_cases)
next
  case (Cons c q)
  have lt: "pi < length p" using Cons by (metis drop_all list.discI not_less)
  show ?thesis
  proof (cases "c = 42")
    case True
    then have q: "q = []" using assms(1) Cons by (simp add: star_at_end_Cons simple_char_def)
    then have "length (drop pi p) = 1" using Cons by simp
    then have "Suc pi = length p" by simp
    then show ?thesis using Cons True q assms(2)
      by (subst skip_trailing.simps, subst skip_trailing.simps) (simp add: rdz_cases)
  next
    case False
    then show ?thesis using Cons assms
      by (subst skip_trailing.simps) (simp add: rdz_cases)
  qed
qed

lemma pattern_match_length_glob:
  assumes "star_at_end (drop pi p)" "pi \<le> length p" "si \<le> length s" "0 \<notin> set s"
  shows "pattern_match_length False s si (int (length s - si)) p pi (int (length p - pi)) False
    = Some (glob (drop pi p) (drop si s))"
  using assms
proof (induction "length p - pi" arbitrary: pi si)
  case 0
  then have "pi = length p" by simp
  then show ?case using "0.prems" by (subst pattern_match_length.simps) simp
next
  case (Suc k)
  then obtain c q where cq: "drop pi p = c # q" by (cases "drop pi p") auto
  have lt: "pi < length p" using cq by (metis drop_all list.discI not_less)
  have dS: "drop (Suc pi) p = q" using cq lt by (metis Cons_nth_drop_Suc list.inject)
  show ?case
  proof (cases "c = 42")
    case True
    then have q: "q = []" using Suc.prems(1) cq by (simp add: star_at_end_Cons simple_char_def)
    then have l1: "length p - pi = 1" using cq by (metis One_nat_def length_Cons length_drop list.size(3))
    have "skip_stars p pi 1 = Some (pi, 1)"
      using q dS lt by (subst skip_stars.simps) (simp add: rdz_cases)
    then show ?thesis using True q cq l1 Suc.prems(2) glob_star
      by (subst pattern_match_length.simps) (simp add: rdz_cases del: glob.simps)
  next
    case False
    then have sc: "simple_char c" "star_at_end q" using Suc.prems(1) cq by (auto simp: star_at_end_Cons)
    show ?thesis
    proof (cases "drop si s")
      case Nil
      then show ?thesis using False sc cq lt Suc.prems
        by (subst pattern_match_length.simps)
          (auto simp: rdz_cases match_one_def simple_char_def char_eq_def)
    next
      case (Cons d t)
      have slt: "si < length s" using Cons by (metis drop_all list.discI not_less)
      have dt: "drop (Suc si) s = t" using Cons slt by (metis Cons_nth_drop_Suc list.inject)
      obtain n m where nm: "length s - si = Suc n" "length s - Suc si = n"
        "length p - pi = Suc m" "length p - Suc pi = m"
        using slt lt by (metis Suc_diff_Suc)
      have m: "match_one s si (int (Suc n)) p pi (int (Suc m)) False =
          Some (if c = 63 \<or> c = d then Some (Suc si, int n, pi, int (Suc m)) else None)"
        using False sc cq Suc.prems(2,3) Cons
        by (simp add: rdz_cases match_one_def simple_char_def char_eq_def)
      have sp: "star_at_end (drop (Suc pi) p)" using dS sc by simp
      have ih: "pattern_match_length False s (Suc si) (int n) p (Suc pi) (int m) False = Some (glob q t)"
        using Suc.hyps(1) [of "Suc pi" "Suc si"] Suc.hyps(2) sp dS dt lt slt Suc.prems(4) nm by simp
      obtain pi' where tr: "skip_trailing p (Suc pi) (int m) = Some (pi', if glob q [] then 0 else int m)"
        using skip_trailing_simple [OF sp] lt dS nm(4) by auto
      have z: "m = 0 \<Longrightarrow> glob q []" using dS nm(4) by simp
      have t0: "n = 0 \<longleftrightarrow> t = []" using dt nm(2) by auto
      have x: "rdz p pi = Some c" using cq Suc.prems(2) by (simp add: rdz_cases)
      show ?thesis
        unfolding nm using False m ih tr z t0 cq Cons x
        by (subst pattern_match_length.simps) auto
    qed
  qed
qed

text \<open>
  C36. For patterns of literals and \<open>?\<close>, with or without one \<open>*\<close> at the end, the matcher returns
  without a fault and computes the meaning of the pattern.
\<close>

theorem pattern_match_glob:
  assumes "star_at_end pattern" "0 \<notin> set topic"
  shows "pattern_match topic pattern False = Some (glob pattern topic)"
  using pattern_match_length_glob [of 0 pattern 0 topic] assms by (simp add: pattern_match_def)

theorem pattern_match_glob_witness:
  "star_at_end [97, 63, 42] \<and> (0::u8) \<notin> set [97, 98, 99] \<and>
   pattern_match [97, 98, 99] [97, 63, 42] False = Some (glob [97, 63, 42] [97, 98, 99])"
proof -
  have h: "star_at_end [97, 63, 42]" "(0::u8) \<notin> set [97, 98, 99]"
    by (simp_all add: star_at_end_def simple_char_def)
  show ?thesis using h pattern_match_glob [OF h] by blast
qed

definition plain_char :: "u8 \<Rightarrow> bool" where
  "plain_char c \<longleftrightarrow> simple_char c \<and> c \<noteq> 63"

lemma glob_plain: "list_all plain_char p \<Longrightarrow> glob p s \<longleftrightarrow> p = s"
  by (induction p arbitrary: s) (auto simp: plain_char_def simple_char_def split: list.splits)

lemma star_loop_suffix:
  assumes "list_all plain_char s" "list_all simple_char q" "si \<le> length s"
  shows "pattern_match_length True s si (int (length s - si)) (42 # q) 0 (int (Suc (length q))) False
    = Some (\<exists>k. si \<le> k \<and> k < length s \<and> drop k s = q)"
  using assms
proof (induction "length s - si" arbitrary: si)
  case 0
  then show ?case by (subst pattern_match_length.simps) auto
next
  case (Suc n)
  have lt: "si < length s" "length s - Suc si = n" "Suc si \<le> length s" using Suc.hyps(2) by auto
  have z: "0 \<notin> set (42 # q)" using assms(2) by (auto simp: simple_char_def list_all_iff)
  have pl: "list_all plain_char (drop si s)"
    using assms(1) by (auto simp: list_all_iff dest: in_set_dropD)
  then have "star_at_end (drop si s)" by (auto simp: star_at_end_def list_all_iff plain_char_def)
  from pattern_match_length_glob [OF this _ _ z, of "Suc 0"] Suc.prems(3)
  have call: "pattern_match_length False (42 # q) (Suc 0) (int (length q)) s si (int (length s - si)) False
      = Some (drop si s = q)"
    using glob_plain [OF pl] by simp
  have rec: "pattern_match_length True s (Suc si) (int n) (42 # q) 0 (int (Suc (length q))) False
      = Some (\<exists>k. Suc si \<le> k \<and> k < length s \<and> drop k s = q)"
    using Suc.hyps(1) [OF _ assms(1,2) lt(3)] lt(2) by simp
  have split: "(\<exists>k. si \<le> k \<and> k < length s \<and> drop k s = q) \<longleftrightarrow>
      drop si s = q \<or> (\<exists>k. Suc si \<le> k \<and> k < length s \<and> drop k s = q)"
    using lt(1) by (metis Suc_leI le_eq_less_or_eq Suc_le_lessD less_imp_le_nat)
  show ?case
    using call rec split Suc.hyps(2) [symmetric]
    by (subst pattern_match_length.simps) (auto simp: Suc.hyps(2) [symmetric])
qed



text \<open>
  The exchange of the arguments is visible: the pattern \<open>*b?\<close> does not match the topic \<open>abc\<close>,
  although its meaning says it does.
\<close>

lemma star_then_question_rejected:
  "pattern_match [97, 98, 99] [42, 98, 63] False = Some False \<and> glob [42, 98, 63] [97, 98, 99]"
  by (simp add: pattern_match_def pattern_match_length.simps skip_stars.simps skip_trailing.simps
      match_one_def char_eq_def rdz_def rd_def)

text \<open>
  C40. An unclosed class that ends in a backslash, which \<open>check_input_buffer3\<close> accepts as a
  pattern, makes the matcher read past the end of the pattern on every topic.
\<close>

theorem open_class_overrun:
  assumes "topic \<noteq> []" "0 \<notin> set topic"
  shows "check_input_buffer3 ([91, 92, 0] @ rest) 32 = Some 2 \<and> pattern_match topic [91, 92] False = None"
proof -
  obtain c t where t: "topic = c # t" using assms(1) by (cases topic) auto
  have "scan_nul (91 # 92 # 0 # rest) 0 32 = Some 2"
  proof (rule scan_nul_at)
    show "(91 # 92 # 0 # rest) ! j \<noteq> 0" if "0 < j" "j < 2" for j
      using that by (cases "j = 1") auto
  qed simp_all
  then have "check_input_buffer3 ([91, 92, 0] @ rest) 32 = Some 2"
    by (simp add: check_input_buffer3_def IS_EXTRA3_def IS_EXTRA2_def numeral_2_eq_2)
  moreover have "class_loop topic 0 [91, 92] 1 1 False False = None"
    by (subst class_loop.simps, subst class_loop.simps) (simp add: rdz_def rd_def t)
  ultimately show ?thesis
    by (simp add: pattern_match_def pattern_match_length.simps match_one_def rdz_def rd_def)
qed

theorem open_class_overrun_witness:
  "[97 :: u8] \<noteq> [] \<and> (0::u8) \<notin> set [97] \<and>
   check_input_buffer3 ([91, 92, 0] @ []) 32 = Some 2 \<and> pattern_match [97] [91, 92] False = None"
proof -
  have h: "[97 :: u8] \<noteq> []" "(0::u8) \<notin> set [97]" by simp_all
  show ?thesis using h open_class_overrun [OF h, of "[]"] by blast
qed

end
