(* ===== verification/State.thy ===== *)
theory State
  imports KeylistLib Utils
begin

text \<open>
  The structures of eagle.h, message.h, object.h, user.h and event.h, and the store that holds
  them. Objects, messages, queues, routes, channels, users and clients live in one typed store
  each, indexed by address; a freed structure is absent from its store, so using it afterwards
  is a fault. The lists of list.c and the keylists of keylist.c appear as the sequences and
  association lists they were shown to implement. The message queue of a queue is kept on
  pointers: it is not a well-formed doubly linked list at all times, and messages point into it.
\<close>

section \<open>Objects and messages\<close>

record object =
  odata :: bytes
  osize :: nat
  refcount :: u32

text \<open>
  \<open>data0\<close> and \<open>data1\<close> are \<open>data[0]\<close>, the node of the expiry list that holds the message, and
  \<open>data[1]\<close>, its queue node. A node of the expiry list is named by the message it holds: a message
  is in that list at most once.
\<close>

record message =
  mvalue :: addr
  tag :: u64
  confirm :: u32
  expiration :: u32
  data0 :: "addr option"
  data1 :: "addr option"

section \<open>Queues, routes, channels, users\<close>

record queue_t =
  qname :: bytes
  max_msg :: u32
  max_msg_size :: u32
  qflags :: u32
  qauto_delete :: bool
  force_push :: bool
  qround_robin :: bool
  queue :: "addr Queue"
  expire_messages :: "addr list"
  confirm_messages :: "addr list"
  declared_clients :: "addr list"
  subscribed_clients_msg :: "addr list"
  subscribed_clients_notify :: "addr list"
  qroutes :: "(bytes \<times> addr list) list"

record route_t =
  rname :: bytes
  rflags :: u32
  rauto_delete :: bool
  rround_robin :: bool
  keys :: "(bytes \<times> addr list) list"

record channel_t =
  chname :: bytes
  chflags :: u32
  chauto_delete :: bool
  chround_robin :: bool
  topics :: "(bytes \<times> addr list) list"
  patterns :: "(bytes \<times> addr list) list"

record eagle_user =
  uname :: bytes
  upassword :: bytes
  uperm :: u64

section \<open>Clients\<close>

text \<open>
  \<open>request\<close> and \<open>buffer\<close> are the whole allocated buffers, so \<open>length\<close> of the source is
  \<open>length (request c)\<close>. \<open>subscribed_topics\<close> maps a channel to the keylist nodes of that channel
  the client is in; such a node is named by its key, which is unique in the channel's keylist.
\<close>

record eagle_client =
  fd :: int
  perm :: u64
  request :: bytes
  pos :: nat
  noack :: u8
  offset :: nat
  buffer :: bytes
  bodylen :: nat
  nread :: nat
  responses :: "addr list"
  declared_queues :: "addr list"
  subscribed_queues :: "addr list"
  subscribed_topics :: "(addr \<times> bytes list) list"
  subscribed_patterns :: "(addr \<times> bytes list) list"
  sentlen :: nat
  last_action :: int

section \<open>The event loop\<close>

datatype file_handler = accept_tcp_handler | accept_unix_handler | read_request | send_response

record file_event =
  emask :: u32
  read_handler :: "file_handler option"
  write_handler :: "file_handler option"
  edata :: "addr option"

datatype epoll_op = EPOLL_CTL_ADD | EPOLL_CTL_MOD | EPOLL_CTL_DEL

text \<open>
  \<open>epoll_ctl\<close> is the system call: whether the kernel accepts the operation on the descriptor
  with the given mask. It is a parameter of the model. \<open>interest\<close> is what the kernel has been
  told to watch, the effect of the accepted calls.
\<close>

text \<open>The server has one timer, \<open>server_updater\<close>; no finalizer is ever installed.\<close>

datatype time_handler = server_updater

record time_event =
  tid :: int
  tsec :: int
  tms :: int
  thandler :: time_handler

record event_loop =
  maxfd :: int
  events :: "file_event list"
  time_event_id :: int
  time_events :: "time_event list"
  stop :: bool
  epoll_ctl :: "epoll_op \<Rightarrow> int \<Rightarrow> u32 \<Rightarrow> bool"
  interest :: "int \<rightharpoonup> u32"

section \<open>The server\<close>

text \<open>
  What the operating system and the allocator answer: the clocks, the resource figures of the
  statistics (the three \<open>float\<close>s as their bit patterns), the memory in use, whether the temporary
  file can be opened and renamed and how many bytes the disk takes, the process id \<open>fork\<close> returns,
  whether the background child has ended, the limit of open files \<open>getrlimit\<close> reports (if it does) and
  the ones \<open>setrlimit\<close> grants, and the garbage in the hash table of the compressor.
\<close>

record environment =
  time_NULL :: int
  mstime :: int
  used_cpu_sys :: u32
  used_cpu_user :: u32
  used_memory :: nat
  used_memory_rss :: nat
  fragmentation_ratio :: u32
  fopen_ok :: bool
  disk_space :: nat
  rename_ok :: bool
  fork_pid :: int
  child_ended :: bool
  nofile_limit :: "nat option"
  setrlimit_ok :: "nat \<Rightarrow> bool"
  stack_garbage :: "u32 \<Rightarrow> u32"

text \<open>
  \<open>storage_file\<close> is the content of the file \<open>server->storage\<close>, if it exists; \<open>child_pid\<close> is \<open>None\<close> for
  the \<open>-1\<close> of the source.
\<close>

record server =
  env :: environment
  loop :: event_loop
  clients :: "addr list"
  users :: "addr list"
  queues :: "addr list"
  routes :: "addr list"
  channels :: "addr list"
  now_time :: int
  now_timems :: int
  start_time :: int
  last_save :: int
  last_memcheck :: int
  nomemory :: bool
  msg_counter :: u32
  max_clients :: nat
  max_memory :: nat
  client_timeout :: int
  storage_timeout :: int
  child_pid :: "int option"
  shutdown :: bool
  storage_file :: "bytes option"
  object_mem :: "addr \<rightharpoonup> object"
  message_mem :: "addr \<rightharpoonup> message"
  queue_mem :: "addr \<rightharpoonup> queue_t"
  route_mem :: "addr \<rightharpoonup> route_t"
  channel_mem :: "addr \<rightharpoonup> channel_t"
  user_mem :: "addr \<rightharpoonup> eagle_user"
  client_mem :: "addr \<rightharpoonup> eagle_client"
  fresh :: addr

text \<open>Field updates through a pointer; they fault on a freed or null one.\<close>

definition upd_object :: "addr \<Rightarrow> (object \<Rightarrow> object) \<Rightarrow> server \<Rightarrow> server option" where
  "upd_object a f s = do { x \<leftarrow> object_mem s a; Some (s\<lparr>object_mem := (object_mem s)(a \<mapsto> f x)\<rparr>) }"

definition upd_message :: "addr \<Rightarrow> (message \<Rightarrow> message) \<Rightarrow> server \<Rightarrow> server option" where
  "upd_message a f s = do { x \<leftarrow> message_mem s a; Some (s\<lparr>message_mem := (message_mem s)(a \<mapsto> f x)\<rparr>) }"

definition upd_queue :: "addr \<Rightarrow> (queue_t \<Rightarrow> queue_t) \<Rightarrow> server \<Rightarrow> server option" where
  "upd_queue a f s = do { x \<leftarrow> queue_mem s a; Some (s\<lparr>queue_mem := (queue_mem s)(a \<mapsto> f x)\<rparr>) }"

definition upd_route :: "addr \<Rightarrow> (route_t \<Rightarrow> route_t) \<Rightarrow> server \<Rightarrow> server option" where
  "upd_route a f s = do { x \<leftarrow> route_mem s a; Some (s\<lparr>route_mem := (route_mem s)(a \<mapsto> f x)\<rparr>) }"

definition upd_channel :: "addr \<Rightarrow> (channel_t \<Rightarrow> channel_t) \<Rightarrow> server \<Rightarrow> server option" where
  "upd_channel a f s = do { x \<leftarrow> channel_mem s a; Some (s\<lparr>channel_mem := (channel_mem s)(a \<mapsto> f x)\<rparr>) }"

definition upd_user :: "addr \<Rightarrow> (eagle_user \<Rightarrow> eagle_user) \<Rightarrow> server \<Rightarrow> server option" where
  "upd_user a f s = do { x \<leftarrow> user_mem s a; Some (s\<lparr>user_mem := (user_mem s)(a \<mapsto> f x)\<rparr>) }"

definition upd_client :: "addr \<Rightarrow> (eagle_client \<Rightarrow> eagle_client) \<Rightarrow> server \<Rightarrow> server option" where
  "upd_client a f s = do { x \<leftarrow> client_mem s a; Some (s\<lparr>client_mem := (client_mem s)(a \<mapsto> f x)\<rparr>) }"

lemma upd_object_Some: "object_mem s a = Some x \<Longrightarrow> upd_object a f s = Some (s\<lparr>object_mem := (object_mem s)(a \<mapsto> f x)\<rparr>)"
  by (simp add: upd_object_def)

lemma upd_message_Some: "message_mem s a = Some x \<Longrightarrow> upd_message a f s = Some (s\<lparr>message_mem := (message_mem s)(a \<mapsto> f x)\<rparr>)"
  by (simp add: upd_message_def)

lemma upd_queue_Some: "queue_mem s a = Some x \<Longrightarrow> upd_queue a f s = Some (s\<lparr>queue_mem := (queue_mem s)(a \<mapsto> f x)\<rparr>)"
  by (simp add: upd_queue_def)

lemma upd_route_Some: "route_mem s a = Some x \<Longrightarrow> upd_route a f s = Some (s\<lparr>route_mem := (route_mem s)(a \<mapsto> f x)\<rparr>)"
  by (simp add: upd_route_def)

lemma upd_channel_Some: "channel_mem s a = Some x \<Longrightarrow> upd_channel a f s = Some (s\<lparr>channel_mem := (channel_mem s)(a \<mapsto> f x)\<rparr>)"
  by (simp add: upd_channel_def)

lemma upd_user_Some: "user_mem s a = Some x \<Longrightarrow> upd_user a f s = Some (s\<lparr>user_mem := (user_mem s)(a \<mapsto> f x)\<rparr>)"
  by (simp add: upd_user_def)

lemma upd_client_Some: "client_mem s a = Some x \<Longrightarrow> upd_client a f s = Some (s\<lparr>client_mem := (client_mem s)(a \<mapsto> f x)\<rparr>)"
  by (simp add: upd_client_def)

lemmas upd_Some = upd_object_Some upd_message_Some upd_queue_Some upd_route_Some upd_channel_Some
  upd_user_Some upd_client_Some

text \<open>A loop over a list whose iterator is advanced before the body: the nodes present at the
  start are visited in order (the bodies only ever delete the node they are at).\<close>

fun for_each :: "('a \<Rightarrow> 's \<Rightarrow> 's option) \<Rightarrow> 'a list \<Rightarrow> 's \<Rightarrow> 's option" where
  "for_each f [] s = Some s"
| "for_each f (x # xs) s = do { s' \<leftarrow> f x s; for_each f xs s' }"

text \<open>A search loop: the first element that satisfies a test which may itself fault.\<close>

fun find_by :: "('a \<Rightarrow> bool option) \<Rightarrow> 'a list \<Rightarrow> 'a option option" where
  "find_by P [] = Some None"
| "find_by P (x # xs) = do { b \<leftarrow> P x; if b then Some (Some x) else find_by P xs }"

lemma find_by_Some: "(\<And>x. x \<in> set xs \<Longrightarrow> P x = Some (p x)) \<Longrightarrow> find_by P xs = Some (find p xs)"
  by (induction xs) auto

lemma find_by_hit: "find_by P xs = Some (Some x) \<Longrightarrow> x \<in> set xs \<and> P x = Some True"
  by (induction xs) (auto simp: bind_eq_Some_conv split: if_splits)

lemma find_by_miss: "find_by P xs = Some None \<longleftrightarrow> (\<forall>x \<in> set xs. P x = Some False)"
  by (induction xs) (auto simp: bind_eq_Some_conv split: if_splits)

lemma for_each_append: "for_each f (xs @ ys) s = do { s' \<leftarrow> for_each f xs s; for_each f ys s' }"
proof (induction xs arbitrary: s)
  case (Cons x xs)
  then show ?case by (cases "f x s") simp_all
qed simp

section \<open>Strings and buffers\<close>

text \<open>\<open>memcpy(dst->name, src, strlenz(src))\<close> into a \<open>char name[n]\<close>: a fault when it does not fit.\<close>

definition copy_name :: "nat \<Rightarrow> bytes \<Rightarrow> bytes option" where
  "copy_name n str = (if length str < n then Some str else None)"

text \<open>\<open>memcpy(buf + i, data, n)\<close> into an object of \<open>length buf\<close> bytes.\<close>

definition put :: "bytes \<Rightarrow> nat \<Rightarrow> bytes \<Rightarrow> bytes option" where
  "put buf i data = (if i + length data \<le> length buf
     then Some (take i buf @ data @ drop (i + length data) buf) else None)"

text \<open>Integers in memory are little-endian and fields are packed.\<close>

definition le16 :: "u16 \<Rightarrow> bytes" where
  "le16 w = [ucast w, ucast (drop_bit 8 w)]"

definition le32 :: "u32 \<Rightarrow> bytes" where
  "le32 w = [ucast w, ucast (drop_bit 8 w), ucast (drop_bit 16 w), ucast (drop_bit 24 w)]"

definition le64 :: "u64 \<Rightarrow> bytes" where
  "le64 w = le32 (ucast w) @ le32 (ucast (drop_bit 32 w))"

definition rd16 :: "bytes \<Rightarrow> nat \<Rightarrow> u16 option" where
  "rd16 buf i = do { a \<leftarrow> rd buf i; b \<leftarrow> rd buf (i + 1); Some (ucast a OR push_bit 8 (ucast b)) }"

definition rd32 :: "bytes \<Rightarrow> nat \<Rightarrow> u32 option" where
  "rd32 buf i = do {
     a \<leftarrow> rd buf i; b \<leftarrow> rd buf (i + 1); c \<leftarrow> rd buf (i + 2); d \<leftarrow> rd buf (i + 3);
     Some (ucast a OR push_bit 8 (ucast b) OR push_bit 16 (ucast c) OR push_bit 24 (ucast d)) }"

definition rd64 :: "bytes \<Rightarrow> nat \<Rightarrow> u64 option" where
  "rd64 buf i = do { lo \<leftarrow> rd32 buf i; hi \<leftarrow> rd32 buf (i + 4);
     Some (ucast lo OR push_bit 32 (ucast hi)) }"

lemma length_le [simp]: "length (le16 a) = 2" "length (le32 b) = 4" "length (le64 c) = 8"
  by (simp_all add: le16_def le32_def le64_def)

lemma rd_append: "rd (xs @ ys) i = (if i < length xs then rd xs i else rd ys (i - length xs))"
  by (auto simp: rd_def nth_append)

lemma rd32_le32: "rd32 (xs @ le32 w @ ys) (length xs) = Some w"
proof -
  have "ucast (ucast w :: u8) OR push_bit 8 (ucast (ucast (drop_bit 8 w) :: u8)) OR
      push_bit 16 (ucast (ucast (drop_bit 16 w) :: u8)) OR
      push_bit 24 (ucast (ucast (drop_bit 24 w) :: u8)) = w"
  proof (rule bit_word_eqI)
    fix n assume "n < LENGTH(32)"
    then consider "n < 8" | "8 \<le> n" "n < 16" | "16 \<le> n" "n < 24" | "24 \<le> n" "n < 32" by fastforce
    then show "bit (ucast (ucast w :: u8) OR push_bit 8 (ucast (ucast (drop_bit 8 w) :: u8)) OR
      push_bit 16 (ucast (ucast (drop_bit 16 w) :: u8)) OR
      push_bit 24 (ucast (ucast (drop_bit 24 w) :: u8)) :: u32) n = bit w n"
      by cases (auto simp: bit_simps)
  qed
  then show ?thesis by (simp add: rd32_def rd_append le32_def rd_def nth_append)
qed

lemma rd64_le64: "rd64 (le64 w @ ys) 0 = Some w"
proof -
  have "(ucast (ucast w :: u32) :: u64) OR push_bit 32 (ucast (ucast (drop_bit 32 w) :: u32)) = w"
    by (rule bit_word_eqI) (auto simp: bit_simps)
  then show ?thesis
    using rd32_le32 [of "[]" "ucast w" "le32 (ucast (drop_bit 32 w)) @ ys"]
      rd32_le32 [of "le32 (ucast w)" "ucast (drop_bit 32 w)" ys]
    by (simp add: rd64_def le64_def)
qed

end
