(* ===== verification/Objects.thy ===== *)
theory Objects
  imports State
begin

text \<open>
  src/object.c and src/message.c: reference-counted byte strings and the messages that carry
  them. The count is an \<open>unsigned int\<close>: it wraps.
\<close>

section \<open>Objects\<close>

definition create_object :: "bytes \<Rightarrow> nat \<Rightarrow> server \<Rightarrow> server \<times> addr" where
  "create_object ptr sz s = (let a = fresh s in
     (s\<lparr>object_mem := (object_mem s)(a \<mapsto> \<lparr>odata = ptr, osize = sz, refcount = 1\<rparr>), fresh := Suc a\<rparr>, a))"

text \<open>\<open>create_dup_object\<close> copies \<open>size\<close> bytes: the source must have that many.\<close>

definition create_dup_object :: "bytes \<Rightarrow> nat \<Rightarrow> server \<Rightarrow> (server \<times> addr) option" where
  "create_dup_object ptr sz s =
     (if sz \<le> length ptr then Some (create_object (take sz ptr) sz s) else None)"

definition release_object :: "addr \<Rightarrow> server \<Rightarrow> server option" where
  "release_object a s = do { x \<leftarrow> object_mem s a; Some (s\<lparr>object_mem := (object_mem s)(a := None)\<rparr>) }"

definition increment_references_count :: "addr \<Rightarrow> server \<Rightarrow> server option" where
  "increment_references_count a s = upd_object a (\<lambda>x. x\<lparr>refcount := refcount x + 1\<rparr>) s"

definition decrement_references_count :: "addr \<Rightarrow> server \<Rightarrow> server option" where
  "decrement_references_count a s = do {
     x \<leftarrow> object_mem s a;
     if refcount x \<le> 1 then release_object a s
     else upd_object a (\<lambda>x. x\<lparr>refcount := refcount x - 1\<rparr>) s }"

text \<open>\<open>EG_OBJECT_RESET_REFCOUNT\<close>.\<close>

definition EG_OBJECT_RESET_REFCOUNT :: "addr \<Rightarrow> server \<Rightarrow> server option" where
  "EG_OBJECT_RESET_REFCOUNT a s = upd_object a (\<lambda>x. x\<lparr>refcount := 0\<rparr>) s"

definition free_object_list_handler :: "addr \<Rightarrow> server \<Rightarrow> server option" where
  "free_object_list_handler = decrement_references_count"

section \<open>Messages\<close>

definition create_message :: "addr \<Rightarrow> u64 \<Rightarrow> u32 \<Rightarrow> server \<Rightarrow> server \<times> addr" where
  "create_message data t ex s = (let a = fresh s in
     (s\<lparr>message_mem := (message_mem s)(a \<mapsto> \<lparr>mvalue = data, tag = t, confirm = 0, expiration = ex,
          data0 = None, data1 = None\<rparr>), fresh := Suc a\<rparr>, a))"

definition release_message :: "addr \<Rightarrow> server \<Rightarrow> server option" where
  "release_message a s = do {
     m \<leftarrow> message_mem s a;
     s \<leftarrow> decrement_references_count (mvalue m) s;
     Some (s\<lparr>message_mem := (message_mem s)(a := None)\<rparr>) }"

definition free_message_list_handler :: "addr \<Rightarrow> server \<Rightarrow> server option" where
  "free_message_list_handler = release_message"

text \<open>\<open>EG_MESSAGE_SIZE\<close>: the size of the object behind the message.\<close>

definition EG_MESSAGE_SIZE :: "server \<Rightarrow> addr \<Rightarrow> nat option" where
  "EG_MESSAGE_SIZE s a = do { m \<leftarrow> message_mem s a; x \<leftarrow> object_mem s (mvalue m); Some (osize x) }"

section \<open>Reference counting\<close>

text \<open>\<open>take_refs n\<close> and \<open>drop_refs n\<close>: \<open>n\<close> owners appear, \<open>n\<close> owners go.\<close>

fun take_refs :: "nat \<Rightarrow> addr \<Rightarrow> server \<Rightarrow> server option" where
  "take_refs 0 a s = Some s"
| "take_refs (Suc n) a s = do { s \<leftarrow> increment_references_count a s; take_refs n a s }"

fun drop_refs :: "nat \<Rightarrow> addr \<Rightarrow> server \<Rightarrow> server option" where
  "drop_refs 0 a s = Some s"
| "drop_refs (Suc n) a s = do { s \<leftarrow> decrement_references_count a s; drop_refs n a s }"

lemma take_refs_count:
  "object_mem s a = Some x \<Longrightarrow> take_refs n a s =
     Some (s\<lparr>object_mem := (object_mem s)(a \<mapsto> x\<lparr>refcount := refcount x + of_nat n\<rparr>)\<rparr>)"
proof (induction n arbitrary: s x)
  case 0
  then show ?case by (simp add: fun_upd_idem)
next
  case (Suc n)
  let ?y = "x\<lparr>refcount := refcount x + 1\<rparr>"
  let ?s = "s\<lparr>object_mem := (object_mem s)(a \<mapsto> ?y)\<rparr>"
  have "increment_references_count a s = Some ?s"
    using Suc.prems by (simp add: increment_references_count_def upd_object_def)
  then show ?case using Suc.IH [of ?s ?y] by (simp add: add.assoc fun_upd_def cong: if_cong)
qed

lemma drop_refs_count:
  "object_mem s a = Some x \<Longrightarrow> n < unat (refcount x) \<Longrightarrow> drop_refs n a s =
     Some (s\<lparr>object_mem := (object_mem s)(a \<mapsto> x\<lparr>refcount := refcount x - of_nat n\<rparr>)\<rparr>)"
proof (induction n arbitrary: s x)
  case 0
  then show ?case by (simp add: fun_upd_idem)
next
  case (Suc n)
  have gt: "\<not> refcount x \<le> 1" using Suc.prems(2) by (simp add: word_le_nat_alt)
  have "unat (refcount x - 1) = unat (refcount x) - 1"
    using gt by (simp add: unat_sub word_le_nat_alt)
  then show ?case
    using Suc gt
    by (simp add: decrement_references_count_def upd_object_def diff_diff_add fun_upd_def cong: if_cong)
qed

lemma drop_refs_add: "drop_refs (n + m) a s = do { s \<leftarrow> drop_refs n a s; drop_refs m a s }"
proof (induction n arbitrary: s)
  case (Suc n)
  then show ?case by (cases "decrement_references_count a s") simp_all
qed simp

lemma drop_refs_last:
  assumes "object_mem s a = Some x" "unat (refcount x) = Suc n"
  shows "drop_refs (Suc n) a s = Some (s\<lparr>object_mem := (object_mem s)(a := None)\<rparr>)"
proof -
  from drop_refs_add [of n 1 a s] have "drop_refs (Suc n) a s = do { s \<leftarrow> drop_refs n a s; drop_refs 1 a s }" by simp
  moreover have "refcount x - of_nat n = 1"
    using assms(2) by (metis add_diff_cancel_right' of_nat_Suc of_nat_unat ucast_id)
  ultimately show ?thesis
    using drop_refs_count [OF assms(1), of n] assms
    by (simp add: decrement_references_count_def release_object_def)
qed

text \<open>
  C13. An object lives exactly as long as it has owners. Starting from an object with one
  owner, \<open>n\<close> further owners keep it alive through any \<open>n\<close> releases, with its bytes untouched;
  one more release frees it, and a release after that is a use of freed memory. The count
  is 32 bits wide: the claim is for fewer than \<open>2 ^ 32 - 1\<close> owners.
\<close>

theorem object_refcount:
  assumes "object_mem s a = Some x" "refcount x = 1" "Suc n < 2 ^ 32"
  shows "(do { s' \<leftarrow> take_refs n a s; drop_refs n a s' }) = Some s \<and>
    (do { s' \<leftarrow> take_refs n a s; drop_refs (Suc n) a s' }) = Some (s\<lparr>object_mem := (object_mem s)(a := None)\<rparr>) \<and>
    (do { s' \<leftarrow> take_refs n a s; drop_refs (Suc (Suc n)) a s' }) = None"
proof -
  let ?x = "x\<lparr>refcount := 1 + of_nat n\<rparr>"
  let ?s = "s\<lparr>object_mem := (object_mem s)(a \<mapsto> ?x)\<rparr>"
  have t: "take_refs n a s = Some ?s" using take_refs_count [OF assms(1), of n] assms(2) by simp
  have a: "object_mem ?s a = Some ?x" by simp
  have r: "unat (refcount ?x) = Suc n"
    using assms(3) unat_of_nat32 [of "Suc n"] by simp
  have "x\<lparr>refcount := 1\<rparr> = x" using assms(2) by (cases x) simp
  then have "drop_refs n a ?s = Some s"
    using drop_refs_count [OF a, of n] r assms(1) by (simp add: fun_upd_idem)
  moreover have f: "drop_refs (Suc n) a ?s = Some (s\<lparr>object_mem := (object_mem s)(a := None)\<rparr>)"
    using drop_refs_last [OF a r] by simp
  moreover have "drop_refs (Suc n + 1) a ?s = None"
    unfolding drop_refs_add f by (simp add: decrement_references_count_def)
  ultimately show ?thesis using t by simp
qed

text \<open>The object behind three owners, released four times.\<close>

theorem object_refcount_witness:
  "\<exists>s :: server. object_mem s 7 = Some \<lparr>odata = [1, 2], osize = 2, refcount = 1\<rparr> \<and>
    (do { s' \<leftarrow> take_refs 3 7 s; drop_refs (Suc 3) 7 s' }) = Some (s\<lparr>object_mem := (object_mem s)(7 := None)\<rparr>)"
proof -
  fix s0 :: server
  let ?s = "s0\<lparr>object_mem := [7 \<mapsto> \<lparr>odata = [1, 2], osize = 2, refcount = 1\<rparr>]\<rparr>"
  have "object_mem ?s 7 = Some \<lparr>odata = [1, 2], osize = 2, refcount = 1\<rparr>" by simp
  moreover from object_refcount [OF this, of 3]
  have "(do { s' \<leftarrow> take_refs 3 7 ?s; drop_refs (Suc 3) 7 s' }) = Some (?s\<lparr>object_mem := (object_mem ?s)(7 := None)\<rparr>)"
    by (simp del: take_refs.simps drop_refs.simps)
  ultimately show ?thesis by blast
qed

end
