(* ===== verification/Protocol.thy ===== *)
theory Protocol
  imports Objects
begin

text \<open>
  src/protocol.h, the permission bits of src/user.h and the header writers of src/handlers.c: the
  command and status codes, the flag bits, and the packed request and response structures. A
  structure is the list of its fields with their sizes, in order and without padding
  (\<open>#pragma pack(push, 1)\<close>); \<open>offsetof\<close> and \<open>sizeof\<close> are computed from it.
\<close>

section \<open>Codes\<close>

datatype ProtocolCommand =
    EG_PROTOCOL_CMD_AUTH | EG_PROTOCOL_CMD_PING | EG_PROTOCOL_CMD_STAT | EG_PROTOCOL_CMD_SAVE
    | EG_PROTOCOL_CMD_FLUSH | EG_PROTOCOL_CMD_DISCONNECT | EG_PROTOCOL_CMD_USER_CREATE
    | EG_PROTOCOL_CMD_USER_LIST | EG_PROTOCOL_CMD_USER_RENAME | EG_PROTOCOL_CMD_USER_SET_PERM
    | EG_PROTOCOL_CMD_USER_DELETE | EG_PROTOCOL_CMD_QUEUE_CREATE | EG_PROTOCOL_CMD_QUEUE_DECLARE
    | EG_PROTOCOL_CMD_QUEUE_EXIST | EG_PROTOCOL_CMD_QUEUE_LIST | EG_PROTOCOL_CMD_QUEUE_RENAME
    | EG_PROTOCOL_CMD_QUEUE_SIZE | EG_PROTOCOL_CMD_QUEUE_PUSH | EG_PROTOCOL_CMD_QUEUE_GET
    | EG_PROTOCOL_CMD_QUEUE_POP | EG_PROTOCOL_CMD_QUEUE_CONFIRM | EG_PROTOCOL_CMD_QUEUE_SUBSCRIBE
    | EG_PROTOCOL_CMD_QUEUE_UNSUBSCRIBE | EG_PROTOCOL_CMD_QUEUE_PURGE | EG_PROTOCOL_CMD_QUEUE_DELETE
    | EG_PROTOCOL_CMD_ROUTE_CREATE | EG_PROTOCOL_CMD_ROUTE_EXIST | EG_PROTOCOL_CMD_ROUTE_LIST
    | EG_PROTOCOL_CMD_ROUTE_KEYS | EG_PROTOCOL_CMD_ROUTE_RENAME | EG_PROTOCOL_CMD_ROUTE_BIND
    | EG_PROTOCOL_CMD_ROUTE_UNBIND | EG_PROTOCOL_CMD_ROUTE_PUSH | EG_PROTOCOL_CMD_ROUTE_DELETE
    | EG_PROTOCOL_CMD_CHANNEL_CREATE | EG_PROTOCOL_CMD_CHANNEL_EXIST | EG_PROTOCOL_CMD_CHANNEL_LIST
    | EG_PROTOCOL_CMD_CHANNEL_RENAME | EG_PROTOCOL_CMD_CHANNEL_PUBLISH
    | EG_PROTOCOL_CMD_CHANNEL_SUBSCRIBE | EG_PROTOCOL_CMD_CHANNEL_PSUBSCRIBE
    | EG_PROTOCOL_CMD_CHANNEL_UNSUBSCRIBE | EG_PROTOCOL_CMD_CHANNEL_PUNSUBSCRIBE
    | EG_PROTOCOL_CMD_CHANNEL_DELETE

fun cmd_code :: "ProtocolCommand \<Rightarrow> u8" where
  "cmd_code EG_PROTOCOL_CMD_AUTH = 10"
| "cmd_code EG_PROTOCOL_CMD_PING = 11"
| "cmd_code EG_PROTOCOL_CMD_STAT = 12"
| "cmd_code EG_PROTOCOL_CMD_SAVE = 13"
| "cmd_code EG_PROTOCOL_CMD_FLUSH = 14"
| "cmd_code EG_PROTOCOL_CMD_DISCONNECT = 15"
| "cmd_code EG_PROTOCOL_CMD_USER_CREATE = 30"
| "cmd_code EG_PROTOCOL_CMD_USER_LIST = 31"
| "cmd_code EG_PROTOCOL_CMD_USER_RENAME = 32"
| "cmd_code EG_PROTOCOL_CMD_USER_SET_PERM = 33"
| "cmd_code EG_PROTOCOL_CMD_USER_DELETE = 34"
| "cmd_code EG_PROTOCOL_CMD_QUEUE_CREATE = 35"
| "cmd_code EG_PROTOCOL_CMD_QUEUE_DECLARE = 36"
| "cmd_code EG_PROTOCOL_CMD_QUEUE_EXIST = 37"
| "cmd_code EG_PROTOCOL_CMD_QUEUE_LIST = 38"
| "cmd_code EG_PROTOCOL_CMD_QUEUE_RENAME = 39"
| "cmd_code EG_PROTOCOL_CMD_QUEUE_SIZE = 40"
| "cmd_code EG_PROTOCOL_CMD_QUEUE_PUSH = 41"
| "cmd_code EG_PROTOCOL_CMD_QUEUE_GET = 42"
| "cmd_code EG_PROTOCOL_CMD_QUEUE_POP = 43"
| "cmd_code EG_PROTOCOL_CMD_QUEUE_CONFIRM = 44"
| "cmd_code EG_PROTOCOL_CMD_QUEUE_SUBSCRIBE = 45"
| "cmd_code EG_PROTOCOL_CMD_QUEUE_UNSUBSCRIBE = 46"
| "cmd_code EG_PROTOCOL_CMD_QUEUE_PURGE = 47"
| "cmd_code EG_PROTOCOL_CMD_QUEUE_DELETE = 48"
| "cmd_code EG_PROTOCOL_CMD_ROUTE_CREATE = 49"
| "cmd_code EG_PROTOCOL_CMD_ROUTE_EXIST = 50"
| "cmd_code EG_PROTOCOL_CMD_ROUTE_LIST = 51"
| "cmd_code EG_PROTOCOL_CMD_ROUTE_KEYS = 52"
| "cmd_code EG_PROTOCOL_CMD_ROUTE_RENAME = 53"
| "cmd_code EG_PROTOCOL_CMD_ROUTE_BIND = 54"
| "cmd_code EG_PROTOCOL_CMD_ROUTE_UNBIND = 55"
| "cmd_code EG_PROTOCOL_CMD_ROUTE_PUSH = 56"
| "cmd_code EG_PROTOCOL_CMD_ROUTE_DELETE = 57"
| "cmd_code EG_PROTOCOL_CMD_CHANNEL_CREATE = 58"
| "cmd_code EG_PROTOCOL_CMD_CHANNEL_EXIST = 59"
| "cmd_code EG_PROTOCOL_CMD_CHANNEL_LIST = 60"
| "cmd_code EG_PROTOCOL_CMD_CHANNEL_RENAME = 61"
| "cmd_code EG_PROTOCOL_CMD_CHANNEL_PUBLISH = 62"
| "cmd_code EG_PROTOCOL_CMD_CHANNEL_SUBSCRIBE = 63"
| "cmd_code EG_PROTOCOL_CMD_CHANNEL_PSUBSCRIBE = 64"
| "cmd_code EG_PROTOCOL_CMD_CHANNEL_UNSUBSCRIBE = 65"
| "cmd_code EG_PROTOCOL_CMD_CHANNEL_PUNSUBSCRIBE = 66"
| "cmd_code EG_PROTOCOL_CMD_CHANNEL_DELETE = 67"

definition all_commands :: "ProtocolCommand list" where
  "all_commands = [EG_PROTOCOL_CMD_AUTH, EG_PROTOCOL_CMD_PING, EG_PROTOCOL_CMD_STAT, EG_PROTOCOL_CMD_SAVE
    , EG_PROTOCOL_CMD_FLUSH, EG_PROTOCOL_CMD_DISCONNECT, EG_PROTOCOL_CMD_USER_CREATE
    , EG_PROTOCOL_CMD_USER_LIST, EG_PROTOCOL_CMD_USER_RENAME, EG_PROTOCOL_CMD_USER_SET_PERM
    , EG_PROTOCOL_CMD_USER_DELETE, EG_PROTOCOL_CMD_QUEUE_CREATE, EG_PROTOCOL_CMD_QUEUE_DECLARE
    , EG_PROTOCOL_CMD_QUEUE_EXIST, EG_PROTOCOL_CMD_QUEUE_LIST, EG_PROTOCOL_CMD_QUEUE_RENAME
    , EG_PROTOCOL_CMD_QUEUE_SIZE, EG_PROTOCOL_CMD_QUEUE_PUSH, EG_PROTOCOL_CMD_QUEUE_GET
    , EG_PROTOCOL_CMD_QUEUE_POP, EG_PROTOCOL_CMD_QUEUE_CONFIRM, EG_PROTOCOL_CMD_QUEUE_SUBSCRIBE
    , EG_PROTOCOL_CMD_QUEUE_UNSUBSCRIBE, EG_PROTOCOL_CMD_QUEUE_PURGE, EG_PROTOCOL_CMD_QUEUE_DELETE
    , EG_PROTOCOL_CMD_ROUTE_CREATE, EG_PROTOCOL_CMD_ROUTE_EXIST, EG_PROTOCOL_CMD_ROUTE_LIST
    , EG_PROTOCOL_CMD_ROUTE_KEYS, EG_PROTOCOL_CMD_ROUTE_RENAME, EG_PROTOCOL_CMD_ROUTE_BIND
    , EG_PROTOCOL_CMD_ROUTE_UNBIND, EG_PROTOCOL_CMD_ROUTE_PUSH, EG_PROTOCOL_CMD_ROUTE_DELETE
    , EG_PROTOCOL_CMD_CHANNEL_CREATE, EG_PROTOCOL_CMD_CHANNEL_EXIST, EG_PROTOCOL_CMD_CHANNEL_LIST
    , EG_PROTOCOL_CMD_CHANNEL_RENAME, EG_PROTOCOL_CMD_CHANNEL_PUBLISH
    , EG_PROTOCOL_CMD_CHANNEL_SUBSCRIBE, EG_PROTOCOL_CMD_CHANNEL_PSUBSCRIBE
    , EG_PROTOCOL_CMD_CHANNEL_UNSUBSCRIBE, EG_PROTOCOL_CMD_CHANNEL_PUNSUBSCRIBE
    , EG_PROTOCOL_CMD_CHANNEL_DELETE]"

text \<open>The command a request names, when its code is one of the table.\<close>

definition command_of :: "u8 \<Rightarrow> ProtocolCommand option" where
  "command_of b = find (\<lambda>c. cmd_code c = b) all_commands"

datatype ProtocolResponseStatus =
    EG_PROTOCOL_STATUS_SUCCESS | EG_PROTOCOL_STATUS_ERROR | EG_PROTOCOL_STATUS_ERROR_PACKET
    | EG_PROTOCOL_STATUS_ERROR_COMMAND | EG_PROTOCOL_STATUS_ERROR_ACCESS
    | EG_PROTOCOL_STATUS_ERROR_MEMORY | EG_PROTOCOL_STATUS_ERROR_VALUE
    | EG_PROTOCOL_STATUS_ERROR_NOT_DECLARED | EG_PROTOCOL_STATUS_ERROR_NOT_FOUND
    | EG_PROTOCOL_STATUS_ERROR_NO_DATA

fun status_code :: "ProtocolResponseStatus \<Rightarrow> u8" where
  "status_code EG_PROTOCOL_STATUS_SUCCESS = 1"
| "status_code EG_PROTOCOL_STATUS_ERROR = 2"
| "status_code EG_PROTOCOL_STATUS_ERROR_PACKET = 3"
| "status_code EG_PROTOCOL_STATUS_ERROR_COMMAND = 4"
| "status_code EG_PROTOCOL_STATUS_ERROR_ACCESS = 5"
| "status_code EG_PROTOCOL_STATUS_ERROR_MEMORY = 6"
| "status_code EG_PROTOCOL_STATUS_ERROR_VALUE = 7"
| "status_code EG_PROTOCOL_STATUS_ERROR_NOT_DECLARED = 8"
| "status_code EG_PROTOCOL_STATUS_ERROR_NOT_FOUND = 9"
| "status_code EG_PROTOCOL_STATUS_ERROR_NO_DATA = 10"

datatype ProtocolEventType = EG_PROTOCOL_EVENT_NOTIFY | EG_PROTOCOL_EVENT_MESSAGE

fun event_code :: "ProtocolEventType \<Rightarrow> u8" where
  "event_code EG_PROTOCOL_EVENT_NOTIFY = 1"
| "event_code EG_PROTOCOL_EVENT_MESSAGE = 2"

definition EG_PROTOCOL_REQ :: u16 where "EG_PROTOCOL_REQ = 0x70"
definition EG_PROTOCOL_RES :: u16 where "EG_PROTOCOL_RES = 0x80"
definition EG_PROTOCOL_EVENT :: u16 where "EG_PROTOCOL_EVENT = 0x90"

section \<open>Flags and permissions\<close>

definition EG_FLUSH_USER_FLAG :: nat where "EG_FLUSH_USER_FLAG = 0"
definition EG_FLUSH_QUEUE_FLAG :: nat where "EG_FLUSH_QUEUE_FLAG = 1"
definition EG_FLUSH_ROUTE_FLAG :: nat where "EG_FLUSH_ROUTE_FLAG = 2"
definition EG_FLUSH_CHANNEL_FLAG :: nat where "EG_FLUSH_CHANNEL_FLAG = 3"
definition EG_QUEUE_AUTODELETE_FLAG :: nat where "EG_QUEUE_AUTODELETE_FLAG = 0"
definition EG_QUEUE_FORCE_PUSH_FLAG :: nat where "EG_QUEUE_FORCE_PUSH_FLAG = 1"
definition EG_QUEUE_ROUND_ROBIN_FLAG :: nat where "EG_QUEUE_ROUND_ROBIN_FLAG = 2"
definition EG_QUEUE_DURABLE_FLAG :: nat where "EG_QUEUE_DURABLE_FLAG = 3"
definition EG_QUEUE_CLIENT_NOTIFY_FLAG :: nat where "EG_QUEUE_CLIENT_NOTIFY_FLAG = 0"
definition EG_ROUTE_AUTODELETE_FLAG :: nat where "EG_ROUTE_AUTODELETE_FLAG = 0"
definition EG_ROUTE_ROUND_ROBIN_FLAG :: nat where "EG_ROUTE_ROUND_ROBIN_FLAG = 1"
definition EG_ROUTE_DURABLE_FLAG :: nat where "EG_ROUTE_DURABLE_FLAG = 2"
definition EG_CHANNEL_AUTODELETE_FLAG :: nat where "EG_CHANNEL_AUTODELETE_FLAG = 0"
definition EG_CHANNEL_ROUND_ROBIN_FLAG :: nat where "EG_CHANNEL_ROUND_ROBIN_FLAG = 1"
definition EG_CHANNEL_DURABLE_FLAG :: nat where "EG_CHANNEL_DURABLE_FLAG = 2"

lemmas flag_defs =
  EG_FLUSH_USER_FLAG_def EG_FLUSH_QUEUE_FLAG_def EG_FLUSH_ROUTE_FLAG_def EG_FLUSH_CHANNEL_FLAG_def
  EG_QUEUE_AUTODELETE_FLAG_def EG_QUEUE_FORCE_PUSH_FLAG_def EG_QUEUE_ROUND_ROBIN_FLAG_def
  EG_QUEUE_DURABLE_FLAG_def EG_QUEUE_CLIENT_NOTIFY_FLAG_def EG_ROUTE_AUTODELETE_FLAG_def
  EG_ROUTE_ROUND_ROBIN_FLAG_def EG_ROUTE_DURABLE_FLAG_def EG_CHANNEL_AUTODELETE_FLAG_def
  EG_CHANNEL_ROUND_ROBIN_FLAG_def EG_CHANNEL_DURABLE_FLAG_def

datatype Permission =
    EG_USER_QUEUE_PERM | EG_USER_ROUTE_PERM | EG_USER_CHANNEL_PERM | EG_USER_RESV3_PERM
    | EG_USER_RESV4_PERM | EG_USER_ADMIN_PERM | EG_USER_NOT_CHANGE_PERM | EG_USER_QUEUE_CREATE_PERM
    | EG_USER_QUEUE_DECLARE_PERM | EG_USER_QUEUE_EXIST_PERM | EG_USER_QUEUE_LIST_PERM
    | EG_USER_QUEUE_RENAME_PERM | EG_USER_QUEUE_SIZE_PERM | EG_USER_QUEUE_PUSH_PERM
    | EG_USER_QUEUE_GET_PERM | EG_USER_QUEUE_POP_PERM | EG_USER_QUEUE_CONFIRM_PERM
    | EG_USER_QUEUE_SUBSCRIBE_PERM | EG_USER_QUEUE_UNSUBSCRIBE_PERM | EG_USER_QUEUE_PURGE_PERM
    | EG_USER_QUEUE_DELETE_PERM | EG_USER_ROUTE_CREATE_PERM | EG_USER_ROUTE_EXIST_PERM
    | EG_USER_ROUTE_LIST_PERM | EG_USER_ROUTE_KEYS_PERM | EG_USER_ROUTE_RENAME_PERM
    | EG_USER_ROUTE_BIND_PERM | EG_USER_ROUTE_UNBIND_PERM | EG_USER_ROUTE_PUSH_PERM
    | EG_USER_ROUTE_DELETE_PERM | EG_USER_CHANNEL_CREATE_PERM | EG_USER_CHANNEL_EXIST_PERM
    | EG_USER_CHANNEL_LIST_PERM | EG_USER_CHANNEL_RENAME_PERM | EG_USER_CHANNEL_PUBLISH_PERM
    | EG_USER_CHANNEL_SUBSCRIBE_PERM | EG_USER_CHANNEL_PSUBSCRIBE_PERM
    | EG_USER_CHANNEL_UNSUBSCRIBE_PERM | EG_USER_CHANNEL_PUNSUBSCRIBE_PERM
    | EG_USER_CHANNEL_DELETE_PERM

fun perm_bit :: "Permission \<Rightarrow> nat" where
  "perm_bit EG_USER_QUEUE_PERM = 0"
| "perm_bit EG_USER_ROUTE_PERM = 1"
| "perm_bit EG_USER_CHANNEL_PERM = 2"
| "perm_bit EG_USER_RESV3_PERM = 3"
| "perm_bit EG_USER_RESV4_PERM = 4"
| "perm_bit EG_USER_ADMIN_PERM = 5"
| "perm_bit EG_USER_NOT_CHANGE_PERM = 6"
| "perm_bit EG_USER_QUEUE_CREATE_PERM = 20"
| "perm_bit EG_USER_QUEUE_DECLARE_PERM = 21"
| "perm_bit EG_USER_QUEUE_EXIST_PERM = 22"
| "perm_bit EG_USER_QUEUE_LIST_PERM = 23"
| "perm_bit EG_USER_QUEUE_RENAME_PERM = 24"
| "perm_bit EG_USER_QUEUE_SIZE_PERM = 25"
| "perm_bit EG_USER_QUEUE_PUSH_PERM = 26"
| "perm_bit EG_USER_QUEUE_GET_PERM = 27"
| "perm_bit EG_USER_QUEUE_POP_PERM = 28"
| "perm_bit EG_USER_QUEUE_CONFIRM_PERM = 29"
| "perm_bit EG_USER_QUEUE_SUBSCRIBE_PERM = 30"
| "perm_bit EG_USER_QUEUE_UNSUBSCRIBE_PERM = 31"
| "perm_bit EG_USER_QUEUE_PURGE_PERM = 32"
| "perm_bit EG_USER_QUEUE_DELETE_PERM = 33"
| "perm_bit EG_USER_ROUTE_CREATE_PERM = 34"
| "perm_bit EG_USER_ROUTE_EXIST_PERM = 35"
| "perm_bit EG_USER_ROUTE_LIST_PERM = 36"
| "perm_bit EG_USER_ROUTE_KEYS_PERM = 37"
| "perm_bit EG_USER_ROUTE_RENAME_PERM = 38"
| "perm_bit EG_USER_ROUTE_BIND_PERM = 39"
| "perm_bit EG_USER_ROUTE_UNBIND_PERM = 40"
| "perm_bit EG_USER_ROUTE_PUSH_PERM = 41"
| "perm_bit EG_USER_ROUTE_DELETE_PERM = 42"
| "perm_bit EG_USER_CHANNEL_CREATE_PERM = 43"
| "perm_bit EG_USER_CHANNEL_EXIST_PERM = 44"
| "perm_bit EG_USER_CHANNEL_LIST_PERM = 45"
| "perm_bit EG_USER_CHANNEL_RENAME_PERM = 46"
| "perm_bit EG_USER_CHANNEL_PUBLISH_PERM = 47"
| "perm_bit EG_USER_CHANNEL_SUBSCRIBE_PERM = 48"
| "perm_bit EG_USER_CHANNEL_PSUBSCRIBE_PERM = 49"
| "perm_bit EG_USER_CHANNEL_UNSUBSCRIBE_PERM = 50"
| "perm_bit EG_USER_CHANNEL_PUNSUBSCRIBE_PERM = 51"
| "perm_bit EG_USER_CHANNEL_DELETE_PERM = 52"

text \<open>The chains \<open>BIT_CHECK(perm, A) || BIT_CHECK(perm, B) || ...\<close> of the handlers.\<close>

definition has_perm :: "u64 \<Rightarrow> Permission list \<Rightarrow> bool" where
  "has_perm p ps \<longleftrightarrow> list_ex (\<lambda>x. BIT_CHECK p (perm_bit x)) ps"

section \<open>Structures\<close>

type_synonym struct = "(string \<times> nat) list"

definition sizeof :: "struct \<Rightarrow> nat" where
  "sizeof st = sum_list (map snd st)"

fun offsetof :: "struct \<Rightarrow> string \<Rightarrow> nat" where
  "offsetof [] f = 0"
| "offsetof ((g, n) # st) f = (if g = f then 0 else n + offsetof st f)"

definition ProtocolRequestHeader :: struct where
  "ProtocolRequestHeader = [(''magic'', 2), (''cmd'', 1), (''noack'', 1), (''bodylen'', 4)]"

definition ProtocolResponseHeader :: struct where
  "ProtocolResponseHeader = [(''magic'', 2), (''cmd'', 1), (''status'', 1), (''bodylen'', 4)]"

definition ProtocolEventHeader :: struct where
  "ProtocolEventHeader = [(''magic'', 2), (''cmd'', 1), (''type'', 1), (''bodylen'', 4)]"

definition ProtocolRequestAuth :: struct where
  "ProtocolRequestAuth = ProtocolRequestHeader @ [(''name'', 32), (''password'', 32)]"

definition ProtocolRequestPing :: struct where
  "ProtocolRequestPing = ProtocolRequestHeader"

definition ProtocolRequestStat :: struct where
  "ProtocolRequestStat = ProtocolRequestHeader"

definition ProtocolRequestSave :: struct where
  "ProtocolRequestSave = ProtocolRequestHeader @ [(''async'', 1)]"

definition ProtocolRequestFlush :: struct where
  "ProtocolRequestFlush = ProtocolRequestHeader @ [(''flags'', 4)]"

definition ProtocolRequestDisconnect :: struct where
  "ProtocolRequestDisconnect = ProtocolRequestHeader"

definition ProtocolRequestUserCreate :: struct where
  "ProtocolRequestUserCreate = ProtocolRequestHeader @ [(''name'', 32), (''password'', 32), (''perm'', 8)]"

definition ProtocolRequestUserList :: struct where
  "ProtocolRequestUserList = ProtocolRequestHeader"

definition ProtocolRequestUserRename :: struct where
  "ProtocolRequestUserRename = ProtocolRequestHeader @ [(''from'', 32), (''to'', 32)]"

definition ProtocolRequestUserSetPerm :: struct where
  "ProtocolRequestUserSetPerm = ProtocolRequestHeader @ [(''name'', 32), (''perm'', 8)]"

definition ProtocolRequestUserDelete :: struct where
  "ProtocolRequestUserDelete = ProtocolRequestHeader @ [(''name'', 32)]"

definition ProtocolRequestQueueCreate :: struct where
  "ProtocolRequestQueueCreate = ProtocolRequestHeader @ [(''name'', 64), (''max_msg'', 4), (''max_msg_size'', 4), (''flags'', 4)]"

definition ProtocolRequestQueueDeclare :: struct where
  "ProtocolRequestQueueDeclare = ProtocolRequestHeader @ [(''name'', 64)]"

definition ProtocolRequestQueueExist :: struct where
  "ProtocolRequestQueueExist = ProtocolRequestHeader @ [(''name'', 64)]"

definition ProtocolRequestQueueList :: struct where
  "ProtocolRequestQueueList = ProtocolRequestHeader"

definition ProtocolRequestQueueRename :: struct where
  "ProtocolRequestQueueRename = ProtocolRequestHeader @ [(''from'', 64), (''to'', 64)]"

definition ProtocolRequestQueueSize :: struct where
  "ProtocolRequestQueueSize = ProtocolRequestHeader @ [(''name'', 64)]"

definition ProtocolRequestQueueGet :: struct where
  "ProtocolRequestQueueGet = ProtocolRequestHeader @ [(''name'', 64)]"

definition ProtocolRequestQueuePop :: struct where
  "ProtocolRequestQueuePop = ProtocolRequestHeader @ [(''name'', 64), (''timeout'', 4)]"

definition ProtocolRequestQueueConfirm :: struct where
  "ProtocolRequestQueueConfirm = ProtocolRequestHeader @ [(''name'', 64), (''tag'', 8)]"

definition ProtocolRequestQueueSubscribe :: struct where
  "ProtocolRequestQueueSubscribe = ProtocolRequestHeader @ [(''name'', 64), (''flags'', 4)]"

definition ProtocolRequestQueueUnsubscribe :: struct where
  "ProtocolRequestQueueUnsubscribe = ProtocolRequestHeader @ [(''name'', 64)]"

definition ProtocolRequestQueuePurge :: struct where
  "ProtocolRequestQueuePurge = ProtocolRequestHeader @ [(''name'', 64)]"

definition ProtocolRequestQueueDelete :: struct where
  "ProtocolRequestQueueDelete = ProtocolRequestHeader @ [(''name'', 64)]"

definition ProtocolRequestRouteCreate :: struct where
  "ProtocolRequestRouteCreate = ProtocolRequestHeader @ [(''name'', 64), (''flags'', 4)]"

definition ProtocolRequestRouteExist :: struct where
  "ProtocolRequestRouteExist = ProtocolRequestHeader @ [(''name'', 64)]"

definition ProtocolRequestRouteList :: struct where
  "ProtocolRequestRouteList = ProtocolRequestHeader"

definition ProtocolRequestRouteKeys :: struct where
  "ProtocolRequestRouteKeys = ProtocolRequestHeader @ [(''name'', 64)]"

definition ProtocolRequestRouteRename :: struct where
  "ProtocolRequestRouteRename = ProtocolRequestHeader @ [(''from'', 64), (''to'', 64)]"

definition ProtocolRequestRouteBind :: struct where
  "ProtocolRequestRouteBind = ProtocolRequestHeader @ [(''name'', 64), (''queue'', 64), (''key'', 32)]"

definition ProtocolRequestRouteUnbind :: struct where
  "ProtocolRequestRouteUnbind = ProtocolRequestHeader @ [(''name'', 64), (''queue'', 64), (''key'', 32)]"

definition ProtocolRequestRoutePush :: struct where
  "ProtocolRequestRoutePush = ProtocolRequestHeader @ [(''name'', 64), (''key'', 32)]"

definition ProtocolRequestRouteDelete :: struct where
  "ProtocolRequestRouteDelete = ProtocolRequestHeader @ [(''name'', 64)]"

definition ProtocolRequestChannelCreate :: struct where
  "ProtocolRequestChannelCreate = ProtocolRequestHeader @ [(''name'', 64), (''flags'', 4)]"

definition ProtocolRequestChannelExist :: struct where
  "ProtocolRequestChannelExist = ProtocolRequestHeader @ [(''name'', 64)]"

definition ProtocolRequestChannelList :: struct where
  "ProtocolRequestChannelList = ProtocolRequestHeader"

definition ProtocolRequestChannelRename :: struct where
  "ProtocolRequestChannelRename = ProtocolRequestHeader @ [(''from'', 64), (''to'', 64)]"

definition ProtocolRequestChannelPublish :: struct where
  "ProtocolRequestChannelPublish = ProtocolRequestHeader @ [(''name'', 64), (''topic'', 32)]"

definition ProtocolRequestChannelSubscribe :: struct where
  "ProtocolRequestChannelSubscribe = ProtocolRequestHeader @ [(''name'', 64), (''topic'', 32)]"

definition ProtocolRequestChannelPatternSubscribe :: struct where
  "ProtocolRequestChannelPatternSubscribe = ProtocolRequestHeader @ [(''name'', 64), (''pattern'', 32)]"

definition ProtocolRequestChannelUnsubscribe :: struct where
  "ProtocolRequestChannelUnsubscribe = ProtocolRequestHeader @ [(''name'', 64), (''topic'', 32)]"

definition ProtocolRequestChannelPatternUnsubscribe :: struct where
  "ProtocolRequestChannelPatternUnsubscribe = ProtocolRequestHeader @ [(''name'', 64), (''pattern'', 32)]"

definition ProtocolRequestChannelDelete :: struct where
  "ProtocolRequestChannelDelete = ProtocolRequestHeader @ [(''name'', 64)]"

definition ProtocolResponseStat :: struct where
  "ProtocolResponseStat = ProtocolResponseHeader @ [(''major'', 1), (''minor'', 1), (''patch'', 1), (''uptime'', 4), (''used_cpu_sys'', 4), (''used_cpu_user'', 4),
     (''used_memory'', 4), (''used_memory_rss'', 4), (''fragmentation_ratio'', 4), (''clients'', 4),
     (''users'', 4), (''queues'', 4), (''routes'', 4), (''channels'', 4), (''resv3'', 4), (''resv4'', 4)]"

definition ProtocolResponseQueueExist :: struct where
  "ProtocolResponseQueueExist = ProtocolResponseHeader @ [(''status'', 4)]"

definition ProtocolResponseQueueSize :: struct where
  "ProtocolResponseQueueSize = ProtocolResponseHeader @ [(''size'', 4)]"

definition ProtocolResponseRouteExist :: struct where
  "ProtocolResponseRouteExist = ProtocolResponseHeader @ [(''status'', 4)]"

definition ProtocolResponseChannelExist :: struct where
  "ProtocolResponseChannelExist = ProtocolResponseHeader @ [(''status'', 4)]"

definition ProtocolEventQueueNotify :: struct where
  "ProtocolEventQueueNotify = ProtocolEventHeader @ [(''name'', 64)]"

lemmas struct_defs =
  ProtocolRequestHeader_def ProtocolResponseHeader_def ProtocolEventHeader_def
  ProtocolRequestAuth_def ProtocolRequestPing_def ProtocolRequestStat_def ProtocolRequestSave_def
  ProtocolRequestFlush_def ProtocolRequestDisconnect_def ProtocolRequestUserCreate_def
  ProtocolRequestUserList_def ProtocolRequestUserRename_def ProtocolRequestUserSetPerm_def
  ProtocolRequestUserDelete_def ProtocolRequestQueueCreate_def ProtocolRequestQueueDeclare_def
  ProtocolRequestQueueExist_def ProtocolRequestQueueList_def ProtocolRequestQueueRename_def
  ProtocolRequestQueueSize_def ProtocolRequestQueueGet_def ProtocolRequestQueuePop_def
  ProtocolRequestQueueConfirm_def ProtocolRequestQueueSubscribe_def
  ProtocolRequestQueueUnsubscribe_def ProtocolRequestQueuePurge_def ProtocolRequestQueueDelete_def
  ProtocolRequestRouteCreate_def ProtocolRequestRouteExist_def ProtocolRequestRouteList_def
  ProtocolRequestRouteKeys_def ProtocolRequestRouteRename_def ProtocolRequestRouteBind_def
  ProtocolRequestRouteUnbind_def ProtocolRequestRoutePush_def ProtocolRequestRouteDelete_def
  ProtocolRequestChannelCreate_def ProtocolRequestChannelExist_def ProtocolRequestChannelList_def
  ProtocolRequestChannelRename_def ProtocolRequestChannelPublish_def
  ProtocolRequestChannelSubscribe_def ProtocolRequestChannelPatternSubscribe_def
  ProtocolRequestChannelUnsubscribe_def ProtocolRequestChannelPatternUnsubscribe_def
  ProtocolRequestChannelDelete_def ProtocolResponseStat_def ProtocolResponseQueueExist_def
  ProtocolResponseQueueSize_def ProtocolResponseRouteExist_def ProtocolResponseChannelExist_def
  ProtocolEventQueueNotify_def

lemma sizeof_simps [simp]:
  "sizeof ProtocolRequestHeader = 8"
  "sizeof ProtocolResponseHeader = 8"
  "sizeof ProtocolEventHeader = 8"
  "sizeof ProtocolRequestAuth = 72"
  "sizeof ProtocolRequestPing = 8"
  "sizeof ProtocolRequestStat = 8"
  "sizeof ProtocolRequestSave = 9"
  "sizeof ProtocolRequestFlush = 12"
  "sizeof ProtocolRequestDisconnect = 8"
  "sizeof ProtocolRequestUserCreate = 80"
  "sizeof ProtocolRequestUserList = 8"
  "sizeof ProtocolRequestUserRename = 72"
  "sizeof ProtocolRequestUserSetPerm = 48"
  "sizeof ProtocolRequestUserDelete = 40"
  "sizeof ProtocolRequestQueueCreate = 84"
  "sizeof ProtocolRequestQueueDeclare = 72"
  "sizeof ProtocolRequestQueueExist = 72"
  "sizeof ProtocolRequestQueueList = 8"
  "sizeof ProtocolRequestQueueRename = 136"
  "sizeof ProtocolRequestQueueSize = 72"
  "sizeof ProtocolRequestQueueGet = 72"
  "sizeof ProtocolRequestQueuePop = 76"
  "sizeof ProtocolRequestQueueConfirm = 80"
  "sizeof ProtocolRequestQueueSubscribe = 76"
  "sizeof ProtocolRequestQueueUnsubscribe = 72"
  "sizeof ProtocolRequestQueuePurge = 72"
  "sizeof ProtocolRequestQueueDelete = 72"
  "sizeof ProtocolRequestRouteCreate = 76"
  "sizeof ProtocolRequestRouteExist = 72"
  "sizeof ProtocolRequestRouteList = 8"
  "sizeof ProtocolRequestRouteKeys = 72"
  "sizeof ProtocolRequestRouteRename = 136"
  "sizeof ProtocolRequestRouteBind = 168"
  "sizeof ProtocolRequestRouteUnbind = 168"
  "sizeof ProtocolRequestRoutePush = 104"
  "sizeof ProtocolRequestRouteDelete = 72"
  "sizeof ProtocolRequestChannelCreate = 76"
  "sizeof ProtocolRequestChannelExist = 72"
  "sizeof ProtocolRequestChannelList = 8"
  "sizeof ProtocolRequestChannelRename = 136"
  "sizeof ProtocolRequestChannelPublish = 104"
  "sizeof ProtocolRequestChannelSubscribe = 104"
  "sizeof ProtocolRequestChannelPatternSubscribe = 104"
  "sizeof ProtocolRequestChannelUnsubscribe = 104"
  "sizeof ProtocolRequestChannelPatternUnsubscribe = 104"
  "sizeof ProtocolRequestChannelDelete = 72"
  "sizeof ProtocolResponseStat = 63"
  "sizeof ProtocolResponseQueueExist = 12"
  "sizeof ProtocolResponseQueueSize = 12"
  "sizeof ProtocolResponseRouteExist = 12"
  "sizeof ProtocolResponseChannelExist = 12"
  "sizeof ProtocolEventQueueNotify = 72"
  by (simp_all add: sizeof_def struct_defs)

lemma offsetof_simps [simp]:
  "offsetof ProtocolRequestHeader ''magic'' = 0"
  "offsetof ProtocolRequestHeader ''cmd'' = 2"
  "offsetof ProtocolRequestHeader ''noack'' = 3"
  "offsetof ProtocolRequestHeader ''bodylen'' = 4"
  "offsetof ProtocolRequestAuth ''name'' = 8"
  "offsetof ProtocolRequestAuth ''password'' = 40"
  "offsetof ProtocolRequestSave ''async'' = 8"
  "offsetof ProtocolRequestFlush ''flags'' = 8"
  "offsetof ProtocolRequestUserCreate ''name'' = 8"
  "offsetof ProtocolRequestUserCreate ''password'' = 40"
  "offsetof ProtocolRequestUserCreate ''perm'' = 72"
  "offsetof ProtocolRequestUserRename ''from'' = 8"
  "offsetof ProtocolRequestUserRename ''to'' = 40"
  "offsetof ProtocolRequestUserSetPerm ''name'' = 8"
  "offsetof ProtocolRequestUserSetPerm ''perm'' = 40"
  "offsetof ProtocolRequestUserDelete ''name'' = 8"
  "offsetof ProtocolRequestQueueCreate ''name'' = 8"
  "offsetof ProtocolRequestQueueCreate ''max_msg'' = 72"
  "offsetof ProtocolRequestQueueCreate ''max_msg_size'' = 76"
  "offsetof ProtocolRequestQueueCreate ''flags'' = 80"
  "offsetof ProtocolRequestQueueDeclare ''name'' = 8"
  "offsetof ProtocolRequestQueueExist ''name'' = 8"
  "offsetof ProtocolRequestQueueRename ''from'' = 8"
  "offsetof ProtocolRequestQueueRename ''to'' = 72"
  "offsetof ProtocolRequestQueueSize ''name'' = 8"
  "offsetof ProtocolRequestQueueGet ''name'' = 8"
  "offsetof ProtocolRequestQueuePop ''name'' = 8"
  "offsetof ProtocolRequestQueuePop ''timeout'' = 72"
  "offsetof ProtocolRequestQueueConfirm ''name'' = 8"
  "offsetof ProtocolRequestQueueConfirm ''tag'' = 72"
  "offsetof ProtocolRequestQueueSubscribe ''name'' = 8"
  "offsetof ProtocolRequestQueueSubscribe ''flags'' = 72"
  "offsetof ProtocolRequestQueueUnsubscribe ''name'' = 8"
  "offsetof ProtocolRequestQueuePurge ''name'' = 8"
  "offsetof ProtocolRequestQueueDelete ''name'' = 8"
  "offsetof ProtocolRequestRouteCreate ''name'' = 8"
  "offsetof ProtocolRequestRouteCreate ''flags'' = 72"
  "offsetof ProtocolRequestRouteExist ''name'' = 8"
  "offsetof ProtocolRequestRouteKeys ''name'' = 8"
  "offsetof ProtocolRequestRouteRename ''from'' = 8"
  "offsetof ProtocolRequestRouteRename ''to'' = 72"
  "offsetof ProtocolRequestRouteBind ''name'' = 8"
  "offsetof ProtocolRequestRouteBind ''queue'' = 72"
  "offsetof ProtocolRequestRouteBind ''key'' = 136"
  "offsetof ProtocolRequestRouteUnbind ''name'' = 8"
  "offsetof ProtocolRequestRouteUnbind ''queue'' = 72"
  "offsetof ProtocolRequestRouteUnbind ''key'' = 136"
  "offsetof ProtocolRequestRoutePush ''name'' = 8"
  "offsetof ProtocolRequestRoutePush ''key'' = 72"
  "offsetof ProtocolRequestRouteDelete ''name'' = 8"
  "offsetof ProtocolRequestChannelCreate ''name'' = 8"
  "offsetof ProtocolRequestChannelCreate ''flags'' = 72"
  "offsetof ProtocolRequestChannelExist ''name'' = 8"
  "offsetof ProtocolRequestChannelRename ''from'' = 8"
  "offsetof ProtocolRequestChannelRename ''to'' = 72"
  "offsetof ProtocolRequestChannelPublish ''name'' = 8"
  "offsetof ProtocolRequestChannelPublish ''topic'' = 72"
  "offsetof ProtocolRequestChannelSubscribe ''name'' = 8"
  "offsetof ProtocolRequestChannelSubscribe ''topic'' = 72"
  "offsetof ProtocolRequestChannelPatternSubscribe ''name'' = 8"
  "offsetof ProtocolRequestChannelPatternSubscribe ''pattern'' = 72"
  "offsetof ProtocolRequestChannelUnsubscribe ''name'' = 8"
  "offsetof ProtocolRequestChannelUnsubscribe ''topic'' = 72"
  "offsetof ProtocolRequestChannelPatternUnsubscribe ''name'' = 8"
  "offsetof ProtocolRequestChannelPatternUnsubscribe ''pattern'' = 72"
  "offsetof ProtocolRequestChannelDelete ''name'' = 8"
  by (simp_all add: struct_defs)

section \<open>Headers\<close>

definition set_response_header :: "u8 \<Rightarrow> u8 \<Rightarrow> u32 \<Rightarrow> bytes" where
  "set_response_header cmd status blen = le16 EG_PROTOCOL_RES @ [cmd, status] @ le32 blen"

definition set_event_header :: "u8 \<Rightarrow> u8 \<Rightarrow> u32 \<Rightarrow> bytes" where
  "set_event_header cmd type blen = le16 EG_PROTOCOL_EVENT @ [cmd, type] @ le32 blen"

lemma length_headers [simp]:
  "length (set_response_header c st n) = sizeof ProtocolResponseHeader"
  "length (set_event_header c ty n) = sizeof ProtocolEventHeader"
  by (simp_all add: set_response_header_def set_event_header_def)

text \<open>The command table has no clash: a code names the command it belongs to.\<close>

lemma command_of_code [simp]: "command_of (cmd_code c) = Some c"
  by (cases c) (simp_all add: command_of_def all_commands_def)

lemma command_of_Some: "command_of b = Some c \<longleftrightarrow> b = cmd_code c"
  by (metis (mono_tags, lifting) command_of_code command_of_def find_Some_iff option.inject)

lemma has_perm_simps [simp]:
  "has_perm p [] \<longleftrightarrow> False"
  "has_perm p (x # xs) \<longleftrightarrow> BIT_CHECK p (perm_bit x) \<or> has_perm p xs"
  by (simp_all add: has_perm_def)

end
