(* ===== verification/Events.thy ===== *)
theory Events
  imports Protocol
begin

text \<open>
  The file events of src/event.c over src/event_epoll.c, and the functions of src/handlers.c that
  queue output for a client: \<open>set_write_event\<close>, \<open>add_response\<close>, \<open>add_object_response\<close>,
  \<open>add_status_response\<close> and the four event messages of the subscriptions.
\<close>

section \<open>File events\<close>

definition EG_EVENT_NONE :: u32 where "EG_EVENT_NONE = 0"
definition EG_EVENT_READABLE :: u32 where "EG_EVENT_READABLE = 1"
definition EG_EVENT_WRITABLE :: u32 where "EG_EVENT_WRITABLE = 2"
definition EPOLLIN :: u32 where "EPOLLIN = 1"
definition EPOLLOUT :: u32 where "EPOLLOUT = 4"

lemmas event_mask_defs =
  EG_EVENT_NONE_def EG_EVENT_READABLE_def EG_EVENT_WRITABLE_def EPOLLIN_def EPOLLOUT_def

text \<open>\<open>loop->events[fd]\<close>.\<close>

definition event_at :: "event_loop \<Rightarrow> int \<Rightarrow> file_event option" where
  "event_at l d = (if 0 \<le> d \<and> d < int (length (events l)) then Some (events l ! nat d) else None)"

definition epoll_mask :: "u32 \<Rightarrow> u32" where
  "epoll_mask msk = (if msk AND EG_EVENT_READABLE \<noteq> 0 then EPOLLIN else 0) OR
     (if msk AND EG_EVENT_WRITABLE \<noteq> 0 then EPOLLOUT else 0)"

definition event_api_add :: "int \<Rightarrow> u32 \<Rightarrow> event_loop \<Rightarrow> (status \<times> event_loop) option" where
  "event_api_add d msk l = do {
     ev \<leftarrow> event_at l d;
     let op = (if emask ev = EG_EVENT_NONE then EPOLL_CTL_ADD else EPOLL_CTL_MOD);
     let m = epoll_mask (msk OR emask ev);
     Some (if epoll_ctl l op d m
           then (EG_STATUS_OK, l\<lparr>interest := (interest l)(d \<mapsto> m)\<rparr>)
           else (EG_STATUS_ERR, l)) }"

definition event_api_delete :: "int \<Rightarrow> u32 \<Rightarrow> event_loop \<Rightarrow> event_loop option" where
  "event_api_delete d msk l = do {
     ev \<leftarrow> event_at l d;
     let nmask = emask ev AND NOT msk;
     Some (if nmask \<noteq> EG_EVENT_NONE
           then (if epoll_ctl l EPOLL_CTL_MOD d (epoll_mask nmask)
                 then l\<lparr>interest := (interest l)(d \<mapsto> epoll_mask nmask)\<rparr> else l)
           else (if epoll_ctl l EPOLL_CTL_DEL d (epoll_mask nmask)
                 then l\<lparr>interest := (interest l)(d := None)\<rparr> else l)) }"

text \<open>\<open>EG_EVENT_OK\<close> and \<open>EG_EVENT_ERR\<close> are 0 and -1, as the two status codes.\<close>

definition create_file_event ::
    "int \<Rightarrow> u32 \<Rightarrow> file_handler \<Rightarrow> addr option \<Rightarrow> event_loop \<Rightarrow> (status \<times> event_loop) option" where
  "create_file_event d msk handler data l =
     (if d \<ge> int (length (events l)) then Some (EG_STATUS_ERR, l)
      else do {
        (r, l1) \<leftarrow> event_api_add d msk l;
        if r = EG_STATUS_ERR then Some (EG_STATUS_ERR, l1)
        else do {
          ev \<leftarrow> event_at l1 d;
          let ev = ev\<lparr>emask := emask ev OR msk\<rparr>;
          let ev = (if msk AND EG_EVENT_READABLE \<noteq> 0 then ev\<lparr>read_handler := Some handler\<rparr> else ev);
          let ev = (if msk AND EG_EVENT_WRITABLE \<noteq> 0 then ev\<lparr>write_handler := Some handler\<rparr> else ev);
          let ev = ev\<lparr>edata := data\<rparr>;
          Some (EG_STATUS_OK, l1\<lparr>events := (events l1)[nat d := ev],
                                 maxfd := (if d > maxfd l1 then d else maxfd l1)\<rparr>) } })"

text \<open>The loop of \<open>delete_file_event\<close> that looks for the new largest descriptor in use.\<close>

fun last_active :: "file_event list \<Rightarrow> nat \<Rightarrow> int" where
  "last_active evs 0 = -1"
| "last_active evs (Suc i) = (if emask (evs ! i) \<noteq> EG_EVENT_NONE then int i else last_active evs i)"

definition delete_file_event :: "int \<Rightarrow> u32 \<Rightarrow> event_loop \<Rightarrow> event_loop option" where
  "delete_file_event d msk l =
     (if d \<ge> int (length (events l)) then Some l
      else do {
        ev \<leftarrow> event_at l d;
        if emask ev = EG_EVENT_NONE then Some l
        else do {
          let ev = ev\<lparr>emask := emask ev AND NOT msk\<rparr>;
          let l = l\<lparr>events := (events l)[nat d := ev]\<rparr>;
          let l = (if d = maxfd l \<and> emask ev = EG_EVENT_NONE
                   then l\<lparr>maxfd := last_active (events l) (nat (maxfd l))\<rparr> else l);
          event_api_delete d msk l } })"

definition get_file_events :: "event_loop \<Rightarrow> int \<Rightarrow> u32 option" where
  "get_file_events l d =
     (if d \<ge> int (length (events l)) then Some EG_EVENT_NONE
      else do { ev \<leftarrow> event_at l d; Some (emask ev) })"

section \<open>The loop and the kernel agree\<close>

text \<open>
  What the kernel watches for each descriptor is what the event table says, and \<open>maxfd\<close> is the
  largest descriptor in use, or -1.
\<close>

definition loop_ok :: "event_loop \<Rightarrow> bool" where
  "loop_ok l \<longleftrightarrow>
     (\<forall>i < length (events l). interest l (int i) =
        (if emask (events l ! i) = EG_EVENT_NONE then None else Some (epoll_mask (emask (events l ! i))))) \<and>
     (\<forall>i < length (events l). emask (events l ! i) \<noteq> EG_EVENT_NONE \<longrightarrow> int i \<le> maxfd l) \<and>
     (maxfd l = -1 \<or> 0 \<le> maxfd l \<and> maxfd l < int (length (events l)) \<and>
        emask (events l ! nat (maxfd l)) \<noteq> EG_EVENT_NONE)"

lemma last_active_max:
  "i \<le> length evs \<Longrightarrow> (last_active evs i = -1 \<or> 0 \<le> last_active evs i \<and> last_active evs i < int i \<and>
     emask (evs ! nat (last_active evs i)) \<noteq> EG_EVENT_NONE) \<and>
   (\<forall>j < i. emask (evs ! j) \<noteq> EG_EVENT_NONE \<longrightarrow> int j \<le> last_active evs i)"
  by (induction i) (auto simp: less_Suc_eq)

lemma or_not_none: "m \<noteq> 0 \<Longrightarrow> e OR m \<noteq> (0 :: u32)"
  by (metis bit.disj_cancel_right bit_or_iff bit_word_eqI bit_0_eq bot_apply bot_bool_def or.commute)

lemma none_and: "EG_EVENT_NONE AND m = EG_EVENT_NONE"
  by (simp add: EG_EVENT_NONE_def)

lemma create_file_event_ok:
  assumes "loop_ok l" "0 \<le> d" "m \<noteq> 0"
  shows "\<exists>r l'. create_file_event d m h x l = Some (r, l') \<and> loop_ok l' \<and>
    (r = EG_STATUS_ERR \<longrightarrow> l' = l) \<and>
    (r = EG_STATUS_OK \<longrightarrow> get_file_events l' d = map_option (\<lambda>e. e OR m) (get_file_events l d))"
proof -
  obtain n where d: "d = int n" using assms(2) nonneg_int_cases by blast
  show ?thesis
  proof (cases "n < length (events l)")
    case n: True
    define e where "e = emask (events l ! n)"
    have em: "e OR m \<noteq> EG_EVENT_NONE" using or_not_none [OF assms(3)] by (simp add: EG_EVENT_NONE_def)
    have mx: "maxfd l = -1 \<or> 0 \<le> maxfd l" using assms(1) by (auto simp: loop_ok_def)
    show ?thesis
    proof (cases "epoll_ctl l (if e = EG_EVENT_NONE then EPOLL_CTL_ADD else EPOLL_CTL_MOD) d (epoll_mask (m OR e))")
      case True
      have "\<exists>ev. create_file_event d m h x l = Some (EG_STATUS_OK, l\<lparr>interest := (interest l)(d \<mapsto> epoll_mask (m OR e)),
          events := (events l)[n := ev], maxfd := max d (maxfd l)\<rparr>) \<and> emask ev = e OR m"
        using True n by (auto simp: create_file_event_def event_api_add_def event_at_def d e_def Let_def max_def)
      then show ?thesis
        using n em assms(1) mx
        by (fastforce simp: loop_ok_def get_file_events_def event_at_def nth_list_update d e_def or.commute max_def)
    next
      case False
      then show ?thesis
        using n assms(1) by (auto simp: create_file_event_def event_api_add_def event_at_def d e_def Let_def)
    qed
  qed (use assms in \<open>auto simp: create_file_event_def d\<close>)
qed

text \<open>The table and the interest set after the removal of bits, with the new \<open>maxfd\<close>.\<close>

lemma loop_ok_removed:
  assumes "loop_ok l" and n: "n < length (events l)" and e0: "emask (events l ! n) \<noteq> EG_EVENT_NONE" and d: "d = int n"
    and evs_def: "evs = (events l)[n := (events l ! n)\<lparr>emask := e\<rparr>]"
    and mx_def: "mx = (if d = maxfd l \<and> e = EG_EVENT_NONE then last_active evs (nat (maxfd l)) else maxfd l)"
  shows "loop_ok (l\<lparr>events := evs, maxfd := mx,
    interest := (interest l)(d := if e = EG_EVENT_NONE then None else Some (epoll_mask e))\<rparr>)" (is "loop_ok ?l")
proof (cases "d = maxfd l \<and> e = EG_EVENT_NONE")
  case True
  have mxn: "maxfd l = int n" using True by (simp add: d)
  then have mx: "mx = last_active evs n" using True by (simp add: mx_def d)
  have bnd: "i < n" if "i < length (events l)" "emask (evs ! i) \<noteq> EG_EVENT_NONE" for i
    using assms(1) that True mxn
    by (auto simp: loop_ok_def evs_def nth_list_update order.strict_iff_order split: if_splits)
  have len: "length evs = length (events l)" by (simp add: evs_def)
  have "interest ?l (int i) = (if emask (evs ! i) = EG_EVENT_NONE then None
      else Some (epoll_mask (emask (evs ! i))))" if "i < length (events l)" for i
    using assms(1) that True n by (cases "i = n") (simp_all add: loop_ok_def evs_def d)
  moreover have "int i \<le> mx" if "i < length (events l)" "emask (evs ! i) \<noteq> EG_EVENT_NONE" for i
    using last_active_max [of n evs] bnd [OF that] that n mx len by simp
  moreover have "mx = -1 \<or> 0 \<le> mx \<and> mx < int (length (events l)) \<and> emask (evs ! nat mx) \<noteq> EG_EVENT_NONE"
    using last_active_max [of n evs] n mx len by auto
  ultimately show ?thesis unfolding loop_ok_def by (simp add: len)
next
  case False
  have le: "int n \<le> maxfd l" using assms(1) n e0 by (simp add: loop_ok_def)
  have mx: "mx = maxfd l" using False by (auto simp: mx_def)
  have "interest ?l (int i) = (if emask (evs ! i) = EG_EVENT_NONE then None
      else Some (epoll_mask (emask (evs ! i))))" if "i < length (events l)" for i
    using assms(1) that n by (cases "i = n") (simp_all add: loop_ok_def evs_def d)
  moreover have "int i \<le> mx" if "i < length (events l)" "emask (evs ! i) \<noteq> EG_EVENT_NONE" for i
    using assms(1) that n le mx by (cases "i = n") (simp_all add: loop_ok_def evs_def)
  moreover have "0 \<le> mx \<and> mx < int (length (events l)) \<and> emask (evs ! nat mx) \<noteq> EG_EVENT_NONE"
  proof -
    have p: "0 \<le> maxfd l" using le by simp
    have q: "maxfd l < int (length (events l))" "emask (events l ! nat (maxfd l)) \<noteq> EG_EVENT_NONE"
      using assms(1) p by (auto simp: loop_ok_def)
    have "e \<noteq> EG_EVENT_NONE" if "nat (maxfd l) = n" using that False p by (auto simp: d)
    then have "emask (evs ! nat (maxfd l)) \<noteq> EG_EVENT_NONE"
      using q n by (cases "nat (maxfd l) = n") (simp_all add: evs_def)
    then show ?thesis using p q mx by simp
  qed
  ultimately show ?thesis unfolding loop_ok_def by (simp add: evs_def)
qed

lemma delete_file_event_ok:
  assumes "loop_ok l" "0 \<le> d" "\<And>m. epoll_ctl l EPOLL_CTL_MOD d m" "\<And>m. epoll_ctl l EPOLL_CTL_DEL d m"
  shows "\<exists>l'. delete_file_event d m l = Some l' \<and> loop_ok l' \<and>
    get_file_events l' d = map_option (\<lambda>e. e AND NOT m) (get_file_events l d)"
proof -
  obtain n where d: "d = int n" using assms(2) nonneg_int_cases by blast
  show ?thesis
  proof (cases "n < length (events l) \<and> emask (events l ! n) \<noteq> EG_EVENT_NONE")
    case True
    then have n: "n < length (events l)" and e0: "emask (events l ! n) \<noteq> EG_EVENT_NONE" by auto
    define e where "e = emask (events l ! n) AND NOT m"
    define evs where "evs = (events l)[n := (events l ! n)\<lparr>emask := e\<rparr>]"
    define mx where "mx = (if d = maxfd l \<and> e = EG_EVENT_NONE then last_active evs (nat (maxfd l)) else maxfd l)"
    let ?l = "l\<lparr>events := evs, maxfd := mx,
      interest := (interest l)(d := if e = EG_EVENT_NONE then None else Some (epoll_mask e))\<rparr>"
    have "delete_file_event d m l = Some ?l"
      using n e0 assms(3,4)
      by (auto simp add: delete_file_event_def event_api_delete_def event_at_def d e_def evs_def mx_def
          Let_def and.assoc none_and)
    moreover have "loop_ok ?l" by (rule loop_ok_removed [OF assms(1) n e0 d evs_def mx_def])
    moreover have "get_file_events ?l d = map_option (\<lambda>e. e AND NOT m) (get_file_events l d)"
      using n by (simp add: get_file_events_def event_at_def d evs_def e_def)
    ultimately show ?thesis by blast
  qed (use assms in \<open>auto simp: delete_file_event_def get_file_events_def event_at_def d EG_EVENT_NONE_def\<close>)
qed

text \<open>
  C14. Registering and unregistering file events keeps the event table and the kernel's interest
  set in step, and \<open>maxfd\<close> exact. A registration either adds the mask or, refused, changes
  nothing; an unregistration removes exactly the given bits. The kernel is assumed to accept
  changes to descriptors that are registered.
\<close>

theorem file_events_agree:
  assumes "loop_ok l" "0 \<le> d" "m \<noteq> 0"
    and "\<And>m. epoll_ctl l EPOLL_CTL_MOD d m" "\<And>m. epoll_ctl l EPOLL_CTL_DEL d m"
  shows "(\<exists>r l'. create_file_event d m h x l = Some (r, l') \<and> loop_ok l' \<and>
      (r = EG_STATUS_ERR \<longrightarrow> l' = l) \<and>
      (r = EG_STATUS_OK \<longrightarrow> get_file_events l' d = map_option (\<lambda>e. e OR m) (get_file_events l d))) \<and>
    (\<exists>l'. delete_file_event d m l = Some l' \<and> loop_ok l' \<and>
      get_file_events l' d = map_option (\<lambda>e. e AND NOT m) (get_file_events l d))"
  using create_file_event_ok [OF assms(1-3)] delete_file_event_ok [OF assms(1,2,4,5)] by blast

definition idle_event :: file_event where
  "idle_event = \<lparr>emask = 0, read_handler = None, write_handler = None, edata = None\<rparr>"

definition sample_loop :: event_loop where
  "sample_loop = \<lparr>maxfd = -1, events = replicate 4 idle_event,
     time_event_id = 0, time_events = [], stop = False,
     epoll_ctl = (\<lambda>op d m. True), interest = Map.empty\<rparr>"

theorem file_events_agree_witness:
  "\<exists>l'. create_file_event 3 EG_EVENT_WRITABLE send_response (Some 9) sample_loop = Some (EG_STATUS_OK, l') \<and>
     loop_ok l' \<and> get_file_events l' 3 = Some EG_EVENT_WRITABLE"
proof -
  have ok: "loop_ok sample_loop"
    by (simp add: loop_ok_def sample_loop_def idle_event_def EG_EVENT_NONE_def)
  have c: "\<exists>l'. create_file_event 3 EG_EVENT_WRITABLE send_response (Some 9) sample_loop = Some (EG_STATUS_OK, l')"
    by (simp add: create_file_event_def event_api_add_def event_at_def sample_loop_def idle_event_def Let_def)
  have "get_file_events sample_loop 3 = Some 0"
    by (simp add: get_file_events_def event_at_def sample_loop_def idle_event_def)
  then show ?thesis
    using file_events_agree [OF ok, of 3 EG_EVENT_WRITABLE send_response "Some 9"] c
    by (auto simp: EG_EVENT_WRITABLE_def sample_loop_def)
qed


section \<open>Queueing output\<close>

definition set_write_event :: "addr \<Rightarrow> server \<Rightarrow> (status \<times> server) option" where
  "set_write_event client s = do {
     c \<leftarrow> client_mem s client;
     if fd c \<le> 0 then Some (EG_STATUS_ERR, s)
     else do {
       (r, l) \<leftarrow> create_file_event (fd c) EG_EVENT_WRITABLE send_response (Some client) (loop s);
       let s = s\<lparr>loop := l\<rparr>;
       Some (if r = EG_STATUS_ERR \<and> responses c = [] then EG_STATUS_ERR else EG_STATUS_OK, s) } }"

definition add_response :: "addr \<Rightarrow> bytes \<Rightarrow> server \<Rightarrow> server option" where
  "add_response client data s = do {
     let (s, obj) = create_object data (length data) s;
     (r, s) \<leftarrow> set_write_event client s;
     if r \<noteq> EG_STATUS_OK then release_object obj s
     else upd_client client (\<lambda>c. c\<lparr>responses := responses c @ [obj]\<rparr>) s }"

definition add_object_response :: "addr \<Rightarrow> addr \<Rightarrow> server \<Rightarrow> server option" where
  "add_object_response client obj s = do {
     s \<leftarrow> increment_references_count obj s;
     (r, s) \<leftarrow> set_write_event client s;
     if r \<noteq> EG_STATUS_OK then decrement_references_count obj s
     else upd_client client (\<lambda>c. c\<lparr>responses := responses c @ [obj]\<rparr>) s }"

definition add_status_response :: "addr \<Rightarrow> u8 \<Rightarrow> ProtocolResponseStatus \<Rightarrow> server \<Rightarrow> server option" where
  "add_status_response client cmd st s = do {
     c \<leftarrow> client_mem s client;
     if noack c = 0 then add_response client (set_response_header cmd (status_code st) 0) s
     else Some s }"

text \<open>What \<open>xcalloc(n)\<close> returns.\<close>

abbreviation xcalloc_bytes :: "nat \<Rightarrow> bytes" where
  "xcalloc_bytes n \<equiv> replicate n 0"

text \<open>\<open>strlenz(str)\<close> bytes of a string: the characters and the terminating NUL.\<close>

abbreviation strz :: "bytes \<Rightarrow> bytes" where
  "strz str \<equiv> str @ [0]"

definition queue_client_event_notify :: "addr \<Rightarrow> addr \<Rightarrow> server \<Rightarrow> server option" where
  "queue_client_event_notify client q s = do {
     qt \<leftarrow> queue_mem s q;
     let hdr = set_event_header (cmd_code EG_PROTOCOL_CMD_QUEUE_SUBSCRIBE) (event_code EG_PROTOCOL_EVENT_NOTIFY) 64;
     bd \<leftarrow> put (xcalloc_bytes 64) 0 (strz (qname qt));
     add_response client (hdr @ bd) s }"

definition queue_client_event_message :: "addr \<Rightarrow> addr \<Rightarrow> addr \<Rightarrow> server \<Rightarrow> server option" where
  "queue_client_event_message client q msg s = do {
     qt \<leftarrow> queue_mem s q;
     m \<leftarrow> message_mem s msg;
     sz \<leftarrow> EG_MESSAGE_SIZE s msg;
     let hdr = set_event_header (cmd_code EG_PROTOCOL_CMD_QUEUE_SUBSCRIBE) (event_code EG_PROTOCOL_EVENT_MESSAGE)
                 (of_nat (64 + sz));
     buf \<leftarrow> put (xcalloc_bytes (sizeof ProtocolEventHeader + 64)) 0 hdr;
     buf \<leftarrow> put buf (sizeof ProtocolEventHeader) (strz (qname qt));
     s \<leftarrow> add_response client buf s;
     add_object_response client (mvalue m) s }"

definition channel_client_event_message ::
    "addr \<Rightarrow> addr \<Rightarrow> bytes \<Rightarrow> addr \<Rightarrow> server \<Rightarrow> server option" where
  "channel_client_event_message client ch topic obj s = do {
     ct \<leftarrow> channel_mem s ch;
     x \<leftarrow> object_mem s obj;
     let hdr = set_event_header (cmd_code EG_PROTOCOL_CMD_CHANNEL_SUBSCRIBE) (event_code EG_PROTOCOL_EVENT_MESSAGE)
                 (of_nat (96 + osize x));
     buf \<leftarrow> put (xcalloc_bytes (sizeof ProtocolEventHeader + 96)) 0 hdr;
     buf \<leftarrow> put buf (sizeof ProtocolEventHeader) (strz (chname ct));
     buf \<leftarrow> put buf (sizeof ProtocolEventHeader + 64) (strz topic);
     s \<leftarrow> add_response client buf s;
     add_object_response client obj s }"

definition channel_client_event_pattern_message ::
    "addr \<Rightarrow> addr \<Rightarrow> bytes \<Rightarrow> bytes \<Rightarrow> addr \<Rightarrow> server \<Rightarrow> server option" where
  "channel_client_event_pattern_message client ch topic pattern obj s = do {
     ct \<leftarrow> channel_mem s ch;
     x \<leftarrow> object_mem s obj;
     let hdr = set_event_header (cmd_code EG_PROTOCOL_CMD_CHANNEL_PSUBSCRIBE) (event_code EG_PROTOCOL_EVENT_MESSAGE)
                 (of_nat (128 + osize x));
     buf \<leftarrow> put (xcalloc_bytes (sizeof ProtocolEventHeader + 128)) 0 hdr;
     buf \<leftarrow> put buf (sizeof ProtocolEventHeader) (strz (chname ct));
     buf \<leftarrow> put buf (sizeof ProtocolEventHeader + 64) (strz topic);
     buf \<leftarrow> put buf (sizeof ProtocolEventHeader + 96) (strz pattern);
     s \<leftarrow> add_response client buf s;
     add_object_response client obj s }"

end
