(* ===== verification/Output.thy ===== *)
theory Output
  imports Events
begin

text \<open>
  What queueing output for a client changes, and what it leaves alone. The broker proper (the
  users, queues, routes, channels and their contents) is untouched by it.
\<close>

section \<open>Frame\<close>

text \<open>Everything in the server but the event loop, the objects, the clients and the allocator.\<close>

definition broker :: "server \<Rightarrow> (environment \<times> addr list \<times> addr list \<times> addr list \<times> addr list \<times> addr list) \<times>
    (int \<times> int \<times> int \<times> int \<times> int \<times> bool \<times> u32) \<times> (nat \<times> nat \<times> int \<times> int \<times> int option \<times> bool \<times> bytes option) \<times> (addr \<Rightarrow> message option) \<times> (addr \<Rightarrow> queue_t option) \<times>
    (addr \<Rightarrow> route_t option) \<times> (addr \<Rightarrow> channel_t option) \<times> (addr \<Rightarrow> eagle_user option)" where
  "broker s = ((env s, clients s, users s, queues s, routes s, channels s), (now_time s, now_timems s, start_time s,
     last_save s, last_memcheck s, nomemory s, msg_counter s), (max_clients s, max_memory s, client_timeout s,
     storage_timeout s, child_pid s, shutdown s, storage_file s), message_mem s, queue_mem s, route_mem s,
     channel_mem s, user_mem s)"

lemma broker_simps [simp]:
  "broker (s\<lparr>loop := l\<rparr>) = broker s"
  "broker (s\<lparr>object_mem := om\<rparr>) = broker s"
  "broker (s\<lparr>fresh := n\<rparr>) = broker s"
  "broker (s\<lparr>client_mem := cm\<rparr>) = broker s"
  by (simp_all add: broker_def)

text \<open>A client without its output.\<close>

definition client_core :: "eagle_client \<Rightarrow> eagle_client" where
  "client_core c = c\<lparr>responses := []\<rparr>"

text \<open>\<open>only_output client s s'\<close>: at most the output of \<open>client\<close> changed.\<close>

definition only_output :: "addr \<Rightarrow> server \<Rightarrow> server \<Rightarrow> bool" where
  "only_output client s s' \<longleftrightarrow> broker s' = broker s \<and>
     (\<forall>a. a \<noteq> client \<longrightarrow> client_mem s' a = client_mem s a) \<and>
     map_option client_core (client_mem s' client) = map_option client_core (client_mem s client)"

lemma only_output_refl: "only_output client s s"
  by (simp add: only_output_def)

lemma only_output_trans: "only_output client s s1 \<Longrightarrow> only_output client s1 s2 \<Longrightarrow> only_output client s s2"
  by (simp add: only_output_def)

lemma only_output_memI:
  "broker s' = broker s \<Longrightarrow> client_mem s' = client_mem s \<Longrightarrow> only_output client s s'"
  by (simp add: only_output_def)

lemma set_write_event_out:
  assumes "set_write_event client s = Some (r, s')"
  shows "only_output client s s'"
proof -
  have "broker s' = broker s \<and> client_mem s' = client_mem s"
    using assms unfolding set_write_event_def
    by (cases "client_mem s client") (auto simp: bind_eq_Some_conv Let_def split: if_split_asm)
  then show ?thesis by (simp add: only_output_memI)
qed

lemma release_object_out: "release_object a s = Some s' \<Longrightarrow> only_output client s s'"
  by (cases "object_mem s a") (auto simp: release_object_def intro!: only_output_memI)

lemma upd_object_out: "upd_object a f s = Some s' \<Longrightarrow> only_output client s s'"
  by (cases "object_mem s a") (auto simp: upd_object_def intro!: only_output_memI)

lemma decrement_out: "decrement_references_count a s = Some s' \<Longrightarrow> only_output client s s'"
  by (cases "object_mem s a")
    (simp_all add: decrement_references_count_def upd_object_out release_object_out split: if_split_asm)

lemma upd_responses_out:
  "upd_client client (\<lambda>c. c\<lparr>responses := f c\<rparr>) s = Some s' \<Longrightarrow> only_output client s s'"
  by (cases "client_mem s client") (auto simp: upd_client_def only_output_def client_core_def)

lemma add_response_out:
  assumes "add_response client data s = Some s'"
  shows "only_output client s s'"
proof -
  obtain s1 o1 where s1: "create_object data (length data) s = (s1, o1)" "only_output client s s1"
    by (simp add: create_object_def Let_def only_output_memI)
  obtain r s2 where s2: "set_write_event client s1 = Some (r, s2)"
    and s': "(if r \<noteq> EG_STATUS_OK then release_object o1 s2
       else upd_client client (\<lambda>c. c\<lparr>responses := responses c @ [o1]\<rparr>) s2) = Some s'"
    using assms s1(1) by (auto simp: add_response_def bind_eq_Some_conv)
  from s' have "only_output client s2 s'"
    by (cases "r \<noteq> EG_STATUS_OK") (simp_all add: release_object_out upd_responses_out)
  then show ?thesis
    using only_output_trans s1(2) set_write_event_out [OF s2] by blast
qed

lemma add_status_response_out:
  "add_status_response client cmd st s = Some s' \<Longrightarrow> only_output client s s'"
  by (cases "client_mem s client")
    (auto simp: add_status_response_def add_response_out only_output_refl split: if_split_asm)

section \<open>Effect on a connected client\<close>

text \<open>The descriptor of the client is one the event table has, and the kernel accepts it.\<close>

definition accepting :: "server \<Rightarrow> bool" where
  "accepting s \<longleftrightarrow> (\<forall>op d m. epoll_ctl (loop s) op d m)"

definition connected :: "server \<Rightarrow> addr \<Rightarrow> bool" where
  "connected s client \<longleftrightarrow> accepting s \<and>
     (case client_mem s client of None \<Rightarrow> False | Some c \<Rightarrow> 0 < fd c \<and> fd c < int (length (events (loop s))))"

lemma connectedE:
  assumes "connected s client"
  obtains c where "client_mem s client = Some c" "0 < fd c" "fd c < int (length (events (loop s)))" "accepting s"
  using assms by (auto simp: connected_def split: option.splits)

lemma create_file_event_connected:
  assumes "0 < d" "d < int (length (events l))" "\<forall>op d m. epoll_ctl l op d m"
  shows "\<exists>l'. create_file_event d m h x l = Some (EG_STATUS_OK, l') \<and> epoll_ctl l' = epoll_ctl l \<and>
    length (events l') = length (events l)"
  using assms by (simp add: create_file_event_def event_api_add_def event_at_def Let_def)

lemma set_write_event_connected:
  assumes "connected s client"
  shows "\<exists>l. set_write_event client s = Some (EG_STATUS_OK, s\<lparr>loop := l\<rparr>) \<and>
    epoll_ctl l = epoll_ctl (loop s) \<and> length (events l) = length (events (loop s))"
proof -
  obtain c where c: "client_mem s client = Some c" "0 < fd c" "fd c < int (length (events (loop s)))"
    "\<forall>op d m. epoll_ctl (loop s) op d m" using assms by (auto elim!: connectedE simp: accepting_def)
  show ?thesis
    using create_file_event_connected [OF c(2-4), of EG_EVENT_WRITABLE send_response "Some client"] c(1,2)
    by (auto simp: set_write_event_def Let_def)
qed

text \<open>Being connected depends on the descriptor and the loop only.\<close>

lemma connected_cong:
  assumes "epoll_ctl (loop s') = epoll_ctl (loop s)" "length (events (loop s')) = length (events (loop s))"
    "map_option fd (client_mem s' a) = map_option fd (client_mem s a)"
  shows "connected s' a = connected s a"
  using assms by (cases "client_mem s a"; cases "client_mem s' a") (simp_all add: connected_def accepting_def)

text \<open>
  \<open>queued s s' client obj\<close>: the object was appended to the responses of \<open>client\<close> and nothing else
  of the clients changed.
\<close>

definition queued :: "server \<Rightarrow> server \<Rightarrow> addr \<Rightarrow> addr \<Rightarrow> bool" where
  "queued s s' client obj \<longleftrightarrow> (\<exists>c. client_mem s client = Some c \<and>
     client_mem s' = (client_mem s)(client \<mapsto> c\<lparr>responses := responses c @ [obj]\<rparr>)) \<and>
     broker s' = broker s \<and> (\<forall>a. connected s' a = connected s a)"

lemma queued_intro:
  assumes "client_mem s client = Some c" "broker s1 = broker s" "client_mem s1 = client_mem s"
    "epoll_ctl (loop s1) = epoll_ctl (loop s)" "length (events (loop s1)) = length (events (loop s))"
  shows "\<exists>s'. upd_client client (\<lambda>c. c\<lparr>responses := responses c @ [obj]\<rparr>) s1 = Some s' \<and>
    queued s s' client obj \<and> object_mem s' = object_mem s1 \<and> fresh s' = fresh s1"
proof -
  let ?s' = "s1\<lparr>client_mem := (client_mem s)(client \<mapsto> c\<lparr>responses := responses c @ [obj]\<rparr>)\<rparr>"
  have "connected ?s' a = connected s a" for a
    using assms by (intro connected_cong) simp_all
  then show ?thesis using assms by (simp add: upd_client_def queued_def)
qed

lemma add_response_connected:
  assumes "connected s client"
  shows "\<exists>s'. add_response client data s = Some s' \<and> queued s s' client (fresh s) \<and> fresh s' = Suc (fresh s) \<and>
    object_mem s' = (object_mem s)(fresh s \<mapsto> \<lparr>odata = data, osize = length data, refcount = 1\<rparr>)"
proof -
  obtain c where c: "client_mem s client = Some c" using assms by (rule connectedE)
  let ?s1 = "s\<lparr>object_mem := (object_mem s)(fresh s \<mapsto> \<lparr>odata = data, osize = length data, refcount = 1\<rparr>),
      fresh := Suc (fresh s)\<rparr>"
  have "connected ?s1 client" using assms by (subst connected_cong [of _ s]) simp_all
  then obtain l where l: "set_write_event client ?s1 = Some (EG_STATUS_OK, ?s1\<lparr>loop := l\<rparr>)"
    "epoll_ctl l = epoll_ctl (loop s)" "length (events l) = length (events (loop s))"
    using set_write_event_connected by fastforce
  have "add_response client data s =
      upd_client client (\<lambda>c. c\<lparr>responses := responses c @ [fresh s]\<rparr>) (?s1\<lparr>loop := l\<rparr>)"
    using l(1) by (simp add: add_response_def create_object_def Let_def)
  with queued_intro [OF c, of "?s1\<lparr>loop := l\<rparr>" "fresh s"] l show ?thesis by auto
qed

lemma add_object_response_connected:
  assumes "connected s client" "object_mem s obj = Some x"
  shows "\<exists>s'. add_object_response client obj s = Some s' \<and> queued s s' client obj \<and> fresh s' = fresh s \<and>
    object_mem s' = (object_mem s)(obj \<mapsto> x\<lparr>refcount := refcount x + 1\<rparr>)"
proof -
  obtain c where c: "client_mem s client = Some c" using assms(1) by (rule connectedE)
  let ?s1 = "s\<lparr>object_mem := (object_mem s)(obj \<mapsto> x\<lparr>refcount := refcount x + 1\<rparr>)\<rparr>"
  have "connected ?s1 client" using assms(1) by (subst connected_cong [of _ s]) simp_all
  then obtain l where l: "set_write_event client ?s1 = Some (EG_STATUS_OK, ?s1\<lparr>loop := l\<rparr>)"
    "epoll_ctl l = epoll_ctl (loop s)" "length (events l) = length (events (loop s))"
    using set_write_event_connected by fastforce
  have "add_object_response client obj s =
      upd_client client (\<lambda>c. c\<lparr>responses := responses c @ [obj]\<rparr>) (?s1\<lparr>loop := l\<rparr>)"
    using l(1) assms(2) by (simp add: add_object_response_def increment_references_count_def upd_object_def)
  with queued_intro [OF c, of "?s1\<lparr>loop := l\<rparr>" obj] l show ?thesis by auto
qed

lemma add_status_response_connected:
  assumes "connected s client"
  shows "\<exists>s'. add_status_response client cmd st s = Some s' \<and> only_output client s s'"
proof -
  obtain c where "client_mem s client = Some c" using assms by (rule connectedE)
  then have "\<exists>s'. add_status_response client cmd st s = Some s'"
    using add_response_connected [OF assms, of "set_response_header cmd (status_code st) 0"]
    by (auto simp: add_status_response_def)
  then show ?thesis using add_status_response_out by blast
qed

section \<open>A sample state\<close>

text \<open>
  The concrete state the witnesses use: an empty broker with one connection, the client at
  address 2 on descriptor 3, whose last request was \<open>rq\<close> and whose rights are \<open>p\<close>.
\<close>

definition sample_client :: "bytes \<Rightarrow> u64 \<Rightarrow> eagle_client" where
  "sample_client rq p = \<lparr>fd = 3, perm = p, request = rq, pos = length rq, noack = 0, offset = 0,
     buffer = replicate 32768 0, bodylen = 0, nread = 0, responses = [], declared_queues = [],
     subscribed_queues = [], subscribed_topics = [], subscribed_patterns = [], sentlen = 0, last_action = 0\<rparr>"

definition sample_server :: "bytes \<Rightarrow> u64 \<Rightarrow> server" where
  "sample_server rq p = \<lparr>env = \<lparr>time_NULL = 5, mstime = 5000, used_cpu_sys = 0, used_cpu_user = 0,
       used_memory = 0, used_memory_rss = 0, fragmentation_ratio = 0, fopen_ok = True, disk_space = 1000,
       rename_ok = True, fork_pid = 77, child_ended = False, nofile_limit = Some 65536,
       setrlimit_ok = (\<lambda>_. True), stack_garbage = (\<lambda>_. 0)\<rparr>,
     loop = sample_loop, clients = [2], users = [], queues = [], routes = [], channels = [], now_time = 5,
     now_timems = 5000, start_time = 0, last_save = 0, last_memcheck = 0, nomemory = False, msg_counter = 0,
     max_clients = 100, max_memory = 0, client_timeout = 0, storage_timeout = 0, child_pid = None, shutdown = False,
     storage_file = None,
     object_mem = Map.empty, message_mem = Map.empty, queue_mem = Map.empty, route_mem = Map.empty,
     channel_mem = Map.empty, user_mem = Map.empty, client_mem = [2 \<mapsto> sample_client rq p], fresh = 10\<rparr>"

lemma sample_connected: "connected (sample_server rq p) 2"
  by (simp add: connected_def accepting_def sample_server_def sample_client_def sample_loop_def)

end
