(* ===== verification/QueueT.thy ===== *)
theory QueueT
  imports Output
begin

text \<open>
  src/queue_t.c without the deletion of a queue, which needs the routes: creating, pushing,
  reading, popping, confirming, expiring and redelivering messages, and the declarations and
  subscriptions of clients. The record \<open>queue_t\<close> is \<open>Queue_t\<close>; a queue, a client or a message
  is named by its address.
\<close>

section \<open>Creation and lookup\<close>

definition create_queue_t :: "bytes \<Rightarrow> u32 \<Rightarrow> u32 \<Rightarrow> u32 \<Rightarrow> server \<Rightarrow> (server \<times> addr) option" where
  "create_queue_t name mm mms fl s = do {
     nm \<leftarrow> copy_name 64 name;
     let a = fresh s;
     let qt = \<lparr>qname = nm, max_msg = mm, max_msg_size = mms, qflags = fl,
               qauto_delete = BIT_CHECK fl EG_QUEUE_AUTODELETE_FLAG,
               force_push = BIT_CHECK fl EG_QUEUE_FORCE_PUSH_FLAG,
               qround_robin = BIT_CHECK fl EG_QUEUE_ROUND_ROBIN_FLAG,
               queue = queue_create\<lparr>qfree := True\<rparr>, expire_messages = [], confirm_messages = [],
               declared_clients = [], subscribed_clients_msg = [], subscribed_clients_notify = [],
               qroutes = []\<rparr>;
     Some (s\<lparr>queue_mem := (queue_mem s)(a \<mapsto> qt), fresh := Suc a\<rparr>, a) }"

definition find_queue_t :: "addr list \<Rightarrow> bytes \<Rightarrow> server \<Rightarrow> addr option option" where
  "find_queue_t qs name s = find_by (\<lambda>q. do { qt \<leftarrow> queue_mem s q; Some (qname qt = name) }) qs"

definition rename_queue_t :: "addr \<Rightarrow> bytes \<Rightarrow> server \<Rightarrow> server option" where
  "rename_queue_t q name s = do { nm \<leftarrow> copy_name 64 name; upd_queue q (\<lambda>x. x\<lparr>qname := nm\<rparr>) s }"

definition get_declared_clients_queue_t :: "queue_t \<Rightarrow> u32" where
  "get_declared_clients_queue_t qt = of_nat (length (declared_clients qt))"

definition get_subscribed_clients_queue_t :: "queue_t \<Rightarrow> u32" where
  "get_subscribed_clients_queue_t qt =
     of_nat (length (subscribed_clients_msg qt)) + of_nat (length (subscribed_clients_notify qt))"

definition get_size_queue_t :: "queue_t \<Rightarrow> u32" where
  "get_size_queue_t qt = len (queue qt)"

section \<open>Messages\<close>

definition process_subscribed_clients :: "addr \<Rightarrow> addr \<Rightarrow> server \<Rightarrow> (nat \<times> server) option" where
  "process_subscribed_clients q msg s = do {
     qt \<leftarrow> queue_mem s q;
     (processed, s) \<leftarrow>
       (if subscribed_clients_msg qt \<noteq> [] then
          (if qround_robin qt then do {
             let cs = seq_rotate (subscribed_clients_msg qt);
             s \<leftarrow> upd_queue q (\<lambda>x. x\<lparr>subscribed_clients_msg := cs\<rparr>) s;
             s \<leftarrow> queue_client_event_message (hd cs) q msg s;
             Some (1, s) }
           else do {
             s \<leftarrow> for_each (\<lambda>client. queue_client_event_message client q msg) (subscribed_clients_msg qt) s;
             Some (length (subscribed_clients_msg qt), s) })
        else Some (0, s));
     qt \<leftarrow> queue_mem s q;
     s \<leftarrow> for_each (\<lambda>client. queue_client_event_notify client q) (subscribed_clients_notify qt) s;
     Some (processed, s) }"

definition get_message_queue_t :: "addr \<Rightarrow> server \<Rightarrow> addr option option" where
  "get_message_queue_t q s = do { qt \<leftarrow> queue_mem s q; queue_get_value (queue qt) }"

text \<open>\<open>list_delete_node(queue_t->expire_messages, EG_MESSAGE_GET_DATA(msg, 0))\<close>.\<close>

definition delete_expire_node :: "addr \<Rightarrow> addr option \<Rightarrow> server \<Rightarrow> server option" where
  "delete_expire_node q node s = do {
     n \<leftarrow> node;
     qt \<leftarrow> queue_mem s q;
     if n \<in> set (expire_messages qt)
     then upd_queue q (\<lambda>x. x\<lparr>expire_messages := remove1 n (expire_messages x)\<rparr>) s else None }"

definition pop_message_queue_t :: "addr \<Rightarrow> u32 \<Rightarrow> server \<Rightarrow> server option" where
  "pop_message_queue_t q timeout s = do {
     qt \<leftarrow> queue_mem s q;
     (r, q') \<leftarrow> queue_pop_value (queue qt);
     s \<leftarrow> upd_queue q (\<lambda>x. x\<lparr>queue := q'\<rparr>) s;
     msg \<leftarrow> r;
     m \<leftarrow> message_mem s msg;
     s \<leftarrow> (if expiration m \<noteq> 0 then delete_expire_node q (data0 m) s else Some s);
     if timeout \<noteq> 0 then do {
       s \<leftarrow> upd_message msg (\<lambda>m. m\<lparr>confirm := word_of_int (now_timems s) + timeout\<rparr>) s;
       upd_queue q (\<lambda>x. x\<lparr>confirm_messages := confirm_messages x @ [msg]\<rparr>) s }
     else release_message msg s }"

text \<open>The end of \<open>push_message_queue_t\<close>: the message enters the queue and, if it expires, the
  expiry list, and remembers its nodes.\<close>

definition enqueue_message :: "addr \<Rightarrow> addr \<Rightarrow> server \<Rightarrow> server option" where
  "enqueue_message q msg s = do {
     qt \<leftarrow> queue_mem s q;
     q' \<leftarrow> queue_push_value_head (queue qt) msg;
     s \<leftarrow> upd_queue q (\<lambda>x. x\<lparr>queue := q'\<rparr>) s;
     m \<leftarrow> message_mem s msg;
     if expiration m \<noteq> 0 then do {
       s \<leftarrow> upd_queue q (\<lambda>x. x\<lparr>expire_messages := expire_messages x @ [msg]\<rparr>) s;
       upd_message msg (\<lambda>m. m\<lparr>data0 := Some msg, data1 := head q'\<rparr>) s }
     else Some s }"

definition push_message_queue_t :: "addr \<Rightarrow> addr \<Rightarrow> u32 \<Rightarrow> server \<Rightarrow> (status \<times> server) option" where
  "push_message_queue_t q data ex s = do {
     let t = make_message_tag (msg_counter s) (word_of_int (now_timems s));
     let s = s\<lparr>msg_counter := msg_counter s + 1\<rparr>;
     let (s, msg) = create_message data t ex s;
     sz \<leftarrow> EG_MESSAGE_SIZE s msg;
     qt \<leftarrow> queue_mem s q;
     if sz > unat (max_msg_size qt) then Some (EG_STATUS_ERR, s)
     else do {
       (processed, s) \<leftarrow> process_subscribed_clients q msg s;
       if processed \<noteq> 0 then do { s \<leftarrow> release_message msg s; Some (EG_STATUS_OK, s) }
       else do {
         qt \<leftarrow> queue_mem s q;
         if len (queue qt) \<ge> max_msg qt then
           (if force_push qt then do {
              s \<leftarrow> pop_message_queue_t q 0 s;
              s \<leftarrow> enqueue_message q msg s;
              Some (EG_STATUS_OK, s) }
            else Some (EG_STATUS_ERR, s))
         else do { s \<leftarrow> enqueue_message q msg s; Some (EG_STATUS_OK, s) } } } }"

definition confirm_message_queue_t :: "addr \<Rightarrow> u64 \<Rightarrow> server \<Rightarrow> (status \<times> server) option" where
  "confirm_message_queue_t q t s = do {
     qt \<leftarrow> queue_mem s q;
     r \<leftarrow> find_by (\<lambda>msg. do { m \<leftarrow> message_mem s msg; Some (tag m = t) }) (confirm_messages qt);
     (case r of
        Some msg \<Rightarrow> do {
          s \<leftarrow> upd_queue q (\<lambda>x. x\<lparr>confirm_messages := remove1 msg (confirm_messages x)\<rparr>) s;
          s \<leftarrow> release_message msg s;
          Some (EG_STATUS_OK, s) }
      | None \<Rightarrow> Some (EG_STATUS_ERR, s)) }"

definition purge_queue_t :: "addr \<Rightarrow> server \<Rightarrow> server option" where
  "purge_queue_t q s = do {
     qt \<leftarrow> queue_mem s q;
     (freed, q') \<leftarrow> queue_purge (queue qt);
     s \<leftarrow> upd_queue q (\<lambda>x. x\<lparr>queue := q'\<rparr>) s;
     for_each free_message_list_handler freed s }"

definition expire_step :: "addr \<Rightarrow> u32 \<Rightarrow> addr \<Rightarrow> server \<Rightarrow> server option" where
  "expire_step q time msg s = do {
     m \<leftarrow> message_mem s msg;
     if expiration m \<le> time then do {
       s \<leftarrow> upd_queue q (\<lambda>x. x\<lparr>expire_messages := remove1 msg (expire_messages x)\<rparr>) s;
       qt \<leftarrow> queue_mem s q;
       n \<leftarrow> data1 m;
       (q', freed) \<leftarrow> queue_delete_node (queue qt) n;
       s \<leftarrow> upd_queue q (\<lambda>x. x\<lparr>queue := q'\<rparr>) s;
       for_each free_message_list_handler freed s }
     else Some s }"

definition process_expired_messages_queue_t :: "addr \<Rightarrow> u32 \<Rightarrow> server \<Rightarrow> server option" where
  "process_expired_messages_queue_t q time s = do {
     qt \<leftarrow> queue_mem s q;
     for_each (expire_step q time) (expire_messages qt) s }"

definition unconfirmed_step :: "addr \<Rightarrow> u32 \<Rightarrow> addr \<Rightarrow> server \<Rightarrow> server option" where
  "unconfirmed_step q time msg s = do {
     m \<leftarrow> message_mem s msg;
     if confirm m \<le> time then do {
       s \<leftarrow> upd_queue q (\<lambda>x. x\<lparr>confirm_messages := remove1 msg (confirm_messages x)\<rparr>) s;
       if expiration m \<noteq> 0 then
         (if expiration m \<le> time then Some s
          else do {
            qt \<leftarrow> queue_mem s q;
            q' \<leftarrow> queue_push_value_tail (queue qt) msg;
            s \<leftarrow> upd_queue q (\<lambda>x. x\<lparr>queue := q', expire_messages := expire_messages x @ [msg]\<rparr>) s;
            upd_message msg (\<lambda>m. m\<lparr>data0 := Some msg, data1 := tail q'\<rparr>) s })
       else do {
         qt \<leftarrow> queue_mem s q;
         q' \<leftarrow> queue_push_value_tail (queue qt) msg;
         upd_queue q (\<lambda>x. x\<lparr>queue := q'\<rparr>) s } }
     else Some s }"

definition process_unconfirmed_messages_queue_t :: "addr \<Rightarrow> u32 \<Rightarrow> server \<Rightarrow> server option" where
  "process_unconfirmed_messages_queue_t q time s = do {
     qt \<leftarrow> queue_mem s q;
     for_each (unconfirmed_step q time) (confirm_messages qt) s }"

section \<open>Clients\<close>

definition declare_client_queue_t :: "addr \<Rightarrow> addr \<Rightarrow> server \<Rightarrow> server option" where
  "declare_client_queue_t q client s = do {
     s \<leftarrow> upd_client client (\<lambda>c. c\<lparr>declared_queues := declared_queues c @ [q]\<rparr>) s;
     upd_queue q (\<lambda>x. x\<lparr>declared_clients := declared_clients x @ [client]\<rparr>) s }"

definition undeclare_client_queue_t :: "addr \<Rightarrow> addr \<Rightarrow> server \<Rightarrow> server option" where
  "undeclare_client_queue_t q client s = do {
     s \<leftarrow> upd_client client (\<lambda>c. c\<lparr>declared_queues := snd (seq_delete q (declared_queues c))\<rparr>) s;
     upd_queue q (\<lambda>x. x\<lparr>declared_clients := snd (seq_delete client (declared_clients x))\<rparr>) s }"

definition subscribe_client_queue_t :: "addr \<Rightarrow> addr \<Rightarrow> u32 \<Rightarrow> server \<Rightarrow> server option" where
  "subscribe_client_queue_t q client fl s = do {
     s \<leftarrow> upd_client client (\<lambda>c. c\<lparr>subscribed_queues := subscribed_queues c @ [q]\<rparr>) s;
     if \<not> BIT_CHECK fl EG_QUEUE_CLIENT_NOTIFY_FLAG
     then upd_queue q (\<lambda>x. x\<lparr>subscribed_clients_msg := subscribed_clients_msg x @ [client]\<rparr>) s
     else upd_queue q (\<lambda>x. x\<lparr>subscribed_clients_notify := subscribed_clients_notify x @ [client]\<rparr>) s }"

text \<open>The first loop stops at the first match; the second deletes every node of the client.\<close>

definition unsubscribe_client_queue_t :: "addr \<Rightarrow> addr \<Rightarrow> server \<Rightarrow> server option" where
  "unsubscribe_client_queue_t q client s = do {
     s \<leftarrow> upd_client client (\<lambda>c. c\<lparr>subscribed_queues := snd (seq_delete q (subscribed_queues c))\<rparr>) s;
     qt \<leftarrow> queue_mem s q;
     if client \<in> set (subscribed_clients_msg qt)
     then upd_queue q (\<lambda>x. x\<lparr>subscribed_clients_msg := remove1 client (subscribed_clients_msg x)\<rparr>) s
     else upd_queue q (\<lambda>x. x\<lparr>subscribed_clients_notify := filter (\<lambda>c. c \<noteq> client) (subscribed_clients_notify x)\<rparr>) s }"

definition eject_clients_queue_t :: "addr \<Rightarrow> server \<Rightarrow> server option" where
  "eject_clients_queue_t q s = do {
     qt \<leftarrow> queue_mem s q;
     s \<leftarrow> for_each (undeclare_client_queue_t q) (declared_clients qt) s;
     qt \<leftarrow> queue_mem s q;
     s \<leftarrow> for_each (\<lambda>client s. do {
            s \<leftarrow> upd_client client (\<lambda>c. c\<lparr>subscribed_queues := snd (seq_delete q (subscribed_queues c))\<rparr>) s;
            upd_queue q (\<lambda>x. x\<lparr>subscribed_clients_msg := remove1 client (subscribed_clients_msg x)\<rparr>) s })
          (subscribed_clients_msg qt) s;
     qt \<leftarrow> queue_mem s q;
     for_each (\<lambda>client s. do {
            s \<leftarrow> upd_client client (\<lambda>c. c\<lparr>subscribed_queues := snd (seq_delete q (subscribed_queues c))\<rparr>) s;
            upd_queue q (\<lambda>x. x\<lparr>subscribed_clients_notify := remove1 client (subscribed_clients_notify x)\<rparr>) s })
          (subscribed_clients_notify qt) s }"

section \<open>Links to routes\<close>

definition link_queue_route_t :: "addr \<Rightarrow> addr \<Rightarrow> bytes \<Rightarrow> server \<Rightarrow> server option" where
  "link_queue_route_t q route key s = upd_queue q (\<lambda>x. case map_of (qroutes x) key of
       None \<Rightarrow> x\<lparr>qroutes := AList.update key [route] (qroutes x)\<rparr>
     | Some rs \<Rightarrow> (if route \<in> set rs then x
                  else x\<lparr>qroutes := AList.update key (rs @ [route]) (qroutes x)\<rparr>)) s"

definition unlink_queue_route_t :: "addr \<Rightarrow> addr \<Rightarrow> bytes \<Rightarrow> server \<Rightarrow> server option" where
  "unlink_queue_route_t q route key s = upd_queue q (\<lambda>x. case map_of (qroutes x) key of
       None \<Rightarrow> x
     | Some rs \<Rightarrow> (let rs' = snd (seq_delete route rs) in
         if rs' = [] then x\<lparr>qroutes := AList.delete key (qroutes x)\<rparr>
         else x\<lparr>qroutes := AList.update key rs' (qroutes x)\<rparr>)) s"

end
