(* ===== verification/RouteT.thy ===== *)
theory RouteT
  imports QueueT
begin

text \<open>
  src/route_t.c, and the deletion of a queue (src/queue_t.c), which leaves the routes it is bound
  to. A binding is kept twice: the route maps a key to its queues and the queue maps the key to
  its routes. \<open>AList\<close> operations stand for the keylist operations they were shown to be.
\<close>

section \<open>Routes\<close>

definition create_route_t :: "bytes \<Rightarrow> u32 \<Rightarrow> server \<Rightarrow> (server \<times> addr) option" where
  "create_route_t name fl s = do {
     nm \<leftarrow> copy_name 64 name;
     let a = fresh s;
     let rt = \<lparr>rname = nm, rflags = fl, rauto_delete = BIT_CHECK fl EG_ROUTE_AUTODELETE_FLAG,
               rround_robin = BIT_CHECK fl EG_ROUTE_ROUND_ROBIN_FLAG, keys = []\<rparr>;
     Some (s\<lparr>route_mem := (route_mem s)(a \<mapsto> rt), fresh := Suc a\<rparr>, a) }"

definition find_route_t :: "addr list \<Rightarrow> bytes \<Rightarrow> server \<Rightarrow> addr option option" where
  "find_route_t rs name s = find_by (\<lambda>r. do { rt \<leftarrow> route_mem s r; Some (rname rt = name) }) rs"

definition rename_route_t :: "addr \<Rightarrow> bytes \<Rightarrow> server \<Rightarrow> server option" where
  "rename_route_t r name s = do { nm \<leftarrow> copy_name 64 name; upd_route r (\<lambda>x. x\<lparr>rname := nm\<rparr>) s }"

definition get_queue_number_route_t :: "route_t \<Rightarrow> u32" where
  "get_queue_number_route_t rt = foldl (\<lambda>n (key, qs). n + of_nat (length qs)) 0 (keys rt)"

definition unbind_queues_key_route_t :: "addr \<Rightarrow> addr list \<Rightarrow> bytes \<Rightarrow> server \<Rightarrow> server option" where
  "unbind_queues_key_route_t r qs key s = for_each (\<lambda>q. unlink_queue_route_t q r key) qs s"

definition unbind_queues_route_t :: "addr \<Rightarrow> server \<Rightarrow> server option" where
  "unbind_queues_route_t r s = do {
     rt \<leftarrow> route_mem s r;
     for_each (\<lambda>(key, qs). unbind_queues_key_route_t r qs key) (keys rt) s }"

definition delete_route_t :: "addr \<Rightarrow> server \<Rightarrow> server option" where
  "delete_route_t r s = do {
     s \<leftarrow> unbind_queues_route_t r s;
     Some (s\<lparr>route_mem := (route_mem s)(r := None)\<rparr>) }"

text \<open>\<open>list_delete_value(server->routes, route)\<close>: its free method is \<open>delete_route_t\<close>.\<close>

definition routes_delete_value :: "addr \<Rightarrow> server \<Rightarrow> (status \<times> server) option" where
  "routes_delete_value r s =
     (if r \<in> set (routes s)
      then do { s \<leftarrow> delete_route_t r (s\<lparr>routes := remove1 r (routes s)\<rparr>); Some (EG_STATUS_OK, s) }
      else Some (EG_STATUS_ERR, s))"

text \<open>The broadcast loop of \<open>push_message_route_t\<close>.\<close>

fun push_queues :: "addr list \<Rightarrow> addr \<Rightarrow> u32 \<Rightarrow> status \<Rightarrow> server \<Rightarrow> (status \<times> server) option" where
  "push_queues [] obj ex st s = Some (st, s)"
| "push_queues (q # qs) obj ex st s = do {
     (r, s) \<leftarrow> push_message_queue_t q obj ex s;
     s \<leftarrow> increment_references_count obj s;
     push_queues qs obj ex (if r \<noteq> EG_STATUS_OK then EG_STATUS_ERR else st) s }"

definition push_message_route_t :: "addr \<Rightarrow> bytes \<Rightarrow> addr \<Rightarrow> u32 \<Rightarrow> server \<Rightarrow> (status \<times> server) option" where
  "push_message_route_t r key obj ex s = do {
     rt \<leftarrow> route_mem s r;
     (case map_of (keys rt) key of
        None \<Rightarrow> Some (EG_STATUS_ERR, s)
      | Some qs \<Rightarrow>
          (if rround_robin rt then do {
             let qs = seq_rotate qs;
             s \<leftarrow> upd_route r (\<lambda>x. x\<lparr>keys := AList.update key qs (keys x)\<rparr>) s;
             q \<leftarrow> (case qs of [] \<Rightarrow> None | q # _ \<Rightarrow> Some q);
             push_queues [q] obj ex EG_STATUS_OK s }
           else push_queues qs obj ex EG_STATUS_OK s)) }"

definition bind_route_t :: "addr \<Rightarrow> addr \<Rightarrow> bytes \<Rightarrow> server \<Rightarrow> server option" where
  "bind_route_t r q key s = do {
     rt \<leftarrow> route_mem s r;
     (case map_of (keys rt) key of
        None \<Rightarrow> do {
          s \<leftarrow> upd_route r (\<lambda>x. x\<lparr>keys := AList.update key [q] (keys x)\<rparr>) s;
          link_queue_route_t q r key s }
      | Some qs \<Rightarrow>
          (if q \<in> set qs then Some s
           else do {
             s \<leftarrow> upd_route r (\<lambda>x. x\<lparr>keys := AList.update key (qs @ [q]) (keys x)\<rparr>) s;
             link_queue_route_t q r key s })) }"

definition unbind_route_t :: "addr \<Rightarrow> addr \<Rightarrow> bytes \<Rightarrow> server \<Rightarrow> (status \<times> server) option" where
  "unbind_route_t r q key s = do {
     rt \<leftarrow> route_mem s r;
     (case map_of (keys rt) key of
        None \<Rightarrow> Some (EG_STATUS_ERR, s)
      | Some qs \<Rightarrow> do {
          let qs = snd (seq_delete q qs);
          s \<leftarrow> upd_route r (\<lambda>x. x\<lparr>keys := (if qs = [] then AList.delete key (keys x)
                                         else AList.update key qs (keys x))\<rparr>) s;
          s \<leftarrow> unlink_queue_route_t q r key s;
          rt \<leftarrow> route_mem s r;
          (if rauto_delete rt \<and> keys rt = []
           then do { (_, s) \<leftarrow> routes_delete_value r s; Some (EG_STATUS_OK, s) }
           else Some (EG_STATUS_OK, s)) }) }"

section \<open>Deleting a queue\<close>

definition eject_routes_key_queue_t :: "addr \<Rightarrow> addr list \<Rightarrow> bytes \<Rightarrow> server \<Rightarrow> server option" where
  "eject_routes_key_queue_t q rs key s =
     for_each (\<lambda>r s. do { (_, s) \<leftarrow> unbind_route_t r q key s; Some s }) rs s"

definition eject_routes_queue_t :: "addr \<Rightarrow> server \<Rightarrow> server option" where
  "eject_routes_queue_t q s = do {
     qt \<leftarrow> queue_mem s q;
     for_each (\<lambda>key s. do {
         qt \<leftarrow> queue_mem s q;
         rs \<leftarrow> map_of (qroutes qt) key;
         eject_routes_key_queue_t q rs key s }) (map fst (qroutes qt)) s }"

definition delete_queue_t :: "addr \<Rightarrow> server \<Rightarrow> server option" where
  "delete_queue_t q s = do {
     s \<leftarrow> eject_clients_queue_t q s;
     s \<leftarrow> eject_routes_queue_t q s;
     qt \<leftarrow> queue_mem s q;
     (freed, _) \<leftarrow> queue_release (queue qt);
     s \<leftarrow> for_each free_message_list_handler freed s;
     Some (s\<lparr>queue_mem := (queue_mem s)(q := None)\<rparr>) }"

text \<open>\<open>list_delete_value(server->queues, queue_t)\<close>: its free method is \<open>delete_queue_t\<close>.\<close>

definition queues_delete_value :: "addr \<Rightarrow> server \<Rightarrow> (status \<times> server) option" where
  "queues_delete_value q s =
     (if q \<in> set (queues s)
      then do { s \<leftarrow> delete_queue_t q (s\<lparr>queues := remove1 q (queues s)\<rparr>); Some (EG_STATUS_OK, s) }
      else Some (EG_STATUS_ERR, s))"

definition process_queue_t :: "addr \<Rightarrow> server \<Rightarrow> server option" where
  "process_queue_t q s = do {
     qt \<leftarrow> queue_mem s q;
     if qauto_delete qt \<and> declared_clients qt = []
     then do { (_, s) \<leftarrow> queues_delete_value q s; Some s }
     else Some s }"

end
