(* ===== verification/ChannelT.thy ===== *)
theory ChannelT
  imports RouteT
begin

text \<open>
  src/channel_t.c: topics and patterns of a channel, each a keylist from a string to the clients
  subscribed to it. The client keeps the reverse: for each channel, the keylist nodes it is in.
\<close>

section \<open>Creation and lookup\<close>

definition create_channel_t :: "bytes \<Rightarrow> u32 \<Rightarrow> server \<Rightarrow> (server \<times> addr) option" where
  "create_channel_t name fl s = do {
     nm \<leftarrow> copy_name 64 name;
     let a = fresh s;
     let ct = \<lparr>chname = nm, chflags = fl, chauto_delete = BIT_CHECK fl EG_CHANNEL_AUTODELETE_FLAG,
               chround_robin = BIT_CHECK fl EG_CHANNEL_ROUND_ROBIN_FLAG, topics = [], patterns = []\<rparr>;
     Some (s\<lparr>channel_mem := (channel_mem s)(a \<mapsto> ct), fresh := Suc a\<rparr>, a) }"

definition find_channel_t :: "addr list \<Rightarrow> bytes \<Rightarrow> server \<Rightarrow> addr option option" where
  "find_channel_t chs name s = find_by (\<lambda>ch. do { ct \<leftarrow> channel_mem s ch; Some (chname ct = name) }) chs"

definition rename_channel_t :: "addr \<Rightarrow> bytes \<Rightarrow> server \<Rightarrow> server option" where
  "rename_channel_t ch name s = do { nm \<leftarrow> copy_name 64 name; upd_channel ch (\<lambda>x. x\<lparr>chname := nm\<rparr>) s }"

section \<open>Publishing\<close>

definition publish_topic :: "addr \<Rightarrow> bytes \<Rightarrow> addr \<Rightarrow> server \<Rightarrow> server option" where
  "publish_topic ch topic obj s = do {
     ct \<leftarrow> channel_mem s ch;
     (case map_of (topics ct) topic of
        None \<Rightarrow> Some s
      | Some cs \<Rightarrow>
          (if chround_robin ct then do {
             let cs = seq_rotate cs;
             s \<leftarrow> upd_channel ch (\<lambda>x. x\<lparr>topics := AList.update topic cs (topics x)\<rparr>) s;
             client \<leftarrow> (case cs of [] \<Rightarrow> None | c # _ \<Rightarrow> Some c);
             channel_client_event_message client ch topic obj s }
           else for_each (\<lambda>client. channel_client_event_message client ch topic obj) cs s)) }"

definition publish_patterns :: "addr \<Rightarrow> bytes \<Rightarrow> addr \<Rightarrow> server \<Rightarrow> server option" where
  "publish_patterns ch topic obj s = do {
     ct \<leftarrow> channel_mem s ch;
     for_each (\<lambda>(pattern, cs) s. do {
         b \<leftarrow> pattern_match topic pattern False;
         if b then for_each (\<lambda>client. channel_client_event_pattern_message client ch topic pattern obj) cs s
         else Some s }) (patterns ct) s }"

definition publish_message_channel_t :: "addr \<Rightarrow> bytes \<Rightarrow> addr \<Rightarrow> server \<Rightarrow> server option" where
  "publish_message_channel_t ch topic obj s = do {
     s \<leftarrow> publish_topic ch topic obj s;
     publish_patterns ch topic obj s }"

section \<open>Subscriptions\<close>

text \<open>The client's side: the nodes of a channel it is in.\<close>

definition add_keylist_channel_t :: "(addr \<times> bytes list) list \<Rightarrow> addr \<Rightarrow> bytes \<Rightarrow> (addr \<times> bytes list) list" where
  "add_keylist_channel_t kl ch node = (case map_of kl ch of
     None \<Rightarrow> AList.update ch [node] kl
   | Some ns \<Rightarrow> if node \<in> set ns then kl else AList.update ch (ns @ [node]) kl)"

definition remove_keylist_channel_t ::
    "(addr \<times> bytes list) list \<Rightarrow> addr \<Rightarrow> bytes \<Rightarrow> status \<times> (addr \<times> bytes list) list" where
  "remove_keylist_channel_t kl ch node = (case map_of kl ch of
     None \<Rightarrow> (EG_STATUS_ERR, kl)
   | Some ns \<Rightarrow> (let ns' = snd (seq_delete node ns) in
       (EG_STATUS_OK, if ns' = [] then AList.delete ch kl else AList.update ch ns' kl)))"

text \<open>The channel's side: the clients of a topic or pattern. The result says whether it changed.\<close>

definition add_subscriber :: "bytes \<Rightarrow> addr \<Rightarrow> (bytes \<times> addr list) list \<Rightarrow> (bytes \<times> addr list) list option" where
  "add_subscriber key client kl = (case map_of kl key of
     None \<Rightarrow> Some (AList.update key [client] kl)
   | Some cs \<Rightarrow> if client \<in> set cs then None else Some (AList.update key (cs @ [client]) kl))"

definition remove_subscriber :: "bytes \<Rightarrow> addr list \<Rightarrow> addr \<Rightarrow> (bytes \<times> addr list) list \<Rightarrow> (bytes \<times> addr list) list" where
  "remove_subscriber key cs client kl = (let cs' = snd (seq_delete client cs) in
     if cs' = [] then AList.delete key kl else AList.update key cs' kl)"

definition subscribe_channel_t :: "addr \<Rightarrow> addr \<Rightarrow> bytes \<Rightarrow> server \<Rightarrow> server option" where
  "subscribe_channel_t ch client topic s = do {
     ct \<leftarrow> channel_mem s ch;
     (case add_subscriber topic client (topics ct) of
        None \<Rightarrow> Some s
      | Some kl \<Rightarrow> do {
          s \<leftarrow> upd_channel ch (\<lambda>x. x\<lparr>topics := kl\<rparr>) s;
          upd_client client (\<lambda>c. c\<lparr>subscribed_topics := add_keylist_channel_t (subscribed_topics c) ch topic\<rparr>) s }) }"

definition psubscribe_channel_t :: "addr \<Rightarrow> addr \<Rightarrow> bytes \<Rightarrow> server \<Rightarrow> server option" where
  "psubscribe_channel_t ch client pattern s = do {
     ct \<leftarrow> channel_mem s ch;
     (case add_subscriber pattern client (patterns ct) of
        None \<Rightarrow> Some s
      | Some kl \<Rightarrow> do {
          s \<leftarrow> upd_channel ch (\<lambda>x. x\<lparr>patterns := kl\<rparr>) s;
          upd_client client (\<lambda>c. c\<lparr>subscribed_patterns := add_keylist_channel_t (subscribed_patterns c) ch pattern\<rparr>) s }) }"

text \<open>
  \<open>list_delete_value(server->channels, channel)\<close> for a channel without topics and patterns, as
  the two unsubscriptions reach it: \<open>delete_channel_t\<close> has no client to eject and frees the
  channel (the lemma \<open>delete_channel_t_empty\<close> below).
\<close>

definition auto_delete_channel :: "addr \<Rightarrow> server \<Rightarrow> server option" where
  "auto_delete_channel ch s = do {
     ct \<leftarrow> channel_mem s ch;
     if chauto_delete ct \<and> topics ct = [] \<and> patterns ct = [] \<and> ch \<in> set (channels s)
     then Some (s\<lparr>channels := remove1 ch (channels s), channel_mem := (channel_mem s)(ch := None)\<rparr>)
     else Some s }"

definition unsubscribe_channel_t :: "addr \<Rightarrow> addr \<Rightarrow> bytes \<Rightarrow> server \<Rightarrow> (status \<times> server) option" where
  "unsubscribe_channel_t ch client topic s = do {
     ct \<leftarrow> channel_mem s ch;
     (case map_of (topics ct) topic of
        None \<Rightarrow> Some (EG_STATUS_ERR, s)
      | Some cs \<Rightarrow> do {
          s \<leftarrow> upd_client client (\<lambda>c. c\<lparr>subscribed_topics :=
                 snd (remove_keylist_channel_t (subscribed_topics c) ch topic)\<rparr>) s;
          s \<leftarrow> upd_channel ch (\<lambda>x. x\<lparr>topics := remove_subscriber topic cs client (topics x)\<rparr>) s;
          s \<leftarrow> auto_delete_channel ch s;
          Some (EG_STATUS_OK, s) }) }"

definition punsubscribe_channel_t :: "addr \<Rightarrow> addr \<Rightarrow> bytes \<Rightarrow> server \<Rightarrow> (status \<times> server) option" where
  "punsubscribe_channel_t ch client pattern s = do {
     ct \<leftarrow> channel_mem s ch;
     (case map_of (patterns ct) pattern of
        None \<Rightarrow> Some (EG_STATUS_ERR, s)
      | Some cs \<Rightarrow> do {
          s \<leftarrow> upd_client client (\<lambda>c. c\<lparr>subscribed_patterns :=
                 snd (remove_keylist_channel_t (subscribed_patterns c) ch pattern)\<rparr>) s;
          s \<leftarrow> upd_channel ch (\<lambda>x. x\<lparr>patterns := remove_subscriber pattern cs client (patterns x)\<rparr>) s;
          s \<leftarrow> auto_delete_channel ch s;
          Some (EG_STATUS_OK, s) }) }"

section \<open>Deletion\<close>

definition eject_clients_channel_t :: "addr \<Rightarrow> server \<Rightarrow> server option" where
  "eject_clients_channel_t ch s = do {
     ct \<leftarrow> channel_mem s ch;
     s \<leftarrow> for_each (\<lambda>topic s. do {
            ct \<leftarrow> channel_mem s ch;
            cs \<leftarrow> map_of (topics ct) topic;
            for_each (\<lambda>client s. do { (_, s) \<leftarrow> unsubscribe_channel_t ch client topic s; Some s }) cs s })
          (map fst (topics ct)) s;
     ct \<leftarrow> channel_mem s ch;
     for_each (\<lambda>pattern s. do {
            ct \<leftarrow> channel_mem s ch;
            cs \<leftarrow> map_of (patterns ct) pattern;
            for_each (\<lambda>client s. do { (_, s) \<leftarrow> punsubscribe_channel_t ch client pattern s; Some s }) cs s })
          (map fst (patterns ct)) s }"

definition delete_channel_t :: "addr \<Rightarrow> server \<Rightarrow> server option" where
  "delete_channel_t ch s = do {
     s \<leftarrow> eject_clients_channel_t ch s;
     ct \<leftarrow> channel_mem s ch;
     Some (s\<lparr>channel_mem := (channel_mem s)(ch := None)\<rparr>) }"

text \<open>\<open>list_delete_value(server->channels, channel)\<close>.\<close>

definition channels_delete_value :: "addr \<Rightarrow> server \<Rightarrow> (status \<times> server) option" where
  "channels_delete_value ch s =
     (if ch \<in> set (channels s)
      then do { s \<leftarrow> delete_channel_t ch (s\<lparr>channels := remove1 ch (channels s)\<rparr>); Some (EG_STATUS_OK, s) }
      else Some (EG_STATUS_ERR, s))"

lemma delete_channel_t_empty:
  assumes "channel_mem s ch = Some ct" "topics ct = []" "patterns ct = []"
  shows "delete_channel_t ch s = Some (s\<lparr>channel_mem := (channel_mem s)(ch := None)\<rparr>)"
  using assms by (simp add: delete_channel_t_def eject_clients_channel_t_def)

end
