(* ===== verification/Users.thy ===== *)
theory Users
  imports Protocol
begin

text \<open>src/user.c: the users and their permissions.\<close>

definition create_user :: "bytes \<Rightarrow> bytes \<Rightarrow> u64 \<Rightarrow> server \<Rightarrow> (server \<times> addr) option" where
  "create_user name pass p s = do {
     nm \<leftarrow> copy_name 32 name;
     pw \<leftarrow> copy_name 32 pass;
     let a = fresh s;
     Some (s\<lparr>user_mem := (user_mem s)(a \<mapsto> \<lparr>uname = nm, upassword = pw, uperm = p\<rparr>), fresh := Suc a\<rparr>, a) }"

definition delete_user :: "addr \<Rightarrow> server \<Rightarrow> server option" where
  "delete_user u s = do { x \<leftarrow> user_mem s u; Some (s\<lparr>user_mem := (user_mem s)(u := None)\<rparr>) }"

text \<open>With \<open>password\<close> NULL only the name is compared.\<close>

definition find_user :: "addr list \<Rightarrow> bytes \<Rightarrow> bytes option \<Rightarrow> server \<Rightarrow> addr option option" where
  "find_user us name password s = find_by (\<lambda>u. do {
     x \<leftarrow> user_mem s u;
     Some (case password of
       Some pw \<Rightarrow> uname x = name \<and> upassword x = pw
     | None \<Rightarrow> uname x = name) }) us"

definition rename_user :: "addr \<Rightarrow> bytes \<Rightarrow> server \<Rightarrow> server option" where
  "rename_user u name s = do { nm \<leftarrow> copy_name 32 name; upd_user u (\<lambda>x. x\<lparr>uname := nm\<rparr>) s }"

definition set_user_perm :: "addr \<Rightarrow> u64 \<Rightarrow> server \<Rightarrow> server option" where
  "set_user_perm u p s = upd_user u (\<lambda>x. x\<lparr>uperm := p\<rparr>) s"

definition get_user_perm :: "addr \<Rightarrow> server \<Rightarrow> u64 option" where
  "get_user_perm u s = do { x \<leftarrow> user_mem s u; Some (uperm x) }"

text \<open>\<open>list_delete_value(server->users, user)\<close>: its free method is \<open>delete_user\<close>.\<close>

definition users_delete_value :: "addr \<Rightarrow> server \<Rightarrow> (status \<times> server) option" where
  "users_delete_value u s =
     (if u \<in> set (users s)
      then do { s \<leftarrow> delete_user u (s\<lparr>users := remove1 u (users s)\<rparr>); Some (EG_STATUS_OK, s) }
      else Some (EG_STATUS_ERR, s))"

end
