(* ===== verification/Clients.thy ===== *)
theory Clients
  imports ChannelT Users
begin

text \<open>
  The life of a connection (src/handlers.c): \<open>create_client\<close>, \<open>free_client\<close> with the two functions
  that take the client out of its queues and channels, \<open>accept_common_handler\<close>,
  \<open>client_timeout\<close> and \<open>send_response\<close>.
\<close>

definition EG_BUF_SIZE :: nat where "EG_BUF_SIZE = 32768"
definition EG_MAX_BUF_SIZE :: nat where "EG_MAX_BUF_SIZE = 2147483647"
definition EG_MAX_MSG_SIZE :: u32 where "EG_MAX_MSG_SIZE = 2147483647"

section \<open>Leaving queues and channels\<close>

definition eject_queue_client :: "addr \<Rightarrow> server \<Rightarrow> server option" where
  "eject_queue_client client s = do {
     c \<leftarrow> client_mem s client;
     s \<leftarrow> for_each (\<lambda>q. unsubscribe_client_queue_t q client) (subscribed_queues c) s;
     c \<leftarrow> client_mem s client;
     for_each (\<lambda>q s. do { s \<leftarrow> undeclare_client_queue_t q client s; process_queue_t q s })
       (declared_queues c) s }"

definition eject_channel_client :: "addr \<Rightarrow> server \<Rightarrow> server option" where
  "eject_channel_client client s = do {
     c \<leftarrow> client_mem s client;
     s \<leftarrow> for_each (\<lambda>ch s. do {
            c \<leftarrow> client_mem s client;
            ns \<leftarrow> map_of (subscribed_topics c) ch;
            for_each (\<lambda>topic s. do { (_, s) \<leftarrow> unsubscribe_channel_t ch client topic s; Some s }) ns s })
          (map fst (subscribed_topics c)) s;
     c \<leftarrow> client_mem s client;
     for_each (\<lambda>ch s. do {
            c \<leftarrow> client_mem s client;
            ns \<leftarrow> map_of (subscribed_patterns c) ch;
            for_each (\<lambda>pattern s. do { (_, s) \<leftarrow> punsubscribe_channel_t ch client pattern s; Some s }) ns s })
          (map fst (subscribed_patterns c)) s }"

section \<open>Connections\<close>

text \<open>The fresh buffers are uninitialised memory; their content is never read before it is
  written, so any value will do.\<close>

definition create_client :: "int \<Rightarrow> server \<Rightarrow> (addr option \<times> server) option" where
  "create_client cfd s = do {
     let a = fresh s;
     let s = s\<lparr>fresh := Suc a\<rparr>;
     (r, l) \<leftarrow> create_file_event cfd EG_EVENT_READABLE read_request (Some a) (loop s);
     let s = s\<lparr>loop := l\<rparr>;
     if r = EG_STATUS_ERR then Some (None, s)
     else do {
       let c = \<lparr>fd = cfd, perm = 0, request = xcalloc_bytes EG_BUF_SIZE, pos = 0, noack = 0, offset = 0,
                buffer = xcalloc_bytes EG_BUF_SIZE, bodylen = 0, nread = 0, responses = [],
                declared_queues = [], subscribed_queues = [], subscribed_topics = [],
                subscribed_patterns = [], sentlen = 0, last_action = time_NULL (env s)\<rparr>;
       Some (Some a, s\<lparr>client_mem := (client_mem s)(a \<mapsto> c), clients := clients s @ [a]\<rparr>) } }"

definition free_client :: "addr \<Rightarrow> server \<Rightarrow> server option" where
  "free_client client s = do {
     s \<leftarrow> eject_queue_client client s;
     s \<leftarrow> eject_channel_client client s;
     c \<leftarrow> client_mem s client;
     s \<leftarrow> for_each free_object_list_handler (responses c) s;
     l \<leftarrow> delete_file_event (fd c) EG_EVENT_READABLE (loop s);
     l \<leftarrow> delete_file_event (fd c) EG_EVENT_WRITABLE l;
     Some (s\<lparr>loop := l, clients := snd (seq_delete client (clients s)),
             client_mem := (client_mem s)(client := None)\<rparr>) }"

definition accept_common_handler :: "int \<Rightarrow> server \<Rightarrow> server option" where
  "accept_common_handler cfd s = do {
     (r, s) \<leftarrow> create_client cfd s;
     (case r of
        None \<Rightarrow> Some s
      | Some client \<Rightarrow>
          if length (clients s) > max_clients s then free_client client s else Some s) }"

definition client_timeout_check :: "server \<Rightarrow> server option" where
  "client_timeout_check s =
     (if client_timeout s \<noteq> 0 then
        for_each (\<lambda>client s. do {
          c \<leftarrow> client_mem s client;
          if now_time s - last_action c > client_timeout s then free_client client s else Some s })
        (clients s) s
      else Some s)"

section \<open>Sending\<close>

lemma free_object_keeps_clients: "free_object_list_handler obj s = Some s' \<Longrightarrow> client_mem s' = client_mem s"
  unfolding free_object_list_handler_def decrement_references_count_def release_object_def upd_object_def
  by (cases "object_mem s obj") (simp_all split: if_split_asm, auto)

text \<open>What \<open>write\<close> answers: a positive number of bytes taken, zero, \<open>EAGAIN\<close>, or another error.\<close>

datatype write_result = Wrote nat | Write_again | Write_failed

text \<open>
  The loop of \<open>send_response\<close>, one \<open>write_result\<close> per call of \<open>write\<close> (an exhausted list answers
  \<open>EAGAIN\<close>). It returns the bytes the socket took, the last result and the state. A positive
  answer is at most what was offered.
\<close>

function send_loop :: "write_result list \<Rightarrow> addr \<Rightarrow> server \<Rightarrow> (bytes \<times> write_result \<times> server) option" where
  "send_loop ws client s = do {
     c \<leftarrow> client_mem s client;
     (case responses c of
        [] \<Rightarrow> Some ([], Wrote 0, s)
      | obj # rest \<Rightarrow> do {
          x \<leftarrow> object_mem s obj;
          if osize x = 0 then do {
            s \<leftarrow> upd_client client (\<lambda>c. c\<lparr>responses := rest\<rparr>) s;
            s \<leftarrow> free_object_list_handler obj s;
            send_loop ws client s }
          else (case ws of
            [] \<Rightarrow> Some ([], Write_again, s)
          | w # ws' \<Rightarrow>
              (case w of
                 Wrote n \<Rightarrow>
                   (if n = 0 then Some ([], Wrote 0, s)
                    else if n > osize x - sentlen c then None
                    else do {
                      let chunk = take n (drop (sentlen c) (odata x));
                      let c' = c\<lparr>sentlen := sentlen c + n\<rparr>;
                      s \<leftarrow> upd_client client (\<lambda>_. c') s;
                      s \<leftarrow> (if sentlen c' = osize x then do {
                               s \<leftarrow> upd_client client (\<lambda>c. c\<lparr>responses := rest\<rparr>) s;
                               s \<leftarrow> free_object_list_handler obj s;
                               upd_client client (\<lambda>c. c\<lparr>sentlen := 0\<rparr>) s }
                             else Some s);
                      (out, r, s) \<leftarrow> send_loop ws' client s;
                      Some (chunk @ out, r, s) })
               | _ \<Rightarrow> Some ([], w, s))) }) }"
  by pat_completeness auto

termination
  by (relation "measures [\<lambda>(ws, client, s). length ws,
        \<lambda>(ws, client, s). case client_mem s client of None \<Rightarrow> 0 | Some c \<Rightarrow> length (responses c)]")
     (auto simp: upd_client_def bind_eq_Some_conv dest!: free_object_keeps_clients)

definition send_response_handler :: "write_result list \<Rightarrow> addr \<Rightarrow> server \<Rightarrow> (bytes \<times> server) option" where
  "send_response_handler ws client s = do {
     (out, r, s) \<leftarrow> send_loop ws client s;
     if r = Write_failed then do { s \<leftarrow> free_client client s; Some (out, s) }
     else do {
       s \<leftarrow> (if out \<noteq> [] then upd_client client (\<lambda>c. c\<lparr>last_action := time_NULL (env s)\<rparr>) s else Some s);
       c \<leftarrow> client_mem s client;
       if responses c = [] then do {
         s \<leftarrow> upd_client client (\<lambda>c. c\<lparr>sentlen := 0\<rparr>) s;
         l \<leftarrow> delete_file_event (fd c) EG_EVENT_WRITABLE (loop s);
         Some (out, s\<lparr>loop := l\<rparr>) }
       else Some (out, s) } }"

end
