(* ===== verification/Lzf.thy ===== *)
theory Lzf
  imports Utils
begin

text \<open>
  LZF compression (src/lzf_c.c, src/lzf_d.c) in the configuration of lzfP.h: \<open>HLOG\<close> 16,
  \<open>VERY_FAST\<close>, no initialisation of the hash table, offsets in the hash table,
  \<open>CHECK_INPUT\<close>. A pointer into the input or the output is its offset. Reads and writes
  outside of the two buffers are faults. The hash table is uninitialised memory, so it is an
  argument and the claims hold for every content.
\<close>

section \<open>Compression\<close>

definition MAX_LIT :: nat where "MAX_LIT = 32"
definition MAX_OFF :: nat where "MAX_OFF = 8192"
definition MAX_REF :: nat where "MAX_REF = 264"

definition FRST :: "bytes \<Rightarrow> nat \<Rightarrow> u32 option" where
  "FRST inp p = do { a \<leftarrow> rd inp p; b \<leftarrow> rd inp (p + 1); Some (push_bit 8 (ucast a) OR ucast b) }"

definition NEXT :: "u32 \<Rightarrow> bytes \<Rightarrow> nat \<Rightarrow> u32 option" where
  "NEXT v inp p = do { c \<leftarrow> rd inp (p + 2); Some (push_bit 8 v OR ucast c) }"

definition IDX :: "u32 \<Rightarrow> u32" where
  "IDX h = (drop_bit 8 h - h * 5) AND 0xFFFF"

text \<open>\<open>buf[i] = b\<close>.\<close>

definition wr :: "bytes \<Rightarrow> nat \<Rightarrow> u8 \<Rightarrow> bytes option" where
  "wr buf i b = (if i < length buf then Some (buf[i := b]) else None)"

text \<open>
  The test for a match. \<open>off = ip - ref - 1\<close> is unsigned, so it is huge and fails the test
  when \<open>ref\<close> is not before \<open>ip\<close>.
\<close>

definition match_at :: "bytes \<Rightarrow> nat \<Rightarrow> nat \<Rightarrow> bool option" where
  "match_at inp ip ref =
     (if ref < ip \<and> ip - ref - 1 < MAX_OFF \<and> 0 < ref then do {
        r2 \<leftarrow> rd inp (ref + 2); i2 \<leftarrow> rd inp (ip + 2);
        if r2 = i2 then do {
          r0 \<leftarrow> rd inp ref; r1 \<leftarrow> rd inp (ref + 1); i0 \<leftarrow> rd inp ip; i1 \<leftarrow> rd inp (ip + 1);
          Some (r0 = i0 \<and> r1 = i1) }
        else Some False }
      else Some False)"

text \<open>\<open>k\<close> times \<open>len++; if (ref[len] != ip[len]) break;\<close>; the flag is whether it broke off.\<close>

fun unrolled :: "nat \<Rightarrow> bytes \<Rightarrow> nat \<Rightarrow> nat \<Rightarrow> nat \<Rightarrow> (bool \<times> nat) option" where
  "unrolled 0 inp ref ip len = Some (False, len)"
| "unrolled (Suc k) inp ref ip len = do {
     a \<leftarrow> rd inp (ref + (len + 1)); b \<leftarrow> rd inp (ip + (len + 1));
     if a \<noteq> b then Some (True, len + 1) else unrolled k inp ref ip (len + 1) }"

text \<open>\<open>do len++; while (len < maxlen && ref[len] == ip[len]);\<close>\<close>

function extend_match :: "nat \<Rightarrow> bytes \<Rightarrow> nat \<Rightarrow> nat \<Rightarrow> nat \<Rightarrow> nat option" where
  "extend_match maxlen inp ref ip len =
     (if len + 1 < maxlen then do {
        a \<leftarrow> rd inp (ref + (len + 1)); b \<leftarrow> rd inp (ip + (len + 1));
        if a = b then extend_match maxlen inp ref ip (len + 1) else Some (len + 1) }
      else Some (len + 1))"
  by pat_completeness auto

termination
  by (relation "measure (\<lambda>(maxlen, _, _, _, len). maxlen - len)") auto

declare extend_match.simps [simp del]

definition match_length :: "bytes \<Rightarrow> nat \<Rightarrow> nat \<Rightarrow> nat option" where
  "match_length inp ref ip = (let maxlen = min (length inp - ip - 2) MAX_REF in do {
     (brk, len) \<leftarrow> (if maxlen > 16 then unrolled 16 inp ref ip 2 else Some (False, 2));
     if brk then Some len else extend_match maxlen inp ref ip len })"

text \<open>The variables of \<open>lzf_compress\<close>.\<close>

record lzf =
  inpos :: nat
  outpos :: nat
  lit :: nat
  hval :: u32
  htab :: "u32 \<Rightarrow> u32"
  outbuf :: bytes

text \<open>\<open>op[-lit - 1] = lit - 1\<close>\<close>

definition stop_run :: "lzf \<Rightarrow> lzf option" where
  "stop_run z = (if lit z < outpos z then do {
     b \<leftarrow> wr (outbuf z) (outpos z - lit z - 1) (of_nat (lit z) - 1); Some (z\<lparr>outbuf := b\<rparr>) } else None)"

text \<open>\<open>op -= !lit\<close>\<close>

definition undo_run :: "lzf \<Rightarrow> lzf" where
  "undo_run z = z\<lparr>outpos := outpos z - (if lit z = 0 then 1 else 0)\<rparr>"

text \<open>\<open>lit = 0; op++\<close>\<close>

definition start_run :: "lzf \<Rightarrow> lzf" where
  "start_run z = z\<lparr>lit := 0, outpos := outpos z + 1\<rparr>"

text \<open>\<open>*op++ = b\<close>\<close>

definition put_byte :: "u8 \<Rightarrow> lzf \<Rightarrow> lzf option" where
  "put_byte b z = do { o1 \<leftarrow> wr (outbuf z) (outpos z) b; Some (z\<lparr>outbuf := o1, outpos := outpos z + 1\<rparr>) }"

text \<open>\<open>hval = NEXT(hval, ip); htab[IDX(hval)] = ip; ip++\<close>\<close>

definition rehash :: "bytes \<Rightarrow> lzf \<Rightarrow> lzf option" where
  "rehash inp z = do {
     h \<leftarrow> NEXT (hval z) inp (inpos z);
     Some (z\<lparr>hval := h, htab := (htab z)(IDX h := of_nat (inpos z)), inpos := inpos z + 1\<rparr>) }"

text \<open>\<open>lit++; *op++ = *ip++;\<close> and the end of a run of maximal length.\<close>

definition put_literal :: "bytes \<Rightarrow> lzf \<Rightarrow> lzf option" where
  "put_literal inp z = do {
     b \<leftarrow> rd inp (inpos z);
     z \<leftarrow> put_byte b (z\<lparr>lit := lit z + 1, inpos := inpos z + 1\<rparr>);
     if lit z = MAX_LIT then do { z \<leftarrow> stop_run z; Some (start_run z) } else Some z }"

text \<open>How one pass of the main loop ends: \<open>return 0\<close>, next pass, \<open>break\<close>.\<close>

datatype lzf_next = Return_0 | Again lzf | Break lzf

text \<open>The two or three bytes of a back reference.\<close>

definition emit_reference :: "nat \<Rightarrow> nat \<Rightarrow> lzf \<Rightarrow> lzf option" where
  "emit_reference off len z = do {
     z \<leftarrow> (if len < 7 then put_byte (of_nat (off div 256 + len * 32)) z
           else do { z \<leftarrow> put_byte (of_nat (off div 256 + 7 * 32)) z; put_byte (of_nat (len - 7)) z });
     put_byte (of_nat off) z }"

text \<open>After a match: the end of the input, or two more entries of the hash table.\<close>

definition resume :: "bytes \<Rightarrow> lzf \<Rightarrow> lzf_next option" where
  "resume inp z =
     (if inpos z + 2 \<ge> length inp then Some (Break z)
      else do {
        let z = z\<lparr>inpos := inpos z - 2\<rparr>;
        h \<leftarrow> FRST inp (inpos z);
        z \<leftarrow> rehash inp (z\<lparr>hval := h\<rparr>);
        z \<leftarrow> rehash inp z;
        Some (Again z) })"

definition put_reference :: "bytes \<Rightarrow> nat \<Rightarrow> lzf \<Rightarrow> lzf_next option" where
  "put_reference inp ref z =
     (if outpos z + 3 + 1 \<ge> length (outbuf z) \<and>
         outpos z - (if lit z = 0 then 1 else 0) + 3 + 1 \<ge> length (outbuf z) then Some Return_0
      else do {
        z1 \<leftarrow> stop_run z;
        n \<leftarrow> match_length inp ref (inpos z);
        z2 \<leftarrow> emit_reference (inpos z - ref - 1) (n - 2) (undo_run z1);
        resume inp ((start_run z2)\<lparr>inpos := inpos z + 1 + (n - 2 + 1)\<rparr>) })"

definition lzf_step :: "bytes \<Rightarrow> lzf \<Rightarrow> lzf_next option" where
  "lzf_step inp z = do {
     h \<leftarrow> NEXT (hval z) inp (inpos z);
     let ref = unat (htab z (IDX h));
     let z = z\<lparr>hval := h, htab := (htab z)(IDX h := of_nat (inpos z))\<rparr>;
     m \<leftarrow> match_at inp (inpos z) ref;
     if m then put_reference inp ref z
     else if outpos z \<ge> length (outbuf z) then Some Return_0
     else map_option Again (put_literal inp z) }"

text \<open>The main loop; \<open>Some None\<close> is \<open>return 0\<close>.\<close>

partial_function (option) lzf_loop :: "bytes \<Rightarrow> lzf \<Rightarrow> lzf option option" where [code]:
  "lzf_loop inp z =
     (if inpos z + 2 < length inp then
        Option.bind (lzf_step inp z) (\<lambda>r. case r of
          Return_0 \<Rightarrow> Some None | Break z' \<Rightarrow> Some (Some z') | Again z' \<Rightarrow> lzf_loop inp z')
      else Some (Some z))"

function lzf_tail :: "bytes \<Rightarrow> lzf \<Rightarrow> lzf option" where
  "lzf_tail inp z = (if inpos z < length inp then do { z' \<leftarrow> put_literal inp z; lzf_tail inp z' } else Some z)"
  by pat_completeness auto

termination
  by (relation "measure (\<lambda>(inp, z). length inp - inpos z)")
    (auto simp: put_literal_def put_byte_def stop_run_def start_run_def bind_eq_Some_conv split: if_split_asm)

declare lzf_tail.simps [simp del]

text \<open>
  \<open>lzf_compress(in_data, in_len, out_data, out_len)\<close>: the result and the output buffer, of
  \<open>out_len\<close> bytes. After \<open>return 0\<close> from the loop the caller frees the buffer unread; the model then
  gives the initial one.
\<close>

definition lzf_compress :: "(u32 \<Rightarrow> u32) \<Rightarrow> bytes \<Rightarrow> bytes \<Rightarrow> (nat \<times> bytes) option" where
  "lzf_compress ht inp out =
     (if inp = [] \<or> out = [] then Some (0, out)
      else do {
        h \<leftarrow> FRST inp 0;
        r \<leftarrow> lzf_loop inp \<lparr>inpos = 0, outpos = 1, lit = 0, hval = h, htab = ht, outbuf = out\<rparr>;
        (case r of
           None \<Rightarrow> Some (0, out)
         | Some z \<Rightarrow>
             (if outpos z + 3 > length (outbuf z) then Some (0, outbuf z)
              else do {
                z \<leftarrow> lzf_tail inp z;
                z \<leftarrow> stop_run z;
                let z = undo_run z;
                Some (outpos z, outbuf z) })) })"

section \<open>Decompression\<close>

text \<open>\<open>*op++ = *ip++\<close> and \<open>*op++ = *ref++\<close>, \<open>k\<close> times.\<close>

fun copy_literals :: "nat \<Rightarrow> bytes \<Rightarrow> nat \<Rightarrow> bytes \<Rightarrow> nat \<Rightarrow> bytes option" where
  "copy_literals 0 inp ip out op = Some out"
| "copy_literals (Suc k) inp ip out op = do {
     b \<leftarrow> rd inp ip; out' \<leftarrow> wr out op b; copy_literals k inp (ip + 1) out' (op + 1) }"

fun copy_back :: "nat \<Rightarrow> bytes \<Rightarrow> nat \<Rightarrow> nat \<Rightarrow> bytes option" where
  "copy_back 0 out ref op = Some out"
| "copy_back (Suc k) out ref op = do {
     b \<leftarrow> rd out ref; out' \<leftarrow> wr out op b; copy_back k out' (ref + 1) (op + 1) }"

text \<open>
  One pass of the loop: \<open>Some None\<close> is \<open>return 0\<close>, otherwise the new positions and output. The
  unrolled copies, the \<open>memcpy\<close> of disjoint areas and the loop for overlapping ones all copy
  byte by byte upwards.
\<close>

definition unlzf_step :: "bytes \<Rightarrow> nat \<Rightarrow> nat \<Rightarrow> nat \<Rightarrow> bytes \<Rightarrow> (nat \<times> nat \<times> bytes) option option" where
  "unlzf_step inp out_len ip op out = do {
     c \<leftarrow> rd inp ip;
     let ctrl = unat c;
     let ip = ip + 1;
     if ctrl < 32 then (let n = ctrl + 1 in
       if op + n > out_len then Some None
       else if ip + n > length inp then Some None
       else do { out' \<leftarrow> copy_literals n inp ip out op; Some (Some (ip + n, op + n, out')) })
     else (let len = ctrl div 32; ref = int op - int ((ctrl mod 32) * 256) - 1 in
       if ip \<ge> length inp then Some None
       else do {
         x \<leftarrow> (if len = 7 then do { b \<leftarrow> rd inp ip; Some (len + unat b, ip + 1) } else Some (len, ip));
         (case x of (len, ip) \<Rightarrow>
           if ip \<ge> length inp then Some None
           else do {
             b \<leftarrow> rd inp ip;
             let ref = ref - int (unat b);
             let ip = ip + 1;
             if op + len + 2 > out_len then Some None
             else if ref < 0 then Some None
             else do { out' \<leftarrow> copy_back (len + 2) out (nat ref) op; Some (Some (ip, op + len + 2, out')) } }) }) }"

lemma unlzf_step_forward: "unlzf_step inp n ip op out = Some (Some (ip', op', out')) \<Longrightarrow> ip < ip'"
  unfolding unlzf_step_def
  by (cases "rd inp ip") (auto simp: Let_def bind_eq_Some_conv split: if_split_asm)

function unlzf_loop :: "bytes \<Rightarrow> nat \<Rightarrow> nat \<Rightarrow> nat \<Rightarrow> bytes \<Rightarrow> (nat \<times> bytes) option" where
  "unlzf_loop inp out_len ip op out = do {
     r \<leftarrow> unlzf_step inp out_len ip op out;
     (case r of
        None \<Rightarrow> Some (0, out)
      | Some (ip', op', out') \<Rightarrow>
          (if ip' < length inp then unlzf_loop inp out_len ip' op' out' else Some (op', out'))) }"
  by pat_completeness auto

termination
  by (relation "measure (\<lambda>(inp, _, ip, _, _). length inp - ip)") (auto dest: unlzf_step_forward)

declare unlzf_loop.simps [simp del]

definition lzf_decompress :: "bytes \<Rightarrow> bytes \<Rightarrow> nat \<Rightarrow> (nat \<times> bytes) option" where
  "lzf_decompress inp out out_len = unlzf_loop inp out_len 0 0 out"

end
