(* ===== verification/Storage.thy ===== *)
theory Storage
  imports ChannelT Users Lzf
begin

text \<open>
  src/storage.c: the durable part of the broker as a file, and back. A file being written is
  what it holds and how many more bytes the disk takes; a file being read is what is left of it.
  A writer answers \<open>EG_STATUS_ERR\<close> where the source returns -1 or \<open>EG_STATUS_ERR\<close>; a reader answers
  no value (the inner \<open>None\<close>) there. The outer \<open>None\<close> is a memory fault, as everywhere.
\<close>

definition EG_STORAGE_VERSION :: nat where "EG_STORAGE_VERSION = 1"
definition EG_STORAGE_TYPE_USER :: u8 where "EG_STORAGE_TYPE_USER = 0x1"
definition EG_STORAGE_TYPE_QUEUE :: u8 where "EG_STORAGE_TYPE_QUEUE = 0x2"
definition EG_STORAGE_TYPE_MESSAGE :: u8 where "EG_STORAGE_TYPE_MESSAGE = 0x3"
definition EG_STORAGE_TYPE_ROUTE :: u8 where "EG_STORAGE_TYPE_ROUTE = 0x4"
definition EG_STORAGE_TYPE_ROUTE_KEY :: u8 where "EG_STORAGE_TYPE_ROUTE_KEY = 0x5"
definition EG_STORAGE_TYPE_CHANNEL :: u8 where "EG_STORAGE_TYPE_CHANNEL = 0x6"
definition EG_STORAGE_EOF :: u8 where "EG_STORAGE_EOF = 0xFF"

lemmas storage_codes = EG_STORAGE_TYPE_USER_def EG_STORAGE_TYPE_QUEUE_def EG_STORAGE_TYPE_MESSAGE_def
  EG_STORAGE_TYPE_ROUTE_def EG_STORAGE_TYPE_ROUTE_KEY_def EG_STORAGE_TYPE_CHANNEL_def EG_STORAGE_EOF_def

section \<open>Writing\<close>

record wfile =
  written :: bytes
  space :: nat

type_synonym writer = "wfile \<Rightarrow> (status \<times> wfile) option"

text \<open>\<open>fwrite(buffer, length, 1, fp)\<close> answers 0 also when \<open>length\<close> is 0.\<close>

definition storage_write :: "bytes \<Rightarrow> writer" where
  "storage_write data f =
     (if data \<noteq> [] \<and> length data \<le> space f
      then Some (EG_STATUS_OK, \<lparr>written = written f @ data, space = space f - length data\<rparr>)
      else Some (EG_STATUS_ERR, f))"

text \<open>\<open>if (a == -1) return EG_STATUS_ERR; if (b == -1) ...; return EG_STATUS_OK;\<close>\<close>

fun in_turn :: "writer list \<Rightarrow> writer" where
  "in_turn [] f = Some (EG_STATUS_OK, f)"
| "in_turn (w # ws) f = do { (st, f) \<leftarrow> w f; if st = EG_STATUS_ERR then Some (EG_STATUS_ERR, f) else in_turn ws f }"

definition storage_write_type :: "u8 \<Rightarrow> writer" where
  "storage_write_type type = storage_write [type]"

text \<open>The answers 0 (not compressible), 1 (written) and -1 (error). The output buffer is fresh
  memory, of which only the bytes \<open>lzf_compress\<close> wrote are used.\<close>

definition storage_write_lzf_data :: "(u32 \<Rightarrow> u32) \<Rightarrow> bytes \<Rightarrow> wfile \<Rightarrow> (int \<times> wfile) option" where
  "storage_write_lzf_data ht data f =
     (if length data \<le> 4 then Some (0, f)
      else do {
        (comprlen, out) \<leftarrow> lzf_compress ht data (replicate (length data - 4) 0);
        if comprlen = 0 then Some (0, f)
        else do {
          (st, f) \<leftarrow> in_turn [storage_write (le32 (of_nat (length data))), storage_write (le32 (of_nat comprlen)),
                            storage_write (take comprlen out)] f;
          Some (if st = EG_STATUS_ERR then -1 else 1, f) } })"

text \<open>The parameter \<open>length\<close> is 32 bits wide.\<close>

definition storage_write_data :: "(u32 \<Rightarrow> u32) \<Rightarrow> bytes \<Rightarrow> writer" where
  "storage_write_data ht buf f = do {
     let data = take (unat (of_nat (length buf) :: u32)) buf;
     (err, f) \<leftarrow> storage_write_lzf_data ht data f;
     if err = -1 then Some (EG_STATUS_ERR, f)
     else if err \<noteq> 0 then Some (EG_STATUS_OK, f)
     else in_turn [storage_write (le32 0), storage_write (le32 (of_nat (length data))), storage_write data] f }"

text \<open>\<open>"EagleMQ%04d"\<close> for version 1.\<close>

definition storage_magic :: bytes where
  "storage_magic = [69, 97, 103, 108, 101, 77, 81, 48, 48, 48, 49]"

definition storage_write_magic :: writer where
  "storage_write_magic = storage_write storage_magic"

section \<open>Saving\<close>

definition storage_save_user :: "(u32 \<Rightarrow> u32) \<Rightarrow> eagle_user \<Rightarrow> writer" where
  "storage_save_user ht user = in_turn [storage_write_type EG_STORAGE_TYPE_USER,
     storage_write_data ht (strz (uname user)), storage_write_data ht (strz (upassword user)),
     storage_write_data ht (le64 (uperm user))]"

text \<open>A loop over a list of the server whose body may return an error.\<close>

fun save_each :: "('a \<Rightarrow> writer) \<Rightarrow> 'a list \<Rightarrow> writer" where
  "save_each w [] f = Some (EG_STATUS_OK, f)"
| "save_each w (x # xs) f = do { (st, f) \<leftarrow> w x f; if st \<noteq> EG_STATUS_OK then Some (EG_STATUS_ERR, f) else save_each w xs f }"

definition storage_save_users :: "server \<Rightarrow> writer" where
  "storage_save_users s = save_each (\<lambda>u f. do {
     user \<leftarrow> user_mem s u;
     if BIT_CHECK (uperm user) (perm_bit EG_USER_NOT_CHANGE_PERM) then Some (EG_STATUS_OK, f)
     else storage_save_user (stack_garbage (env s)) user f }) (users s)"

definition storage_save_queue_message :: "server \<Rightarrow> addr \<Rightarrow> writer" where
  "storage_save_queue_message s msg f = do {
     m \<leftarrow> message_mem s msg;
     x \<leftarrow> object_mem s (mvalue m);
     in_turn [storage_write_type EG_STORAGE_TYPE_MESSAGE,
       storage_write_data (stack_garbage (env s)) (le32 (expiration m)),
       storage_write_data (stack_garbage (env s)) (odata x)] f }"

text \<open>The iteration from the tail of the queue.\<close>

partial_function (option) save_from :: "server \<Rightarrow> addr Queue \<Rightarrow> QueueIterator \<Rightarrow> writer" where [code]:
  "save_from s q it f =
     Option.bind (queue_next_node q it) (\<lambda>(node, it').
       case node of
         None \<Rightarrow> Some (EG_STATUS_OK, f)
       | Some a \<Rightarrow> Option.bind (mem q a) (\<lambda>nd.
           Option.bind (storage_save_queue_message s (nvalue nd) f) (\<lambda>(st, f').
             if st \<noteq> EG_STATUS_OK then Some (EG_STATUS_ERR, f') else save_from s q it' f')))"

definition storage_save_queue_messages :: "server \<Rightarrow> queue_t \<Rightarrow> writer" where
  "storage_save_queue_messages s qt = save_from s (queue qt) (queue_get_iterator (queue qt) EG_START_TAIL)"

definition storage_save_queue :: "server \<Rightarrow> queue_t \<Rightarrow> writer" where
  "storage_save_queue s qt = (let ht = stack_garbage (env s) in
     in_turn [storage_write_type EG_STORAGE_TYPE_QUEUE, storage_write_data ht (strz (qname qt)),
       storage_write_data ht (le32 (max_msg qt)), storage_write_data ht (le32 (max_msg_size qt)),
       storage_write_data ht (le32 (qflags qt)), storage_write_data ht (le32 (get_size_queue_t qt)),
       storage_save_queue_messages s qt])"

definition storage_save_queues :: "server \<Rightarrow> writer" where
  "storage_save_queues s = save_each (\<lambda>q f. do {
     qt \<leftarrow> queue_mem s q;
     if \<not> BIT_CHECK (qflags qt) EG_QUEUE_DURABLE_FLAG then Some (EG_STATUS_OK, f)
     else storage_save_queue s qt f }) (queues s)"

definition storage_save_route_key_queues :: "server \<Rightarrow> addr list \<Rightarrow> writer" where
  "storage_save_route_key_queues s qs = save_each (\<lambda>q f. do {
     qt \<leftarrow> queue_mem s q;
     storage_write_data (stack_garbage (env s)) (strz (qname qt)) f }) qs"

definition storage_save_route_key :: "server \<Rightarrow> bytes \<Rightarrow> addr list \<Rightarrow> writer" where
  "storage_save_route_key s key qs = (let ht = stack_garbage (env s) in
     in_turn [storage_write_type EG_STORAGE_TYPE_ROUTE_KEY, storage_write_data ht (strz key),
       storage_write_data ht (le32 (of_nat (length qs))), storage_save_route_key_queues s qs])"

definition storage_save_route_keys :: "server \<Rightarrow> route_t \<Rightarrow> writer" where
  "storage_save_route_keys s rt = save_each (\<lambda>(key, qs). storage_save_route_key s key qs) (keys rt)"

definition storage_save_route :: "server \<Rightarrow> route_t \<Rightarrow> writer" where
  "storage_save_route s rt = (let ht = stack_garbage (env s) in
     in_turn [storage_write_type EG_STORAGE_TYPE_ROUTE, storage_write_data ht (strz (rname rt)),
       storage_write_data ht (le32 (rflags rt)), storage_write_data ht (le32 (of_nat (length (keys rt)))),
       storage_save_route_keys s rt])"

definition storage_save_routes :: "server \<Rightarrow> writer" where
  "storage_save_routes s = save_each (\<lambda>r f. do {
     rt \<leftarrow> route_mem s r;
     if \<not> BIT_CHECK (rflags rt) EG_ROUTE_DURABLE_FLAG then Some (EG_STATUS_OK, f)
     else storage_save_route s rt f }) (routes s)"

definition storage_save_channel :: "(u32 \<Rightarrow> u32) \<Rightarrow> channel_t \<Rightarrow> writer" where
  "storage_save_channel ht ct = in_turn [storage_write_type EG_STORAGE_TYPE_CHANNEL,
     storage_write_data ht (strz (chname ct)), storage_write_data ht (le32 (chflags ct))]"

definition storage_save_channels :: "server \<Rightarrow> writer" where
  "storage_save_channels s = save_each (\<lambda>ch f. do {
     ct \<leftarrow> channel_mem s ch;
     if \<not> BIT_CHECK (chflags ct) EG_CHANNEL_DURABLE_FLAG then Some (EG_STATUS_OK, f)
     else storage_save_channel (stack_garbage (env s)) ct f }) (channels s)"

text \<open>
  The temporary file replaces the storage only at the very end. \<open>fflush\<close>, \<open>fsync\<close> and \<open>fclose\<close>
  are not checked by the source, and the model lets them succeed.
\<close>

definition storage_save :: "server \<Rightarrow> (status \<times> server) option" where
  "storage_save s =
     (if \<not> fopen_ok (env s) then Some (EG_STATUS_ERR, s)
      else do {
        (st, f) \<leftarrow> in_turn [storage_write_magic, storage_save_users s, storage_save_queues s, storage_save_routes s,
                          storage_save_channels s, storage_write_type EG_STORAGE_EOF]
                         \<lparr>written = [], space = disk_space (env s)\<rparr>;
        if st = EG_STATUS_ERR then Some (EG_STATUS_ERR, s)
        else if \<not> rename_ok (env s) then Some (EG_STATUS_ERR, s)
        else Some (EG_STATUS_OK, s\<lparr>storage_file := Some (written f)\<rparr>) })"

text \<open>The parent's side of \<open>fork\<close>; the child runs \<open>storage_save\<close> on the state at that moment.\<close>

definition storage_save_background :: "server \<Rightarrow> status \<times> server" where
  "storage_save_background s =
     (if child_pid s \<noteq> None then (EG_STATUS_ERR, s)
      else if fork_pid (env s) = -1 then (EG_STATUS_ERR, s)
      else (EG_STATUS_OK, s\<lparr>child_pid := Some (fork_pid (env s))\<rparr>))"

section \<open>Reading\<close>

type_synonym rfile = bytes

text \<open>A short file, or a length of 0, is an error; what \<open>fread\<close> consumed then does not matter:
  every error ends the loading.\<close>

definition storage_read :: "nat \<Rightarrow> rfile \<Rightarrow> bytes option \<times> rfile" where
  "storage_read n f = (if 0 < n \<and> n \<le> length f then (Some (take n f), drop n f) else (None, f))"

text \<open>\<open>if (read(...) == -1) return ERR;\<close>: the continuation gets the value.\<close>

definition reading :: "'a option \<times> rfile \<Rightarrow> (rfile \<Rightarrow> 'r) \<Rightarrow> ('a \<Rightarrow> rfile \<Rightarrow> 'r) \<Rightarrow> 'r" where
  "reading r err k = (case r of (None, f) \<Rightarrow> err f | (Some x, f) \<Rightarrow> k x f)"

lemma reading_simps [simp]: "reading (None, f) err k = err f" "reading (Some x, f) err k = k x f"
  by (simp_all add: reading_def)

definition storage_read_type :: "rfile \<Rightarrow> u8 option \<times> rfile" where
  "storage_read_type f = reading (storage_read 1 f) (\<lambda>f. (None, f)) (\<lambda>b f. (Some (hd b), f))"

text \<open>The two lengths at the front of every record.\<close>

definition read_lengths :: "rfile \<Rightarrow> (u32 \<times> u32) option \<times> rfile" where
  "read_lengths f = reading (storage_read 4 f) (\<lambda>f. (None, f)) (\<lambda>a f.
     reading (storage_read 4 f) (\<lambda>f. (None, f)) (\<lambda>b f. (Some (the (rd32 a 0), the (rd32 b 0)), f)))"

text \<open>The bytes stored at the destination, which has room for \<open>maxlen\<close>.\<close>

definition storage_read_data :: "nat \<Rightarrow> rfile \<Rightarrow> (bytes option \<times> rfile) option" where
  "storage_read_data maxlen f = reading (read_lengths f) (\<lambda>f. Some (None, f)) (\<lambda>(comprlen, length) f.
     if (unat length > maxlen \<and> comprlen = 0) \<or> unat comprlen > maxlen then Some (None, f)
     else if comprlen \<noteq> 0 then
       reading (storage_read (unat length) f) (\<lambda>f. Some (None, f)) (\<lambda>compressed f. do {
         (n, data) \<leftarrow> lzf_decompress compressed (replicate maxlen 0) (unat comprlen);
         if n = 0 then Some (None, f) else Some (Some (take n data), f) })
     else Some (storage_read (unat length) f))"

definition storage_read_data_object :: "server \<Rightarrow> rfile \<Rightarrow> ((server \<times> addr) option \<times> rfile) option" where
  "storage_read_data_object s f = reading (read_lengths f) (\<lambda>f. Some (None, f)) (\<lambda>(comprlen, length) f.
     if comprlen \<noteq> 0 then
       reading (storage_read (unat length) f) (\<lambda>f. Some (None, f)) (\<lambda>compressed f. do {
         (n, data) \<leftarrow> lzf_decompress compressed (replicate (unat comprlen) 0) (unat comprlen);
         if n = 0 then Some (None, f) else Some (Some (create_object data (unat comprlen) s), f) })
     else reading (storage_read (unat length) f) (\<lambda>f. Some (None, f)) (\<lambda>data f.
       Some (Some (create_object data (unat length) s), f)))"

text \<open>\<open>atoi\<close> on the four bytes after the name: spaces, a sign, digits.\<close>

fun digits_value :: "int \<Rightarrow> bytes \<Rightarrow> int" where
  "digits_value n [] = n"
| "digits_value n (c # cs) = (if IS_NUM c then digits_value (n * 10 + (uint c - 48)) cs else n)"

definition is_space :: "u8 \<Rightarrow> bool" where
  "is_space c \<longleftrightarrow> c = 32 \<or> (9 \<le> c \<and> c \<le> 13)"

definition atoi :: "bytes \<Rightarrow> int" where
  "atoi str = (case dropWhile is_space str of
     [] \<Rightarrow> 0
   | c # cs \<Rightarrow> if c = 45 then - digits_value 0 cs else if c = 43 then digits_value 0 cs else digits_value 0 (c # cs))"

definition storage_read_magic :: "rfile \<Rightarrow> status \<times> rfile" where
  "storage_read_magic f = reading (storage_read 11 f) (\<lambda>f. (EG_STATUS_ERR, f)) (\<lambda>magic f.
     if take 7 magic \<noteq> take 7 storage_magic then (EG_STATUS_ERR, f)
     else (let version = atoi (drop 7 magic) in
       if version < 1 \<or> version > int EG_STORAGE_VERSION then (EG_STATUS_ERR, f) else (EG_STATUS_OK, f)))"

section \<open>Loading\<close>

type_synonym loader = "server \<Rightarrow> rfile \<Rightarrow> (status \<times> server \<times> rfile) option"

text \<open>\<open>if (storage_read_data(fp, &x, sizeof(x)) == -1) return EG_STATUS_ERR;\<close>\<close>

definition load_field :: "nat \<Rightarrow> server \<Rightarrow> rfile \<Rightarrow> (bytes \<Rightarrow> rfile \<Rightarrow> (status \<times> server \<times> rfile) option) \<Rightarrow>
    (status \<times> server \<times> rfile) option" where
  "load_field n s f k = do { r \<leftarrow> storage_read_data n f; reading r (\<lambda>f. Some (EG_STATUS_ERR, s, f)) k }"

definition storage_load_user :: loader where
  "storage_load_user s f = load_field 32 s f (\<lambda>nm f. load_field 32 s f (\<lambda>pw f. load_field 8 s f (\<lambda>pm f. do {
     name \<leftarrow> cstr nm; password \<leftarrow> cstr pw; p \<leftarrow> rd64 pm 0;
     (s, u) \<leftarrow> create_user name password p s;
     Some (EG_STATUS_OK, s\<lparr>users := users s @ [u]\<rparr>, f) })))"

definition storage_load_queue_message :: "addr \<Rightarrow> loader" where
  "storage_load_queue_message q s f = reading (storage_read_type f) (\<lambda>f. Some (EG_STATUS_ERR, s, f)) (\<lambda>type f.
     if type \<noteq> EG_STORAGE_TYPE_MESSAGE then Some (EG_STATUS_ERR, s, f)
     else load_field 4 s f (\<lambda>e f. do {
       ex \<leftarrow> rd32 e 0;
       r \<leftarrow> storage_read_data_object s f;
       reading r (\<lambda>f. Some (EG_STATUS_ERR, s, f)) (\<lambda>(s, obj) f. do {
         (_, s) \<leftarrow> push_message_queue_t q obj ex s;
         Some (EG_STATUS_OK, s, f) }) }))"

text \<open>\<open>for (i = 0; i < n; i++) if (load(...) != EG_STATUS_OK) ...\<close>\<close>

fun load_times :: "nat \<Rightarrow> loader \<Rightarrow> loader" where
  "load_times 0 l s f = Some (EG_STATUS_OK, s, f)"
| "load_times (Suc n) l s f = do {
     (st, s, f) \<leftarrow> l s f;
     if st \<noteq> EG_STATUS_OK then Some (EG_STATUS_ERR, s, f) else load_times n l s f }"

definition storage_load_queue :: loader where
  "storage_load_queue s f = load_field 64 s f (\<lambda>nm f. load_field 4 s f (\<lambda>mm f. load_field 4 s f (\<lambda>ms f.
     load_field 4 s f (\<lambda>fl f. load_field 4 s f (\<lambda>sz f. do {
       name \<leftarrow> cstr nm; m \<leftarrow> rd32 mm 0; z \<leftarrow> rd32 ms 0; flags \<leftarrow> rd32 fl 0; queue_size \<leftarrow> rd32 sz 0;
       (s, q) \<leftarrow> create_queue_t name m z flags s;
       (st, s, f) \<leftarrow> load_times (unat queue_size) (storage_load_queue_message q) s f;
       if st \<noteq> EG_STATUS_OK then do { s \<leftarrow> delete_queue_t q s; Some (EG_STATUS_ERR, s, f) }
       else Some (EG_STATUS_OK, s\<lparr>queues := queues s @ [q]\<rparr>, f) })))))"

definition storage_load_route_key_queues :: "addr \<Rightarrow> bytes \<Rightarrow> loader" where
  "storage_load_route_key_queues r kbuf s f = load_field 64 s f (\<lambda>nm f. do {
     name \<leftarrow> cstr nm;
     found \<leftarrow> find_queue_t (queues s) name s;
     (case found of
        None \<Rightarrow> Some (EG_STATUS_OK, s, f)
      | Some q \<Rightarrow> do {
          key \<leftarrow> cstr kbuf;
          s \<leftarrow> bind_route_t r q key s;
          Some (EG_STATUS_OK, s, f) }) })"

definition storage_load_route_key :: "addr \<Rightarrow> loader" where
  "storage_load_route_key r s f = reading (storage_read_type f) (\<lambda>f. Some (EG_STATUS_ERR, s, f)) (\<lambda>type f.
     if type \<noteq> EG_STORAGE_TYPE_ROUTE_KEY then Some (EG_STATUS_ERR, s, f)
     else load_field 32 s f (\<lambda>k f. load_field 4 s f (\<lambda>sz f. do {
       queue_size \<leftarrow> rd32 sz 0;
       load_times (unat queue_size) (storage_load_route_key_queues r k) s f })))"

definition storage_load_route :: loader where
  "storage_load_route s f = load_field 64 s f (\<lambda>nm f. load_field 4 s f (\<lambda>fl f. load_field 4 s f (\<lambda>ks f. do {
     name \<leftarrow> cstr nm; flags \<leftarrow> rd32 fl 0; n \<leftarrow> rd32 ks 0;
     (s, r) \<leftarrow> create_route_t name flags s;
     (st, s, f) \<leftarrow> load_times (unat n) (storage_load_route_key r) s f;
     if st \<noteq> EG_STATUS_OK then do { s \<leftarrow> delete_route_t r s; Some (EG_STATUS_ERR, s, f) }
     else Some (EG_STATUS_OK, s\<lparr>routes := routes s @ [r]\<rparr>, f) })))"

definition storage_load_channel :: loader where
  "storage_load_channel s f = load_field 64 s f (\<lambda>nm f. load_field 4 s f (\<lambda>fl f. do {
     name \<leftarrow> cstr nm; flags \<leftarrow> rd32 fl 0;
     (s, ch) \<leftarrow> create_channel_t name flags s;
     Some (EG_STATUS_OK, s\<lparr>channels := channels s @ [ch]\<rparr>, f) }))"

text \<open>How loading ends: a file that cannot be opened is an error, a bad file ends the process.\<close>

datatype load_result = Loaded server | Not_opened | Exited

text \<open>The loader of a record type.\<close>

definition load_record :: "u8 \<Rightarrow> loader option" where
  "load_record type =
     (if type = EG_STORAGE_TYPE_USER then Some storage_load_user
      else if type = EG_STORAGE_TYPE_QUEUE then Some storage_load_queue
      else if type = EG_STORAGE_TYPE_ROUTE then Some storage_load_route
      else if type = EG_STORAGE_TYPE_CHANNEL then Some storage_load_channel
      else None)"

partial_function (option) load_loop :: "server \<Rightarrow> rfile \<Rightarrow> load_result option" where [code]:
  "load_loop s f = (case storage_read_type f of (r, f1) \<Rightarrow> (case r of
       None \<Rightarrow> Some Exited
     | Some type \<Rightarrow>
         if type = EG_STORAGE_EOF then Some (Loaded s)
         else (case load_record type of
             None \<Rightarrow> Some Exited
           | Some l \<Rightarrow> Option.bind (l s f1) (\<lambda>(st, s', f').
               if st \<noteq> EG_STATUS_OK then Some Exited else load_loop s' f'))))"

definition storage_load :: "server \<Rightarrow> load_result option" where
  "storage_load s = (case storage_file s of
     None \<Rightarrow> Some Not_opened
   | Some f \<Rightarrow> (case storage_read_magic f of (st, f) \<Rightarrow>
       if st \<noteq> EG_STATUS_OK then Some Exited else load_loop s f))"

end
