(* ===== verification/HandlersSys.thy ===== *)
theory HandlersSys
  imports Clients Storage
begin

text \<open>
  The command handlers of src/handlers.c for the system and user commands, and the parts all
  handlers share. Every handler starts by comparing \<open>client->pos\<close> with the size of its request
  structure; all but \<open>auth\<close>, \<open>ping\<close> and \<open>disconnect\<close> then test the permissions of the client.
\<close>

section \<open>What the handlers share\<close>

text \<open>\<open>if (client->pos < sizeof(*req)) ... ERROR_PACKET\<close>; \<open>cmd\<close> is \<open>req->header.cmd\<close>.\<close>

definition sized :: "addr \<Rightarrow> nat \<Rightarrow> (eagle_client \<Rightarrow> u8 \<Rightarrow> server \<Rightarrow> server option) \<Rightarrow> server \<Rightarrow> server option" where
  "sized client n body s = do {
     c \<leftarrow> client_mem s client;
     if pos c < n then add_status_response client 0 EG_PROTOCOL_STATUS_ERROR_PACKET s
     else do { cmd \<leftarrow> rd (request c) (offsetof ProtocolRequestHeader ''cmd''); body c cmd s } }"

text \<open>\<open>if (!BIT_CHECK(client->perm, A) && !BIT_CHECK(client->perm, B) ...) ... ERROR_ACCESS\<close>.\<close>

definition guarded :: "addr \<Rightarrow> nat \<Rightarrow> Permission list \<Rightarrow>
    (eagle_client \<Rightarrow> u8 \<Rightarrow> server \<Rightarrow> server option) \<Rightarrow> server \<Rightarrow> server option" where
  "guarded client n ps body = sized client n (\<lambda>c cmd s.
     if \<not> has_perm (perm c) ps then add_status_response client cmd EG_PROTOCOL_STATUS_ERROR_ACCESS s
     else body c cmd s)"

text \<open>\<open>req->body.f\<close> as a pointer into the request, and as a string or number.\<close>

definition arg :: "eagle_client \<Rightarrow> struct \<Rightarrow> string \<Rightarrow> bytes" where
  "arg c st f = drop (offsetof st f) (request c)"

abbreviation arg_str :: "eagle_client \<Rightarrow> struct \<Rightarrow> string \<Rightarrow> bytes option" where
  "arg_str c st f \<equiv> cstr (arg c st f)"

abbreviation arg_u32 :: "eagle_client \<Rightarrow> struct \<Rightarrow> string \<Rightarrow> u32 option" where
  "arg_u32 c st f \<equiv> rd32 (request c) (offsetof st f)"

abbreviation arg_u64 :: "eagle_client \<Rightarrow> struct \<Rightarrow> string \<Rightarrow> u64 option" where
  "arg_u64 c st f \<equiv> rd64 (request c) (offsetof st f)"

text \<open>The input checks as conditions, and the short-circuit \<open>!a || !b\<close>, negated.\<close>

definition valid1 :: "bytes \<Rightarrow> nat \<Rightarrow> bool option" where
  "valid1 buf n = map_option (\<lambda>k. k \<noteq> 0) (check_input_buffer1 buf n)"

definition valid2 :: "bytes \<Rightarrow> nat \<Rightarrow> bool option" where
  "valid2 buf n = map_option (\<lambda>k. k \<noteq> 0) (check_input_buffer2 buf n)"

definition valid3 :: "bytes \<Rightarrow> nat \<Rightarrow> bool option" where
  "valid3 buf n = map_option (\<lambda>k. k \<noteq> 0) (check_input_buffer3 buf n)"

definition both :: "bool option \<Rightarrow> bool option \<Rightarrow> bool option" where
  "both a b = do { x \<leftarrow> a; if x then b else Some False }"

text \<open>Successive \<open>memcpy(list + i, data, n); i += width;\<close>.\<close>

definition put_fields :: "(nat \<times> bytes) list \<Rightarrow> bytes \<times> nat \<Rightarrow> (bytes \<times> nat) option" where
  "put_fields = for_each (\<lambda>(w, data) (buf, i). do { buf \<leftarrow> put buf i data; Some (buf, i + w) })"

text \<open>
  The shape of the list responses: a zeroed buffer of \<open>sizeof(res) + res.bodylen\<close> bytes, the
  header, then the fields of each entry. \<open>n * width\<close> is truncated to the 32-bit \<open>bodylen\<close>.
\<close>

definition list_response :: "addr \<Rightarrow> u8 \<Rightarrow> u32 \<Rightarrow> (nat \<times> bytes) list list \<Rightarrow> server \<Rightarrow> server option" where
  "list_response client cmd blen entries s = do {
     let hdr = set_response_header cmd (status_code EG_PROTOCOL_STATUS_SUCCESS) blen;
     buf \<leftarrow> put (xcalloc_bytes (sizeof ProtocolResponseHeader + unat blen)) 0 hdr;
     (buf, _) \<leftarrow> for_each put_fields entries (buf, sizeof ProtocolResponseHeader);
     add_response client buf s }"

section \<open>System commands\<close>

definition auth_command_handler :: "addr \<Rightarrow> server \<Rightarrow> server option" where
  "auth_command_handler client = sized client (sizeof ProtocolRequestAuth) (\<lambda>c cmd s. do {
     ok \<leftarrow> both (valid2 (arg c ProtocolRequestAuth ''name'') 32) (valid1 (arg c ProtocolRequestAuth ''password'') 32);
     if \<not> ok then add_status_response client cmd EG_PROTOCOL_STATUS_ERROR_VALUE s
     else do {
       name \<leftarrow> arg_str c ProtocolRequestAuth ''name'';
       password \<leftarrow> arg_str c ProtocolRequestAuth ''password'';
       r \<leftarrow> find_user (users s) name (Some password) s;
       (case r of
          None \<Rightarrow> add_status_response client cmd EG_PROTOCOL_STATUS_ERROR_NOT_FOUND s
        | Some user \<Rightarrow> do {
            u \<leftarrow> user_mem s user;
            s \<leftarrow> upd_client client (\<lambda>c. c\<lparr>perm := uperm u\<rparr>) s;
            add_status_response client cmd EG_PROTOCOL_STATUS_SUCCESS s }) } })"

definition ping_command_handler :: "addr \<Rightarrow> server \<Rightarrow> server option" where
  "ping_command_handler client = sized client (sizeof ProtocolRequestPing) (\<lambda>c cmd s.
     add_status_response client cmd EG_PROTOCOL_STATUS_SUCCESS s)"

definition stat_command_handler :: "addr \<Rightarrow> server \<Rightarrow> server option" where
  "stat_command_handler client = guarded client (sizeof ProtocolRequestStat) [EG_USER_ADMIN_PERM] (\<lambda>c cmd s. do {
     let hdr = set_response_header cmd (status_code EG_PROTOCOL_STATUS_SUCCESS)
                 (of_nat (sizeof ProtocolResponseStat - sizeof ProtocolResponseHeader));
     let bd = [1, 3, 0] @ le32 (word_of_int (time_NULL (env s) - start_time s)) @
              le32 (used_cpu_sys (env s)) @ le32 (used_cpu_user (env s)) @
              le32 (of_nat (used_memory (env s))) @ le32 (of_nat (used_memory_rss (env s))) @ le32 (fragmentation_ratio (env s)) @
              le32 (of_nat (length (clients s))) @ le32 (of_nat (length (users s))) @
              le32 (of_nat (length (queues s))) @ le32 (of_nat (length (routes s))) @
              le32 (of_nat (length (channels s))) @ le32 0 @ le32 0;
     add_response client (hdr @ bd) s })"

definition save_command_handler :: "addr \<Rightarrow> server \<Rightarrow> server option" where
  "save_command_handler client = guarded client (sizeof ProtocolRequestSave) [EG_USER_ADMIN_PERM] (\<lambda>c cmd s. do {
     async \<leftarrow> rd (request c) (offsetof ProtocolRequestSave ''async'');
     (st, s) \<leftarrow> (if async \<noteq> 0 then Some (storage_save_background s) else storage_save s);
     s \<leftarrow> (if st \<noteq> EG_STATUS_OK then add_status_response client cmd EG_PROTOCOL_STATUS_ERROR s else Some s);
     add_status_response client cmd EG_PROTOCOL_STATUS_SUCCESS s })"

text \<open>\<open>list_delete_node\<close> on a server list needs the node to be there.\<close>

definition delete_node_ok :: "(status \<times> server) option \<Rightarrow> server option" where
  "delete_node_ok r = do { (st, s) \<leftarrow> r; if st = EG_STATUS_OK then Some s else None }"

definition delete_users :: "server \<Rightarrow> server option" where
  "delete_users s = for_each (\<lambda>user s. do {
     u \<leftarrow> user_mem s user;
     if BIT_CHECK (uperm u) (perm_bit EG_USER_NOT_CHANGE_PERM) then Some s
     else delete_node_ok (users_delete_value user s) }) (users s) s"

definition delete_queues :: "server \<Rightarrow> server option" where
  "delete_queues s = for_each (\<lambda>q s. delete_node_ok (queues_delete_value q s)) (queues s) s"

definition delete_routes :: "server \<Rightarrow> server option" where
  "delete_routes s = for_each (\<lambda>r s. delete_node_ok (routes_delete_value r s)) (routes s) s"

definition delete_channels :: "server \<Rightarrow> server option" where
  "delete_channels s = for_each (\<lambda>ch s. delete_node_ok (channels_delete_value ch s)) (channels s) s"

definition flush_command_handler :: "addr \<Rightarrow> server \<Rightarrow> server option" where
  "flush_command_handler client = guarded client (sizeof ProtocolRequestFlush) [EG_USER_ADMIN_PERM] (\<lambda>c cmd s. do {
     fl \<leftarrow> arg_u32 c ProtocolRequestFlush ''flags'';
     s \<leftarrow> (if BIT_CHECK fl EG_FLUSH_USER_FLAG then delete_users s else Some s);
     s \<leftarrow> (if BIT_CHECK fl EG_FLUSH_QUEUE_FLAG then delete_queues s else Some s);
     s \<leftarrow> (if BIT_CHECK fl EG_FLUSH_ROUTE_FLAG then delete_routes s else Some s);
     s \<leftarrow> (if BIT_CHECK fl EG_FLUSH_CHANNEL_FLAG then delete_channels s else Some s);
     add_status_response client cmd EG_PROTOCOL_STATUS_SUCCESS s })"

definition disconnect_command_handler :: "addr \<Rightarrow> server \<Rightarrow> server option" where
  "disconnect_command_handler client = sized client (sizeof ProtocolRequestDisconnect) (\<lambda>c cmd s.
     free_client client s)"

section \<open>User commands\<close>

definition user_create_command_handler :: "addr \<Rightarrow> server \<Rightarrow> server option" where
  "user_create_command_handler client =
     guarded client (sizeof ProtocolRequestUserCreate) [EG_USER_ADMIN_PERM] (\<lambda>c cmd s. do {
     ok \<leftarrow> both (valid2 (arg c ProtocolRequestUserCreate ''name'') 32)
               (valid1 (arg c ProtocolRequestUserCreate ''password'') 32);
     if \<not> ok then add_status_response client cmd EG_PROTOCOL_STATUS_ERROR_VALUE s
     else do {
       name \<leftarrow> arg_str c ProtocolRequestUserCreate ''name'';
       dup \<leftarrow> find_user (users s) name None s;
       if dup \<noteq> None then add_status_response client cmd EG_PROTOCOL_STATUS_ERROR s
       else do {
         password \<leftarrow> arg_str c ProtocolRequestUserCreate ''password'';
         p \<leftarrow> arg_u64 c ProtocolRequestUserCreate ''perm'';
         (s, user) \<leftarrow> create_user name password p s;
         let s = s\<lparr>users := users s @ [user]\<rparr>;
         add_status_response client cmd EG_PROTOCOL_STATUS_SUCCESS s } } })"

definition user_fields :: "server \<Rightarrow> addr \<Rightarrow> (nat \<times> bytes) list option" where
  "user_fields s user = do {
     u \<leftarrow> user_mem s user;
     Some [(32, strz (uname u)), (32, strz (upassword u)), (8, le64 (uperm u))] }"

text \<open>The entries of all elements of a list, in order.\<close>

fun collect :: "('a \<Rightarrow> 'b option) \<Rightarrow> 'a list \<Rightarrow> 'b list option" where
  "collect f [] = Some []"
| "collect f (x # xs) = do { y \<leftarrow> f x; ys \<leftarrow> collect f xs; Some (y # ys) }"

definition user_list_command_handler :: "addr \<Rightarrow> server \<Rightarrow> server option" where
  "user_list_command_handler client =
     guarded client (sizeof ProtocolRequestUserList) [EG_USER_ADMIN_PERM] (\<lambda>c cmd s. do {
     entries \<leftarrow> collect (user_fields s) (users s);
     list_response client cmd (of_nat (length (users s) * (64 + 8))) entries s })"

definition user_rename_command_handler :: "addr \<Rightarrow> server \<Rightarrow> server option" where
  "user_rename_command_handler client =
     guarded client (sizeof ProtocolRequestUserRename) [EG_USER_ADMIN_PERM] (\<lambda>c cmd s. do {
     ok \<leftarrow> both (valid2 (arg c ProtocolRequestUserRename ''from'') 32)
               (valid2 (arg c ProtocolRequestUserRename ''to'') 32);
     if \<not> ok then add_status_response client cmd EG_PROTOCOL_STATUS_ERROR_VALUE s
     else do {
       from_name \<leftarrow> arg_str c ProtocolRequestUserRename ''from'';
       to_name \<leftarrow> arg_str c ProtocolRequestUserRename ''to'';
       r \<leftarrow> find_user (users s) from_name None s;
       (case r of
          None \<Rightarrow> add_status_response client cmd EG_PROTOCOL_STATUS_ERROR_NOT_FOUND s
        | Some user \<Rightarrow> do {
            dup \<leftarrow> find_user (users s) to_name None s;
            if dup \<noteq> None then add_status_response client cmd EG_PROTOCOL_STATUS_ERROR_NOT_FOUND s
            else do {
              u \<leftarrow> user_mem s user;
              if BIT_CHECK (uperm u) (perm_bit EG_USER_NOT_CHANGE_PERM)
              then add_status_response client cmd EG_PROTOCOL_STATUS_ERROR s
              else do {
                s \<leftarrow> rename_user user to_name s;
                add_status_response client cmd EG_PROTOCOL_STATUS_SUCCESS s } } }) } })"

definition user_set_perm_command_handler :: "addr \<Rightarrow> server \<Rightarrow> server option" where
  "user_set_perm_command_handler client =
     guarded client (sizeof ProtocolRequestUserSetPerm) [EG_USER_ADMIN_PERM] (\<lambda>c cmd s. do {
     ok \<leftarrow> valid2 (arg c ProtocolRequestUserSetPerm ''name'') 32;
     if \<not> ok then add_status_response client cmd EG_PROTOCOL_STATUS_ERROR_VALUE s
     else do {
       name \<leftarrow> arg_str c ProtocolRequestUserSetPerm ''name'';
       r \<leftarrow> find_user (users s) name None s;
       (case r of
          None \<Rightarrow> add_status_response client cmd EG_PROTOCOL_STATUS_ERROR_NOT_FOUND s
        | Some user \<Rightarrow> do {
            u \<leftarrow> user_mem s user;
            if BIT_CHECK (uperm u) (perm_bit EG_USER_NOT_CHANGE_PERM)
            then add_status_response client cmd EG_PROTOCOL_STATUS_ERROR s
            else do {
              p \<leftarrow> arg_u64 c ProtocolRequestUserSetPerm ''perm'';
              s \<leftarrow> set_user_perm user p s;
              add_status_response client cmd EG_PROTOCOL_STATUS_SUCCESS s } }) } })"

definition user_delete_command_handler :: "addr \<Rightarrow> server \<Rightarrow> server option" where
  "user_delete_command_handler client =
     guarded client (sizeof ProtocolRequestUserDelete) [EG_USER_ADMIN_PERM] (\<lambda>c cmd s. do {
     ok \<leftarrow> valid2 (arg c ProtocolRequestUserDelete ''name'') 32;
     if \<not> ok then add_status_response client cmd EG_PROTOCOL_STATUS_ERROR_VALUE s
     else do {
       name \<leftarrow> arg_str c ProtocolRequestUserDelete ''name'';
       r \<leftarrow> find_user (users s) name None s;
       (case r of
          None \<Rightarrow> add_status_response client cmd EG_PROTOCOL_STATUS_ERROR_NOT_FOUND s
        | Some user \<Rightarrow> do {
            u \<leftarrow> user_mem s user;
            if BIT_CHECK (uperm u) (perm_bit EG_USER_NOT_CHANGE_PERM)
            then add_status_response client cmd EG_PROTOCOL_STATUS_ERROR s
            else do {
              (st, s) \<leftarrow> users_delete_value user s;
              if st = EG_STATUS_ERR then add_status_response client cmd EG_PROTOCOL_STATUS_ERROR s
              else add_status_response client cmd EG_PROTOCOL_STATUS_SUCCESS s } }) } })"

end
