(* ===== verification/HandlersQueue.thy ===== *)
theory HandlersQueue
  imports HandlersSys
begin

text \<open>The command handlers of src/handlers.c for queues.\<close>

definition queue_create_command_handler :: "addr \<Rightarrow> server \<Rightarrow> server option" where
  "queue_create_command_handler client = guarded client (sizeof ProtocolRequestQueueCreate)
     [EG_USER_ADMIN_PERM, EG_USER_QUEUE_PERM, EG_USER_QUEUE_CREATE_PERM] (\<lambda>c cmd s. do {
     ok \<leftarrow> valid2 (arg c ProtocolRequestQueueCreate ''name'') 64;
     if \<not> ok then add_status_response client cmd EG_PROTOCOL_STATUS_ERROR_VALUE s
     else do {
       name \<leftarrow> arg_str c ProtocolRequestQueueCreate ''name'';
       dup \<leftarrow> find_queue_t (queues s) name s;
       if dup \<noteq> None then add_status_response client cmd EG_PROTOCOL_STATUS_ERROR s
       else do {
         mm \<leftarrow> arg_u32 c ProtocolRequestQueueCreate ''max_msg'';
         mms \<leftarrow> arg_u32 c ProtocolRequestQueueCreate ''max_msg_size'';
         if mm = 0 \<or> mms > EG_MAX_MSG_SIZE
         then add_status_response client cmd EG_PROTOCOL_STATUS_ERROR_VALUE s
         else do {
           fl \<leftarrow> arg_u32 c ProtocolRequestQueueCreate ''flags'';
           (s, q) \<leftarrow> create_queue_t name mm (if mms = 0 then EG_MAX_MSG_SIZE else mms) fl s;
           let s = s\<lparr>queues := queues s @ [q]\<rparr>;
           add_status_response client cmd EG_PROTOCOL_STATUS_SUCCESS s } } } })"

definition queue_declare_command_handler :: "addr \<Rightarrow> server \<Rightarrow> server option" where
  "queue_declare_command_handler client = guarded client (sizeof ProtocolRequestQueueDeclare)
     [EG_USER_ADMIN_PERM, EG_USER_QUEUE_PERM, EG_USER_QUEUE_DECLARE_PERM] (\<lambda>c cmd s. do {
     ok \<leftarrow> valid2 (arg c ProtocolRequestQueueDeclare ''name'') 64;
     if \<not> ok then add_status_response client cmd EG_PROTOCOL_STATUS_ERROR_VALUE s
     else do {
       name \<leftarrow> arg_str c ProtocolRequestQueueDeclare ''name'';
       r \<leftarrow> find_queue_t (queues s) name s;
       (case r of
          None \<Rightarrow> add_status_response client cmd EG_PROTOCOL_STATUS_ERROR_NOT_FOUND s
        | Some q \<Rightarrow> do {
            d \<leftarrow> find_queue_t (declared_queues c) name s;
            if d \<noteq> None then add_status_response client cmd EG_PROTOCOL_STATUS_SUCCESS s
            else do {
              s \<leftarrow> declare_client_queue_t q client s;
              add_status_response client cmd EG_PROTOCOL_STATUS_SUCCESS s } }) } })"

definition queue_exist_command_handler :: "addr \<Rightarrow> server \<Rightarrow> server option" where
  "queue_exist_command_handler client = guarded client (sizeof ProtocolRequestQueueExist)
     [EG_USER_ADMIN_PERM, EG_USER_QUEUE_PERM, EG_USER_QUEUE_EXIST_PERM] (\<lambda>c cmd s. do {
     ok \<leftarrow> valid2 (arg c ProtocolRequestQueueExist ''name'') 64;
     if \<not> ok then add_status_response client cmd EG_PROTOCOL_STATUS_ERROR_VALUE s
     else do {
       name \<leftarrow> arg_str c ProtocolRequestQueueExist ''name'';
       r \<leftarrow> find_queue_t (queues s) name s;
       add_response client (set_response_header cmd (status_code EG_PROTOCOL_STATUS_SUCCESS) 4 @
         le32 (if r \<noteq> None then 1 else 0)) s } })"

definition queue_fields :: "server \<Rightarrow> addr \<Rightarrow> (nat \<times> bytes) list option" where
  "queue_fields s q = do {
     qt \<leftarrow> queue_mem s q;
     Some [(64, strz (qname qt)), (4, le32 (max_msg qt)), (4, le32 (max_msg_size qt)), (4, le32 (qflags qt)),
           (4, le32 (get_size_queue_t qt)), (4, le32 (get_declared_clients_queue_t qt)),
           (4, le32 (get_subscribed_clients_queue_t qt))] }"

definition queue_list_command_handler :: "addr \<Rightarrow> server \<Rightarrow> server option" where
  "queue_list_command_handler client = guarded client (sizeof ProtocolRequestQueueList)
     [EG_USER_ADMIN_PERM, EG_USER_QUEUE_PERM, EG_USER_QUEUE_LIST_PERM] (\<lambda>c cmd s. do {
     entries \<leftarrow> collect (queue_fields s) (queues s);
     list_response client cmd (of_nat (length (queues s) * (64 + 4 * 6))) entries s })"

definition queue_rename_command_handler :: "addr \<Rightarrow> server \<Rightarrow> server option" where
  "queue_rename_command_handler client = guarded client (sizeof ProtocolRequestQueueRename)
     [EG_USER_ADMIN_PERM, EG_USER_QUEUE_PERM, EG_USER_QUEUE_RENAME_PERM] (\<lambda>c cmd s. do {
     ok \<leftarrow> both (valid2 (arg c ProtocolRequestQueueRename ''from'') 64)
               (valid2 (arg c ProtocolRequestQueueRename ''to'') 64);
     if \<not> ok then add_status_response client cmd EG_PROTOCOL_STATUS_ERROR_VALUE s
     else do {
       from_name \<leftarrow> arg_str c ProtocolRequestQueueRename ''from'';
       to_name \<leftarrow> arg_str c ProtocolRequestQueueRename ''to'';
       r \<leftarrow> find_queue_t (queues s) from_name s;
       (case r of
          None \<Rightarrow> add_status_response client cmd EG_PROTOCOL_STATUS_ERROR_NOT_FOUND s
        | Some q \<Rightarrow> do {
            dup \<leftarrow> find_queue_t (queues s) to_name s;
            if dup \<noteq> None then add_status_response client cmd EG_PROTOCOL_STATUS_ERROR_VALUE s
            else do {
              s \<leftarrow> rename_queue_t q to_name s;
              add_status_response client cmd EG_PROTOCOL_STATUS_SUCCESS s } }) } })"

definition queue_size_command_handler :: "addr \<Rightarrow> server \<Rightarrow> server option" where
  "queue_size_command_handler client = guarded client (sizeof ProtocolRequestQueueSize)
     [EG_USER_ADMIN_PERM, EG_USER_QUEUE_PERM, EG_USER_QUEUE_SIZE_PERM] (\<lambda>c cmd s. do {
     ok \<leftarrow> valid2 (arg c ProtocolRequestQueueSize ''name'') 64;
     if \<not> ok then add_status_response client cmd EG_PROTOCOL_STATUS_ERROR_VALUE s
     else do {
       name \<leftarrow> arg_str c ProtocolRequestQueueSize ''name'';
       r \<leftarrow> find_queue_t (queues s) name s;
       (case r of
          None \<Rightarrow> add_status_response client cmd EG_PROTOCOL_STATUS_ERROR_NOT_FOUND s
        | Some q \<Rightarrow> do {
            qt \<leftarrow> queue_mem s q;
            add_response client (set_response_header cmd (status_code EG_PROTOCOL_STATUS_SUCCESS) 4 @
              le32 (get_size_queue_t qt)) s }) } })"

text \<open>\<open>find_queue_t(client->declared_queues, name)\<close> after the name check: the shared beginning of
  the handlers that need a declared queue.\<close>

definition with_declared :: "addr \<Rightarrow> eagle_client \<Rightarrow> u8 \<Rightarrow> bytes \<Rightarrow> (addr \<Rightarrow> server \<Rightarrow> server option) \<Rightarrow>
    server \<Rightarrow> server option" where
  "with_declared client c cmd buf body s = do {
     ok \<leftarrow> valid2 buf 64;
     if \<not> ok then add_status_response client cmd EG_PROTOCOL_STATUS_ERROR_VALUE s
     else do {
       name \<leftarrow> cstr buf;
       r \<leftarrow> find_queue_t (declared_queues c) name s;
       (case r of
          None \<Rightarrow> add_status_response client cmd EG_PROTOCOL_STATUS_ERROR_NOT_DECLARED s
        | Some q \<Rightarrow> body q s) } }"

text \<open>The push request has no structure of its own: the name follows the header, then four bytes
  of expiration time, then at least one byte of message.\<close>

definition queue_push_command_handler :: "addr \<Rightarrow> server \<Rightarrow> server option" where
  "queue_push_command_handler client = guarded client (sizeof ProtocolRequestHeader + 69)
     [EG_USER_ADMIN_PERM, EG_USER_QUEUE_PERM, EG_USER_QUEUE_PUSH_PERM] (\<lambda>c cmd s. do {
     let queue_name = drop (sizeof ProtocolRequestHeader) (request c);
     ok \<leftarrow> valid2 queue_name 64;
     if \<not> ok then add_status_response client cmd EG_PROTOCOL_STATUS_ERROR_VALUE s
     else if nomemory s then add_status_response client cmd EG_PROTOCOL_STATUS_ERROR_MEMORY s
     else do {
       name \<leftarrow> cstr queue_name;
       r \<leftarrow> find_queue_t (declared_queues c) name s;
       (case r of
          None \<Rightarrow> add_status_response client cmd EG_PROTOCOL_STATUS_ERROR_NOT_DECLARED s
        | Some q \<Rightarrow> do {
            let msg_data = drop (sizeof ProtocolRequestHeader + 64 + 4) (request c);
            let msg_size = pos c - (sizeof ProtocolRequestHeader + 64 + 4);
            ex \<leftarrow> rd32 (request c) (sizeof ProtocolRequestHeader + 64);
            let expire = (if ex \<noteq> 0 then ex + word_of_int (now_timems s) else ex);
            (s, obj) \<leftarrow> create_dup_object msg_data msg_size s;
            (st, s) \<leftarrow> push_message_queue_t q obj expire s;
            if st = EG_STATUS_ERR then add_status_response client cmd EG_PROTOCOL_STATUS_ERROR s
            else add_status_response client cmd EG_PROTOCOL_STATUS_SUCCESS s }) } })"

text \<open>The answer to \<open>get\<close> and \<open>pop\<close>: header and tag, then the object of the message.\<close>

definition send_message :: "addr \<Rightarrow> u8 \<Rightarrow> addr \<Rightarrow> server \<Rightarrow> server option" where
  "send_message client cmd msg s = do {
     m \<leftarrow> message_mem s msg;
     sz \<leftarrow> EG_MESSAGE_SIZE s msg;
     s \<leftarrow> add_response client (set_response_header cmd (status_code EG_PROTOCOL_STATUS_SUCCESS) (of_nat (sz + 8)) @
            le64 (tag m)) s;
     add_object_response client (mvalue m) s }"

definition queue_get_command_handler :: "addr \<Rightarrow> server \<Rightarrow> server option" where
  "queue_get_command_handler client = guarded client (sizeof ProtocolRequestQueueGet)
     [EG_USER_ADMIN_PERM, EG_USER_QUEUE_PERM, EG_USER_QUEUE_GET_PERM] (\<lambda>c cmd.
     with_declared client c cmd (arg c ProtocolRequestQueueGet ''name'') (\<lambda>q s. do {
       r \<leftarrow> get_message_queue_t q s;
       (case r of
          None \<Rightarrow> add_status_response client cmd EG_PROTOCOL_STATUS_ERROR_NO_DATA s
        | Some msg \<Rightarrow> send_message client cmd msg s) }))"

definition queue_pop_command_handler :: "addr \<Rightarrow> server \<Rightarrow> server option" where
  "queue_pop_command_handler client = guarded client (sizeof ProtocolRequestQueuePop)
     [EG_USER_ADMIN_PERM, EG_USER_QUEUE_PERM, EG_USER_QUEUE_POP_PERM] (\<lambda>c cmd.
     with_declared client c cmd (arg c ProtocolRequestQueuePop ''name'') (\<lambda>q s. do {
       r \<leftarrow> get_message_queue_t q s;
       (case r of
          None \<Rightarrow> add_status_response client cmd EG_PROTOCOL_STATUS_ERROR_NO_DATA s
        | Some msg \<Rightarrow> do {
            s \<leftarrow> send_message client cmd msg s;
            timeout \<leftarrow> arg_u32 c ProtocolRequestQueuePop ''timeout'';
            pop_message_queue_t q timeout s }) }))"

definition queue_confirm_command_handler :: "addr \<Rightarrow> server \<Rightarrow> server option" where
  "queue_confirm_command_handler client = guarded client (sizeof ProtocolRequestQueueConfirm)
     [EG_USER_ADMIN_PERM, EG_USER_QUEUE_PERM, EG_USER_QUEUE_CONFIRM_PERM] (\<lambda>c cmd.
     with_declared client c cmd (arg c ProtocolRequestQueueConfirm ''name'') (\<lambda>q s. do {
       t \<leftarrow> arg_u64 c ProtocolRequestQueueConfirm ''tag'';
       (st, s) \<leftarrow> confirm_message_queue_t q t s;
       if st \<noteq> EG_STATUS_OK then add_status_response client cmd EG_PROTOCOL_STATUS_ERROR_NO_DATA s
       else add_status_response client cmd EG_PROTOCOL_STATUS_SUCCESS s }))"

definition queue_subscribe_command_handler :: "addr \<Rightarrow> server \<Rightarrow> server option" where
  "queue_subscribe_command_handler client = guarded client (sizeof ProtocolRequestQueueSubscribe)
     [EG_USER_ADMIN_PERM, EG_USER_QUEUE_PERM, EG_USER_QUEUE_SUBSCRIBE_PERM] (\<lambda>c cmd.
     with_declared client c cmd (arg c ProtocolRequestQueueSubscribe ''name'') (\<lambda>q s. do {
       name \<leftarrow> arg_str c ProtocolRequestQueueSubscribe ''name'';
       dup \<leftarrow> find_queue_t (subscribed_queues c) name s;
       if dup \<noteq> None then add_status_response client cmd EG_PROTOCOL_STATUS_ERROR s
       else do {
         fl \<leftarrow> arg_u32 c ProtocolRequestQueueSubscribe ''flags'';
         s \<leftarrow> subscribe_client_queue_t q client fl s;
         add_status_response client cmd EG_PROTOCOL_STATUS_SUCCESS s } }))"

definition queue_unsubscribe_command_handler :: "addr \<Rightarrow> server \<Rightarrow> server option" where
  "queue_unsubscribe_command_handler client = guarded client (sizeof ProtocolRequestQueueUnsubscribe)
     [EG_USER_ADMIN_PERM, EG_USER_QUEUE_PERM, EG_USER_QUEUE_UNSUBSCRIBE_PERM] (\<lambda>c cmd.
     with_declared client c cmd (arg c ProtocolRequestQueueUnsubscribe ''name'') (\<lambda>q s. do {
       name \<leftarrow> arg_str c ProtocolRequestQueueUnsubscribe ''name'';
       sub \<leftarrow> find_queue_t (subscribed_queues c) name s;
       if sub = None then add_status_response client cmd EG_PROTOCOL_STATUS_ERROR s
       else do {
         s \<leftarrow> unsubscribe_client_queue_t q client s;
         add_status_response client cmd EG_PROTOCOL_STATUS_SUCCESS s } }))"

definition queue_purge_command_handler :: "addr \<Rightarrow> server \<Rightarrow> server option" where
  "queue_purge_command_handler client = guarded client (sizeof ProtocolRequestQueuePurge)
     [EG_USER_ADMIN_PERM, EG_USER_QUEUE_PERM, EG_USER_QUEUE_PURGE_PERM] (\<lambda>c cmd.
     with_declared client c cmd (arg c ProtocolRequestQueuePurge ''name'') (\<lambda>q s. do {
       s \<leftarrow> purge_queue_t q s;
       add_status_response client cmd EG_PROTOCOL_STATUS_SUCCESS s }))"

definition queue_delete_command_handler :: "addr \<Rightarrow> server \<Rightarrow> server option" where
  "queue_delete_command_handler client = guarded client (sizeof ProtocolRequestQueueDelete)
     [EG_USER_ADMIN_PERM, EG_USER_QUEUE_PERM, EG_USER_QUEUE_DELETE_PERM] (\<lambda>c cmd s. do {
     ok \<leftarrow> valid2 (arg c ProtocolRequestQueueDelete ''name'') 64;
     if \<not> ok then add_status_response client cmd EG_PROTOCOL_STATUS_ERROR_VALUE s
     else do {
       name \<leftarrow> arg_str c ProtocolRequestQueueDelete ''name'';
       r \<leftarrow> find_queue_t (queues s) name s;
       (case r of
          None \<Rightarrow> add_status_response client cmd EG_PROTOCOL_STATUS_ERROR_NOT_FOUND s
        | Some q \<Rightarrow> do {
            (st, s) \<leftarrow> queues_delete_value q s;
            if st = EG_STATUS_ERR then add_status_response client cmd EG_PROTOCOL_STATUS_ERROR s
            else add_status_response client cmd EG_PROTOCOL_STATUS_SUCCESS s }) } })"

end
