(* ===== verification/HandlersRoute.thy ===== *)
theory HandlersRoute
  imports HandlersQueue
begin

text \<open>The command handlers of src/handlers.c for routes.\<close>

definition route_create_command_handler :: "addr \<Rightarrow> server \<Rightarrow> server option" where
  "route_create_command_handler client = guarded client (sizeof ProtocolRequestRouteCreate)
     [EG_USER_ADMIN_PERM, EG_USER_ROUTE_PERM, EG_USER_ROUTE_CREATE_PERM] (\<lambda>c cmd s. do {
     ok \<leftarrow> valid2 (arg c ProtocolRequestRouteCreate ''name'') 64;
     if \<not> ok then add_status_response client cmd EG_PROTOCOL_STATUS_ERROR_VALUE s
     else do {
       name \<leftarrow> arg_str c ProtocolRequestRouteCreate ''name'';
       dup \<leftarrow> find_route_t (routes s) name s;
       if dup \<noteq> None then add_status_response client cmd EG_PROTOCOL_STATUS_ERROR s
       else do {
         fl \<leftarrow> arg_u32 c ProtocolRequestRouteCreate ''flags'';
         (s, r) \<leftarrow> create_route_t name fl s;
         let s = s\<lparr>routes := routes s @ [r]\<rparr>;
         add_status_response client cmd EG_PROTOCOL_STATUS_SUCCESS s } } })"

definition route_exist_command_handler :: "addr \<Rightarrow> server \<Rightarrow> server option" where
  "route_exist_command_handler client = guarded client (sizeof ProtocolRequestRouteExist)
     [EG_USER_ADMIN_PERM, EG_USER_ROUTE_PERM, EG_USER_ROUTE_EXIST_PERM] (\<lambda>c cmd s. do {
     ok \<leftarrow> valid2 (arg c ProtocolRequestRouteExist ''name'') 64;
     if \<not> ok then add_status_response client cmd EG_PROTOCOL_STATUS_ERROR_VALUE s
     else do {
       name \<leftarrow> arg_str c ProtocolRequestRouteExist ''name'';
       r \<leftarrow> find_route_t (routes s) name s;
       add_response client (set_response_header cmd (status_code EG_PROTOCOL_STATUS_SUCCESS) 4 @
         le32 (if r \<noteq> None then 1 else 0)) s } })"

definition route_fields :: "server \<Rightarrow> addr \<Rightarrow> (nat \<times> bytes) list option" where
  "route_fields s r = do {
     rt \<leftarrow> route_mem s r;
     Some [(64, strz (rname rt)), (4, le32 (rflags rt)), (4, le32 (of_nat (length (keys rt))))] }"

definition route_list_command_handler :: "addr \<Rightarrow> server \<Rightarrow> server option" where
  "route_list_command_handler client = guarded client (sizeof ProtocolRequestRouteList)
     [EG_USER_ADMIN_PERM, EG_USER_ROUTE_PERM, EG_USER_ROUTE_LIST_PERM] (\<lambda>c cmd s. do {
     entries \<leftarrow> collect (route_fields s) (routes s);
     list_response client cmd (of_nat (length (routes s) * (64 + 4 * 2))) entries s })"

definition binding_fields :: "server \<Rightarrow> bytes \<times> addr \<Rightarrow> (nat \<times> bytes) list option" where
  "binding_fields s b = do {
     qt \<leftarrow> queue_mem s (snd b);
     Some [(32, strz (fst b)), (64, strz (qname qt))] }"

definition route_keys_command_handler :: "addr \<Rightarrow> server \<Rightarrow> server option" where
  "route_keys_command_handler client = guarded client (sizeof ProtocolRequestRouteKeys)
     [EG_USER_ADMIN_PERM, EG_USER_ROUTE_PERM, EG_USER_ROUTE_KEYS_PERM] (\<lambda>c cmd s. do {
     ok \<leftarrow> valid2 (arg c ProtocolRequestRouteKeys ''name'') 64;
     if \<not> ok then add_status_response client cmd EG_PROTOCOL_STATUS_ERROR_VALUE s
     else do {
       name \<leftarrow> arg_str c ProtocolRequestRouteKeys ''name'';
       r \<leftarrow> find_route_t (routes s) name s;
       (case r of
          None \<Rightarrow> add_status_response client cmd EG_PROTOCOL_STATUS_ERROR_NOT_FOUND s
        | Some r \<Rightarrow> do {
            rt \<leftarrow> route_mem s r;
            entries \<leftarrow> collect (binding_fields s) [(key, q). (key, qs) \<leftarrow> keys rt, q \<leftarrow> qs];
            list_response client cmd (get_queue_number_route_t rt * (32 + 64)) entries s }) } })"

definition route_rename_command_handler :: "addr \<Rightarrow> server \<Rightarrow> server option" where
  "route_rename_command_handler client = guarded client (sizeof ProtocolRequestRouteRename)
     [EG_USER_ADMIN_PERM, EG_USER_ROUTE_PERM, EG_USER_ROUTE_RENAME_PERM] (\<lambda>c cmd s. do {
     ok \<leftarrow> both (valid2 (arg c ProtocolRequestRouteRename ''from'') 64)
               (valid2 (arg c ProtocolRequestRouteRename ''to'') 64);
     if \<not> ok then add_status_response client cmd EG_PROTOCOL_STATUS_ERROR_VALUE s
     else do {
       from_name \<leftarrow> arg_str c ProtocolRequestRouteRename ''from'';
       to_name \<leftarrow> arg_str c ProtocolRequestRouteRename ''to'';
       r \<leftarrow> find_route_t (routes s) from_name s;
       (case r of
          None \<Rightarrow> add_status_response client cmd EG_PROTOCOL_STATUS_ERROR_NOT_FOUND s
        | Some r \<Rightarrow> do {
            dup \<leftarrow> find_route_t (routes s) to_name s;
            if dup \<noteq> None then add_status_response client cmd EG_PROTOCOL_STATUS_ERROR_VALUE s
            else do {
              s \<leftarrow> rename_route_t r to_name s;
              add_status_response client cmd EG_PROTOCOL_STATUS_SUCCESS s } }) } })"

text \<open>The two lookups \<open>bind\<close> and \<open>unbind\<close> share.\<close>

definition with_binding :: "addr \<Rightarrow> eagle_client \<Rightarrow> struct \<Rightarrow> u8 \<Rightarrow> (addr \<Rightarrow> addr \<Rightarrow> bytes \<Rightarrow> server \<Rightarrow> server option) \<Rightarrow>
    server \<Rightarrow> server option" where
  "with_binding client c st cmd body s = do {
     ok \<leftarrow> both (valid2 (arg c st ''name'') 64) (both (valid2 (arg c st ''queue'') 64) (valid1 (arg c st ''key'') 32));
     if \<not> ok then add_status_response client cmd EG_PROTOCOL_STATUS_ERROR_VALUE s
     else do {
       name \<leftarrow> arg_str c st ''name'';
       r \<leftarrow> find_route_t (routes s) name s;
       (case r of
          None \<Rightarrow> add_status_response client cmd EG_PROTOCOL_STATUS_ERROR_NOT_FOUND s
        | Some r \<Rightarrow> do {
            queue_name \<leftarrow> arg_str c st ''queue'';
            rq \<leftarrow> find_queue_t (queues s) queue_name s;
            (case rq of
               None \<Rightarrow> add_status_response client cmd EG_PROTOCOL_STATUS_ERROR_NOT_FOUND s
             | Some q \<Rightarrow> do { key \<leftarrow> arg_str c st ''key''; body r q key s }) }) } }"

definition route_bind_command_handler :: "addr \<Rightarrow> server \<Rightarrow> server option" where
  "route_bind_command_handler client = guarded client (sizeof ProtocolRequestRouteBind)
     [EG_USER_ADMIN_PERM, EG_USER_ROUTE_PERM, EG_USER_ROUTE_BIND_PERM] (\<lambda>c cmd.
     with_binding client c ProtocolRequestRouteBind cmd (\<lambda>r q key s. do {
       s \<leftarrow> bind_route_t r q key s;
       add_status_response client cmd EG_PROTOCOL_STATUS_SUCCESS s }))"

definition route_unbind_command_handler :: "addr \<Rightarrow> server \<Rightarrow> server option" where
  "route_unbind_command_handler client = guarded client (sizeof ProtocolRequestRouteUnbind)
     [EG_USER_ADMIN_PERM, EG_USER_ROUTE_PERM, EG_USER_ROUTE_UNBIND_PERM] (\<lambda>c cmd.
     with_binding client c ProtocolRequestRouteUnbind cmd (\<lambda>r q key s. do {
       (st, s) \<leftarrow> unbind_route_t r q key s;
       if st = EG_STATUS_ERR then add_status_response client cmd EG_PROTOCOL_STATUS_ERROR s
       else add_status_response client cmd EG_PROTOCOL_STATUS_SUCCESS s }))"

definition route_push_command_handler :: "addr \<Rightarrow> server \<Rightarrow> server option" where
  "route_push_command_handler client = guarded client (sizeof ProtocolRequestRoutePush + 5)
     [EG_USER_ADMIN_PERM, EG_USER_ROUTE_PERM, EG_USER_ROUTE_PUSH_PERM] (\<lambda>c cmd s. do {
     ok \<leftarrow> both (valid2 (arg c ProtocolRequestRoutePush ''name'') 64)
               (valid1 (arg c ProtocolRequestRoutePush ''key'') 32);
     if \<not> ok then add_status_response client cmd EG_PROTOCOL_STATUS_ERROR_VALUE s
     else if nomemory s then add_status_response client cmd EG_PROTOCOL_STATUS_ERROR_MEMORY s
     else do {
       name \<leftarrow> arg_str c ProtocolRequestRoutePush ''name'';
       r \<leftarrow> find_route_t (routes s) name s;
       (case r of
          None \<Rightarrow> add_status_response client cmd EG_PROTOCOL_STATUS_ERROR_NOT_FOUND s
        | Some r \<Rightarrow> do {
            let msg_data = drop (sizeof ProtocolRequestRoutePush + 4) (request c);
            let msg_size = pos c - (sizeof ProtocolRequestRoutePush + 4);
            ex \<leftarrow> rd32 (request c) (sizeof ProtocolRequestRoutePush);
            let expire = (if ex \<noteq> 0 then ex + word_of_int (now_timems s) else ex);
            (s, obj) \<leftarrow> create_dup_object msg_data msg_size s;
            s \<leftarrow> EG_OBJECT_RESET_REFCOUNT obj s;
            key \<leftarrow> arg_str c ProtocolRequestRoutePush ''key'';
            (st, s) \<leftarrow> push_message_route_t r key obj expire s;
            if st \<noteq> EG_STATUS_OK then add_status_response client cmd EG_PROTOCOL_STATUS_ERROR s
            else add_status_response client cmd EG_PROTOCOL_STATUS_SUCCESS s }) } })"

definition route_delete_command_handler :: "addr \<Rightarrow> server \<Rightarrow> server option" where
  "route_delete_command_handler client = guarded client (sizeof ProtocolRequestRouteDelete)
     [EG_USER_ADMIN_PERM, EG_USER_ROUTE_PERM, EG_USER_ROUTE_DELETE_PERM] (\<lambda>c cmd s. do {
     ok \<leftarrow> valid2 (arg c ProtocolRequestRouteDelete ''name'') 64;
     if \<not> ok then add_status_response client cmd EG_PROTOCOL_STATUS_ERROR_VALUE s
     else do {
       name \<leftarrow> arg_str c ProtocolRequestRouteDelete ''name'';
       r \<leftarrow> find_route_t (routes s) name s;
       (case r of
          None \<Rightarrow> add_status_response client cmd EG_PROTOCOL_STATUS_ERROR_NOT_FOUND s
        | Some r \<Rightarrow> do {
            (st, s) \<leftarrow> routes_delete_value r s;
            if st = EG_STATUS_ERR then add_status_response client cmd EG_PROTOCOL_STATUS_ERROR s
            else add_status_response client cmd EG_PROTOCOL_STATUS_SUCCESS s }) } })"

end
