(* ===== verification/HandlersChannel.thy ===== *)
theory HandlersChannel
  imports HandlersRoute
begin

text \<open>The command handlers of src/handlers.c for channels.\<close>

definition channel_create_command_handler :: "addr \<Rightarrow> server \<Rightarrow> server option" where
  "channel_create_command_handler client = guarded client (sizeof ProtocolRequestChannelCreate)
     [EG_USER_ADMIN_PERM, EG_USER_CHANNEL_PERM, EG_USER_CHANNEL_CREATE_PERM] (\<lambda>c cmd s. do {
     ok \<leftarrow> valid2 (arg c ProtocolRequestChannelCreate ''name'') 64;
     if \<not> ok then add_status_response client cmd EG_PROTOCOL_STATUS_ERROR_VALUE s
     else do {
       name \<leftarrow> arg_str c ProtocolRequestChannelCreate ''name'';
       dup \<leftarrow> find_channel_t (channels s) name s;
       if dup \<noteq> None then add_status_response client cmd EG_PROTOCOL_STATUS_ERROR s
       else do {
         fl \<leftarrow> arg_u32 c ProtocolRequestChannelCreate ''flags'';
         (s, ch) \<leftarrow> create_channel_t name fl s;
         let s = s\<lparr>channels := channels s @ [ch]\<rparr>;
         add_status_response client cmd EG_PROTOCOL_STATUS_SUCCESS s } } })"

definition channel_exist_command_handler :: "addr \<Rightarrow> server \<Rightarrow> server option" where
  "channel_exist_command_handler client = guarded client (sizeof ProtocolRequestChannelExist)
     [EG_USER_ADMIN_PERM, EG_USER_CHANNEL_PERM, EG_USER_CHANNEL_EXIST_PERM] (\<lambda>c cmd s. do {
     ok \<leftarrow> valid2 (arg c ProtocolRequestChannelExist ''name'') 64;
     if \<not> ok then add_status_response client cmd EG_PROTOCOL_STATUS_ERROR_VALUE s
     else do {
       name \<leftarrow> arg_str c ProtocolRequestChannelExist ''name'';
       r \<leftarrow> find_channel_t (channels s) name s;
       add_response client (set_response_header cmd (status_code EG_PROTOCOL_STATUS_SUCCESS) 4 @
         le32 (if r \<noteq> None then 1 else 0)) s } })"

definition channel_fields :: "server \<Rightarrow> addr \<Rightarrow> (nat \<times> bytes) list option" where
  "channel_fields s ch = do {
     ct \<leftarrow> channel_mem s ch;
     Some [(64, strz (chname ct)), (4, le32 (chflags ct)), (4, le32 (of_nat (length (topics ct)))),
           (4, le32 (of_nat (length (patterns ct))))] }"

definition channel_list_command_handler :: "addr \<Rightarrow> server \<Rightarrow> server option" where
  "channel_list_command_handler client = guarded client (sizeof ProtocolRequestChannelList)
     [EG_USER_ADMIN_PERM, EG_USER_CHANNEL_PERM, EG_USER_CHANNEL_LIST_PERM] (\<lambda>c cmd s. do {
     entries \<leftarrow> collect (channel_fields s) (channels s);
     list_response client cmd (of_nat (length (channels s) * (64 + 4 * 3))) entries s })"

definition channel_rename_command_handler :: "addr \<Rightarrow> server \<Rightarrow> server option" where
  "channel_rename_command_handler client = guarded client (sizeof ProtocolRequestChannelRename)
     [EG_USER_ADMIN_PERM, EG_USER_CHANNEL_PERM, EG_USER_CHANNEL_RENAME_PERM] (\<lambda>c cmd s. do {
     ok \<leftarrow> both (valid2 (arg c ProtocolRequestChannelRename ''from'') 64)
               (valid2 (arg c ProtocolRequestChannelRename ''to'') 64);
     if \<not> ok then add_status_response client cmd EG_PROTOCOL_STATUS_ERROR_VALUE s
     else do {
       from_name \<leftarrow> arg_str c ProtocolRequestChannelRename ''from'';
       to_name \<leftarrow> arg_str c ProtocolRequestChannelRename ''to'';
       r \<leftarrow> find_channel_t (channels s) from_name s;
       (case r of
          None \<Rightarrow> add_status_response client cmd EG_PROTOCOL_STATUS_ERROR_NOT_FOUND s
        | Some ch \<Rightarrow> do {
            dup \<leftarrow> find_channel_t (channels s) to_name s;
            if dup \<noteq> None then add_status_response client cmd EG_PROTOCOL_STATUS_ERROR_VALUE s
            else do {
              s \<leftarrow> rename_channel_t ch to_name s;
              add_status_response client cmd EG_PROTOCOL_STATUS_SUCCESS s } }) } })"

text \<open>\<open>find_channel_t(server->channels, name)\<close> after the two input checks: the shared beginning of
  publishing and of the four subscription commands.\<close>

definition with_channel :: "addr \<Rightarrow> eagle_client \<Rightarrow> struct \<Rightarrow> string \<Rightarrow> (bytes \<Rightarrow> nat \<Rightarrow> bool option) \<Rightarrow> u8 \<Rightarrow>
    (addr \<Rightarrow> bytes \<Rightarrow> server \<Rightarrow> server option) \<Rightarrow> server \<Rightarrow> server option" where
  "with_channel client c st f valid cmd body s = do {
     ok \<leftarrow> both (valid2 (arg c st ''name'') 64) (valid (arg c st f) 32);
     if \<not> ok then add_status_response client cmd EG_PROTOCOL_STATUS_ERROR_VALUE s
     else do {
       name \<leftarrow> arg_str c st ''name'';
       r \<leftarrow> find_channel_t (channels s) name s;
       (case r of
          None \<Rightarrow> add_status_response client cmd EG_PROTOCOL_STATUS_ERROR_NOT_FOUND s
        | Some ch \<Rightarrow> do { key \<leftarrow> arg_str c st f; body ch key s }) } }"

definition channel_publish_command_handler :: "addr \<Rightarrow> server \<Rightarrow> server option" where
  "channel_publish_command_handler client = guarded client (sizeof ProtocolRequestChannelPublish + 1)
     [EG_USER_ADMIN_PERM, EG_USER_CHANNEL_PERM, EG_USER_CHANNEL_PUBLISH_PERM] (\<lambda>c cmd.
     with_channel client c ProtocolRequestChannelPublish ''topic'' valid1 cmd (\<lambda>ch topic s. do {
       (s, obj) \<leftarrow> create_dup_object (drop (sizeof ProtocolRequestChannelPublish) (request c))
                   (pos c - sizeof ProtocolRequestChannelPublish) s;
       s \<leftarrow> publish_message_channel_t ch topic obj s;
       s \<leftarrow> decrement_references_count obj s;
       add_status_response client cmd EG_PROTOCOL_STATUS_SUCCESS s }))"

definition channel_subscribe_command_handler :: "addr \<Rightarrow> server \<Rightarrow> server option" where
  "channel_subscribe_command_handler client = guarded client (sizeof ProtocolRequestChannelSubscribe)
     [EG_USER_ADMIN_PERM, EG_USER_CHANNEL_PERM, EG_USER_CHANNEL_SUBSCRIBE_PERM] (\<lambda>c cmd.
     with_channel client c ProtocolRequestChannelSubscribe ''topic'' valid1 cmd (\<lambda>ch topic s. do {
       s \<leftarrow> subscribe_channel_t ch client topic s;
       add_status_response client cmd EG_PROTOCOL_STATUS_SUCCESS s }))"

definition channel_psubscribe_command_handler :: "addr \<Rightarrow> server \<Rightarrow> server option" where
  "channel_psubscribe_command_handler client = guarded client (sizeof ProtocolRequestChannelPatternSubscribe)
     [EG_USER_ADMIN_PERM, EG_USER_CHANNEL_PERM, EG_USER_CHANNEL_PSUBSCRIBE_PERM] (\<lambda>c cmd.
     with_channel client c ProtocolRequestChannelPatternSubscribe ''pattern'' valid3 cmd (\<lambda>ch pattern s. do {
       s \<leftarrow> psubscribe_channel_t ch client pattern s;
       add_status_response client cmd EG_PROTOCOL_STATUS_SUCCESS s }))"

text \<open>When there is nothing to unsubscribe both \<open>NOT_FOUND\<close> and \<open>SUCCESS\<close> are sent.\<close>

definition channel_unsubscribe_command_handler :: "addr \<Rightarrow> server \<Rightarrow> server option" where
  "channel_unsubscribe_command_handler client = guarded client (sizeof ProtocolRequestChannelUnsubscribe)
     [EG_USER_ADMIN_PERM, EG_USER_CHANNEL_PERM, EG_USER_CHANNEL_UNSUBSCRIBE_PERM] (\<lambda>c cmd.
     with_channel client c ProtocolRequestChannelUnsubscribe ''topic'' valid1 cmd (\<lambda>ch topic s. do {
       (st, s) \<leftarrow> unsubscribe_channel_t ch client topic s;
       s \<leftarrow> (if st \<noteq> EG_STATUS_OK
              then add_status_response client cmd EG_PROTOCOL_STATUS_ERROR_NOT_FOUND s else Some s);
       add_status_response client cmd EG_PROTOCOL_STATUS_SUCCESS s }))"

definition channel_punsubscribe_command_handler :: "addr \<Rightarrow> server \<Rightarrow> server option" where
  "channel_punsubscribe_command_handler client = guarded client (sizeof ProtocolRequestChannelPatternUnsubscribe)
     [EG_USER_ADMIN_PERM, EG_USER_CHANNEL_PERM, EG_USER_CHANNEL_PUNSUBSCRIBE_PERM] (\<lambda>c cmd.
     with_channel client c ProtocolRequestChannelPatternUnsubscribe ''pattern'' valid3 cmd (\<lambda>ch pattern s. do {
       (st, s) \<leftarrow> punsubscribe_channel_t ch client pattern s;
       s \<leftarrow> (if st \<noteq> EG_STATUS_OK
              then add_status_response client cmd EG_PROTOCOL_STATUS_ERROR_NOT_FOUND s else Some s);
       add_status_response client cmd EG_PROTOCOL_STATUS_SUCCESS s }))"

definition channel_delete_command_handler :: "addr \<Rightarrow> server \<Rightarrow> server option" where
  "channel_delete_command_handler client = guarded client (sizeof ProtocolRequestChannelDelete)
     [EG_USER_ADMIN_PERM, EG_USER_CHANNEL_PERM, EG_USER_CHANNEL_DELETE_PERM] (\<lambda>c cmd s. do {
     ok \<leftarrow> valid2 (arg c ProtocolRequestChannelDelete ''name'') 64;
     if \<not> ok then add_status_response client cmd EG_PROTOCOL_STATUS_ERROR_VALUE s
     else do {
       name \<leftarrow> arg_str c ProtocolRequestChannelDelete ''name'';
       r \<leftarrow> find_channel_t (channels s) name s;
       (case r of
          None \<Rightarrow> add_status_response client cmd EG_PROTOCOL_STATUS_ERROR_NOT_FOUND s
        | Some ch \<Rightarrow> do {
            (st, s) \<leftarrow> channels_delete_value ch s;
            if st = EG_STATUS_ERR then add_status_response client cmd EG_PROTOCOL_STATUS_ERROR s
            else add_status_response client cmd EG_PROTOCOL_STATUS_SUCCESS s }) } })"

end
