(* ===== verification/Requests.thy ===== *)
theory Requests
  imports HandlersChannel
begin

text \<open>
  From bytes on a socket to command handlers: the command table (\<open>init_commands\<close> of src/eagle.c),
  \<open>parse_command\<close>, \<open>process_request\<close> and \<open>read_request\<close> of src/handlers.c. One pass of
  \<open>process_request\<close> up to the call of the handler is \<open>frame_step\<close>, a function of the client
  alone.
\<close>

section \<open>The command table\<close>

fun init_commands :: "ProtocolCommand \<Rightarrow> addr \<Rightarrow> server \<Rightarrow> server option" where
  "init_commands EG_PROTOCOL_CMD_AUTH = auth_command_handler"
| "init_commands EG_PROTOCOL_CMD_PING = ping_command_handler"
| "init_commands EG_PROTOCOL_CMD_STAT = stat_command_handler"
| "init_commands EG_PROTOCOL_CMD_SAVE = save_command_handler"
| "init_commands EG_PROTOCOL_CMD_FLUSH = flush_command_handler"
| "init_commands EG_PROTOCOL_CMD_DISCONNECT = disconnect_command_handler"
| "init_commands EG_PROTOCOL_CMD_USER_CREATE = user_create_command_handler"
| "init_commands EG_PROTOCOL_CMD_USER_LIST = user_list_command_handler"
| "init_commands EG_PROTOCOL_CMD_USER_RENAME = user_rename_command_handler"
| "init_commands EG_PROTOCOL_CMD_USER_SET_PERM = user_set_perm_command_handler"
| "init_commands EG_PROTOCOL_CMD_USER_DELETE = user_delete_command_handler"
| "init_commands EG_PROTOCOL_CMD_QUEUE_CREATE = queue_create_command_handler"
| "init_commands EG_PROTOCOL_CMD_QUEUE_DECLARE = queue_declare_command_handler"
| "init_commands EG_PROTOCOL_CMD_QUEUE_EXIST = queue_exist_command_handler"
| "init_commands EG_PROTOCOL_CMD_QUEUE_LIST = queue_list_command_handler"
| "init_commands EG_PROTOCOL_CMD_QUEUE_RENAME = queue_rename_command_handler"
| "init_commands EG_PROTOCOL_CMD_QUEUE_SIZE = queue_size_command_handler"
| "init_commands EG_PROTOCOL_CMD_QUEUE_PUSH = queue_push_command_handler"
| "init_commands EG_PROTOCOL_CMD_QUEUE_GET = queue_get_command_handler"
| "init_commands EG_PROTOCOL_CMD_QUEUE_POP = queue_pop_command_handler"
| "init_commands EG_PROTOCOL_CMD_QUEUE_CONFIRM = queue_confirm_command_handler"
| "init_commands EG_PROTOCOL_CMD_QUEUE_SUBSCRIBE = queue_subscribe_command_handler"
| "init_commands EG_PROTOCOL_CMD_QUEUE_UNSUBSCRIBE = queue_unsubscribe_command_handler"
| "init_commands EG_PROTOCOL_CMD_QUEUE_PURGE = queue_purge_command_handler"
| "init_commands EG_PROTOCOL_CMD_QUEUE_DELETE = queue_delete_command_handler"
| "init_commands EG_PROTOCOL_CMD_ROUTE_CREATE = route_create_command_handler"
| "init_commands EG_PROTOCOL_CMD_ROUTE_EXIST = route_exist_command_handler"
| "init_commands EG_PROTOCOL_CMD_ROUTE_LIST = route_list_command_handler"
| "init_commands EG_PROTOCOL_CMD_ROUTE_KEYS = route_keys_command_handler"
| "init_commands EG_PROTOCOL_CMD_ROUTE_RENAME = route_rename_command_handler"
| "init_commands EG_PROTOCOL_CMD_ROUTE_BIND = route_bind_command_handler"
| "init_commands EG_PROTOCOL_CMD_ROUTE_UNBIND = route_unbind_command_handler"
| "init_commands EG_PROTOCOL_CMD_ROUTE_PUSH = route_push_command_handler"
| "init_commands EG_PROTOCOL_CMD_ROUTE_DELETE = route_delete_command_handler"
| "init_commands EG_PROTOCOL_CMD_CHANNEL_CREATE = channel_create_command_handler"
| "init_commands EG_PROTOCOL_CMD_CHANNEL_EXIST = channel_exist_command_handler"
| "init_commands EG_PROTOCOL_CMD_CHANNEL_LIST = channel_list_command_handler"
| "init_commands EG_PROTOCOL_CMD_CHANNEL_RENAME = channel_rename_command_handler"
| "init_commands EG_PROTOCOL_CMD_CHANNEL_PUBLISH = channel_publish_command_handler"
| "init_commands EG_PROTOCOL_CMD_CHANNEL_SUBSCRIBE = channel_subscribe_command_handler"
| "init_commands EG_PROTOCOL_CMD_CHANNEL_PSUBSCRIBE = channel_psubscribe_command_handler"
| "init_commands EG_PROTOCOL_CMD_CHANNEL_UNSUBSCRIBE = channel_unsubscribe_command_handler"
| "init_commands EG_PROTOCOL_CMD_CHANNEL_PUNSUBSCRIBE = channel_punsubscribe_command_handler"
| "init_commands EG_PROTOCOL_CMD_CHANNEL_DELETE = channel_delete_command_handler"

text \<open>\<open>commands[cmd]\<close>: the entries that \<open>init_commands\<close> does not set are NULL.\<close>

definition commands :: "u8 \<Rightarrow> (addr \<Rightarrow> server \<Rightarrow> server option) option" where
  "commands cmd = map_option init_commands (command_of cmd)"

definition parse_command :: "addr \<Rightarrow> server \<Rightarrow> server option" where
  "parse_command client s = do {
     c \<leftarrow> client_mem s client;
     cmd \<leftarrow> rd (request c) (offsetof ProtocolRequestHeader ''cmd'');
     (case commands cmd of
        Some handler \<Rightarrow> do {
          na \<leftarrow> rd (request c) (offsetof ProtocolRequestHeader ''noack'');
          s \<leftarrow> upd_client client (\<lambda>c. c\<lparr>noack := na\<rparr>) s;
          handler client s }
      | None \<Rightarrow> add_status_response client cmd EG_PROTOCOL_STATUS_ERROR_COMMAND s) }"

section \<open>Framing\<close>

text \<open>The outcome of a pass: answer \<open>ERROR_PACKET\<close>, wait for more bytes, or run the command.\<close>

datatype frame = Bad eagle_client | Wait eagle_client | Dispatch eagle_client

text \<open>\<open>memcpy\<close> of \<open>n\<close> bytes from \<open>buf + i\<close> to \<open>dst + j\<close>.\<close>

definition copy_bytes :: "bytes \<Rightarrow> nat \<Rightarrow> nat \<Rightarrow> bytes \<Rightarrow> nat \<Rightarrow> bytes option" where
  "copy_bytes buf i n dst j = (if i + n \<le> length buf then put dst j (take n (drop i buf)) else None)"

definition frame_first :: "eagle_client \<Rightarrow> frame option" where
  "frame_first c =
     (if nread c < sizeof ProtocolRequestHeader then Some (Bad c)
      else do {
        magic \<leftarrow> rd16 (buffer c) (offset c + offsetof ProtocolRequestHeader ''magic'');
        bl \<leftarrow> rd32 (buffer c) (offset c + offsetof ProtocolRequestHeader ''bodylen'');
        let blen = unat bl;
        if magic \<noteq> EG_PROTOCOL_REQ then Some (Bad (c\<lparr>offset := 0, bodylen := 0\<rparr>))
        else if blen > EG_MAX_BUF_SIZE then Some (Bad (c\<lparr>offset := 0, bodylen := 0\<rparr>))
        else do {
          let c = (if length (request c) < blen
                   then c\<lparr>request := request c @ xcalloc_bytes (EG_MAX_BUF_SIZE - length (request c))\<rparr> else c);
          let delta = nread c - sizeof ProtocolRequestHeader;
          if delta = blen then do {
            rq \<leftarrow> copy_bytes (buffer c) (offset c) (nread c) (request c) 0;
            Some (Dispatch (c\<lparr>request := rq, pos := nread c, offset := 0, nread := 0\<rparr>)) }
          else if delta < blen then do {
            rq \<leftarrow> copy_bytes (buffer c) (offset c) (nread c) (request c) 0;
            Some (Wait (c\<lparr>request := rq, bodylen := blen - delta, pos := nread c\<rparr>)) }
          else do {
            let p = blen + sizeof ProtocolRequestHeader;
            rq \<leftarrow> copy_bytes (buffer c) (offset c) p (request c) 0;
            Some (Dispatch (c\<lparr>request := rq, pos := p, offset := offset c + p, nread := nread c - p\<rparr>)) } } })"

definition frame_rest :: "eagle_client \<Rightarrow> frame option" where
  "frame_rest c =
     (if nread c = bodylen c then do {
        rq \<leftarrow> copy_bytes (buffer c) 0 (nread c) (request c) (pos c);
        Some (Dispatch (c\<lparr>request := rq, pos := pos c + nread c, offset := 0, nread := 0, bodylen := 0\<rparr>)) }
      else if nread c < bodylen c then do {
        rq \<leftarrow> copy_bytes (buffer c) 0 (nread c) (request c) (pos c);
        Some (Wait (c\<lparr>request := rq, pos := pos c + nread c, bodylen := bodylen c - nread c, offset := 0\<rparr>)) }
      else do {
        rq \<leftarrow> copy_bytes (buffer c) 0 (bodylen c) (request c) (pos c);
        Some (Dispatch (c\<lparr>request := rq, pos := pos c + bodylen c, nread := nread c - bodylen c,
                          offset := bodylen c, bodylen := 0\<rparr>)) })"

definition frame_step :: "eagle_client \<Rightarrow> frame option" where
  "frame_step c = (if bodylen c = 0 then frame_first c else frame_rest c)"

partial_function (option) process_request :: "addr \<Rightarrow> server \<Rightarrow> server option" where [code]:
  "process_request client s =
     Option.bind (client_mem s client) (\<lambda>c. Option.bind (frame_step c) (\<lambda>f.
       case f of
         Bad c' \<Rightarrow> Option.bind (upd_client client (\<lambda>_. c') s)
                    (add_status_response client 0 EG_PROTOCOL_STATUS_ERROR_PACKET)
       | Wait c' \<Rightarrow> upd_client client (\<lambda>_. c') s
       | Dispatch c' \<Rightarrow>
           Option.bind (upd_client client (\<lambda>_. c') s) (\<lambda>s.
           Option.bind (parse_command client s) (\<lambda>s.
           Option.bind (client_mem s client) (\<lambda>c.
             if nread c \<ge> sizeof ProtocolRequestHeader then process_request client s else Some s)))))"

text \<open>What \<open>read\<close> answers: bytes, \<open>EAGAIN\<close>, end of file, or another error.\<close>

datatype read_result = Read bytes | Read_again | Read_eof | Read_failed

definition receive :: "bytes \<Rightarrow> eagle_client \<Rightarrow> eagle_client option" where
  "receive data c = do { buf \<leftarrow> put (buffer c) 0 data; Some (c\<lparr>buffer := buf, nread := length data\<rparr>) }"

definition read_request_handler :: "read_result \<Rightarrow> addr \<Rightarrow> server \<Rightarrow> server option" where
  "read_request_handler r client s = (case r of
     Read_failed \<Rightarrow> free_client client s
   | Read_eof \<Rightarrow> free_client client s
   | Read_again \<Rightarrow> Some s
   | Read data \<Rightarrow> do {
       c \<leftarrow> client_mem s client;
       c \<leftarrow> receive data c;
       s \<leftarrow> upd_client client (\<lambda>_. c\<lparr>last_action := time_NULL (env s)\<rparr>) s;
       process_request client s })"

end
