(* ===== verification/Access.thy ===== *)
theory Access
  imports Requests
begin

text \<open>
  Who may do what: the permissions each command asks for, and what is left of a command when
  they are missing.
\<close>

section \<open>The rights of a command\<close>

text \<open>
  Three commands are free; the system and user commands ask for the administrator's right; a
  queue, route or channel command is granted by the administrator's right, by the right to its
  whole class, or by its own right.
\<close>

fun required_perms :: "ProtocolCommand \<Rightarrow> Permission list option" where
  "required_perms EG_PROTOCOL_CMD_AUTH = None"
| "required_perms EG_PROTOCOL_CMD_PING = None"
| "required_perms EG_PROTOCOL_CMD_STAT = Some [EG_USER_ADMIN_PERM]"
| "required_perms EG_PROTOCOL_CMD_SAVE = Some [EG_USER_ADMIN_PERM]"
| "required_perms EG_PROTOCOL_CMD_FLUSH = Some [EG_USER_ADMIN_PERM]"
| "required_perms EG_PROTOCOL_CMD_DISCONNECT = None"
| "required_perms EG_PROTOCOL_CMD_USER_CREATE = Some [EG_USER_ADMIN_PERM]"
| "required_perms EG_PROTOCOL_CMD_USER_LIST = Some [EG_USER_ADMIN_PERM]"
| "required_perms EG_PROTOCOL_CMD_USER_RENAME = Some [EG_USER_ADMIN_PERM]"
| "required_perms EG_PROTOCOL_CMD_USER_SET_PERM = Some [EG_USER_ADMIN_PERM]"
| "required_perms EG_PROTOCOL_CMD_USER_DELETE = Some [EG_USER_ADMIN_PERM]"
| "required_perms EG_PROTOCOL_CMD_QUEUE_CREATE = Some [EG_USER_ADMIN_PERM, EG_USER_QUEUE_PERM, EG_USER_QUEUE_CREATE_PERM]"
| "required_perms EG_PROTOCOL_CMD_QUEUE_DECLARE = Some [EG_USER_ADMIN_PERM, EG_USER_QUEUE_PERM, EG_USER_QUEUE_DECLARE_PERM]"
| "required_perms EG_PROTOCOL_CMD_QUEUE_EXIST = Some [EG_USER_ADMIN_PERM, EG_USER_QUEUE_PERM, EG_USER_QUEUE_EXIST_PERM]"
| "required_perms EG_PROTOCOL_CMD_QUEUE_LIST = Some [EG_USER_ADMIN_PERM, EG_USER_QUEUE_PERM, EG_USER_QUEUE_LIST_PERM]"
| "required_perms EG_PROTOCOL_CMD_QUEUE_RENAME = Some [EG_USER_ADMIN_PERM, EG_USER_QUEUE_PERM, EG_USER_QUEUE_RENAME_PERM]"
| "required_perms EG_PROTOCOL_CMD_QUEUE_SIZE = Some [EG_USER_ADMIN_PERM, EG_USER_QUEUE_PERM, EG_USER_QUEUE_SIZE_PERM]"
| "required_perms EG_PROTOCOL_CMD_QUEUE_PUSH = Some [EG_USER_ADMIN_PERM, EG_USER_QUEUE_PERM, EG_USER_QUEUE_PUSH_PERM]"
| "required_perms EG_PROTOCOL_CMD_QUEUE_GET = Some [EG_USER_ADMIN_PERM, EG_USER_QUEUE_PERM, EG_USER_QUEUE_GET_PERM]"
| "required_perms EG_PROTOCOL_CMD_QUEUE_POP = Some [EG_USER_ADMIN_PERM, EG_USER_QUEUE_PERM, EG_USER_QUEUE_POP_PERM]"
| "required_perms EG_PROTOCOL_CMD_QUEUE_CONFIRM = Some [EG_USER_ADMIN_PERM, EG_USER_QUEUE_PERM, EG_USER_QUEUE_CONFIRM_PERM]"
| "required_perms EG_PROTOCOL_CMD_QUEUE_SUBSCRIBE = Some [EG_USER_ADMIN_PERM, EG_USER_QUEUE_PERM, EG_USER_QUEUE_SUBSCRIBE_PERM]"
| "required_perms EG_PROTOCOL_CMD_QUEUE_UNSUBSCRIBE = Some [EG_USER_ADMIN_PERM, EG_USER_QUEUE_PERM, EG_USER_QUEUE_UNSUBSCRIBE_PERM]"
| "required_perms EG_PROTOCOL_CMD_QUEUE_PURGE = Some [EG_USER_ADMIN_PERM, EG_USER_QUEUE_PERM, EG_USER_QUEUE_PURGE_PERM]"
| "required_perms EG_PROTOCOL_CMD_QUEUE_DELETE = Some [EG_USER_ADMIN_PERM, EG_USER_QUEUE_PERM, EG_USER_QUEUE_DELETE_PERM]"
| "required_perms EG_PROTOCOL_CMD_ROUTE_CREATE = Some [EG_USER_ADMIN_PERM, EG_USER_ROUTE_PERM, EG_USER_ROUTE_CREATE_PERM]"
| "required_perms EG_PROTOCOL_CMD_ROUTE_EXIST = Some [EG_USER_ADMIN_PERM, EG_USER_ROUTE_PERM, EG_USER_ROUTE_EXIST_PERM]"
| "required_perms EG_PROTOCOL_CMD_ROUTE_LIST = Some [EG_USER_ADMIN_PERM, EG_USER_ROUTE_PERM, EG_USER_ROUTE_LIST_PERM]"
| "required_perms EG_PROTOCOL_CMD_ROUTE_KEYS = Some [EG_USER_ADMIN_PERM, EG_USER_ROUTE_PERM, EG_USER_ROUTE_KEYS_PERM]"
| "required_perms EG_PROTOCOL_CMD_ROUTE_RENAME = Some [EG_USER_ADMIN_PERM, EG_USER_ROUTE_PERM, EG_USER_ROUTE_RENAME_PERM]"
| "required_perms EG_PROTOCOL_CMD_ROUTE_BIND = Some [EG_USER_ADMIN_PERM, EG_USER_ROUTE_PERM, EG_USER_ROUTE_BIND_PERM]"
| "required_perms EG_PROTOCOL_CMD_ROUTE_UNBIND = Some [EG_USER_ADMIN_PERM, EG_USER_ROUTE_PERM, EG_USER_ROUTE_UNBIND_PERM]"
| "required_perms EG_PROTOCOL_CMD_ROUTE_PUSH = Some [EG_USER_ADMIN_PERM, EG_USER_ROUTE_PERM, EG_USER_ROUTE_PUSH_PERM]"
| "required_perms EG_PROTOCOL_CMD_ROUTE_DELETE = Some [EG_USER_ADMIN_PERM, EG_USER_ROUTE_PERM, EG_USER_ROUTE_DELETE_PERM]"
| "required_perms EG_PROTOCOL_CMD_CHANNEL_CREATE = Some [EG_USER_ADMIN_PERM, EG_USER_CHANNEL_PERM, EG_USER_CHANNEL_CREATE_PERM]"
| "required_perms EG_PROTOCOL_CMD_CHANNEL_EXIST = Some [EG_USER_ADMIN_PERM, EG_USER_CHANNEL_PERM, EG_USER_CHANNEL_EXIST_PERM]"
| "required_perms EG_PROTOCOL_CMD_CHANNEL_LIST = Some [EG_USER_ADMIN_PERM, EG_USER_CHANNEL_PERM, EG_USER_CHANNEL_LIST_PERM]"
| "required_perms EG_PROTOCOL_CMD_CHANNEL_RENAME = Some [EG_USER_ADMIN_PERM, EG_USER_CHANNEL_PERM, EG_USER_CHANNEL_RENAME_PERM]"
| "required_perms EG_PROTOCOL_CMD_CHANNEL_PUBLISH = Some [EG_USER_ADMIN_PERM, EG_USER_CHANNEL_PERM, EG_USER_CHANNEL_PUBLISH_PERM]"
| "required_perms EG_PROTOCOL_CMD_CHANNEL_SUBSCRIBE = Some [EG_USER_ADMIN_PERM, EG_USER_CHANNEL_PERM, EG_USER_CHANNEL_SUBSCRIBE_PERM]"
| "required_perms EG_PROTOCOL_CMD_CHANNEL_PSUBSCRIBE = Some [EG_USER_ADMIN_PERM, EG_USER_CHANNEL_PERM, EG_USER_CHANNEL_PSUBSCRIBE_PERM]"
| "required_perms EG_PROTOCOL_CMD_CHANNEL_UNSUBSCRIBE = Some [EG_USER_ADMIN_PERM, EG_USER_CHANNEL_PERM, EG_USER_CHANNEL_UNSUBSCRIBE_PERM]"
| "required_perms EG_PROTOCOL_CMD_CHANNEL_PUNSUBSCRIBE = Some [EG_USER_ADMIN_PERM, EG_USER_CHANNEL_PERM, EG_USER_CHANNEL_PUNSUBSCRIBE_PERM]"
| "required_perms EG_PROTOCOL_CMD_CHANNEL_DELETE = Some [EG_USER_ADMIN_PERM, EG_USER_CHANNEL_PERM, EG_USER_CHANNEL_DELETE_PERM]"

text \<open>The smallest request of a command.\<close>

fun request_size :: "ProtocolCommand \<Rightarrow> nat" where
  "request_size EG_PROTOCOL_CMD_AUTH = sizeof ProtocolRequestAuth"
| "request_size EG_PROTOCOL_CMD_PING = sizeof ProtocolRequestPing"
| "request_size EG_PROTOCOL_CMD_STAT = sizeof ProtocolRequestStat"
| "request_size EG_PROTOCOL_CMD_SAVE = sizeof ProtocolRequestSave"
| "request_size EG_PROTOCOL_CMD_FLUSH = sizeof ProtocolRequestFlush"
| "request_size EG_PROTOCOL_CMD_DISCONNECT = sizeof ProtocolRequestDisconnect"
| "request_size EG_PROTOCOL_CMD_USER_CREATE = sizeof ProtocolRequestUserCreate"
| "request_size EG_PROTOCOL_CMD_USER_LIST = sizeof ProtocolRequestUserList"
| "request_size EG_PROTOCOL_CMD_USER_RENAME = sizeof ProtocolRequestUserRename"
| "request_size EG_PROTOCOL_CMD_USER_SET_PERM = sizeof ProtocolRequestUserSetPerm"
| "request_size EG_PROTOCOL_CMD_USER_DELETE = sizeof ProtocolRequestUserDelete"
| "request_size EG_PROTOCOL_CMD_QUEUE_CREATE = sizeof ProtocolRequestQueueCreate"
| "request_size EG_PROTOCOL_CMD_QUEUE_DECLARE = sizeof ProtocolRequestQueueDeclare"
| "request_size EG_PROTOCOL_CMD_QUEUE_EXIST = sizeof ProtocolRequestQueueExist"
| "request_size EG_PROTOCOL_CMD_QUEUE_LIST = sizeof ProtocolRequestQueueList"
| "request_size EG_PROTOCOL_CMD_QUEUE_RENAME = sizeof ProtocolRequestQueueRename"
| "request_size EG_PROTOCOL_CMD_QUEUE_SIZE = sizeof ProtocolRequestQueueSize"
| "request_size EG_PROTOCOL_CMD_QUEUE_PUSH = sizeof ProtocolRequestHeader + 69"
| "request_size EG_PROTOCOL_CMD_QUEUE_GET = sizeof ProtocolRequestQueueGet"
| "request_size EG_PROTOCOL_CMD_QUEUE_POP = sizeof ProtocolRequestQueuePop"
| "request_size EG_PROTOCOL_CMD_QUEUE_CONFIRM = sizeof ProtocolRequestQueueConfirm"
| "request_size EG_PROTOCOL_CMD_QUEUE_SUBSCRIBE = sizeof ProtocolRequestQueueSubscribe"
| "request_size EG_PROTOCOL_CMD_QUEUE_UNSUBSCRIBE = sizeof ProtocolRequestQueueUnsubscribe"
| "request_size EG_PROTOCOL_CMD_QUEUE_PURGE = sizeof ProtocolRequestQueuePurge"
| "request_size EG_PROTOCOL_CMD_QUEUE_DELETE = sizeof ProtocolRequestQueueDelete"
| "request_size EG_PROTOCOL_CMD_ROUTE_CREATE = sizeof ProtocolRequestRouteCreate"
| "request_size EG_PROTOCOL_CMD_ROUTE_EXIST = sizeof ProtocolRequestRouteExist"
| "request_size EG_PROTOCOL_CMD_ROUTE_LIST = sizeof ProtocolRequestRouteList"
| "request_size EG_PROTOCOL_CMD_ROUTE_KEYS = sizeof ProtocolRequestRouteKeys"
| "request_size EG_PROTOCOL_CMD_ROUTE_RENAME = sizeof ProtocolRequestRouteRename"
| "request_size EG_PROTOCOL_CMD_ROUTE_BIND = sizeof ProtocolRequestRouteBind"
| "request_size EG_PROTOCOL_CMD_ROUTE_UNBIND = sizeof ProtocolRequestRouteUnbind"
| "request_size EG_PROTOCOL_CMD_ROUTE_PUSH = sizeof ProtocolRequestRoutePush + 5"
| "request_size EG_PROTOCOL_CMD_ROUTE_DELETE = sizeof ProtocolRequestRouteDelete"
| "request_size EG_PROTOCOL_CMD_CHANNEL_CREATE = sizeof ProtocolRequestChannelCreate"
| "request_size EG_PROTOCOL_CMD_CHANNEL_EXIST = sizeof ProtocolRequestChannelExist"
| "request_size EG_PROTOCOL_CMD_CHANNEL_LIST = sizeof ProtocolRequestChannelList"
| "request_size EG_PROTOCOL_CMD_CHANNEL_RENAME = sizeof ProtocolRequestChannelRename"
| "request_size EG_PROTOCOL_CMD_CHANNEL_PUBLISH = sizeof ProtocolRequestChannelPublish + 1"
| "request_size EG_PROTOCOL_CMD_CHANNEL_SUBSCRIBE = sizeof ProtocolRequestChannelSubscribe"
| "request_size EG_PROTOCOL_CMD_CHANNEL_PSUBSCRIBE = sizeof ProtocolRequestChannelPatternSubscribe"
| "request_size EG_PROTOCOL_CMD_CHANNEL_UNSUBSCRIBE = sizeof ProtocolRequestChannelUnsubscribe"
| "request_size EG_PROTOCOL_CMD_CHANNEL_PUNSUBSCRIBE = sizeof ProtocolRequestChannelPatternUnsubscribe"
| "request_size EG_PROTOCOL_CMD_CHANNEL_DELETE = sizeof ProtocolRequestChannelDelete"

lemmas handler_defs =
  auth_command_handler_def ping_command_handler_def stat_command_handler_def
  save_command_handler_def flush_command_handler_def disconnect_command_handler_def
  user_create_command_handler_def user_list_command_handler_def user_rename_command_handler_def
  user_set_perm_command_handler_def user_delete_command_handler_def queue_create_command_handler_def
  queue_declare_command_handler_def queue_exist_command_handler_def queue_list_command_handler_def
  queue_rename_command_handler_def queue_size_command_handler_def queue_push_command_handler_def
  queue_get_command_handler_def queue_pop_command_handler_def queue_confirm_command_handler_def
  queue_subscribe_command_handler_def queue_unsubscribe_command_handler_def queue_purge_command_handler_def
  queue_delete_command_handler_def route_create_command_handler_def route_exist_command_handler_def
  route_list_command_handler_def route_keys_command_handler_def route_rename_command_handler_def
  route_bind_command_handler_def route_unbind_command_handler_def route_push_command_handler_def
  route_delete_command_handler_def channel_create_command_handler_def channel_exist_command_handler_def
  channel_list_command_handler_def channel_rename_command_handler_def channel_publish_command_handler_def
  channel_subscribe_command_handler_def channel_psubscribe_command_handler_def channel_unsubscribe_command_handler_def
  channel_punsubscribe_command_handler_def channel_delete_command_handler_def

lemma sized_short:
  "client_mem s client = Some c \<Longrightarrow> pos c < n \<Longrightarrow>
   sized client n body s = add_status_response client 0 EG_PROTOCOL_STATUS_ERROR_PACKET s"
  by (simp add: sized_def)

lemma guarded_denied:
  assumes "client_mem s client = Some c" "rd (request c) 2 = Some cmd" "\<not> has_perm (perm c) ps"
  shows "guarded client n ps body s =
    (if pos c < n then add_status_response client 0 EG_PROTOCOL_STATUS_ERROR_PACKET s
     else add_status_response client cmd EG_PROTOCOL_STATUS_ERROR_ACCESS s)"
  using assms by (simp add: guarded_def sized_def)

text \<open>Every command with a required right is a guarded handler with exactly that right.\<close>

lemma init_commands_guarded:
  "required_perms cmd = Some ps \<Longrightarrow> \<exists>body. init_commands cmd client = guarded client (request_size cmd) ps body"
  by (cases cmd) (auto simp: handler_defs)

text \<open>
  C7. A command without the required right is refused, whatever else the request says: the
  handler answers \<open>ERROR_ACCESS\<close> (or \<open>ERROR_PACKET\<close> for a request that is too short) and changes
  nothing but the output queued for that client. For a connected client it always answers.
\<close>

theorem access_control:
  assumes "client_mem s client = Some c" "rd (request c) 2 = Some cmd"
    and "required_perms command = Some ps" "\<not> has_perm (perm c) ps" "connected s client"
  shows "init_commands command client s =
      (if pos c < request_size command then add_status_response client 0 EG_PROTOCOL_STATUS_ERROR_PACKET s
       else add_status_response client cmd EG_PROTOCOL_STATUS_ERROR_ACCESS s) \<and>
    (\<exists>s'. init_commands command client s = Some s' \<and> only_output client s s')"
proof -
  obtain body where "init_commands command client = guarded client (request_size command) ps body"
    using init_commands_guarded [OF assms(3)] by blast
  then have h: "init_commands command client s =
      (if pos c < request_size command then add_status_response client 0 EG_PROTOCOL_STATUS_ERROR_PACKET s
       else add_status_response client cmd EG_PROTOCOL_STATUS_ERROR_ACCESS s)"
    using guarded_denied [OF assms(1,2,4)] by simp
  then show ?thesis using add_status_response_connected [OF assms(5)] by auto
qed

theorem access_control_witness:
  "\<exists>s'. stat_command_handler 2 (sample_server [0x70, 0, 12, 0, 0, 0, 0, 0] 7) = Some s' \<and>
     only_output 2 (sample_server [0x70, 0, 12, 0, 0, 0, 0, 0] 7) s'"
proof -
  let ?rq = "[0x70, 0, 12, 0, 0, 0, 0, 0] :: bytes"
  have "client_mem (sample_server ?rq 7) 2 = Some (sample_client ?rq 7)" by (simp add: sample_server_def)
  moreover have "rd (request (sample_client ?rq 7)) 2 = Some 12" by (simp add: sample_client_def rd_def)
  moreover have "\<not> has_perm (perm (sample_client ?rq 7)) [EG_USER_ADMIN_PERM]"
    by (simp add: sample_client_def BIT_CHECK_def)
  moreover have "required_perms EG_PROTOCOL_CMD_STAT = Some [EG_USER_ADMIN_PERM]" by simp
  ultimately show ?thesis
    using access_control [where command = EG_PROTOCOL_CMD_STAT, OF _ _ _ _ sample_connected]
    by (metis init_commands.simps(3))
qed

end
