(* ===== verification/Framing.thy ===== *)
theory Framing
  imports Requests "HOL-Library.Sublist"
begin

text \<open>
  How \<open>read_request\<close> and \<open>process_request\<close> cut the byte stream of a connection into requests. The
  handlers do not take part in it: \<open>frame_run\<close> is the loop of \<open>process_request\<close> with the calls of
  \<open>parse_command\<close> replaced by a record of the requests they are made for.
\<close>

section \<open>The loop without the handlers\<close>

lemma frame_step_progress:
  assumes "frame_step c = Some (Dispatch c')" "sizeof ProtocolRequestHeader \<le> nread c'"
  shows "nread c' < nread c"
proof (cases "bodylen c = 0")
  case True
  then have "frame_first c = Some (Dispatch c')" using assms(1) by (simp add: frame_step_def)
  then show ?thesis
    using assms(2) unfolding frame_first_def
    by (auto simp: bind_eq_Some_conv Let_def split: if_split_asm)
next
  case False
  then have "frame_rest c = Some (Dispatch c')" using assms(1) by (simp add: frame_step_def)
  then show ?thesis
    using assms(2) False unfolding frame_rest_def
    by (auto simp: bind_eq_Some_conv Let_def split: if_split_asm)
qed

text \<open>The requests that are dispatched, whether the stream was well formed so far, and the client.\<close>

function frame_run :: "eagle_client \<Rightarrow> (bytes list \<times> bool \<times> eagle_client) option" where
  "frame_run c = do {
     f \<leftarrow> frame_step c;
     (case f of
        Bad c' \<Rightarrow> Some ([], False, c')
      | Wait c' \<Rightarrow> Some ([], True, c')
      | Dispatch c' \<Rightarrow>
          (if nread c' \<ge> sizeof ProtocolRequestHeader then do {
             (rs, ok, c'') \<leftarrow> frame_run c';
             Some (take (pos c') (request c') # rs, ok, c'') }
           else Some ([take (pos c') (request c')], True, c'))) }"
  by pat_completeness auto

termination
  by (relation "measure nread") (auto dest: frame_step_progress)

text \<open>Successive reads.\<close>

fun feed :: "bytes list \<Rightarrow> eagle_client \<Rightarrow> (bytes list \<times> bool \<times> eagle_client) option" where
  "feed [] c = Some ([], True, c)"
| "feed (d # ds) c = do {
     c \<leftarrow> receive d c;
     (rs, ok, c) \<leftarrow> frame_run c;
     if \<not> ok then Some (rs, False, c)
     else do { (rs', ok', c) \<leftarrow> feed ds c; Some (rs @ rs', ok', c) } }"

section \<open>Requests and their prefixes\<close>

definition wf_request :: "bytes \<Rightarrow> bool" where
  "wf_request r \<longleftrightarrow> sizeof ProtocolRequestHeader \<le> length r \<and> length r \<le> EG_BUF_SIZE \<and>
     rd16 r 0 = Some EG_PROTOCOL_REQ \<and> rd32 r 4 = Some (of_nat (length r - sizeof ProtocolRequestHeader))"

text \<open>Nothing, or the beginning of the request \<open>r\<close> with its whole header.\<close>

definition partial :: "bytes \<Rightarrow> bytes \<Rightarrow> bool" where
  "partial p r \<longleftrightarrow> p = [] \<or> sizeof ProtocolRequestHeader \<le> length p \<and> wf_request r \<and> strict_prefix p r"

text \<open>What the client keeps between two reads when the bytes \<open>p\<close> of \<open>r\<close> have arrived.\<close>

definition holds :: "eagle_client \<Rightarrow> bytes \<Rightarrow> bytes \<Rightarrow> bool" where
  "holds c p r \<longleftrightarrow> partial p r \<and> length (buffer c) = EG_BUF_SIZE \<and> EG_BUF_SIZE \<le> length (request c) \<and>
     (if p = [] then bodylen c = 0 \<and> offset c = 0
      else pos c = length p \<and> take (length p) (request c) = p \<and> bodylen c = length r - length p)"

lemma rd_take: "i < n \<Longrightarrow> rd (take n xs) i = rd xs i"
  by (auto simp: rd_def)

lemma rd_drop: "rd (drop n xs) i = rd xs (n + i)"
  by (auto simp: rd_def less_diff_conv add.commute)

lemma wf_requestD:
  assumes "wf_request r"
  shows "8 \<le> length r" "length r \<le> 32768" "rd16 r 0 = Some EG_PROTOCOL_REQ"
    "rd32 r 4 = Some (of_nat (length r - 8))" "unat (of_nat (length r - 8) :: u32) = length r - 8"
proof -
  have l: "length r \<le> 32768" using assms by (simp add: wf_request_def EG_BUF_SIZE_def)
  then show "unat (of_nat (length r - 8) :: u32) = length r - 8" by (intro unat_of_nat32) simp
qed (use assms in \<open>simp_all add: wf_request_def EG_BUF_SIZE_def\<close>)

text \<open>The header decides the length, so a request is never the beginning of another one.\<close>

lemma header_prefix:
  assumes "8 \<le> n" "8 \<le> length xs"
  shows "rd16 (take n xs) 0 = rd16 xs 0" "rd32 (take n xs) 4 = rd32 xs 4"
    "rd16 (xs @ ys) 0 = rd16 xs 0" "rd32 (xs @ ys) 4 = rd32 xs 4"
  using assms by (auto simp: rd16_def rd32_def rd_take rd_append)

lemma same_header_length:
  assumes "wf_request r" "wf_request r'" "8 \<le> length p" "prefix p r" "prefix p r'"
  shows "length r = length r'"
proof -
  have "rd32 p 4 = rd32 r 4" "rd32 p 4 = rd32 r' 4"
    using assms(3-5) header_prefix(4) by (auto simp: prefix_def)
  then have "(of_nat (length r - 8) :: u32) = of_nat (length r' - 8)"
    using wf_requestD(4) assms(1,2) by simp
  then have "length r - 8 = length r' - 8" using wf_requestD(5) assms(1,2) by metis
  then show ?thesis using wf_requestD(1) assms(1,2) by (metis eq_diff_iff)
qed

lemma split_unique:
  assumes "list_all wf_request rs" "list_all wf_request rs'" "partial p r" "concat rs @ y = concat rs' @ p"
  shows "\<exists>rs''. rs' = rs @ rs'' \<and> y = concat rs'' @ p"
  using assms
proof (induction rs arbitrary: rs')
  case (Cons a rs)
  have a: "wf_request a" "8 \<le> length a" using Cons.prems(1) wf_requestD(1) by auto
  show ?case
  proof (cases rs')
    case Nil
    then have p: "p = a @ concat rs @ y" using Cons.prems(4) by simp
    then have "wf_request r" "strict_prefix p r" using Cons.prems(3) a(2) by (auto simp: partial_def)
    moreover have "prefix a r" using p calculation(2) by (metis append_prefixD strict_prefix_def)
    ultimately have "length a = length r" using same_header_length [of a r a] a by simp
    moreover have "length p < length r" using \<open>strict_prefix p r\<close> by (simp add: prefix_length_less)
    ultimately show ?thesis using p by simp
  next
    case (Cons b bs)
    have b: "wf_request b" using Cons.prems(2) Cons by simp
    have e: "a @ concat rs @ y = b @ concat bs @ p" using Cons.prems(4) Cons by simp
    have "length a = length b"
    proof (rule same_header_length [OF a(1) b])
      show "8 \<le> length (take 8 a)" using a(2) by simp
      show "prefix (take 8 a) a" by (rule take_is_prefix)
      have "take 8 a = take 8 b" using e a(2) wf_requestD(1) [OF b]
        by (metis take_append diff_is_0_eq take_0 append_Nil2)
      then show "prefix (take 8 a) b" by (simp add: take_is_prefix)
    qed
    then have "a = b" "concat rs @ y = concat bs @ p" using e by simp_all
    with Cons.IH [of bs] Cons.prems Cons show ?thesis by auto
  qed
qed auto


section \<open>One pass\<close>

definition window :: "eagle_client \<Rightarrow> bytes" where
  "window c = take (nread c) (drop (offset c) (buffer c))"

text \<open>The unread bytes lie in the buffer, and the request buffer is never smaller than it was made.\<close>

definition frame_ok :: "eagle_client \<Rightarrow> bool" where
  "frame_ok c \<longleftrightarrow> offset c + nread c \<le> length (buffer c) \<and> length (buffer c) = EG_BUF_SIZE \<and>
     EG_BUF_SIZE \<le> length (request c)"

lemma length_window: "frame_ok c \<Longrightarrow> length (window c) = nread c"
  by (auto simp: window_def frame_ok_def)

lemma window_header:
  assumes "frame_ok c" "8 \<le> nread c"
  shows "rd16 (buffer c) (offset c) = rd16 (window c) 0" "rd32 (buffer c) (offset c + 4) = rd32 (window c) 4"
proof -
  have rd: "rd (buffer c) (offset c + i) = rd (window c) i" "rd (buffer c) (i + offset c) = rd (window c) i"
    if "i < nread c" for i
    using that by (simp_all add: window_def rd_take rd_drop add.commute)
  show "rd16 (buffer c) (offset c) = rd16 (window c) 0" "rd32 (buffer c) (offset c + 4) = rd32 (window c) 4"
    using rd [of 0] rd [of 1] rd [of 4] rd [of 5] rd [of 6] rd [of 7] assms(2)
    by (simp_all add: rd16_def rd32_def add.assoc)
qed

lemma copy_window:
  assumes "frame_ok c" "n \<le> nread c"
  shows "copy_bytes (buffer c) (offset c) n (request c) 0 = Some (take n (window c) @ drop n (request c))"
proof -
  have "length (take n (drop (offset c) (buffer c))) = n" "offset c + n \<le> length (buffer c)" "n \<le> length (request c)"
    using assms by (auto simp: frame_ok_def)
  then show ?thesis using assms(2) by (simp add: copy_bytes_def put_def window_def min_def)
qed

text \<open>A complete request at the head of the window is dispatched, and the rest stays.\<close>

lemma frame_first_complete:
  assumes ok: "frame_ok c" and b: "bodylen c = 0" and r: "wf_request r" and w: "window c = r @ rest"
  shows "\<exists>c'. frame_step c = Some (Dispatch c') \<and> take (pos c') (request c') = r \<and> nread c' = length rest \<and>
    window c' = rest \<and> bodylen c' = 0 \<and> frame_ok c' \<and> (rest = [] \<longrightarrow> offset c' = 0)"
proof -
  note rD = wf_requestD [OF r]
  have nr: "nread c = length r + length rest" "8 \<le> nread c"
    using w rD(1) length_window [OF ok] by simp_all
  have h: "rd16 (buffer c) (offset c) = Some EG_PROTOCOL_REQ"
    "rd32 (buffer c) (offset c + 4) = Some (of_nat (length r - 8))"
    using window_header [OF ok nr(2)] w rD header_prefix(3,4) [of 8 r rest] by simp_all
  have big: "\<not> length (request c) < length r - 8" "\<not> EG_MAX_BUF_SIZE < length r - 8"
    using ok rD(2) by (auto simp: frame_ok_def EG_BUF_SIZE_def EG_MAX_BUF_SIZE_def)
  have cp: "copy_bytes (buffer c) (offset c) (length r) (request c) 0 = Some (r @ drop (length r) (request c))"
    using copy_window [OF ok, of "length r"] nr(1) w by simp
  show ?thesis
  proof (cases "rest = []")
    case True
    let ?c = "c\<lparr>request := r @ drop (length r) (request c), pos := nread c, offset := 0, nread := 0\<rparr>"
    have "frame_step c = Some (Dispatch ?c)"
      using b h big rD cp nr True by (simp add: frame_step_def frame_first_def Let_def del: of_nat_diff)
    then show ?thesis
      using True nr ok b by (auto simp: window_def frame_ok_def)
  next
    case False
    let ?c = "c\<lparr>request := r @ drop (length r) (request c), pos := length r,
        offset := offset c + length r, nread := nread c - length r\<rparr>"
    have "length rest > 0" using False by simp
    then have "\<not> nread c - 8 < length r - 8" "nread c - 8 \<noteq> length r - 8" using nr rD(1) by linarith+
    then have "frame_step c = Some (Dispatch ?c)"
      using b h big rD cp nr(2)
      by (simp add: frame_step_def frame_first_def Let_def del: of_nat_diff)
    moreover have "window ?c = rest"
    proof -
      have "window ?c = drop (length r) (window c)"
        by (simp add: window_def drop_take add.commute)
      then show ?thesis using w by simp
    qed
    ultimately show ?thesis
      using False nr ok b by (auto simp: frame_ok_def)
  qed
qed

lemma frame_first_partial:
  assumes ok: "frame_ok c" and b: "bodylen c = 0" and p: "partial (window c) r" "window c \<noteq> []"
  shows "\<exists>c'. frame_step c = Some (Wait c') \<and> holds c' (window c) r"
proof -
  let ?p = "window c"
  have r: "wf_request r" "strict_prefix ?p r" "8 \<le> length ?p" using p by (auto simp: partial_def)
  note rD = wf_requestD [OF r(1)]
  have nr: "nread c = length ?p" using length_window [OF ok] by simp
  have lt: "length ?p < length r" using r(2) by (rule prefix_length_less)
  obtain ys where ys: "r = ?p @ ys" using r(2) by (auto simp: strict_prefix_def prefix_def)
  have h: "rd16 (buffer c) (offset c) = Some EG_PROTOCOL_REQ"
    "rd32 (buffer c) (offset c + 4) = Some (of_nat (length r - 8))"
    using window_header [OF ok] nr r(3) rD(3,4) header_prefix(3,4) [of 8 ?p ys] ys by simp_all
  have big: "\<not> length (request c) < length r - 8" "\<not> EG_MAX_BUF_SIZE < length r - 8"
    using ok rD(2) by (auto simp: frame_ok_def EG_BUF_SIZE_def EG_MAX_BUF_SIZE_def)
  have cp: "copy_bytes (buffer c) (offset c) (nread c) (request c) 0 = Some (?p @ drop (length ?p) (request c))"
    using copy_window [OF ok, of "nread c"] nr by simp
  let ?c = "c\<lparr>request := ?p @ drop (length ?p) (request c), bodylen := length r - 8 - (nread c - 8), pos := nread c\<rparr>"
  have "frame_step c = Some (Wait ?c)"
    using b h big rD cp nr lt r(3) by (simp add: frame_step_def frame_first_def Let_def del: of_nat_diff)
  moreover have "holds ?c ?p r"
    using p ok nr lt r(3) by (auto simp: holds_def frame_ok_def)
  ultimately show ?thesis by blast
qed


section \<open>A whole read\<close>

text \<open>The loop after a dispatch: what is left is empty, or long enough to go on.\<close>

lemma rest_long:
  assumes "list_all wf_request rs" "partial p r" "concat rs @ p \<noteq> []"
  shows "8 \<le> length (concat rs @ p)"
proof (cases rs)
  case Nil
  then show ?thesis using assms(2,3) by (auto simp: partial_def)
next
  case (Cons b bs)
  then show ?thesis using assms(1) wf_requestD(1) [of b] by auto
qed

lemma frame_run_window:
  assumes "list_all wf_request rs" "partial p r" "frame_ok c" "bodylen c = 0"
    "window c = concat rs @ p" "window c \<noteq> []"
  shows "\<exists>c'. frame_run c = Some (rs, True, c') \<and> holds c' p r"
  using assms
proof (induction rs arbitrary: c)
  case Nil
  then show ?case using frame_first_partial [of c r] by auto
next
  case (Cons a rs)
  have a: "wf_request a" using Cons.prems(1) by simp
  have w: "window c = a @ (concat rs @ p)" using Cons.prems(5) by simp
  obtain c' where c': "frame_step c = Some (Dispatch c')" "take (pos c') (request c') = a"
    "nread c' = length (concat rs @ p)" "window c' = concat rs @ p" "bodylen c' = 0" "frame_ok c'"
    "concat rs @ p = [] \<longrightarrow> offset c' = 0"
    using frame_first_complete [OF Cons.prems(3,4) a w] by blast
  show ?case
  proof (cases "concat rs @ p = []")
    case True
    then have "rs = []" using Cons.prems(1) wf_requestD(1) [of "[]"] by (cases rs) auto
    then show ?thesis using c' True Cons.prems(2) by (auto simp: holds_def frame_ok_def)
  next
    case False
    then have "8 \<le> nread c'" using rest_long [of rs p r] Cons.prems(1,2) c'(3) by simp
    moreover obtain c'' where "frame_run c' = Some (rs, True, c'')" "holds c'' p r"
      using Cons.IH [of c'] Cons.prems(1,2) c' False by auto
    ultimately show ?thesis using c'(1,2) by simp
  qed
qed

lemma frame_run_continue:
  assumes c': "frame_step c = Some (Dispatch c')" "take (pos c') (request c') = a"
    "nread c' = length (concat rs @ p)" "window c' = concat rs @ p" "bodylen c' = 0" "frame_ok c'"
    "concat rs @ p = [] \<longrightarrow> offset c' = 0"
    and "list_all wf_request rs" "partial p r"
  shows "\<exists>c''. frame_run c = Some (a # rs, True, c'') \<and> holds c'' p r"
proof (cases "concat rs @ p = []")
  case True
  then have "rs = []" using assms(8) wf_requestD(1) [of "[]"] by (cases rs) auto
  then show ?thesis using c' True assms(9) by (auto simp: holds_def frame_ok_def)
next
  case False
  then have "8 \<le> nread c'" using rest_long [of rs p r] assms(8,9) c'(3) by simp
  moreover obtain c'' where "frame_run c' = Some (rs, True, c'')" "holds c'' p r"
    using frame_run_window [OF assms(8,9) c'(6,5,4)] c'(4) False by auto
  ultimately show ?thesis using c'(1,2) by simp
qed

text \<open>A read that goes on with a request of which \<open>p\<close> has arrived.\<close>

lemma received:
  assumes "holds c p r" "length d \<le> EG_BUF_SIZE"
  obtains c' where "receive d c = Some c'" "nread c' = length d" "take (length d) (buffer c') = d"
    "holds c' p r"
  using assms by (auto simp: receive_def put_def holds_def)

text \<open>Copying the next bytes of the request behind those that are there.\<close>

lemma copy_rest:
  assumes h: "holds c p r" "p \<noteq> []" and r: "prefix (p @ e) r"
    and d: "take (length e) (buffer c) = e" "length e \<le> length (buffer c)"
  shows "\<exists>rq. copy_bytes (buffer c) 0 (length e) (request c) (pos c) = Some rq \<and>
    take (length (p @ e)) rq = p @ e \<and> length rq = length (request c)"
proof -
  have "length (p @ e) \<le> length r" using r by (rule prefix_length_le)
  then have le: "length p + length e \<le> length (request c)"
    using h by (auto simp: holds_def partial_def wf_request_def)
  have p: "pos c = length p" "take (length p) (request c) = p" using h by (auto simp: holds_def)
  show ?thesis using le p d by (simp add: copy_bytes_def put_def)
qed

lemma frame_rest_wait:
  assumes h: "holds c p r" "p \<noteq> []" and d: "nread c = length d" "take (length d) (buffer c) = d"
    "length d \<le> EG_BUF_SIZE" and r: "strict_prefix (p @ d) r"
  shows "\<exists>c'. frame_step c = Some (Wait c') \<and> holds c' (p @ d) r"
proof -
  have buf: "length d \<le> length (buffer c)" using h(1) d(3) by (simp add: holds_def)
  obtain rq where rq: "copy_bytes (buffer c) 0 (length d) (request c) (pos c) = Some rq"
    "take (length (p @ d)) rq = p @ d" "length rq = length (request c)"
    using copy_rest [OF h _ d(2) buf] r by (auto simp: strict_prefix_def)
  have b: "bodylen c = length r - length p" "pos c = length p" using h by (auto simp: holds_def)
  have lt: "length p + length d < length r" using prefix_length_less [OF r] by simp
  let ?c = "c\<lparr>request := rq, pos := pos c + nread c, bodylen := bodylen c - nread c, offset := 0\<rparr>"
  have "frame_step c = Some (Wait ?c)"
  proof -
    have "bodylen c \<noteq> 0" "nread c \<noteq> bodylen c" "nread c < bodylen c" using b lt d(1) by linarith+
    then show ?thesis using rq(1) d(1) by (simp add: frame_step_def frame_rest_def)
  qed
  moreover have "holds ?c (p @ d) r"
    using h r rq b d(1) by (auto simp: holds_def partial_def)
  ultimately show ?thesis by blast
qed

lemma frame_rest_dispatch:
  assumes h: "holds c p r" "p \<noteq> []" and d: "nread c = length d" "take (length d) (buffer c) = d"
    "length d \<le> EG_BUF_SIZE" and r: "p @ d = r @ rest"
  shows "\<exists>c'. frame_step c = Some (Dispatch c') \<and> take (pos c') (request c') = r \<and>
      nread c' = length rest \<and> window c' = rest \<and> bodylen c' = 0 \<and> frame_ok c' \<and> (rest = [] \<longrightarrow> offset c' = 0)"
proof -
  have pr: "strict_prefix p r" using h by (auto simp: holds_def partial_def)
  then obtain e where e: "r = p @ e" "e \<noteq> []" by (auto simp: strict_prefix_def prefix_def)
  then have de: "d = e @ rest" using r by simp
  have buf: "length e \<le> length (buffer c)" "length d \<le> length (buffer c)"
    using h(1) d(3) de by (simp_all add: holds_def)
  have "take (length e) (buffer c) = e"
    using d(2) de by (metis append_eq_conv_conj le_add1 length_append min.absorb1 take_take)
  then obtain rq where rq: "copy_bytes (buffer c) 0 (length e) (request c) (pos c) = Some rq"
    "take (length r) rq = r" "length rq = length (request c)"
    using copy_rest [OF h, of e] e buf by auto
  have b: "bodylen c = length e" "pos c = length p" using h e by (auto simp: holds_def)
  have n: "nread c = length e + length rest" using d(1) de by simp
  show ?thesis
  proof (cases "rest = []")
    case True
    let ?c = "c\<lparr>request := rq, pos := pos c + nread c, offset := 0, nread := 0, bodylen := 0\<rparr>"
    have "frame_step c = Some (Dispatch ?c)"
      using b n True e rq(1) by (simp add: frame_step_def frame_rest_def)
    then show ?thesis
      using True rq e b n h(1) by (auto simp: window_def frame_ok_def holds_def)
  next
    case False
    let ?c = "c\<lparr>request := rq, pos := pos c + bodylen c, nread := nread c - bodylen c,
        offset := bodylen c, bodylen := 0\<rparr>"
    have "frame_step c = Some (Dispatch ?c)"
      using b n False e rq(1) by (simp add: frame_step_def frame_rest_def)
    moreover have "window ?c = rest"
    proof -
      have "window ?c = drop (length e) (take (length d) (buffer c))"
        using b n d(1) by (simp add: window_def drop_take)
      then show ?thesis using d(2) de by simp
    qed
    ultimately show ?thesis
      using False rq e b n h(1) d(1) buf by (auto simp: frame_ok_def holds_def)
  qed
qed

text \<open>Which request the bytes belong to matters only through its length.\<close>

lemma holds_other:
  assumes "holds c p r" "p \<noteq> []" "wf_request r'" "prefix p r'"
  shows "holds c p r'" "strict_prefix p r'"
proof -
  have r: "wf_request r" "strict_prefix p r" "8 \<le> length p" using assms(1,2) by (auto simp: holds_def partial_def)
  then have l: "length r' = length r"
    using same_header_length [of r' r p] assms(3,4) by (simp add: strict_prefix_def)
  then show "strict_prefix p r'"
    using prefix_length_less [OF r(2)] assms(4) by (auto simp: strict_prefix_def)
  then show "holds c p r'" using assms l by (auto simp: holds_def partial_def)
qed

lemma frame_run_read:
  assumes h: "holds c p r" and d: "nread c = length d" "take (length d) (buffer c) = d"
    "length d \<le> EG_BUF_SIZE" "d \<noteq> []"
    and rs: "list_all wf_request rs" "partial p' r'" "p @ d = concat rs @ p'"
  shows "\<exists>c'. frame_run c = Some (rs, True, c') \<and> holds c' p' r'"
proof (cases "p = []")
  case True
  then have "window c = concat rs @ p'" "frame_ok c" "bodylen c = 0"
    using h d rs(3) by (auto simp: window_def holds_def frame_ok_def)
  moreover from this have "window c \<noteq> []" using d(4) rs(3) True by auto
  ultimately show ?thesis using frame_run_window rs(1,2) by blast
next
  case p: False
  show ?thesis
  proof (cases rs)
    case Nil
    then have p': "p' = p @ d" using rs(3) by simp
    then have r': "wf_request r'" "strict_prefix (p @ d) r'" using rs(2) p by (auto simp: partial_def)
    then have "holds c p r'" using holds_other [OF h p r'(1)] by (metis append_prefixD strict_prefix_def)
    then show ?thesis using frame_rest_wait [OF _ p d(1-3) r'(2)] p' Nil by auto
  next
    case (Cons a bs)
    have a: "wf_request a" "8 \<le> length a" using rs(1) Cons wf_requestD(1) by auto
    have e: "p @ d = a @ (concat bs @ p')" using rs(3) Cons by simp
    have r: "wf_request r" "strict_prefix p r" "8 \<le> length p" using h p by (auto simp: holds_def partial_def)
    have "length a = length r"
    proof (rule same_header_length [OF a(1) r(1)])
      show "8 \<le> length (take 8 a)" using a(2) by simp
      show "prefix (take 8 a) a" by (rule take_is_prefix)
      have "take 8 a = take 8 p" using e a(2) r(3)
        by (metis take_append diff_is_0_eq take_0 append_Nil2)
      also have "prefix (take 8 p) r" using r(2) by (metis prefix_order.trans strict_prefix_def take_is_prefix)
      finally show "prefix (take 8 a) r" .
    qed
    then have "prefix p a" using e prefix_length_less [OF r(2)]
      by (metis append_eq_append_conv2 nat_less_le not_le prefixI prefix_length_le)
    then have ha: "holds c p a" using holds_other(1) [OF h p a(1)] by simp
    obtain c' where c': "frame_step c = Some (Dispatch c')" "take (pos c') (request c') = a"
      "nread c' = length (concat bs @ p')" "window c' = concat bs @ p'" "bodylen c' = 0" "frame_ok c'"
      "concat bs @ p' = [] \<longrightarrow> offset c' = 0"
      using frame_rest_dispatch [OF ha p d(1-3) e] by blast
    show ?thesis
      using frame_run_continue [OF c'] rs(1,2) Cons by auto
  qed
qed


section \<open>The whole stream\<close>

text \<open>
  The reads \<open>ds\<close> cut the stream well: each fits the buffer and is not empty, and none ends inside
  the header of a request. \<open>p\<close> is what has arrived of the current request.
\<close>

definition well_cut :: "bytes \<Rightarrow> bytes list \<Rightarrow> bool" where
  "well_cut p ds \<longleftrightarrow> (\<forall>d \<in> set ds. d \<noteq> [] \<and> length d \<le> EG_BUF_SIZE) \<and>
     (\<forall>i \<le> length ds. \<exists>rs q r. list_all wf_request rs \<and> partial q r \<and> p @ concat (take i ds) = concat rs @ q)"

lemma well_cut_step:
  assumes "well_cut p (d # ds)"
  obtains rs q r where "list_all wf_request rs" "partial q r" "p @ d = concat rs @ q" "well_cut q ds"
proof -
  obtain rs q r where rs: "list_all wf_request rs" "partial q r" "p @ d = concat rs @ q"
    using assms by (auto simp: well_cut_def dest: spec [of _ 1])
  have "well_cut q ds"
    unfolding well_cut_def
  proof (intro conjI ballI allI impI)
    fix i assume "i \<le> length ds"
    then obtain rs' q' r' where r': "list_all wf_request rs'" "partial q' r'"
      "p @ concat (take (Suc i) (d # ds)) = concat rs' @ q'"
      using assms unfolding well_cut_def by (metis Suc_le_mono length_Cons)
    then have "concat rs @ (q @ concat (take i ds)) = concat rs' @ q'"
      using rs(3) by (metis append.assoc concat.simps(2) take_Suc_Cons)
    then obtain rs'' where "rs' = rs @ rs''" "q @ concat (take i ds) = concat rs'' @ q'"
      using split_unique [OF rs(1) r'(1,2)] by blast
    then show "\<exists>rs q' r. list_all wf_request rs \<and> partial q' r \<and> q @ concat (take i ds) = concat rs @ q'"
      using r'(1,2) by auto
  qed (use assms in \<open>auto simp: well_cut_def\<close>)
  then show ?thesis using that rs by blast
qed

lemma feed_stream:
  assumes "holds c p r" "well_cut p ds" "list_all wf_request rs" "p @ concat ds = concat rs"
  shows "\<exists>c'. feed ds c = Some (rs, True, c') \<and> holds c' [] r"
  using assms
proof (induction ds arbitrary: c p r rs)
  case Nil
  have "partial p r" using Nil.prems(1) by (simp add: holds_def)
  then obtain rs'' where "[] = rs @ rs''" "[] = concat rs'' @ p"
    using split_unique [OF Nil.prems(3), of "[]" p r "[]"] Nil.prems(4) by auto
  then show ?case using Nil.prems(1) by simp
next
  case (Cons d ds)
  obtain qs q r' where q: "list_all wf_request qs" "partial q r'" "p @ d = concat qs @ q" "well_cut q ds"
    using well_cut_step [OF Cons.prems(2)] by blast
  have d: "length d \<le> EG_BUF_SIZE" "d \<noteq> []" using Cons.prems(2) by (auto simp: well_cut_def)
  obtain c1 where c1: "receive d c = Some c1" "nread c1 = length d" "take (length d) (buffer c1) = d" "holds c1 p r"
    using received [OF Cons.prems(1) d(1)] by blast
  obtain c2 where c2: "frame_run c1 = Some (qs, True, c2)" "holds c2 q r'"
    using frame_run_read [OF c1(4,2,3) d q(1-3)] by blast
  have "concat qs @ (q @ concat ds) = concat rs @ []" using q(3) Cons.prems(4) by (metis append.assoc append_Nil2 concat.simps(2))
  then obtain rs' where rs': "rs = qs @ rs'" "q @ concat ds = concat rs'"
    using split_unique [OF q(1) Cons.prems(3), of "[]" r] by (auto simp: partial_def)
  have "list_all wf_request rs'" using Cons.prems(3) rs'(1) by simp
  then obtain c3 where "feed ds c2 = Some (rs', True, c3)" "holds c3 [] r'"
    using Cons.IH [OF c2(2) q(4) _ rs'(2)] by blast
  then show ?case
    using c1(1) c2(1) rs'(1) by (simp add: holds_def partial_def del: frame_run.simps)
qed



section \<open>Disconnecting\<close>

lemma free_client_gone: "free_client client s = Some s' \<Longrightarrow> client_mem s' client = None"
  unfolding free_client_def by (auto simp: bind_eq_Some_conv)

lemma disconnect_gone:
  assumes "client_mem s client = Some c" "rd (request c) 2 = Some (cmd_code EG_PROTOCOL_CMD_DISCONNECT)"
    "sizeof ProtocolRequestHeader \<le> pos c" "parse_command client s = Some s'"
  shows "client_mem s' client = None"
proof -
  obtain na where "rd (request c) 3 = Some na"
    using assms by (auto simp: parse_command_def commands_def bind_eq_Some_conv simp del: cmd_code.simps)
  then have "free_client client (s\<lparr>client_mem := (client_mem s)(client \<mapsto> c\<lparr>noack := na\<rparr>)\<rparr>) = Some s'"
    using assms
    by (simp add: parse_command_def commands_def upd_client_Some disconnect_command_handler_def sized_def
        del: cmd_code.simps split: if_split_asm)
  then show ?thesis by (rule free_client_gone)
qed

text \<open>
  C38. The \<open>disconnect\<close> command frees the client, and \<open>process_request\<close> then reads
  \<open>client->nread\<close>: every request to disconnect ends in a use of freed memory.
\<close>

theorem disconnect_faults:
  assumes "client_mem s client = Some c" "frame_step c = Some (Dispatch c')"
    "rd (request c') 2 = Some (cmd_code EG_PROTOCOL_CMD_DISCONNECT)" "sizeof ProtocolRequestHeader \<le> pos c'"
  shows "process_request client s = None"
proof -
  let ?s = "s\<lparr>client_mem := (client_mem s)(client \<mapsto> c')\<rparr>"
  have "client_mem s' client = None" if "parse_command client ?s = Some s'" for s'
    using disconnect_gone [of ?s client c' s'] assms that by simp
  then show ?thesis
    using assms(1,2) by (cases "parse_command client ?s") (simp_all add: process_request.simps upd_client_Some)
qed

theorem disconnect_faults_witness:
  "\<exists>c c'. frame_step c = Some (Dispatch c') \<and> take 3 (request c') = [0x70, 0, 15] \<and>
     process_request 2 ((sample_server [] 0)\<lparr>client_mem := [2 \<mapsto> c]\<rparr>) = None"
proof -
  let ?rq = "[0x70, 0, 15, 0, 0, 0, 0, 0] :: bytes"
  let ?c = "(sample_client ?rq 0)\<lparr>buffer := ?rq, nread := 8\<rparr>"
  let ?c' = "(sample_client ?rq 0)\<lparr>buffer := ?rq\<rparr>"
  have st: "frame_step ?c = Some (Dispatch ?c')"
    by (simp add: frame_step_def frame_first_def sample_client_def rd16_def rd32_def rd_def EG_PROTOCOL_REQ_def
        EG_MAX_BUF_SIZE_def copy_bytes_def put_def Let_def)
  have "rd (request ?c') 2 = Some (cmd_code EG_PROTOCOL_CMD_DISCONNECT)"
    "sizeof ProtocolRequestHeader \<le> pos ?c'" "take 3 (request ?c') = [0x70, 0, 15]"
    by (simp_all add: sample_client_def rd_def)
  then show ?thesis
    using disconnect_faults [of "(sample_server [] 0)\<lparr>client_mem := [2 \<mapsto> ?c]\<rparr>" 2 ?c ?c'] st
    by (intro exI [of _ ?c] exI [of _ ?c']) simp
qed
end
