(* ===== verification/QueueSpec.thy ===== *)
theory QueueSpec
  imports RouteT
begin

text \<open>
  What the operations of src/queue_t.c do to the content of a queue, as a specification on plain
  sequences of messages, newest first.
\<close>

section \<open>The content of a queue\<close>

text \<open>
  \<open>holds_msgs s q qt ms\<close>: the queue at \<open>q\<close> is \<open>qt\<close> and holds the messages \<open>ms\<close>, newest first; they
  are allocated, and those that expire are in the expiry list and know it.
\<close>

definition holds_msgs :: "server \<Rightarrow> addr \<Rightarrow> queue_t \<Rightarrow> addr list \<Rightarrow> bool" where
  "holds_msgs s q qt ms \<longleftrightarrow> queue_mem s q = Some qt \<and> queue_abs (queue qt) ms \<and>
     (\<forall>m \<in> set ms. \<exists>mm. message_mem s m = Some mm \<and>
        (expiration mm \<noteq> 0 \<longrightarrow> data0 mm = Some m \<and> m \<in> set (expire_messages qt)))"

lemma queue_abs_length: "queue_abs q vs \<Longrightarrow> length vs < 2 ^ 32 \<and> len q = of_nat (length vs)"
  by (auto simp: queue_abs_def q_rep_def owns_def)

lemma queue_abs_len: "queue_abs q vs \<Longrightarrow> unat (len q) = length vs"
  using queue_abs_length [of q vs] unat_of_nat32 by auto

lemma queue_abs_push_tail:
  assumes "queue_abs q vs" "Suc (length vs) < 2 ^ 32"
  shows "\<exists>q'. queue_push_value_tail q v = Some q' \<and> queue_abs q' (vs @ [v])"
proof -
  obtain xs where xs: "q_rep q xs" "vals xs = vs" using assms(1) by (auto simp: queue_abs_def)
  have "length xs = length vs" using xs(2) by auto
  then have "room xs" using assms(2) by (simp add: room_def)
  then obtain q' where q': "queue_push_value_tail q v = Some q'" "dl_rep q' (xs @ [(brk q, v)])"
    using queue_push_value_tail_rep [OF xs(1), of v] by blast
  have "q_rep q' (xs @ [(brk q, v)])" "vals (xs @ [(brk q, v)]) = vs @ [v]"
    using dl_rep_q_rep [OF q'(2)] xs(2) by simp_all
  then show ?thesis using q'(1) unfolding queue_abs_def by blast
qed

section \<open>Popping\<close>

text \<open>What happens to the oldest message: it waits for its confirmation, or is released.\<close>

lemma pop_message_spec:
  assumes h: "holds_msgs s q qt (ms @ [m])" and d: "distinct (ms @ [m])"
    and m: "message_mem s m = Some mm"
  shows "\<exists>q'. queue_abs q' ms \<and> pop_message_queue_t q timeout s =
    (let s1 = s\<lparr>queue_mem := (queue_mem s)(q \<mapsto> qt\<lparr>queue := q',
          expire_messages := (if expiration mm \<noteq> 0 then remove1 m (expire_messages qt) else expire_messages qt)\<rparr>)\<rparr>
     in if timeout \<noteq> 0
        then Some (s1\<lparr>message_mem := (message_mem s)(m \<mapsto> mm\<lparr>confirm := word_of_int (now_timems s) + timeout\<rparr>),
           queue_mem := (queue_mem s)(q \<mapsto> qt\<lparr>queue := q',
          expire_messages := (if expiration mm \<noteq> 0 then remove1 m (expire_messages qt) else expire_messages qt),
          confirm_messages := confirm_messages qt @ [m]\<rparr>)\<rparr>)
        else release_message m s1)"
proof -
  have q: "queue_mem s q = Some qt" "queue_abs (queue qt) (ms @ [m])" using h by (auto simp: holds_msgs_def)
  obtain q' where q': "queue_pop_value (queue qt) = Some (Some m, q')" "queue_abs q' ms"
    using qu.pop_law [OF q(2)] by blast
  have e: "expiration mm \<noteq> 0 \<longrightarrow> data0 mm = Some m \<and> m \<in> set (expire_messages qt)"
    using h m by (auto simp: holds_msgs_def)
  have x: "qt\<lparr>queue := q'\<rparr> = qt\<lparr>queue := q', expire_messages := expire_messages qt\<rparr>" by simp
  show ?thesis
  proof (cases "expiration mm = 0")
    case True
    then show ?thesis
      using q q' m by (auto simp: pop_message_queue_t_def upd_Some Let_def)
  next
    case False
    then show ?thesis
      using q q' m e by (auto simp: pop_message_queue_t_def upd_Some Let_def delete_expire_node_def)
  qed
qed


text \<open>What a release leaves of an object.\<close>

definition one_owner_less :: "object \<Rightarrow> object option" where
  "one_owner_less x = (if refcount x \<le> 1 then None else Some (x\<lparr>refcount := refcount x - 1\<rparr>))"

lemma decrement_Some:
  "object_mem s a = Some x \<Longrightarrow>
   decrement_references_count a s = Some (s\<lparr>object_mem := (object_mem s)(a := one_owner_less x)\<rparr>)"
  by (simp add: decrement_references_count_def release_object_def upd_Some one_owner_less_def)

lemma release_message_Some:
  "message_mem s m = Some mm \<Longrightarrow> object_mem s (mvalue mm) = Some x \<Longrightarrow>
   release_message m s = Some (s\<lparr>object_mem := (object_mem s)(mvalue mm := one_owner_less x),
     message_mem := (message_mem s)(m := None)\<rparr>)"
  by (simp add: release_message_def decrement_Some)

lemma holds_msgs_frame:
  assumes "holds_msgs s q qt ms" "queue_mem s' q = Some qt'" "queue_abs (queue qt') ms'" "set ms' \<subseteq> set ms"
    "\<And>a. a \<in> set ms' \<Longrightarrow> message_mem s' a = message_mem s a"
    "\<And>a. a \<in> set ms' \<Longrightarrow> a \<in> set (expire_messages qt) \<Longrightarrow> a \<in> set (expire_messages qt')"
  shows "holds_msgs s' q qt' ms'"
  using assms unfolding holds_msgs_def by (metis subsetD)

lemma pop_message_holds:
  assumes h: "holds_msgs s q qt (ms @ [m])" "distinct (ms @ [m])"
    and m: "message_mem s m = Some mm" "object_mem s (mvalue mm) = Some x"
  shows "\<exists>s' qt'. pop_message_queue_t q timeout s = Some s' \<and> holds_msgs s' q qt' ms \<and>
    qt' = qt\<lparr>queue := queue qt', expire_messages := expire_messages qt', confirm_messages := confirm_messages qt'\<rparr> \<and>
    (if timeout \<noteq> 0 then confirm_messages qt' = confirm_messages qt @ [m] \<and> object_mem s' = object_mem s \<and>
       message_mem s' = (message_mem s)(m \<mapsto> mm\<lparr>confirm := word_of_int (now_timems s) + timeout\<rparr>)
     else confirm_messages qt' = confirm_messages qt \<and>
       object_mem s' = (object_mem s)(mvalue mm := one_owner_less x) \<and> message_mem s' = (message_mem s)(m := None))"
proof -
  define ex where "ex = (if expiration mm \<noteq> 0 then remove1 m (expire_messages qt) else expire_messages qt)"
  have sub: "a \<in> set ex" if "a \<in> set ms" "a \<in> set (expire_messages qt)" for a
  proof -
    have "a \<noteq> m" using that(1) h(2) by auto
    then show ?thesis using that(2) by (simp add: ex_def in_set_remove1)
  qed
  obtain q' where q': "queue_abs q' ms" and p: "pop_message_queue_t q timeout s =
     (let s1 = s\<lparr>queue_mem := (queue_mem s)(q \<mapsto> qt\<lparr>queue := q', expire_messages := ex\<rparr>)\<rparr>
      in if timeout \<noteq> 0
        then Some (s1\<lparr>message_mem := (message_mem s)(m \<mapsto> mm\<lparr>confirm := word_of_int (now_timems s) + timeout\<rparr>),
           queue_mem := (queue_mem s)(q \<mapsto> qt\<lparr>queue := q', expire_messages := ex,
             confirm_messages := confirm_messages qt @ [m]\<rparr>)\<rparr>)
        else release_message m s1)"
    using pop_message_spec [OF h m(1), of timeout] unfolding ex_def by blast
  show ?thesis
  proof (cases "timeout = 0")
    case True
    let ?qt = "qt\<lparr>queue := q', expire_messages := ex\<rparr>"
    let ?s = "s\<lparr>queue_mem := (queue_mem s)(q \<mapsto> ?qt),
      object_mem := (object_mem s)(mvalue mm := one_owner_less x), message_mem := (message_mem s)(m := None)\<rparr>"
    have "pop_message_queue_t q timeout s = Some ?s"
      using p True m by (simp add: release_message_Some)
    moreover have "holds_msgs ?s q ?qt ms"
      by (rule holds_msgs_frame [OF h(1)]) (use q' sub h(2) in auto)
    ultimately show ?thesis using True by (intro exI [of _ ?s] exI [of _ ?qt]) simp
  next
    case False
    let ?qt = "qt\<lparr>queue := q', expire_messages := ex, confirm_messages := confirm_messages qt @ [m]\<rparr>"
    let ?s = "s\<lparr>message_mem := (message_mem s)(m \<mapsto> mm\<lparr>confirm := word_of_int (now_timems s) + timeout\<rparr>),
      queue_mem := (queue_mem s)(q \<mapsto> ?qt)\<rparr>"
    have "pop_message_queue_t q timeout s = Some ?s" using p False by simp
    moreover have "holds_msgs ?s q ?qt ms"
      by (rule holds_msgs_frame [OF h(1)]) (use q' sub h(2) in auto)
    ultimately show ?thesis using False by (intro exI [of _ ?s] exI [of _ ?qt]) simp
  qed
qed

section \<open>Pushing\<close>

lemma enqueue_message_holds:
  assumes h: "holds_msgs s q qt ms" "Suc (length ms) < 2 ^ 32" and m: "message_mem s m = Some mm" "m \<notin> set ms"
  shows "\<exists>s' qt'. enqueue_message q m s = Some s' \<and> holds_msgs s' q qt' (m # ms) \<and> object_mem s' = object_mem s \<and>
    qt' = qt\<lparr>queue := queue qt', expire_messages := expire_messages qt'\<rparr>"
proof -
  have q: "queue_mem s q = Some qt" "queue_abs (queue qt) ms" using h by (auto simp: holds_msgs_def)
  obtain q' where q': "queue_push_value_head (queue qt) m = Some q'" "queue_abs q' (m # ms)"
    using qu.push_law [OF q(2) h(2)] by blast
  have old: "\<forall>a\<in>set ms. \<exists>mm. message_mem s a = Some mm \<and>
      (expiration mm \<noteq> 0 \<longrightarrow> data0 mm = Some a \<and> a \<in> set (expire_messages qt))"
    using h(1) by (simp add: holds_msgs_def)
  show ?thesis
  proof (cases "expiration mm = 0")
    case True
    let ?qt = "qt\<lparr>queue := q'\<rparr>"
    let ?s = "s\<lparr>queue_mem := (queue_mem s)(q \<mapsto> ?qt)\<rparr>"
    have "enqueue_message q m s = Some ?s"
      using q q' m True by (simp add: enqueue_message_def upd_Some)
    moreover have "holds_msgs ?s q ?qt (m # ms)"
      using q'(2) m True old by (simp add: holds_msgs_def)
    ultimately show ?thesis by (intro exI [of _ ?s] exI [of _ ?qt]) simp
  next
    case False
    let ?qt = "qt\<lparr>queue := q', expire_messages := expire_messages qt @ [m]\<rparr>"
    let ?s = "s\<lparr>queue_mem := (queue_mem s)(q \<mapsto> ?qt),
      message_mem := (message_mem s)(m \<mapsto> mm\<lparr>data0 := Some m, data1 := head q'\<rparr>)\<rparr>"
    have "enqueue_message q m s = Some ?s"
      using q q' m False by (simp add: enqueue_message_def upd_Some)
    moreover have "holds_msgs ?s q ?qt (m # ms)"
      using q'(2) m False old by (auto simp: holds_msgs_def)
    ultimately show ?thesis by (intro exI [of _ ?s] exI [of _ ?qt]) simp
  qed
qed


text \<open>The bounded queue the server promises: what a push does to the messages, newest first.\<close>

definition bounded_push :: "nat \<Rightarrow> bool \<Rightarrow> 'm \<Rightarrow> 'm list \<Rightarrow> status \<times> 'm list" where
  "bounded_push limit force m ms =
     (if length ms < limit then (EG_STATUS_OK, m # ms)
      else if force then (EG_STATUS_OK, m # butlast ms)
      else (EG_STATUS_ERR, ms))"

lemma create_message_holds:
  assumes "holds_msgs s q qt ms" "fresh s \<notin> set ms"
  shows "holds_msgs (s\<lparr>msg_counter := k, message_mem := (message_mem s)(fresh s \<mapsto> mm), fresh := n\<rparr>) q qt ms"
  by (rule holds_msgs_frame [OF assms(1)]) (use assms in \<open>auto simp: holds_msgs_def\<close>)

lemma max_msg_keep:
  "max_msg (qt\<lparr>queue := a, expire_messages := b\<rparr>) = max_msg qt"
  "max_msg (qt\<lparr>queue := a, expire_messages := b, confirm_messages := d\<rparr>) = max_msg qt"
  by simp_all

text \<open>A push to a queue without subscribers, up to the linking of the message.\<close>

definition new_message :: "addr \<Rightarrow> u32 \<Rightarrow> server \<Rightarrow> message" where
  "new_message obj ex s = \<lparr>mvalue = obj, tag = make_message_tag (msg_counter s) (word_of_int (now_timems s)),
     confirm = 0, expiration = ex, data0 = None, data1 = None\<rparr>"

lemma push_message_unsubscribed:
  assumes "queue_mem s q = Some qt" "queue_abs (queue qt) ms" "object_mem s obj = Some x"
    "subscribed_clients_msg qt = []" "subscribed_clients_notify qt = []"
  shows "push_message_queue_t q obj ex s =
    (let s1 = s\<lparr>msg_counter := msg_counter s + 1, message_mem := (message_mem s)(fresh s \<mapsto> new_message obj ex s),
           fresh := Suc (fresh s)\<rparr> in
     if osize x > unat (max_msg_size qt) then Some (EG_STATUS_ERR, s1)
     else if length ms < unat (max_msg qt) then do { s' \<leftarrow> enqueue_message q (fresh s) s1; Some (EG_STATUS_OK, s') }
     else if force_push qt then do { s' \<leftarrow> pop_message_queue_t q 0 s1;
         s' \<leftarrow> enqueue_message q (fresh s) s'; Some (EG_STATUS_OK, s') }
     else Some (EG_STATUS_ERR, s1))"
proof -
  have "max_msg qt \<le> len (queue qt) \<longleftrightarrow> \<not> length ms < unat (max_msg qt)"
    using queue_abs_len [OF assms(2)] by (simp add: word_le_nat_alt not_less)
  then show ?thesis
    using assms
    by (simp add: push_message_queue_t_def create_message_def EG_MESSAGE_SIZE_def process_subscribed_clients_def
        new_message_def Let_def)
qed

text \<open>
  A queue at address 5 that holds the messages 31 and 30 (the older one), limited to two
  messages, for the witnesses. Message 32 waits for a confirmation until time 70.
\<close>

definition sample_queue :: "addr Queue \<Rightarrow> queue_t" where
  "sample_queue qu = \<lparr>qname = [97], max_msg = 2, max_msg_size = 10, qflags = 2, qauto_delete = False,
     force_push = True, qround_robin = False, queue = qu, expire_messages = [], confirm_messages = [32],
     declared_clients = [], subscribed_clients_msg = [], subscribed_clients_notify = [], qroutes = []\<rparr>"

definition sample_message :: "u64 \<Rightarrow> message" where
  "sample_message t = \<lparr>mvalue = 40, tag = t, confirm = 70, expiration = 0, data0 = None, data1 = None\<rparr>"

definition sample_broker :: "addr Queue \<Rightarrow> server" where
  "sample_broker qu = (sample_server [] 0)\<lparr>queues := [5], queue_mem := [5 \<mapsto> sample_queue qu],
     message_mem := [30 \<mapsto> sample_message 1, 31 \<mapsto> sample_message 2, 32 \<mapsto> sample_message 3],
     object_mem := [40 \<mapsto> \<lparr>odata = [1, 2], osize = 2, refcount = 3\<rparr>], fresh := 50\<rparr>"

lemma sample_broker_holds:
  obtains qu where "holds_msgs (sample_broker qu) 5 (sample_queue qu) [31, 30]"
proof -
  obtain q1 where q1: "queue_abs q1 [30 :: addr]" using qu.push_law [OF qu.inv_empty, of 30] by auto
  obtain q2 where q2: "queue_abs q2 [31, 30 :: addr]" using qu.push_law [OF q1, of 31] by auto
  then have "holds_msgs (sample_broker q2) 5 (sample_queue q2) [31, 30]"
    by (simp add: holds_msgs_def sample_broker_def sample_queue_def sample_message_def)
  then show ?thesis by (rule that)
qed

text \<open>A forced push on a full queue: the oldest message goes, the new one enters.\<close>

lemma replace_oldest_holds:
  assumes h: "holds_msgs s q qt (us @ [m])" "distinct (us @ [m])" "n \<notin> set (us @ [m])" "length us < 2 ^ 32 - 1"
    and n: "message_mem s n = Some mm" and m: "message_mem s m = Some mo" "object_mem s (mvalue mo) \<noteq> None"
  shows "\<exists>s' qt'. do { s \<leftarrow> pop_message_queue_t q 0 s; enqueue_message q n s } = Some s' \<and>
    holds_msgs s' q qt' (n # us) \<and> max_msg qt' = max_msg qt"
proof -
  obtain x where "object_mem s (mvalue mo) = Some x" using m(2) by blast
  then obtain s2 qt2 where s2: "pop_message_queue_t q 0 s = Some s2" "holds_msgs s2 q qt2 us"
      "qt2 = qt\<lparr>queue := queue qt2, expire_messages := expire_messages qt2, confirm_messages := confirm_messages qt2\<rparr>"
      "message_mem s2 = (message_mem s)(m := None)"
    using pop_message_holds [OF h(1,2) m(1), of _ 0] by auto
  have "message_mem s2 n = Some mm" "Suc (length us) < 2 ^ 32" "n \<notin> set us" using s2(4) n h(3,4) by auto
  then obtain s3 qt3 where "enqueue_message q n s2 = Some s3" "holds_msgs s3 q qt3 (n # us)"
      "qt3 = qt2\<lparr>queue := queue qt3, expire_messages := expire_messages qt3\<rparr>"
    using enqueue_message_holds [OF s2(2)] by blast
  moreover from this(3) s2(3) have "max_msg qt3 = max_msg qt" by (metis max_msg_keep)
  ultimately show ?thesis using s2(1) by auto
qed

lemma bounded_push_limit: "length ms \<le> k \<Longrightarrow> 0 < k \<Longrightarrow> length (snd (bounded_push k fp m ms)) \<le> k"
  by (auto simp: bounded_push_def)

lemma enqueue_bounded:
  assumes h: "holds_msgs s q qt ms" "distinct ms" "n \<notin> set ms" "length ms \<le> unat (max_msg qt)" "max_msg qt \<noteq> 0"
    and n: "message_mem s n = Some mm"
    and old: "\<forall>m \<in> set ms. \<forall>mm. message_mem s m = Some mm \<longrightarrow> object_mem s (mvalue mm) \<noteq> None"
  shows "\<exists>s' qt'. (if length ms < unat (max_msg qt) then do { s \<leftarrow> enqueue_message q n s; Some (EG_STATUS_OK, s) }
      else if force_push qt then do { s' \<leftarrow> pop_message_queue_t q 0 s; s' \<leftarrow> enqueue_message q n s'; Some (EG_STATUS_OK, s') }
      else Some (EG_STATUS_ERR, s)) = Some (fst (bounded_push (unat (max_msg qt)) (force_push qt) n ms), s') \<and>
    holds_msgs s' q qt' (snd (bounded_push (unat (max_msg qt)) (force_push qt) n ms)) \<and> max_msg qt' = max_msg qt"
proof (cases "length ms < unat (max_msg qt)")
  case True
  have "Suc (length ms) < 2 ^ 32" using True unsigned_less [of "max_msg qt", where ?'a = nat] by simp
  then obtain s' qt' where "enqueue_message q n s = Some s'" "holds_msgs s' q qt' (n # ms)"
      "qt' = qt\<lparr>queue := queue qt', expire_messages := expire_messages qt'\<rparr>"
    using enqueue_message_holds [OF h(1) _ n h(3)] by blast
  moreover from this(3) have "max_msg qt' = max_msg qt" by (metis max_msg_keep)
  ultimately show ?thesis using True by (auto simp: bounded_push_def)
next
  case full: False
  show ?thesis
  proof (cases "force_push qt")
    case True
    have "ms \<noteq> []" using full h(5) by (auto simp: unat_gt_0)
    then obtain us m where ms: "ms = us @ [m]" by (cases ms rule: rev_cases) auto
    obtain mo where m: "message_mem s m = Some mo" using h(1) ms by (fastforce simp: holds_msgs_def)
    have "length ms < 2 ^ 32" using h(1) queue_abs_length by (auto simp: holds_msgs_def)
    then obtain s' qt' where "do { s \<leftarrow> pop_message_queue_t q 0 s; enqueue_message q n s } = Some s'"
        "holds_msgs s' q qt' (n # us)" "max_msg qt' = max_msg qt"
      using replace_oldest_holds [of s q qt us m n mm mo] h(1-3) ms n m old by auto
    then show ?thesis using full True ms by (auto simp: bounded_push_def bind_eq_Some_conv)
  next
    case False
    then show ?thesis using full h(1) by (auto simp: bounded_push_def)
  qed
qed

text \<open>
  C8. Pushing to a queue without subscribers is the bounded push: below the limit the message
  becomes the newest one; at the limit a force-push queue gives up its oldest message and any
  other queue refuses; a message over the size limit is refused. The number of messages never
  exceeds \<open>max_msg\<close>, and there is no fault.
\<close>

theorem push_message_bounded:
  assumes h: "holds_msgs s q qt ms" "distinct ms" "fresh s \<notin> set ms" "length ms \<le> unat (max_msg qt)"
    and nosub: "subscribed_clients_msg qt = []" "subscribed_clients_notify qt = []"
    and pos: "max_msg qt \<noteq> 0" and x: "object_mem s obj = Some x"
    and old: "\<forall>m \<in> set ms. \<forall>mm. message_mem s m = Some mm \<longrightarrow> object_mem s (mvalue mm) \<noteq> None"
  shows "\<exists>s' qt'. push_message_queue_t q obj ex s = Some (if osize x > unat (max_msg_size qt) then EG_STATUS_ERR
        else fst (bounded_push (unat (max_msg qt)) (force_push qt) (fresh s) ms), s') \<and>
    holds_msgs s' q qt' (if osize x > unat (max_msg_size qt) then ms
        else snd (bounded_push (unat (max_msg qt)) (force_push qt) (fresh s) ms)) \<and>
    max_msg qt' = max_msg qt \<and>
    length (snd (bounded_push (unat (max_msg qt)) (force_push qt) (fresh s) ms)) \<le> unat (max_msg qt)"
proof -
  define mm where "mm = new_message obj ex s"
  define s1 where "s1 = s\<lparr>msg_counter := msg_counter s + 1, message_mem := (message_mem s)(fresh s \<mapsto> mm), fresh := Suc (fresh s)\<rparr>"
  have h1: "holds_msgs s1 q qt ms" unfolding s1_def by (rule create_message_holds [OF h(1,3)])
  have m1: "message_mem s1 (fresh s) = Some mm" by (simp add: s1_def)
  have old1: "\<forall>m \<in> set ms. \<forall>mm. message_mem s1 m = Some mm \<longrightarrow> object_mem s1 (mvalue mm) \<noteq> None"
    using old h(3) by (auto simp: s1_def)
  have step: "push_message_queue_t q obj ex s =
     (if osize x > unat (max_msg_size qt) then Some (EG_STATUS_ERR, s1)
      else if length ms < unat (max_msg qt) then do { s \<leftarrow> enqueue_message q (fresh s) s1; Some (EG_STATUS_OK, s) }
      else if force_push qt then do { s' \<leftarrow> pop_message_queue_t q 0 s1;
         s' \<leftarrow> enqueue_message q (fresh s) s'; Some (EG_STATUS_OK, s') }
      else Some (EG_STATUS_ERR, s1))"
    using push_message_unsubscribed [OF _ _ x nosub, of q ms ex] h(1)
    by (simp add: holds_msgs_def s1_def mm_def Let_def)
  obtain s' qt' where "(if length ms < unat (max_msg qt) then do { s \<leftarrow> enqueue_message q (fresh s) s1; Some (EG_STATUS_OK, s) }
      else if force_push qt then do { s' \<leftarrow> pop_message_queue_t q 0 s1; s' \<leftarrow> enqueue_message q (fresh s) s'; Some (EG_STATUS_OK, s') }
      else Some (EG_STATUS_ERR, s1)) = Some (fst (bounded_push (unat (max_msg qt)) (force_push qt) (fresh s) ms), s')"
      "holds_msgs s' q qt' (snd (bounded_push (unat (max_msg qt)) (force_push qt) (fresh s) ms))" "max_msg qt' = max_msg qt"
    using enqueue_bounded [OF h1 h(2-4) pos m1 old1] by blast
  then show ?thesis
    using h1 step bounded_push_limit [OF h(4)] pos by (cases "osize x > unat (max_msg_size qt)") (auto simp: unat_gt_0)
qed

theorem push_message_bounded_witness:
  "\<exists>qu s' qt'. push_message_queue_t 5 40 0 (sample_broker qu) = Some (EG_STATUS_OK, s') \<and>
     holds_msgs s' 5 qt' [50, 31]"
proof -
  obtain qu where h: "holds_msgs (sample_broker qu) 5 (sample_queue qu) [31, 30]" by (rule sample_broker_holds)
  have p: "max_msg (sample_queue qu) = 2" "max_msg_size (sample_queue qu) = 10" "force_push (sample_queue qu)"
    "subscribed_clients_msg (sample_queue qu) = []" "subscribed_clients_notify (sample_queue qu) = []"
    "fresh (sample_broker qu) = 50" by (simp_all add: sample_queue_def sample_broker_def)
  have x: "object_mem (sample_broker qu) 40 = Some \<lparr>odata = [1, 2], osize = 2, refcount = 3\<rparr>"
    by (simp add: sample_broker_def)
  have old: "\<forall>m \<in> set [31, 30]. \<forall>mm. message_mem (sample_broker qu) m = Some mm \<longrightarrow>
      object_mem (sample_broker qu) (mvalue mm) \<noteq> None"
    by (simp add: sample_broker_def sample_message_def)
  have "\<exists>s' qt'. push_message_queue_t 5 40 0 (sample_broker qu) = Some (EG_STATUS_OK, s') \<and> holds_msgs s' 5 qt' [50, 31]"
    using push_message_bounded [OF h _ _ _ p(4,5) _ x old, where ex = 0] p by (auto simp: bounded_push_def)
  then show ?thesis by blast
qed

section \<open>Confirmation and redelivery\<close>

text \<open>
  C9. Taking the oldest message. With a timeout the message is kept, unchanged but for its
  deadline, among those waiting for a confirmation; without one it is freed and its object loses
  an owner. In both cases the other messages stay, in order.
\<close>

theorem pop_message_oldest:
  assumes "holds_msgs s q qt (ms @ [m])" "distinct (ms @ [m])"
    and "message_mem s m = Some mm" "object_mem s (mvalue mm) = Some x"
  shows "get_message_queue_t q s = Some (Some m) \<and>
    (\<exists>s' qt'. pop_message_queue_t q timeout s = Some s' \<and> holds_msgs s' q qt' ms \<and>
      (if timeout \<noteq> 0 then confirm_messages qt' = confirm_messages qt @ [m] \<and> object_mem s' = object_mem s \<and>
         message_mem s' = (message_mem s)(m \<mapsto> mm\<lparr>confirm := word_of_int (now_timems s) + timeout\<rparr>)
       else confirm_messages qt' = confirm_messages qt \<and>
         object_mem s' = (object_mem s)(mvalue mm := one_owner_less x) \<and> message_mem s' = (message_mem s)(m := None)))"
proof -
  have "queue_mem s q = Some qt" "queue_abs (queue qt) (ms @ [m])" using assms(1) by (auto simp: holds_msgs_def)
  then have "get_message_queue_t q s = Some (Some m)"
    using qu.get_law by (auto simp: get_message_queue_t_def)
  then show ?thesis using pop_message_holds [OF assms, of timeout] by blast
qed

theorem pop_message_oldest_witness:
  "\<exists>qu s' qt'. pop_message_queue_t 5 9 (sample_broker qu) = Some s' \<and> holds_msgs s' 5 qt' [31] \<and>
     confirm_messages qt' = [32, 30]"
proof -
  obtain qu where h: "holds_msgs (sample_broker qu) 5 (sample_queue qu) ([31] @ [30])"
    using sample_broker_holds by force
  have m: "message_mem (sample_broker qu) 30 = Some (sample_message 1)"
    "object_mem (sample_broker qu) (mvalue (sample_message 1)) = Some \<lparr>odata = [1, 2], osize = 2, refcount = 3\<rparr>"
    by (simp_all add: sample_broker_def sample_message_def)
  have "\<exists>s' qt'. pop_message_queue_t 5 9 (sample_broker qu) = Some s' \<and> holds_msgs s' 5 qt' [31] \<and>
     confirm_messages qt' = [32, 30]"
    using pop_message_oldest [OF h _ m, of 9] by (auto simp: sample_queue_def)
  then show ?thesis by blast
qed

text \<open>A message that does not expire, and its deadline.\<close>

definition waiting :: "server \<Rightarrow> addr \<Rightarrow> bool" where
  "waiting s m \<longleftrightarrow> (\<exists>mm. message_mem s m = Some mm \<and> expiration mm = 0)"

definition due :: "server \<Rightarrow> u32 \<Rightarrow> addr \<Rightarrow> bool" where
  "due s time m \<longleftrightarrow> (case message_mem s m of None \<Rightarrow> False | Some mm \<Rightarrow> confirm mm \<le> time)"

lemma unconfirmed_step_holds:
  assumes h: "holds_msgs s q qt ms" "Suc (length ms) < 2 ^ 32" and w: "waiting s m"
    and c: "confirm_messages qt = ks @ m # cs" "m \<notin> set ks"
  shows "\<exists>s' qt'. unconfirmed_step q time m s = Some s' \<and>
    holds_msgs s' q qt' (if due s time m then ms @ [m] else ms) \<and> message_mem s' = message_mem s \<and>
    confirm_messages qt' = (if due s time m then ks @ cs else ks @ m # cs)"
proof -
  obtain mm where m: "message_mem s m = Some mm" "expiration mm = 0" using w by (auto simp: waiting_def)
  have q: "queue_mem s q = Some qt" "queue_abs (queue qt) ms" using h by (auto simp: holds_msgs_def)
  show ?thesis
  proof (cases "confirm mm \<le> time")
    case True
    obtain q' where q': "queue_push_value_tail (queue qt) m = Some q'" "queue_abs q' (ms @ [m])"
      using queue_abs_push_tail [OF q(2) h(2)] by blast
    let ?qt = "qt\<lparr>confirm_messages := remove1 m (confirm_messages qt), queue := q'\<rparr>"
    let ?s = "s\<lparr>queue_mem := (queue_mem s)(q \<mapsto> ?qt)\<rparr>"
    have "unconfirmed_step q time m s = Some ?s"
      using q q'(1) m True by (simp add: unconfirmed_step_def upd_Some)
    moreover have "holds_msgs ?s q ?qt (ms @ [m])"
      using h(1) m q'(2) by (auto simp: holds_msgs_def)
    moreover have "remove1 m (confirm_messages qt) = ks @ cs" using c by (simp add: remove1_append)
    ultimately show ?thesis using m True by (intro exI [of _ ?s] exI [of _ ?qt]) (simp add: due_def)
  next
    case False
    then show ?thesis using m h(1) c by (auto simp: unconfirmed_step_def due_def)
  qed
qed

lemma unconfirmed_loop_holds:
  assumes "holds_msgs s q qt ms" "length ms + length cs < 2 ^ 32" "\<forall>m \<in> set cs. waiting s m"
    "confirm_messages qt = ks @ cs" "set ks \<inter> set cs = {}" "distinct cs"
  shows "\<exists>s' qt'. for_each (unconfirmed_step q time) cs s = Some s' \<and>
    holds_msgs s' q qt' (ms @ filter (due s time) cs) \<and> message_mem s' = message_mem s \<and>
    confirm_messages qt' = ks @ filter (\<lambda>m. \<not> due s time m) cs"
  using assms
proof (induction cs arbitrary: s qt ms ks)
  case Nil
  then show ?case by auto
next
  case (Cons m cs)
  have r: "Suc (length ms) < 2 ^ 32" using Cons.prems(2) by simp
  have m: "waiting s m" "m \<notin> set ks" using Cons.prems(3,5) by auto
  obtain s1 qt1 where s1: "unconfirmed_step q time m s = Some s1"
    "holds_msgs s1 q qt1 (if due s time m then ms @ [m] else ms)" "message_mem s1 = message_mem s"
    "confirm_messages qt1 = (if due s time m then ks @ cs else (ks @ [m]) @ cs)"
    using unconfirmed_step_holds [OF Cons.prems(1) r m(1) Cons.prems(4) m(2), of time] by auto
  have eq: "waiting s1 a = waiting s a" "due s1 time a = due s time a" for a
    using s1(3) by (simp_all add: waiting_def due_def)
  have w: "\<forall>m \<in> set cs. waiting s1 m" using Cons.prems(3) eq by simp
  have d: "distinct cs" "m \<notin> set cs" "set ks \<inter> set cs = {}" using Cons.prems(5,6) by auto
  show ?case
  proof (cases "due s time m")
    case True
    then show ?thesis
      using Cons.IH [of s1 qt1 "ms @ [m]" ks] s1 w d Cons.prems(2) eq by simp
  next
    case False
    then show ?thesis
      using Cons.IH [of s1 qt1 ms "ks @ [m]"] s1 w d Cons.prems(2) eq by simp
  qed
qed



text \<open>
  C11. A confirmation ends the life of a message: the message with the given tag leaves the
  waiting list and is freed, so no later sweep can redeliver it; a tag nobody waits for is an
  error and changes nothing.
\<close>

theorem confirm_message_once:
  assumes q: "queue_mem s q = Some qt" and live: "\<forall>m \<in> set (confirm_messages qt). message_mem s m \<noteq> None"
    and obj: "\<And>m mm. m \<in> set (confirm_messages qt) \<Longrightarrow> message_mem s m = Some mm \<Longrightarrow> object_mem s (mvalue mm) \<noteq> None"
    and d: "distinct (confirm_messages qt)"
  shows "case find (\<lambda>m. tag (the (message_mem s m)) = t) (confirm_messages qt) of
      None \<Rightarrow> confirm_message_queue_t q t s = Some (EG_STATUS_ERR, s)
    | Some m \<Rightarrow> (\<exists>s' qt'. confirm_message_queue_t q t s = Some (EG_STATUS_OK, s') \<and> queue_mem s' q = Some qt' \<and>
        m \<notin> set (confirm_messages qt') \<and> set (confirm_messages qt') = set (confirm_messages qt) - {m} \<and>
        queue qt' = queue qt \<and> message_mem s' = (message_mem s)(m := None))"
proof -
  let ?P = "\<lambda>msg. do { m \<leftarrow> message_mem s msg; Some (tag m = t) }"
  have f: "find_by ?P (confirm_messages qt) = Some (find (\<lambda>m. tag (the (message_mem s m)) = t) (confirm_messages qt))"
    using live by (intro find_by_Some) auto
  show ?thesis
  proof (cases "find (\<lambda>m. tag (the (message_mem s m)) = t) (confirm_messages qt)")
    case None
    then show ?thesis using f q by (simp add: confirm_message_queue_t_def)
  next
    case (Some m)
    then have m: "m \<in> set (confirm_messages qt)" by (metis find_Some_iff nth_mem)
    obtain mm where m1: "message_mem s m = Some mm" using live m by auto
    obtain x where mm: "message_mem s m = Some mm" "object_mem s (mvalue mm) = Some x"
      using obj [OF m m1] m1 by auto
    then show ?thesis
      using f q Some d by (simp add: confirm_message_queue_t_def upd_Some release_message_Some set_remove1_eq)
  qed
qed

theorem confirm_message_once_witness:
  "\<exists>s' qt'. confirm_message_queue_t 5 3 (sample_broker queue_create) = Some (EG_STATUS_OK, s') \<and>
     queue_mem s' 5 = Some qt' \<and> confirm_messages qt' = []"
proof -
  let ?s = "sample_broker queue_create"
  let ?q = "sample_queue queue_create"
  have q: "queue_mem ?s 5 = Some ?q" "confirm_messages ?q = [32]" "message_mem ?s 32 = Some (sample_message 3)"
    "object_mem ?s (mvalue (sample_message 3)) \<noteq> None" "tag (sample_message 3) = 3"
    by (simp_all add: sample_broker_def sample_queue_def sample_message_def)
  show ?thesis
    using confirm_message_once [of ?s 5 ?q 3] q by auto
qed

end
