(* ===== verification/Frame.thy ===== *)
theory Frame
  imports Clients
begin

text \<open>
  What leaving, deleting and cleaning up does not touch. \<open>core_view\<close> is the contract of a view of
  the server that ignores the broker's own tables: queues, routes, channels, messages and
  objects, and whatever of a client is not its descriptor. Every operation below keeps such a
  view; the interpretation at the end is the view the event loop depends on.
\<close>

locale core_view =
  fixes view :: "server \<Rightarrow> 'v"
  assumes view_tables [simp]:
      "\<And>s x. view (s\<lparr>queue_mem := x\<rparr>) = view s" "\<And>s x. view (s\<lparr>route_mem := x\<rparr>) = view s"
      "\<And>s x. view (s\<lparr>channel_mem := x\<rparr>) = view s" "\<And>s x. view (s\<lparr>message_mem := x\<rparr>) = view s"
      "\<And>s x. view (s\<lparr>object_mem := x\<rparr>) = view s" "\<And>s x. view (s\<lparr>queues := x\<rparr>) = view s"
      "\<And>s x. view (s\<lparr>routes := x\<rparr>) = view s" "\<And>s x. view (s\<lparr>channels := x\<rparr>) = view s"
    and view_client: "\<And>s a c c'. client_mem s a = Some c \<Longrightarrow> fd c' = fd c \<Longrightarrow>
      view (s\<lparr>client_mem := (client_mem s)(a \<mapsto> c')\<rparr>) = view s"
begin

lemma view_upd:
  "upd_queue a f1 s = Some s' \<Longrightarrow> view s' = view s" "upd_route a f2 s = Some s' \<Longrightarrow> view s' = view s"
  "upd_channel a f3 s = Some s' \<Longrightarrow> view s' = view s" "upd_message a f4 s = Some s' \<Longrightarrow> view s' = view s"
  "upd_object a f5 s = Some s' \<Longrightarrow> view s' = view s"
  by (auto simp: upd_queue_def upd_route_def upd_channel_def upd_message_def upd_object_def bind_eq_Some_conv)

lemma view_upd_client: "upd_client a f s = Some s' \<Longrightarrow> (\<And>c. fd (f c) = fd c) \<Longrightarrow> view s' = view s"
  by (auto simp: upd_client_def bind_eq_Some_conv view_client)

lemma view_for_each:
  assumes "for_each f xs s = Some s'" "\<And>x s s'. f x s = Some s' \<Longrightarrow> view s' = view s"
  shows "view s' = view s"
  using assms(1)
proof (induction xs arbitrary: s)
  case (Cons x xs)
  then obtain s1 where "f x s = Some s1" "for_each f xs s1 = Some s'" by (auto simp: bind_eq_Some_conv)
  then show ?case using Cons.IH assms(2) by metis
qed simp

lemma view_release_object: "release_object a s = Some s' \<Longrightarrow> view s' = view s"
  by (auto simp: release_object_def bind_eq_Some_conv)

lemma view_decrement: "decrement_references_count a s = Some s' \<Longrightarrow> view s' = view s"
  by (auto simp: decrement_references_count_def bind_eq_Some_conv dest: view_release_object view_upd split: if_split_asm)

lemmas view_objects = view_release_object view_decrement

lemma view_messages: "release_message a s = Some s' \<Longrightarrow> view s' = view s"
  by (auto simp: release_message_def bind_eq_Some_conv dest: view_objects)

lemma view_free_lists:
  "for_each free_message_list_handler xs s = Some s' \<Longrightarrow> view s' = view s"
  "for_each free_object_list_handler xs s = Some s' \<Longrightarrow> view s' = view s"
  by (auto simp: free_message_list_handler_def free_object_list_handler_def dest!: view_for_each view_messages view_objects)

lemma view_leave_queue:
  "undeclare_client_queue_t q client s = Some s' \<Longrightarrow> view s' = view s"
  "unsubscribe_client_queue_t q client s = Some s' \<Longrightarrow> view s' = view s"
  by (auto simp: undeclare_client_queue_t_def unsubscribe_client_queue_t_def bind_eq_Some_conv
      dest!: view_upd view_upd_client split: if_split_asm)

lemma view_eject_clients_queue: "eject_clients_queue_t q s = Some s' \<Longrightarrow> view s' = view s"
  by (auto simp: eject_clients_queue_t_def bind_eq_Some_conv dest!: view_for_each view_leave_queue view_upd view_upd_client)

lemma view_routes:
  "unlink_queue_route_t q r k s = Some s' \<Longrightarrow> view s' = view s"
  "unbind_queues_key_route_t r qs k s = Some s' \<Longrightarrow> view s' = view s"
  by (auto simp: unlink_queue_route_t_def unbind_queues_key_route_t_def dest!: view_upd view_for_each)

lemma view_delete_route: "delete_route_t r s = Some s' \<Longrightarrow> view s' = view s"
  by (auto simp: delete_route_t_def unbind_queues_route_t_def bind_eq_Some_conv dest!: view_for_each view_routes)

lemma view_routes_delete_value: "routes_delete_value r s = Some (st, s') \<Longrightarrow> view s' = view s"
  by (auto simp: routes_delete_value_def bind_eq_Some_conv dest: view_delete_route split: if_split_asm)

lemma view_unbind_route:
  assumes "unbind_route_t r q k s = Some (st, s')"
  shows "view s' = view s"
proof -
  obtain rt where rt: "route_mem s r = Some rt" using assms by (auto simp: unbind_route_t_def bind_eq_Some_conv)
  show ?thesis
  proof (cases "map_of (keys rt) k")
    case None
    then show ?thesis using assms rt by (simp add: unbind_route_t_def)
  next
    case (Some qs)
    then obtain f s1 s2 rt2 where s: "upd_route r f s = Some s1" "unlink_queue_route_t q r k s1 = Some s2" "route_mem s2 r = Some rt2"
        "(if rauto_delete rt2 \<and> keys rt2 = [] then do { (_, s) \<leftarrow> routes_delete_value r s2; Some (EG_STATUS_OK, s) }
          else Some (EG_STATUS_OK, s2)) = Some (st, s')"
      using assms rt by (simp add: unbind_route_t_def Let_def bind_eq_Some_conv del: split_paired_Ex) blast
    from s(4) have "view s' = view s2" by (auto simp: bind_eq_Some_conv dest: view_routes_delete_value split: if_split_asm)
    then show ?thesis using view_upd(2) [OF s(1)] view_routes(1) [OF s(2)] by simp
  qed
qed

lemma view_eject_routes: "eject_routes_queue_t q s = Some s' \<Longrightarrow> view s' = view s"
  by (auto simp: eject_routes_queue_t_def eject_routes_key_queue_t_def bind_eq_Some_conv dest!: view_for_each view_unbind_route)

lemma view_delete_queue: "delete_queue_t q s = Some s' \<Longrightarrow> view s' = view s"
  by (auto simp: delete_queue_t_def bind_eq_Some_conv dest!: view_eject_clients_queue view_eject_routes view_free_lists)

lemma view_process_queue: "process_queue_t q s = Some s' \<Longrightarrow> view s' = view s"
  by (auto simp: process_queue_t_def queues_delete_value_def bind_eq_Some_conv dest!: view_delete_queue split: if_split_asm)

lemma view_channels:
  "auto_delete_channel ch s = Some s' \<Longrightarrow> view s' = view s"
  "unsubscribe_channel_t ch client k s = Some (st, s') \<Longrightarrow> view s' = view s"
  "punsubscribe_channel_t ch client k s = Some (st, s') \<Longrightarrow> view s' = view s"
  by (auto simp: auto_delete_channel_def unsubscribe_channel_t_def punsubscribe_channel_t_def bind_eq_Some_conv
      dest!: view_upd view_upd_client split: option.split_asm if_split_asm)

lemma view_eject_client:
  "eject_queue_client client s = Some s' \<Longrightarrow> view s' = view s" "eject_channel_client client s = Some s' \<Longrightarrow> view s' = view s"
  by (auto simp: eject_queue_client_def eject_channel_client_def bind_eq_Some_conv dest!: view_for_each view_leave_queue view_process_queue view_channels)

lemma view_process_messages:
  "process_expired_messages_queue_t q time s = Some s' \<Longrightarrow> view s' = view s"
  "process_unconfirmed_messages_queue_t q time s = Some s' \<Longrightarrow> view s' = view s"
  by (auto simp: process_expired_messages_queue_t_def process_unconfirmed_messages_queue_t_def expire_step_def unconfirmed_step_def
      bind_eq_Some_conv dest!: view_for_each view_upd view_free_lists split: if_split_asm)

end

text \<open>The view of the event loop: the environment, the loop with its events and timers, the clock
  values, the storage, and who has which descriptor.\<close>

definition loop_view :: "server \<Rightarrow> (environment \<times> event_loop \<times> addr list) \<times> (int \<times> int \<times> int \<times> int \<times> int) \<times>
    (int option \<times> bool \<times> bytes option) \<times> (addr \<Rightarrow> int option)" where
  "loop_view s = ((env s, loop s, clients s), (now_time s, now_timems s, last_save s, storage_timeout s, client_timeout s),
     (child_pid s, shutdown s, storage_file s), \<lambda>a. map_option fd (client_mem s a))"

interpretation lv: core_view loop_view
  by unfold_locales (auto simp: loop_view_def fun_eq_iff)

lemma loop_viewD:
  assumes "loop_view s' = loop_view s"
  shows "env s' = env s" "loop s' = loop s" "clients s' = clients s" "now_time s' = now_time s" "now_timems s' = now_timems s"
    "last_save s' = last_save s" "storage_timeout s' = storage_timeout s" "client_timeout s' = client_timeout s"
    "child_pid s' = child_pid s" "shutdown s' = shutdown s" "storage_file s' = storage_file s"
    "map_option fd (client_mem s' a) = map_option fd (client_mem s a)"
  using assms by (simp_all add: loop_view_def fun_eq_iff)

section \<open>Closing a connection\<close>

lemma event_api_delete_frame: "event_api_delete d m l = Some l' \<Longrightarrow> \<exists>g. l' = l\<lparr>interest := g\<rparr>"
proof -
  assume "event_api_delete d m l = Some l'"
  then consider "l' = l" | g where "l' = l\<lparr>interest := g\<rparr>"
    by (auto simp: event_api_delete_def bind_eq_Some_conv Let_def split: if_split_asm)
  then show ?thesis
  proof cases
    case 1
    then have "l' = l\<lparr>interest := interest l\<rparr>" by simp
    then show ?thesis by blast
  qed blast
qed

lemma delete_file_event_cases:
  assumes "delete_file_event d m l = Some l'"
  obtains "l' = l" "d \<ge> int (length (events l)) \<or> (0 \<le> d \<and> emask (events l ! nat d) = EG_EVENT_NONE)"
    | ev k g where "event_at l d = Some ev"
      "l' = l\<lparr>events := (events l)[nat d := ev\<lparr>emask := emask ev AND NOT m\<rparr>], maxfd := k, interest := g\<rparr>"
proof (cases "d \<ge> int (length (events l))")
  case True
  then show ?thesis using assms that(1) by (simp add: delete_file_event_def)
next
  case False
  then obtain ev where ev: "event_at l d = Some ev" using assms by (auto simp: delete_file_event_def bind_eq_Some_conv)
  show ?thesis
  proof (cases "emask ev = EG_EVENT_NONE")
    case True
    then show ?thesis using assms False ev that(1) by (simp add: delete_file_event_def event_at_def split: if_split_asm)
  next
    case e: False
    let ?ev = "ev\<lparr>emask := emask ev AND NOT m\<rparr>"
    let ?l1 = "l\<lparr>events := (events l)[nat d := ?ev]\<rparr>"
    define k where "k = (if d = maxfd l \<and> emask ?ev = EG_EVENT_NONE then last_active (events ?l1) (nat (maxfd l)) else maxfd l)"
    have "(if d = maxfd ?l1 \<and> emask ?ev = EG_EVENT_NONE then ?l1\<lparr>maxfd := last_active (events ?l1) (nat (maxfd ?l1))\<rparr> else ?l1) = ?l1\<lparr>maxfd := k\<rparr>"
      by (simp add: k_def)
    then have "event_api_delete d m (?l1\<lparr>maxfd := k\<rparr>) = Some l'"
      using assms False ev e by (simp add: delete_file_event_def Let_def)
    then obtain g where "l' = ?l1\<lparr>maxfd := k\<rparr>\<lparr>interest := g\<rparr>" using event_api_delete_frame by blast
    then show ?thesis using ev that(2) by simp
  qed
qed

lemma delete_file_event_frame:
  assumes "delete_file_event d m l = Some l'"
  shows "time_events l' = time_events l" "time_event_id l' = time_event_id l" "stop l' = stop l"
    "length (events l') = length (events l)"
    "0 \<le> d \<Longrightarrow> d < int (length (events l)) \<Longrightarrow> emask (events l' ! nat d) = emask (events l ! nat d) AND NOT m"
    "\<forall>i. i \<noteq> nat d \<longrightarrow> events l' ! i = events l ! i"
proof -
  note cs = delete_file_event_cases [OF assms]
  show "time_events l' = time_events l" "time_event_id l' = time_event_id l" "stop l' = stop l"
    "length (events l') = length (events l)"
    "0 \<le> d \<Longrightarrow> d < int (length (events l)) \<Longrightarrow> emask (events l' ! nat d) = emask (events l ! nat d) AND NOT m"
    "\<forall>i. i \<noteq> nat d \<longrightarrow> events l' ! i = events l ! i"
    by (rule cs; auto simp: event_at_def EG_EVENT_NONE_def split: if_split_asm)+
qed

lemma free_client_cases:
  assumes "free_client client s = Some s'"
  obtains s2 s3 c2 l1 l2 where "loop_view s2 = loop_view s" "loop_view s3 = loop_view s" "client_mem s2 client = Some c2"
      "delete_file_event (fd c2) EG_EVENT_READABLE (loop s3) = Some l1" "delete_file_event (fd c2) EG_EVENT_WRITABLE l1 = Some l2"
      "s' = s3\<lparr>loop := l2, clients := snd (seq_delete client (clients s3)), client_mem := (client_mem s3)(client := None)\<rparr>"
proof -
  obtain s1 s2 s3 c2 l1 l2 where s: "eject_queue_client client s = Some s1" "eject_channel_client client s1 = Some s2"
      "client_mem s2 client = Some c2" "for_each free_object_list_handler (responses c2) s2 = Some s3"
      "delete_file_event (fd c2) EG_EVENT_READABLE (loop s3) = Some l1" "delete_file_event (fd c2) EG_EVENT_WRITABLE l1 = Some l2"
      "s' = s3\<lparr>loop := l2, clients := snd (seq_delete client (clients s3)), client_mem := (client_mem s3)(client := None)\<rparr>"
    using assms by (auto simp: free_client_def bind_eq_Some_conv)
  have "loop_view s2 = loop_view s" "loop_view s3 = loop_view s"
    using lv.view_eject_client(1) [OF s(1)] lv.view_eject_client(2) [OF s(2)] lv.view_free_lists(2) [OF s(4)] by simp_all
  then show ?thesis using s that by blast
qed

text \<open>A client that is freed is no longer in the event table.\<close>

lemma free_client_frame:
  assumes f: "free_client client s = Some s'" and c: "client_mem s client = Some c" "0 \<le> fd c" "fd c < int (length (events (loop s)))"
    and m: "emask (events (loop s) ! nat (fd c)) AND NOT (EG_EVENT_READABLE OR EG_EVENT_WRITABLE) = 0"
  shows "client_mem s' client = None" "emask (events (loop s') ! nat (fd c)) = EG_EVENT_NONE"
    "length (events (loop s')) = length (events (loop s))"
proof -
  obtain s2 s3 c2 l1 l2 where s: "loop_view s2 = loop_view s" "loop_view s3 = loop_view s" "client_mem s2 client = Some c2"
      "delete_file_event (fd c2) EG_EVENT_READABLE (loop s3) = Some l1" "delete_file_event (fd c2) EG_EVENT_WRITABLE l1 = Some l2"
      "s' = s3\<lparr>loop := l2, clients := snd (seq_delete client (clients s3)), client_mem := (client_mem s3)(client := None)\<rparr>"
    using free_client_cases [OF f] by metis
  have v: "loop s3 = loop s" "fd c2 = fd c"
    using loop_viewD(2) [OF s(2)] loop_viewD(12) [OF s(1), of client] s(3) c(1) by simp_all
  note d1 = delete_file_event_frame [OF s(4)] and d2 = delete_file_event_frame [OF s(5)]
  show "client_mem s' client = None" by (simp add: s(6))
  show "length (events (loop s')) = length (events (loop s))" using d1(4) d2(4) v(1) by (simp add: s(6))
  have "emask (events l2 ! nat (fd c)) = emask (events (loop s) ! nat (fd c)) AND NOT EG_EVENT_READABLE AND NOT EG_EVENT_WRITABLE"
    using d1(4,5) d2(5) c(2,3) v by (simp add: and.assoc)
  also have "\<dots> = emask (events (loop s) ! nat (fd c)) AND NOT (EG_EVENT_READABLE OR EG_EVENT_WRITABLE)"
    by (simp add: and.assoc bit.de_Morgan_disj)
  finally show "emask (events (loop s') ! nat (fd c)) = EG_EVENT_NONE" using m by (simp add: s(6) EG_EVENT_NONE_def)
qed

end
