(* ===== verification/Timers.thy ===== *)
theory Timers
  imports Events "HOL-Library.Signed_Division"
begin

text \<open>
  The timers of src/event.c: \<open>get_time\<close>, \<open>add_milliseconds_to_now\<close>, \<open>search_nearest_timer\<close>,
  \<open>create_time_event\<close>, \<open>delete_time_event\<close>, and the time \<open>process_events\<close> waits for file events. The
  times are \<open>long\<close>s that stay far from their bounds, so they are integers here; the division is
  that of C. The clock is read through \<open>mstime\<close> and stands still during one turn of the loop.
\<close>

section \<open>The clock\<close>

definition get_time :: "environment \<Rightarrow> int \<times> int" where
  "get_time e = (mstime e div 1000, mstime e mod 1000)"

definition add_milliseconds_to_now :: "int \<Rightarrow> environment \<Rightarrow> int \<times> int" where
  "add_milliseconds_to_now milliseconds e = (case get_time e of (cur_sec, cur_ms) \<Rightarrow>
     let when_sec = cur_sec + milliseconds sdiv 1000;
         when_ms = cur_ms + milliseconds smod 1000
     in if when_ms \<ge> 1000 then (when_sec + 1, when_ms - 1000) else (when_sec, when_ms))"

section \<open>The list of timers\<close>

text \<open>A new timer is the first of the list; its \<open>id\<close> is returned.\<close>

definition create_time_event :: "int \<Rightarrow> time_handler \<Rightarrow> environment \<Rightarrow> event_loop \<Rightarrow> int \<times> event_loop" where
  "create_time_event milliseconds handler e l =
     (let i = time_event_id l; (sec, ms) = add_milliseconds_to_now milliseconds e
      in (i, l\<lparr>time_event_id := i + 1,
                time_events := \<lparr>tid = i, tsec = sec, tms = ms, thandler = handler\<rparr> # time_events l\<rparr>))"

text \<open>No timer has a finalizer: all of them come from \<open>init_server\<close>, which passes \<open>NULL\<close>.\<close>

fun remove_timer :: "int \<Rightarrow> time_event list \<Rightarrow> (status \<times> time_event list)" where
  "remove_timer i [] = (EG_STATUS_ERR, [])"
| "remove_timer i (te # tes) =
     (if tid te = i then (EG_STATUS_OK, tes)
      else (case remove_timer i tes of (st, tes') \<Rightarrow> (st, te # tes')))"

definition delete_time_event :: "int \<Rightarrow> event_loop \<Rightarrow> status \<times> event_loop" where
  "delete_time_event i l = (case remove_timer i (time_events l) of (st, tes) \<Rightarrow> (st, l\<lparr>time_events := tes\<rparr>))"

definition earlier :: "time_event \<Rightarrow> time_event \<Rightarrow> bool" where
  "earlier a b \<longleftrightarrow> tsec a < tsec b \<or> (tsec a = tsec b \<and> tms a < tms b)"

fun nearest_from :: "time_event option \<Rightarrow> time_event list \<Rightarrow> time_event option" where
  "nearest_from nearest [] = nearest"
| "nearest_from nearest (te # tes) =
     nearest_from (case nearest of None \<Rightarrow> Some te | Some n \<Rightarrow> if earlier te n then Some te else Some n) tes"

definition search_nearest_timer :: "event_loop \<Rightarrow> time_event option" where
  "search_nearest_timer l = nearest_from None (time_events l)"

text \<open>The test of \<open>process_time_events\<close>.\<close>

definition timer_due :: "time_event \<Rightarrow> environment \<Rightarrow> bool" where
  "timer_due te e = (case get_time e of (sec, ms) \<Rightarrow> sec > tsec te \<or> (sec = tsec te \<and> ms \<ge> tms te))"

section \<open>How long to wait\<close>

text \<open>The \<open>struct timeval\<close> computed for the nearest timer, as seconds and microseconds.\<close>

definition timer_wait :: "time_event \<Rightarrow> environment \<Rightarrow> int \<times> int" where
  "timer_wait shortest e = (case get_time e of (sec, ms) \<Rightarrow>
     let tv_sec = tsec shortest - sec;
         (tv_sec, tv_usec) = (if tms shortest < ms then (tv_sec - 1, (tms shortest + 1000 - ms) * 1000)
                              else (tv_sec, (tms shortest - ms) * 1000))
     in (if tv_sec < 0 then 0 else tv_sec, if tv_usec < 0 then 0 else tv_usec))"

text \<open>The timeout given to \<open>epoll_wait\<close>; \<open>None\<close> is the missing \<open>tvp\<close>, for which it is -1.\<close>

definition poll_timeout :: "(int \<times> int) option \<Rightarrow> int" where
  "poll_timeout tvp = (case tvp of None \<Rightarrow> -1 | Some (tv_sec, tv_usec) \<Rightarrow> tv_sec * 1000 + tv_usec sdiv 1000)"

section \<open>Properties\<close>

text \<open>A point in time in milliseconds, and a timer with a proper time of day.\<close>

definition due_at :: "time_event \<Rightarrow> int" where
  "due_at te = tsec te * 1000 + tms te"

definition proper :: "time_event \<Rightarrow> bool" where
  "proper te \<longleftrightarrow> 0 \<le> tms te \<and> tms te < 1000"

lemma add_milliseconds_sum:
  assumes "0 \<le> n" "add_milliseconds_to_now n e = (sec, ms)"
  shows "sec * 1000 + ms = mstime e + n \<and> 0 \<le> ms \<and> ms < 1000"
proof -
  have "n sdiv 1000 = n div 1000" "n smod 1000 = n mod 1000"
    using assms(1) by (simp_all add: signed_divide_int_def signed_modulo_int_def sgn_if abs_if)
  moreover have "mstime e mod 1000 + n mod 1000 < 2000"
    using pos_mod_bound [of 1000 "mstime e"] pos_mod_bound [of 1000 n] by linarith
  ultimately show ?thesis
    using assms(2) by (auto simp: add_milliseconds_to_now_def get_time_def Let_def split: if_split_asm)
qed

lemma earlier_when: "proper a \<Longrightarrow> proper b \<Longrightarrow> earlier a b \<longleftrightarrow> due_at a < due_at b"
  unfolding earlier_def due_at_def proper_def by arith

lemma timer_due_when: "proper te \<Longrightarrow> timer_due te e \<longleftrightarrow> due_at te \<le> mstime e"
proof -
  assume p: "proper te"
  define s m where "s = mstime e div 1000" and "m = mstime e mod 1000"
  have "mstime e = s * 1000 + m" "0 \<le> m" "m < 1000" by (simp_all add: s_def m_def)
  then show ?thesis
    using p unfolding timer_due_def due_at_def proper_def get_time_def prod.case s_def [symmetric] m_def [symmetric] by arith
qed

lemma nearest_from_min:
  assumes "\<forall>te \<in> set tes. proper te" "\<forall>n. nearest = Some n \<longrightarrow> proper n" "nearest \<noteq> None \<or> tes \<noteq> []"
  shows "\<exists>n. nearest_from nearest tes = Some n \<and> n \<in> set tes \<union> set_option nearest \<and>
    (\<forall>te \<in> set tes \<union> set_option nearest. due_at n \<le> due_at te)"
  using assms
proof (induction tes arbitrary: nearest)
  case Nil
  then show ?case by auto
next
  case (Cons te tes)
  define n0 where "n0 = (case nearest of None \<Rightarrow> te | Some n \<Rightarrow> if earlier te n then te else n)"
  have n0: "nearest_from nearest (te # tes) = nearest_from (Some n0) tes" by (simp add: n0_def split: option.split)
  have "proper n0" using Cons.prems by (auto simp: n0_def split: option.split)
  then obtain n where n: "nearest_from (Some n0) tes = Some n" "n \<in> set tes \<union> {n0}" "\<forall>te \<in> set tes \<union> {n0}. due_at n \<le> due_at te"
    using Cons.IH [of "Some n0"] Cons.prems(1) by auto
  have "n0 \<in> {te} \<union> set_option nearest" "\<forall>t \<in> {te} \<union> set_option nearest. due_at n0 \<le> due_at t"
    using Cons.prems by (auto simp: n0_def earlier_when split: option.split)
  then show ?case using n n0 by fastforce
qed

lemma timer_wait_until:
  assumes "proper te"
  shows "poll_timeout (Some (timer_wait te e)) =
    (if mstime e \<le> due_at te then due_at te - mstime e else (due_at te - mstime e) mod 1000)"
proof -
  have d: "(x * 1000) sdiv 1000 = x" for x :: int by (simp add: signed_divide_int_def sgn_if abs_mult)
  define s m where "s = mstime e div 1000" and "m = mstime e mod 1000"
  have e: "mstime e = s * 1000 + m" "0 \<le> m" "m < 1000" by (simp_all add: s_def m_def)
  have w: "timer_wait te e = (if tms te < m
      then (if tsec te - s - 1 < 0 then 0 else tsec te - s - 1, (tms te + 1000 - m) * 1000)
      else (if tsec te - s < 0 then 0 else tsec te - s, (tms te - m) * 1000))"
    using assms e(2,3) unfolding timer_wait_def get_time_def s_def [symmetric] m_def [symmetric] proper_def by simp
  define x y where "x = tsec te - s" and "y = tms te - m"
  have y: "- 1000 < y" "y < 1000" using assms e(2,3) by (auto simp: proper_def y_def)
  have diff: "due_at te - mstime e = y + x * 1000" by (simp add: due_at_def e(1) x_def y_def algebra_simps)
  have "(y + x * 1000) mod 1000 = y mod 1000" by simp
  moreover have "y mod 1000 = (if y < 0 then y + 1000 else y)" using y mod_pos_pos_trivial [of "y + 1000" 1000] by (auto simp: mod_pos_pos_trivial)
  ultimately have m: "(due_at te - mstime e) mod 1000 = (if y < 0 then y + 1000 else y)" unfolding diff by simp
  have "poll_timeout (Some (timer_wait te e)) =
      (if y < 0 then (if x - 1 < 0 then 0 else x - 1) * 1000 + (y + 1000) else (if x < 0 then 0 else x) * 1000 + y)"
    unfolding w poll_timeout_def using d [of "tms te + 1000 - m"] d [of "tms te - m"]
    by (simp add: x_def y_def algebra_simps)
  moreover have "mstime e \<le> due_at te \<longleftrightarrow> 0 \<le> y + x * 1000" using diff by linarith
  ultimately show ?thesis using y unfolding m unfolding diff by (auto split: if_splits)
qed



text \<open>
  C24. A timer created for \<open>n\<close> milliseconds from now is due exactly then and not before; its
  identifier is new, and deleting it restores the list of timers.
\<close>

theorem time_event_created:
  assumes "0 \<le> n" "\<forall>te \<in> set (time_events l). tid te < time_event_id l" "create_time_event n h e l = (i, l')"
  shows "\<exists>te. time_events l' = te # time_events l \<and> tid te = i \<and> thandler te = h \<and> proper te \<and>
    (\<forall>e'. timer_due te e' \<longleftrightarrow> mstime e + n \<le> mstime e') \<and> (\<forall>te \<in> set (time_events l'). tid te < time_event_id l') \<and>
    i \<notin> tid ` set (time_events l) \<and> delete_time_event i l' = (EG_STATUS_OK, l'\<lparr>time_events := time_events l\<rparr>)"
proof -
  obtain sec ms where t: "add_milliseconds_to_now n e = (sec, ms)" by (cases "add_milliseconds_to_now n e")
  let ?te = "\<lparr>tid = i, tsec = sec, tms = ms, thandler = h\<rparr>"
  have l': "i = time_event_id l" "l' = l\<lparr>time_event_id := i + 1, time_events := ?te # time_events l\<rparr>"
    using assms(3) t by (auto simp: create_time_event_def Let_def)
  have sum: "sec * 1000 + ms = mstime e + n \<and> 0 \<le> ms \<and> ms < 1000" by (rule add_milliseconds_sum [OF assms(1) t])
  then have p: "proper ?te" "due_at ?te = mstime e + n" by (simp_all add: proper_def due_at_def)
  have "\<forall>e'. timer_due ?te e' \<longleftrightarrow> mstime e + n \<le> mstime e'" using timer_due_when [OF p(1)] p(2) by simp
  moreover have "\<forall>te \<in> set (time_events l'). tid te < time_event_id l'" "i \<notin> tid ` set (time_events l)"
    using assms(2) l' by force+
  moreover have "delete_time_event i l' = (EG_STATUS_OK, l'\<lparr>time_events := time_events l\<rparr>)"
    by (simp add: l'(2) delete_time_event_def)
  ultimately show ?thesis using p(1) by (intro exI [of _ ?te]) (simp add: l'(2))
qed

theorem time_event_created_witness:
  "\<forall>e. \<exists>l' te. create_time_event 100 server_updater (e\<lparr>mstime := 5950\<rparr>) (sample_loop\<lparr>time_event_id := 0, time_events := []\<rparr>) = (0, l') \<and>
     time_events l' = [te] \<and> timer_due te (e\<lparr>mstime := 6050\<rparr>) \<and> \<not> timer_due te (e\<lparr>mstime := 6049\<rparr>)"
proof
  fix e
  obtain i l' where c: "create_time_event 100 server_updater (e\<lparr>mstime := 5950\<rparr>) (sample_loop\<lparr>time_event_id := 0, time_events := []\<rparr>) = (i, l')"
    by force
  then have "i = 0" by (auto simp: create_time_event_def Let_def split: prod.splits)
  moreover obtain te where "time_events l' = [te]" "\<forall>e'. timer_due te e' \<longleftrightarrow> 6050 \<le> mstime e'"
    using time_event_created [OF _ _ c] by auto
  ultimately show "\<exists>l' te. create_time_event 100 server_updater (e\<lparr>mstime := 5950\<rparr>) (sample_loop\<lparr>time_event_id := 0, time_events := []\<rparr>) = (0, l') \<and>
     time_events l' = [te] \<and> timer_due te (e\<lparr>mstime := 6050\<rparr>) \<and> \<not> timer_due te (e\<lparr>mstime := 6049\<rparr>)"
    using c by auto
qed

end
