(* ===== verification/Config.thy ===== *)
theory Config
  imports Storage
begin

text \<open>
  src/config.c, \<open>memtoll\<close> of src/utils.c, and the command line (\<open>parse_args\<close>, \<open>init_config\<close> of
  src/eagle.c). The options of \<open>EagleServer\<close> are a record of their own, \<open>settings\<close>. \<open>None\<close> is
  undefined behaviour: a number \<open>atoi\<close> cannot represent, or an overflow in \<open>memtoll\<close>.
\<close>

section \<open>Options\<close>

record settings =
  addr_opt :: bytes
  port_opt :: int
  unix_socket_opt :: "bytes option"
  name_opt :: bytes
  password_opt :: bytes
  daemonize_opt :: bool
  pidfile_opt :: "bytes option"
  logfile_opt :: bytes
  storage_opt :: bytes
  max_clients_opt :: nat
  max_memory_opt :: int
  storage_timeout_opt :: int
  client_timeout_opt :: int

definition ascii :: "string \<Rightarrow> bytes" where
  "ascii str = map of_char str"

definition LLONG_MAX :: int where "LLONG_MAX = 2 ^ 63 - 1"

definition int_range :: "int \<Rightarrow> int option" where
  "int_range n = (if - (2 ^ 31) \<le> n \<and> n < 2 ^ 31 then Some n else None)"

definition strcasecmp_eq :: "bytes \<Rightarrow> string \<Rightarrow> bool" where
  "strcasecmp_eq a b \<longleftrightarrow> map (\<lambda>c. tolower (uint c)) a = map (\<lambda>c. tolower (uint c)) (ascii b)"

text \<open>The value and the error flag. \<open>strtoll\<close> answers \<open>LLONG_MAX\<close> for more.\<close>

definition memtoll :: "bytes \<Rightarrow> (int \<times> bool) option" where
  "memtoll val = (let digits = takeWhile IS_NUM val; ptr = dropWhile IS_NUM val;
     (mul, err) = (if ptr = [] \<or> strcasecmp_eq ptr ''b'' then (1, False)
                   else if strcasecmp_eq ptr ''k'' then (1000, False)
                   else if strcasecmp_eq ptr ''m'' then (1000 * 1000, False)
                   else if strcasecmp_eq ptr ''g'' then (1000 * 1000 * 1000, False)
                   else (1, True))
     in if length digits \<ge> 128 then Some (LLONG_MAX, True)
        else (let n = min (digits_value 0 digits) LLONG_MAX * mul
              in if n \<le> LLONG_MAX then Some (n, err) else None))"

definition parse_on_off :: "bytes \<Rightarrow> bool" where
  "parse_on_off val \<longleftrightarrow> val = ascii ''on''"

definition config_parse_key_value :: "bytes \<Rightarrow> bytes \<Rightarrow> settings \<Rightarrow> (status \<times> settings) option" where
  "config_parse_key_value key val st =
     (if key = ascii ''addr'' then Some (EG_STATUS_OK, st\<lparr>addr_opt := val\<rparr>)
      else if key = ascii ''port'' then do { n \<leftarrow> int_range (atoi val); Some (EG_STATUS_OK, st\<lparr>port_opt := n\<rparr>) }
      else if key = ascii ''unix-socket'' then Some (EG_STATUS_OK, st\<lparr>unix_socket_opt := Some val\<rparr>)
      else if key = ascii ''admin-name'' then Some (EG_STATUS_OK, st\<lparr>name_opt := val\<rparr>)
      else if key = ascii ''admin-password'' then Some (EG_STATUS_OK, st\<lparr>password_opt := val\<rparr>)
      else if key = ascii ''daemonize'' then Some (EG_STATUS_OK, st\<lparr>daemonize_opt := parse_on_off val\<rparr>)
      else if key = ascii ''pid-file'' then Some (EG_STATUS_OK, st\<lparr>pidfile_opt := Some val\<rparr>)
      else if key = ascii ''log-file'' then Some (EG_STATUS_OK, st\<lparr>logfile_opt := val\<rparr>)
      else if key = ascii ''storage-file'' then Some (EG_STATUS_OK, st\<lparr>storage_opt := val\<rparr>)
      else if key = ascii ''max-clients'' then do {
        n \<leftarrow> int_range (atoi val); Some (EG_STATUS_OK, st\<lparr>max_clients_opt := nat (n mod 2 ^ 64)\<rparr>) }
      else if key = ascii ''max-memory'' then do {
        (n, err) \<leftarrow> memtoll val;
        if err then Some (EG_STATUS_ERR, st) else Some (EG_STATUS_OK, st\<lparr>max_memory_opt := n\<rparr>) }
      else if key = ascii ''save-timeout'' then do {
        n \<leftarrow> int_range (atoi val); Some (EG_STATUS_OK, st\<lparr>storage_timeout_opt := n\<rparr>) }
      else if key = ascii ''client-timeout'' then do {
        n \<leftarrow> int_range (atoi val); Some (EG_STATUS_OK, st\<lparr>client_timeout_opt := n\<rparr>) }
      else Some (EG_STATUS_ERR, st))"

section \<open>Lines and files\<close>

text \<open>The tokens \<open>strtok\<close> finds with the delimiters tab, newline and space.\<close>

definition is_delim :: "u8 \<Rightarrow> bool" where
  "is_delim c \<longleftrightarrow> c = 9 \<or> c = 10 \<or> c = 32"

function strtok_all :: "bytes \<Rightarrow> bytes list" where
  "strtok_all str = (case dropWhile is_delim str of
     [] \<Rightarrow> []
   | c # cs \<Rightarrow> takeWhile (\<lambda>c. \<not> is_delim c) (c # cs) # strtok_all (dropWhile (\<lambda>c. \<not> is_delim c) (c # cs)))"
  by pat_completeness auto

termination
proof (relation "measure length")
  fix str c and cs :: bytes assume eq: "dropWhile is_delim str = c # cs"
  then have "\<not> is_delim c" using hd_dropWhile [of is_delim str] by simp
  then have "length (dropWhile (\<lambda>c. \<not> is_delim c) (c # cs)) < length (c # cs)"
    by (simp add: length_dropWhile_le less_Suc_eq_le)
  also have "length (c # cs) \<le> length str" using length_dropWhile_le [of is_delim str] eq by simp
  finally show "(dropWhile (\<lambda>c. \<not> is_delim c) (c # cs), str) \<in> measure length" by simp
qed simp

declare strtok_all.simps [simp del]

definition parse_config_line :: "bytes \<Rightarrow> settings \<Rightarrow> (status \<times> settings) option" where
  "parse_config_line line st =
     (if line = [] \<or> hd line = 35 \<or> hd line = 10 then Some (EG_STATUS_OK, st)
      else (case strtok_all line of
          [key, val] \<Rightarrow> config_parse_key_value key val st
        | _ \<Rightarrow> Some (EG_STATUS_ERR, st)))"

text \<open>\<open>fgets(line, n + 1, fp)\<close>: at most \<open>n\<close> bytes, up to and with the first newline.\<close>

fun fgets :: "nat \<Rightarrow> bytes \<Rightarrow> bytes \<times> bytes" where
  "fgets 0 f = ([], f)"
| "fgets (Suc n) [] = ([], [])"
| "fgets (Suc n) (c # cs) = (if c = 10 then ([c], cs) else (case fgets n cs of (line, f) \<Rightarrow> (c # line, f)))"

lemma length_fgets: "length (snd (fgets n f)) \<le> length f"
  by (induction n f rule: fgets.induct) (auto split: prod.split)

text \<open>A line is a C string: it ends at the first NUL.\<close>

function load_lines :: "bytes \<Rightarrow> settings \<Rightarrow> (status \<times> settings) option" where
  "load_lines f st =
     (if f = [] then Some (EG_STATUS_OK, st)
      else (case fgets 511 f of (line, f') \<Rightarrow> do {
        (r, st) \<leftarrow> parse_config_line (takeWhile (\<lambda>c. c \<noteq> 0) line) st;
        if r \<noteq> EG_STATUS_OK then Some (EG_STATUS_ERR, st) else load_lines f' st }))"
  by pat_completeness auto

termination
proof (relation "measure (\<lambda>(f, st). length f)")
  fix f line f' :: bytes and st st' :: settings and z r assume f: "f \<noteq> []" "(line, f') = fgets 511 f"
  have "length (snd (fgets (Suc n) (c # cs))) < length (c # cs)" for n c and cs :: bytes
    using length_fgets [of n cs] by (auto split: prod.split)
  from this [of 510 "hd f" "tl f"] f show "((f', st'), f, st) \<in> measure (\<lambda>(f, st). length f)"
    by (cases f) (auto simp: eval_nat_numeral dest: sym)
qed simp

declare load_lines.simps [simp del]

text \<open>The file, if it can be opened.\<close>

definition config_load :: "bytes option \<Rightarrow> settings \<Rightarrow> (status \<times> settings) option" where
  "config_load file st = (case file of None \<Rightarrow> Some (EG_STATUS_ERR, st) | Some f \<Rightarrow> load_lines f st)"

section \<open>The command line\<close>

text \<open>The default settings, which \<open>init_server_config\<close> sets.\<close>

definition default_settings :: settings where
  "default_settings = \<lparr>addr_opt = ascii ''127.0.0.1'', port_opt = 7851, unix_socket_opt = None, name_opt = ascii ''eagle'',
     password_opt = ascii ''eagle'', daemonize_opt = False, pidfile_opt = None, logfile_opt = ascii ''eaglemq.log'',
     storage_opt = ascii ''eaglemq.dat'', max_clients_opt = 16384, max_memory_opt = 0, storage_timeout_opt = 0,
     client_timeout_opt = 0\<rparr>"

text \<open>How the start goes on: with the settings, with the usage text, or with \<open>fatal\<close>. The file
  system is the parameter \<open>files\<close>: the content of a file that exists.\<close>

datatype start = Settled settings | Usage | Fatal

definition init_config :: "(bytes \<Rightarrow> bytes option) \<Rightarrow> bytes \<Rightarrow> settings \<Rightarrow> start option" where
  "init_config files config st = (case files config of
     None \<Rightarrow> Some (Settled st)
   | Some f \<Rightarrow> do {
       (r, st) \<leftarrow> config_load (Some f) st;
       Some (if r \<noteq> EG_STATUS_OK then Fatal else Settled st) })"

fun parse_options :: "bytes list \<Rightarrow> settings \<Rightarrow> start option" where
  "parse_options [] st = Some (Settled st)"
| "parse_options [key] st = Some Fatal"
| "parse_options (key # val # argv) st =
     (if take 2 key \<noteq> ascii ''--'' then Some Fatal
      else do {
        (r, st) \<leftarrow> config_parse_key_value (drop 2 key) val st;
        if r \<noteq> EG_STATUS_OK then Some Fatal else parse_options argv st })"

text \<open>\<open>argv\<close> without the name of the program.\<close>

definition parse_args :: "(bytes \<Rightarrow> bytes option) \<Rightarrow> bytes list \<Rightarrow> settings \<Rightarrow> start option" where
  "parse_args files argv st = (case argv of
     [] \<Rightarrow> Some (Settled st)
   | config # argv \<Rightarrow>
       if config = ascii ''-h'' \<or> config = ascii ''--help'' then Some Usage
       else do {
         r \<leftarrow> init_config files config st;
         (case r of Settled st \<Rightarrow> parse_options argv st | _ \<Rightarrow> Some r) })"

section \<open>Numbers\<close>

fun decimal :: "nat \<Rightarrow> bytes" where
  "decimal n = (if n < 10 then [48 + of_nat n] else decimal (n div 10) @ [48 + of_nat (n mod 10)])"

declare decimal.simps [simp del]

lemma digit:
  assumes "k < 10"
  shows "IS_NUM (48 + of_nat k)" "uint (48 + of_nat k :: u8) = 48 + int k"
proof -
  have "k = 0 \<or> k = 1 \<or> k = 2 \<or> k = 3 \<or> k = 4 \<or> k = 5 \<or> k = 6 \<or> k = 7 \<or> k = 8 \<or> k = 9" using assms by presburger
  then show "IS_NUM (48 + of_nat k)" "uint (48 + of_nat k :: u8) = 48 + int k"
    by (elim disjE; simp add: IS_NUM_def)+
qed

lemma decimal_digits: "\<forall>c \<in> set (decimal n). IS_NUM c"
proof (induction n rule: decimal.induct)
  case (1 n)
  then show ?case by (auto simp: decimal.simps [of n] digit(1))
qed

lemma decimal_nonempty: "decimal n \<noteq> []"
  by (simp add: decimal.simps [of n])

lemma digits_value_append: "\<forall>c \<in> set xs. IS_NUM c \<Longrightarrow> digits_value a (xs @ ys) = digits_value (digits_value a xs) ys"
  by (induction xs arbitrary: a) simp_all

lemma digits_value_decimal: "digits_value 0 (decimal n) = int n"
proof (induction n rule: decimal.induct)
  case (1 n)
  then show ?case
    by (auto simp: decimal.simps [of n] digits_value_append decimal_digits digit zdiv_int zmod_int)
qed

lemma atoi_decimal: "atoi (decimal n) = int n"
proof -
  obtain c cs where d: "decimal n = c # cs" using decimal_nonempty by (cases "decimal n") auto
  then have "IS_NUM c" using decimal_digits [of n] by simp
  then have "\<not> is_space c" "c \<noteq> 45" "c \<noteq> 43" by (auto simp: IS_NUM_def is_space_def word_le_nat_alt)
  then show ?thesis using digits_value_decimal [of n] d by (simp add: atoi_def)
qed

lemma length_decimal: "n < 10 ^ k \<Longrightarrow> 0 < k \<Longrightarrow> length (decimal n) \<le> k"
proof (induction n arbitrary: k rule: decimal.induct)
  case (1 n)
  show ?case
  proof (cases "n < 10")
    case True
    then show ?thesis using "1.prems"(2) by (simp add: decimal.simps [of n])
  next
    case False
    then obtain j where j: "k = Suc j" "0 < j" using "1.prems" by (cases k; cases "k - 1") auto
    have "n div 10 < 10 ^ j" using "1.prems"(1) j(1) by (simp add: less_mult_imp_div_less mult.commute)
    then show ?thesis using "1.IH" [OF False _ j(2)] False j by (simp add: decimal.simps [of n])
  qed
qed

lemma memtoll_decimal: "int n \<le> LLONG_MAX \<Longrightarrow> memtoll (decimal n) = Some (int n, False)"
proof -
  assume n: "int n \<le> LLONG_MAX"
  then have "n < 10 ^ 19" by (simp add: LLONG_MAX_def)
  then have "length (decimal n) < 128" using length_decimal [of n 19] by simp
  moreover have tw: "takeWhile IS_NUM (decimal n) = decimal n" "dropWhile IS_NUM (decimal n) = []" using decimal_digits by simp_all
  ultimately show ?thesis using n unfolding memtoll_def tw by (simp add: digits_value_decimal)
qed

section \<open>Files that are read back\<close>

definition token :: "bytes \<Rightarrow> bool" where
  "token v \<longleftrightarrow> v \<noteq> [] \<and> (\<forall>c \<in> set v. \<not> is_delim c \<and> c \<noteq> 0)"

definition option_line :: "bytes \<Rightarrow> bytes \<Rightarrow> bytes" where
  "option_line key val = key @ [32] @ val @ [10]"

lemma fgets_line: "10 \<notin> set l \<Longrightarrow> length l < n \<Longrightarrow> fgets n (l @ 10 # rest) = (l @ [10], rest)"
proof (induction l arbitrary: n)
  case Nil
  then show ?case by (cases n) simp_all
next
  case (Cons c l)
  then show ?case by (cases n) simp_all
qed

lemma token_run:
  assumes "token v" "is_delim d"
  shows "strtok_all (v @ d # rest) = v # strtok_all (d # rest)"
proof -
  have "dropWhile is_delim (v @ d # rest) = v @ d # rest" using assms by (cases v) (auto simp: token_def)
  moreover have "takeWhile (\<lambda>c. \<not> is_delim c) (v @ d # rest) = v" "dropWhile (\<lambda>c. \<not> is_delim c) (v @ d # rest) = d # rest"
    using assms by (auto simp: token_def takeWhile_append dropWhile_append)
  ultimately show ?thesis using assms(1) by (subst strtok_all.simps) (cases v; simp add: token_def)
qed

lemma strtok_delim: "is_delim d \<Longrightarrow> strtok_all (d # rest) = strtok_all rest" "strtok_all [] = []"
  by (subst (1 2) strtok_all.simps, simp) (subst strtok_all.simps, simp)

lemma strtok_line: "token k \<Longrightarrow> token v \<Longrightarrow> strtok_all (option_line k v) = [k, v]"
  using token_run [of k 32 "v @ [10]"] token_run [of v 10 "[]"] strtok_delim(1) [of 32 "v @ [10]"] strtok_delim(1) [of 10 "[]"]
  by (simp add: option_line_def is_delim_def strtok_delim(2))

lemma load_line:
  assumes "token k" "hd k \<noteq> 35" "token v" "length k + length v < 510" "config_parse_key_value k v st = Some (EG_STATUS_OK, st')"
  shows "load_lines (option_line k v @ rest) st = load_lines rest st'"
proof -
  have kv: "k \<noteq> []" "\<forall>c \<in> set k. c \<noteq> 0 \<and> c \<noteq> 10" "\<forall>c \<in> set v. c \<noteq> 0 \<and> c \<noteq> 10"
    using assms(1,3) by (auto simp: token_def is_delim_def)
  then obtain c cs where k: "k = c # cs" "c \<noteq> 10" "c \<noteq> 35" using assms(2) by (cases k) auto
  have "10 \<notin> set (k @ [32] @ v)" using kv by auto
  then have f: "fgets 511 (option_line k v @ rest) = (option_line k v, rest)"
    using fgets_line [of "k @ [32] @ v" 511 rest] assms(4) by (simp add: option_line_def)
  have t: "takeWhile (\<lambda>c. c \<noteq> 0) (option_line k v) = option_line k v"
    using kv by (auto simp: takeWhile_eq_all_conv option_line_def)
  have p: "parse_config_line (option_line k v) st = Some (EG_STATUS_OK, st')"
    unfolding parse_config_line_def strtok_line [OF assms(1,3)] using k assms(5) by (simp add: option_line_def)
  have "option_line k v \<noteq> []" by (simp add: option_line_def)
  then show ?thesis unfolding load_lines.simps [of "option_line k v @ rest"] f prod.case t p by simp
qed

text \<open>What each key does, the value being read back from its decimal form where it is a number.\<close>

lemma option_keys:
  "config_parse_key_value (ascii ''addr'') v st = Some (EG_STATUS_OK, st\<lparr>addr_opt := v\<rparr>)"
  "config_parse_key_value (ascii ''unix-socket'') v st = Some (EG_STATUS_OK, st\<lparr>unix_socket_opt := Some v\<rparr>)"
  "config_parse_key_value (ascii ''admin-name'') v st = Some (EG_STATUS_OK, st\<lparr>name_opt := v\<rparr>)"
  "config_parse_key_value (ascii ''admin-password'') v st = Some (EG_STATUS_OK, st\<lparr>password_opt := v\<rparr>)"
  "config_parse_key_value (ascii ''daemonize'') v st = Some (EG_STATUS_OK, st\<lparr>daemonize_opt := parse_on_off v\<rparr>)"
  "config_parse_key_value (ascii ''pid-file'') v st = Some (EG_STATUS_OK, st\<lparr>pidfile_opt := Some v\<rparr>)"
  "config_parse_key_value (ascii ''log-file'') v st = Some (EG_STATUS_OK, st\<lparr>logfile_opt := v\<rparr>)"
  "config_parse_key_value (ascii ''storage-file'') v st = Some (EG_STATUS_OK, st\<lparr>storage_opt := v\<rparr>)"
  by (simp_all add: config_parse_key_value_def ascii_def)

lemma option_numbers:
  "n < 2 ^ 31 \<Longrightarrow> config_parse_key_value (ascii ''port'') (decimal n) st = Some (EG_STATUS_OK, st\<lparr>port_opt := int n\<rparr>)"
  "n < 2 ^ 31 \<Longrightarrow> config_parse_key_value (ascii ''max-clients'') (decimal n) st = Some (EG_STATUS_OK, st\<lparr>max_clients_opt := n\<rparr>)"
  "int n \<le> LLONG_MAX \<Longrightarrow> config_parse_key_value (ascii ''max-memory'') (decimal n) st = Some (EG_STATUS_OK, st\<lparr>max_memory_opt := int n\<rparr>)"
  "n < 2 ^ 31 \<Longrightarrow> config_parse_key_value (ascii ''save-timeout'') (decimal n) st = Some (EG_STATUS_OK, st\<lparr>storage_timeout_opt := int n\<rparr>)"
  "n < 2 ^ 31 \<Longrightarrow> config_parse_key_value (ascii ''client-timeout'') (decimal n) st = Some (EG_STATUS_OK, st\<lparr>client_timeout_opt := int n\<rparr>)"
  by (simp_all add: config_parse_key_value_def ascii_def atoi_decimal memtoll_decimal int_range_def)

text \<open>A configuration file for given settings. An option that is not set has no line.\<close>

definition optional_line :: "string \<Rightarrow> bytes option \<Rightarrow> bytes" where
  "optional_line key x = (case x of None \<Rightarrow> [] | Some v \<Rightarrow> option_line (ascii key) v)"

definition render :: "settings \<Rightarrow> bytes" where
  "render st = option_line (ascii ''addr'') (addr_opt st) @ option_line (ascii ''port'') (decimal (nat (port_opt st))) @
     optional_line ''unix-socket'' (unix_socket_opt st) @ option_line (ascii ''admin-name'') (name_opt st) @
     option_line (ascii ''admin-password'') (password_opt st) @
     option_line (ascii ''daemonize'') (ascii (if daemonize_opt st then ''on'' else ''off'')) @
     optional_line ''pid-file'' (pidfile_opt st) @ option_line (ascii ''log-file'') (logfile_opt st) @
     option_line (ascii ''storage-file'') (storage_opt st) @ option_line (ascii ''max-clients'') (decimal (max_clients_opt st)) @
     option_line (ascii ''max-memory'') (decimal (nat (max_memory_opt st))) @
     option_line (ascii ''save-timeout'') (decimal (nat (storage_timeout_opt st))) @
     option_line (ascii ''client-timeout'') (decimal (nat (client_timeout_opt st)))"

text \<open>Settings a configuration file can express: words of moderate length and numbers in range.\<close>

definition word_value :: "bytes \<Rightarrow> bool" where
  "word_value v \<longleftrightarrow> token v \<and> length v < 400"

definition expressible :: "settings \<Rightarrow> bool" where
  "expressible st \<longleftrightarrow> word_value (addr_opt st) \<and> word_value (name_opt st) \<and> word_value (password_opt st) \<and>
     word_value (logfile_opt st) \<and> word_value (storage_opt st) \<and>
     (\<forall>v. unix_socket_opt st = Some v \<longrightarrow> word_value v) \<and> (\<forall>v. pidfile_opt st = Some v \<longrightarrow> word_value v) \<and>
     0 \<le> port_opt st \<and> port_opt st < 2 ^ 31 \<and> max_clients_opt st < 2 ^ 31 \<and> 0 \<le> max_memory_opt st \<and> max_memory_opt st \<le> LLONG_MAX \<and>
     0 \<le> storage_timeout_opt st \<and> storage_timeout_opt st < 2 ^ 31 \<and> 0 \<le> client_timeout_opt st \<and> client_timeout_opt st < 2 ^ 31"

lemma key_token:
  "key \<in> set [''addr'', ''port'', ''unix-socket'', ''admin-name'', ''admin-password'', ''daemonize'', ''pid-file'', ''log-file'',
     ''storage-file'', ''max-clients'', ''max-memory'', ''save-timeout'', ''client-timeout''] \<Longrightarrow>
   token (ascii key) \<and> hd (ascii key) \<noteq> 35 \<and> length (ascii key) \<le> 20"
  by (simp, elim disjE; simp add: ascii_def token_def is_delim_def)

lemma decimal_value: "int n \<le> LLONG_MAX \<Longrightarrow> word_value (decimal n)"
proof -
  assume "int n \<le> LLONG_MAX"
  then have "n < 10 ^ 19" by (simp add: LLONG_MAX_def)
  then have "length (decimal n) < 400" using length_decimal [of n 19] by simp
  moreover have "token (decimal n)"
    using decimal_nonempty [of n] decimal_digits [of n] by (auto simp: token_def IS_NUM_def is_delim_def)
  ultimately show ?thesis by (simp add: word_value_def)
qed

lemma load_option:
  assumes "key \<in> set [''addr'', ''port'', ''unix-socket'', ''admin-name'', ''admin-password'', ''daemonize'', ''pid-file'', ''log-file'',
     ''storage-file'', ''max-clients'', ''max-memory'', ''save-timeout'', ''client-timeout'']" "word_value v"
    "config_parse_key_value (ascii key) v st = Some (EG_STATUS_OK, st')"
  shows "load_lines (option_line (ascii key) v @ rest) st = load_lines rest st'"
  by (rule load_line) (use key_token [OF assms(1)] assms(2,3) in \<open>auto simp: word_value_def\<close>)

lemmas load_words = option_keys [THEN load_option [rotated 2]]
lemmas load_numbers = option_numbers [THEN load_option [rotated 2]]

lemma load_optional:
  assumes "\<forall>v. x = Some v \<longrightarrow> word_value v"
  shows "load_lines (optional_line ''unix-socket'' x @ rest) st =
      load_lines rest (if x = None then st else st\<lparr>unix_socket_opt := x\<rparr>)"
    "load_lines (optional_line ''pid-file'' x @ rest) st = load_lines rest (if x = None then st else st\<lparr>pidfile_opt := x\<rparr>)"
  using assms by (auto simp: optional_line_def load_words split: option.split)

lemma on_off: "word_value (ascii (if b then ''on'' else ''off''))" "parse_on_off (ascii (if b then ''on'' else ''off'')) = b"
  by (auto simp: word_value_def token_def ascii_def is_delim_def parse_on_off_def)

lemma config_load_render:
  assumes e: "expressible st" and old: "unix_socket_opt st = None \<longrightarrow> unix_socket_opt st0 = None"
    "pidfile_opt st = None \<longrightarrow> pidfile_opt st0 = None"
  shows "config_load (Some (render st)) st0 = Some (EG_STATUS_OK, st)"
proof -
  have w: "word_value (addr_opt st)" "word_value (name_opt st)" "word_value (password_opt st)" "word_value (logfile_opt st)"
      "word_value (storage_opt st)" and o: "\<forall>v. unix_socket_opt st = Some v \<longrightarrow> word_value v" "\<forall>v. pidfile_opt st = Some v \<longrightarrow> word_value v"
    and r: "0 \<le> port_opt st" "port_opt st < 2 ^ 31" "max_clients_opt st < 2 ^ 31" "0 \<le> max_memory_opt st" "max_memory_opt st \<le> LLONG_MAX"
      "0 \<le> storage_timeout_opt st" "storage_timeout_opt st < 2 ^ 31" "0 \<le> client_timeout_opt st" "client_timeout_opt st < 2 ^ 31"
    using e by (simp_all add: expressible_def)
  have "word_value (decimal (nat (port_opt st)))" "word_value (decimal (max_clients_opt st))" "word_value (decimal (nat (max_memory_opt st)))"
      "word_value (decimal (nat (storage_timeout_opt st)))" "word_value (decimal (nat (client_timeout_opt st)))"
    by (rule decimal_value; use r in \<open>simp add: LLONG_MAX_def\<close>)+
  then have "load_lines (render st @ rest) st0 = load_lines rest st" for rest
    unfolding render_def append_assoc using w o r old
    by (simp add: load_words load_numbers load_optional on_off nat_less_iff)
      (auto intro!: arg_cong [where f = "load_lines rest"] settings.equality)
  from this [of "[]"] show ?thesis by (simp add: config_load_def load_lines.simps [of "[]"])
qed





end
