(* ===== verification/Network.thy ===== *)
theory Network
  imports Config
begin

text \<open>
  src/network.c: the sockets of the server. What a system call answers is a parameter (the record
  \<open>os\<close>: a result, or an error number); what a successful call does to the descriptors of the process
  is modelled, so that the error paths can be checked for descriptors left open.
\<close>

section \<open>Descriptors and system calls\<close>

datatype domain = AF_INET | AF_LOCAL

text \<open>A port and an IPv4 address, in host order, or the path of a unix socket.\<close>

datatype sockaddr = sockaddr_in u16 u32 | sockaddr_un bytes

text \<open>An open socket: \<open>sk_backlog\<close> is set by \<open>listen\<close>, \<open>sk_flags\<close> are the file status flags of \<open>fcntl\<close>.\<close>

record sock =
  sk_domain :: domain
  sk_reuse :: bool
  sk_addr :: "sockaddr option"
  sk_backlog :: "nat option"
  sk_flags :: u32
  sk_nodelay :: bool

text \<open>
  What the process holds of the operating system: its open sockets, the buffer \<open>err\<close> points to
  (\<open>None\<close> for \<open>NULL\<close>), the files it has made and the processes it has killed. \<open>srv_fd\<close> and \<open>srv_sfd\<close> are
  \<open>server->fd\<close> and \<open>server->sfd\<close>.
\<close>

record process =
  socks :: "int \<rightharpoonup> sock"
  net_error :: "bytes option"
  paths :: "bytes set"
  killed :: "int list"
  srv_fd :: int
  srv_sfd :: int

text \<open>
  The answers of the system: \<open>Inl\<close> or \<open>Some\<close> an error number is -1 with that \<open>errno\<close>. \<open>os_accept d i\<close> is the
  answer of the \<open>i\<close>-th call of \<open>accept\<close> on \<open>d\<close>, a descriptor and the address of the peer. \<open>inet_aton\<close>
  and \<open>strerror\<close> are the functions of the C library; the address \<open>inet_aton\<close> gives is in host order.
\<close>

record os =
  os_socket :: "domain \<Rightarrow> int + int"
  os_reuseaddr :: "int \<Rightarrow> int option"
  os_bind :: "sockaddr \<Rightarrow> int option"
  os_listen :: "int \<Rightarrow> int option"
  os_getfl :: "int \<Rightarrow> int option"
  os_setfl :: "int \<Rightarrow> int option"
  os_tcp_nodelay :: "int \<Rightarrow> int option"
  os_accept :: "int \<Rightarrow> nat \<Rightarrow> int + int \<times> sockaddr"
  os_fopen :: "bytes \<Rightarrow> bool"
  inet_aton :: "bytes \<Rightarrow> u32 option"
  strerror :: "int \<Rightarrow> bytes"

definition EG_NET_OK :: int where "EG_NET_OK = 0"
definition EG_NET_ERR :: int where "EG_NET_ERR = -1"
definition NET_ERR_LEN :: nat where "NET_ERR_LEN = 256"
definition O_NONBLOCK :: u32 where "O_NONBLOCK = 0x800"
definition EINTR :: int where "EINTR = 4"
definition SUN_PATH_LEN :: nat where "SUN_PATH_LEN = 108"

definition upd_sock :: "int \<Rightarrow> (sock \<Rightarrow> sock) \<Rightarrow> process \<Rightarrow> process" where
  "upd_sock d f n = n\<lparr>socks := (socks n)(d := map_option f (socks n d))\<rparr>"

definition close_sock :: "int \<Rightarrow> process \<Rightarrow> process" where
  "close_sock d n = n\<lparr>socks := (socks n)(d := None)\<rparr>"

definition unlink_path :: "bytes \<Rightarrow> process \<Rightarrow> process" where
  "unlink_path p n = n\<lparr>paths := paths n - {p}\<rparr>"

section \<open>The functions of network.c\<close>

text \<open>\<open>vsnprintf\<close> keeps 255 bytes of the message and its terminator.\<close>

definition net_set_error :: "bytes \<Rightarrow> process \<Rightarrow> process" where
  "net_set_error msg n = n\<lparr>net_error := map_option (\<lambda>_. take (NET_ERR_LEN - 1) msg) (net_error n)\<rparr>"

definition net_listen :: "os \<Rightarrow> int \<Rightarrow> sockaddr \<Rightarrow> process \<Rightarrow> int \<times> process" where
  "net_listen os sock sa n =
     (case os_bind os sa of
        Some e \<Rightarrow> (EG_NET_ERR, close_sock sock (net_set_error (ascii ''bind: '' @ strerror os e) n))
      | None \<Rightarrow>
          (let n = upd_sock sock (\<lambda>k. k\<lparr>sk_addr := Some sa\<rparr>) n;
               n = (case sa of sockaddr_un p \<Rightarrow> n\<lparr>paths := insert p (paths n)\<rparr> | _ \<Rightarrow> n)
           in case os_listen os sock of
                Some e \<Rightarrow> (EG_NET_ERR, close_sock sock (net_set_error (ascii ''listen: '' @ strerror os e) n))
              | None \<Rightarrow> (EG_NET_OK, upd_sock sock (\<lambda>k. k\<lparr>sk_backlog := Some 511\<rparr>) n)))"

text \<open>The results are those of the source: see the lemma \<open>net_set_nonblock_result\<close>.\<close>

definition net_set_nonblock :: "os \<Rightarrow> int \<Rightarrow> process \<Rightarrow> int \<times> process" where
  "net_set_nonblock os cfd n =
     (case os_getfl os cfd of
        Some e \<Rightarrow> (EG_NET_OK, net_set_error (ascii ''fcntl: '' @ strerror os e) n)
      | None \<Rightarrow>
          (case os_setfl os cfd of
             Some e \<Rightarrow> (EG_NET_ERR, net_set_error (ascii ''fcntl: '' @ strerror os e) n)
           | None \<Rightarrow> (EG_NET_ERR, upd_sock cfd (\<lambda>k. k\<lparr>sk_flags := sk_flags k OR O_NONBLOCK\<rparr>) n)))"

definition net_tcp_nodelay :: "os \<Rightarrow> int \<Rightarrow> process \<Rightarrow> int \<times> process" where
  "net_tcp_nodelay os cfd n =
     (case os_tcp_nodelay os cfd of
        Some e \<Rightarrow> (EG_NET_ERR, net_set_error (ascii ''setsockopt: '' @ strerror os e) n)
      | None \<Rightarrow> (EG_NET_OK, upd_sock cfd (\<lambda>k. k\<lparr>sk_nodelay := True\<rparr>) n))"

definition new_sock :: "domain \<Rightarrow> sock" where
  "new_sock dm = \<lparr>sk_domain = dm, sk_reuse = False, sk_addr = None, sk_backlog = None, sk_flags = 0, sk_nodelay = False\<rparr>"

definition net_create_socket :: "os \<Rightarrow> domain \<Rightarrow> process \<Rightarrow> int \<times> process" where
  "net_create_socket os dm n =
     (case os_socket os dm of
        Inl e \<Rightarrow> (EG_NET_ERR, net_set_error (ascii ''socket: '' @ strerror os e) n)
      | Inr sock \<Rightarrow>
          (let n = n\<lparr>socks := (socks n)(sock \<mapsto> new_sock dm)\<rparr>
           in case os_reuseaddr os sock of
                Some e \<Rightarrow> (EG_NET_ERR, net_set_error (ascii ''setsockopt: '' @ strerror os e) n)
              | None \<Rightarrow> (sock, upd_sock sock (\<lambda>k. k\<lparr>sk_reuse := True\<rparr>) n)))"

text \<open>\<open>htons\<close> keeps 16 bits of the port; without an address every interface is meant (\<open>INADDR_ANY\<close>).\<close>

definition net_tcp_server :: "os \<Rightarrow> bytes option \<Rightarrow> int \<Rightarrow> process \<Rightarrow> int \<times> process" where
  "net_tcp_server os addr port n =
     (let (sock, n) = net_create_socket os AF_INET n
      in if sock = EG_NET_ERR then (EG_NET_ERR, n)
         else case (case addr of None \<Rightarrow> Some 0 | Some a \<Rightarrow> inet_aton os a) of
                None \<Rightarrow> (EG_NET_ERR, close_sock sock (net_set_error (ascii ''Invalid bind address'') n))
              | Some ip \<Rightarrow>
                  (let (r, n) = net_listen os sock (sockaddr_in (word_of_int port) ip) n
                   in if r = EG_NET_ERR then (EG_NET_ERR, n) else (sock, n)))"

text \<open>
  \<open>strncpy\<close> copies what fits in \<open>sun_path\<close>. The mode \<open>perm\<close> of the file is not kept; the server never
  sets one.
\<close>

definition net_unix_server :: "os \<Rightarrow> bytes \<Rightarrow> process \<Rightarrow> int \<times> process" where
  "net_unix_server os path n =
     (let (sock, n) = net_create_socket os AF_LOCAL n
      in if sock = EG_NET_ERR then (EG_NET_ERR, n)
         else
           (let (r, n) = net_listen os sock (sockaddr_un (take (SUN_PATH_LEN - 1) path)) n
            in if r = EG_NET_ERR then (EG_NET_ERR, n) else (sock, n)))"

text \<open>The loop of \<open>net_generic_accept\<close> from the \<open>i\<close>-th call of \<open>accept\<close> on.\<close>

partial_function (option) accept_from ::
    "os \<Rightarrow> int \<Rightarrow> nat \<Rightarrow> process \<Rightarrow> (int \<times> sockaddr option \<times> process) option" where [code]:
  "accept_from os d i n =
     (case os_accept os d i of
        Inl e \<Rightarrow> if e = EINTR then accept_from os d (i + 1) n
                 else Some (EG_NET_ERR, None, net_set_error (ascii ''accept: '' @ strerror os e) n)
      | Inr (cfd, sa) \<Rightarrow>
          Some (cfd, Some sa, n\<lparr>socks := (socks n)(cfd \<mapsto> new_sock (case sa of sockaddr_in _ _ \<Rightarrow> AF_INET | sockaddr_un _ \<Rightarrow> AF_LOCAL))\<rparr>))"

definition net_generic_accept :: "os \<Rightarrow> int \<Rightarrow> process \<Rightarrow> (int \<times> sockaddr option \<times> process) option" where
  "net_generic_accept os d n = accept_from os d 0 n"

definition inet_ntoa :: "u32 \<Rightarrow> bytes" where
  "inet_ntoa a = decimal (unat (drop_bit 24 a)) @ ascii ''.'' @ decimal (unat (take_bit 8 (drop_bit 16 a))) @ ascii ''.'' @
     decimal (unat (take_bit 8 (drop_bit 8 a))) @ ascii ''.'' @ decimal (unat (take_bit 8 a))"

text \<open>The descriptor, and the address and the port of the peer that it stores through \<open>ip\<close> and \<open>port\<close>.\<close>

definition net_tcp_accept :: "os \<Rightarrow> int \<Rightarrow> process \<Rightarrow> (int \<times> (bytes \<times> int) option \<times> process) option" where
  "net_tcp_accept os d n = do {
     (cfd, sa, n) \<leftarrow> net_generic_accept os d n;
     if cfd = EG_NET_ERR then Some (EG_NET_ERR, None, n)
     else case sa of
            Some (sockaddr_in port ip) \<Rightarrow> Some (cfd, Some (inet_ntoa ip, uint port), n)
          | _ \<Rightarrow> None }"

definition net_unix_accept :: "os \<Rightarrow> int \<Rightarrow> process \<Rightarrow> (int \<times> process) option" where
  "net_unix_accept os d n = do {
     (cfd, _, n) \<leftarrow> net_generic_accept os d n;
     if cfd = EG_NET_ERR then Some (EG_NET_ERR, n) else Some (cfd, n) }"

section \<open>What the calls leave behind\<close>

text \<open>The system hands out neither a descriptor that is open, nor a negative one, nor the same one twice.\<close>

definition fresh_descriptor :: "os \<Rightarrow> domain \<Rightarrow> process \<Rightarrow> bool" where
  "fresh_descriptor os dm n \<longleftrightarrow> (\<forall>d. os_socket os dm = Inr d \<longrightarrow> 0 \<le> d \<and> socks n d = None)"

definition fresh_descriptors :: "os \<Rightarrow> process \<Rightarrow> bool" where
  "fresh_descriptors os n \<longleftrightarrow> (\<forall>dm. fresh_descriptor os dm n) \<and> (\<forall>d. os_socket os AF_INET = Inr d \<longrightarrow> os_socket os AF_LOCAL \<noteq> Inr d)"

text \<open>The socket that \<open>net_create_socket\<close> loses: it is made, but the option cannot be set.\<close>

definition lost_socket :: "os \<Rightarrow> domain \<Rightarrow> int option" where
  "lost_socket os dm = (case os_socket os dm of Inl _ \<Rightarrow> None
     | Inr d \<Rightarrow> if os_reuseaddr os d = None then None else Some d)"

definition listener :: "domain \<Rightarrow> sockaddr \<Rightarrow> sock" where
  "listener dm sa = \<lparr>sk_domain = dm, sk_reuse = True, sk_addr = Some sa, sk_backlog = Some 511, sk_flags = 0, sk_nodelay = False\<rparr>"

lemma upd_sock_simps [simp]:
  "socks (upd_sock d f n) = (socks n)(d := map_option f (socks n d))" "net_error (upd_sock d f n) = net_error n"
  "paths (upd_sock d f n) = paths n" "killed (upd_sock d f n) = killed n" "srv_fd (upd_sock d f n) = srv_fd n"
  "srv_sfd (upd_sock d f n) = srv_sfd n"
  by (simp_all add: upd_sock_def)

lemma close_sock_simps [simp]:
  "socks (close_sock d n) = (socks n)(d := None)" "net_error (close_sock d n) = net_error n" "paths (close_sock d n) = paths n"
  "killed (close_sock d n) = killed n" "srv_fd (close_sock d n) = srv_fd n" "srv_sfd (close_sock d n) = srv_sfd n"
  by (simp_all add: close_sock_def)

lemma net_set_error_simps [simp]:
  "socks (net_set_error m n) = socks n" "paths (net_set_error m n) = paths n" "killed (net_set_error m n) = killed n"
  "srv_fd (net_set_error m n) = srv_fd n" "srv_sfd (net_set_error m n) = srv_sfd n"
  "net_error (net_set_error m n) = map_option (\<lambda>_. take (NET_ERR_LEN - 1) m) (net_error n)"
  by (simp_all add: net_set_error_def)

lemma net_create_socket_result:
  assumes "fresh_descriptor os dm n" "net_create_socket os dm n = (r, n')"
  shows "(0 \<le> r \<and> socks n r = None \<and> n' = n\<lparr>socks := (socks n)(r \<mapsto> (new_sock dm)\<lparr>sk_reuse := True\<rparr>)\<rparr> \<and> lost_socket os dm = None \<and> os_socket os dm = Inr r) \<or>
    (r = EG_NET_ERR \<and> socks n' = (case lost_socket os dm of None \<Rightarrow> socks n | Some d \<Rightarrow> (socks n)(d \<mapsto> new_sock dm)) \<and> paths n' = paths n)"
proof (cases "os_socket os dm")
  case (Inl e)
  then show ?thesis using assms(2) by (auto simp: net_create_socket_def lost_socket_def)
next
  case (Inr d)
  then have "0 \<le> d" "socks n d = None" using assms(1) by (auto simp: fresh_descriptor_def)
  then show ?thesis using assms(2) Inr
    by (auto simp: net_create_socket_def lost_socket_def upd_sock_def Let_def split: option.split_asm)
qed

lemma net_listen_result:
  assumes "net_listen os d sa n = (r, n')" "socks n d = Some ((new_sock dm)\<lparr>sk_reuse := True\<rparr>)"
  shows "(r = EG_NET_OK \<and> socks n' = (socks n)(d \<mapsto> listener dm sa) \<and> net_error n' = net_error n \<and>
      paths n' = paths n \<union> {p. sa = sockaddr_un p}) \<or>
    (r = EG_NET_ERR \<and> socks n' = (socks n)(d := None) \<and> paths n' \<subseteq> paths n \<union> {p. sa = sockaddr_un p})"
  using assms by (auto simp: net_listen_def Let_def listener_def new_sock_def split: option.split_asm sockaddr.split_asm)

lemma net_server_result:
  assumes fr: "fresh_descriptor os dm n"
    and "net_create_socket os dm n = (d, n1)" "d \<noteq> EG_NET_ERR" "net_listen os d sa n1 = (r, n')"
  shows "(r = EG_NET_OK \<and> 0 \<le> d \<and> socks n d = None \<and> socks n' = (socks n)(d \<mapsto> listener dm sa) \<and> net_error n' = net_error n \<and>
      paths n' = paths n \<union> {p. sa = sockaddr_un p}) \<or>
    (r = EG_NET_ERR \<and> socks n' = socks n \<and> lost_socket os dm = None)"
proof -
  have *: "0 \<le> d" "socks n d = None" "n1 = n\<lparr>socks := (socks n)(d \<mapsto> (new_sock dm)\<lparr>sk_reuse := True\<rparr>)\<rparr>" "lost_socket os dm = None"
    using net_create_socket_result [OF fr assms(2)] assms(3) by auto
  then show ?thesis using net_listen_result [OF assms(4), of dm] by (auto simp: fun_upd_idem)
qed

lemma net_tcp_server_result:
  assumes fr: "fresh_descriptor os AF_INET n" and c: "net_tcp_server os addr port n = (r, n')"
  shows "(0 \<le> r \<and> os_socket os AF_INET = Inr r \<and> socks n r = None \<and> net_error n' = net_error n \<and> paths n' = paths n \<and>
      (\<exists>ip. (case addr of None \<Rightarrow> ip = 0 | Some a \<Rightarrow> inet_aton os a = Some ip) \<and>
         socks n' = (socks n)(r \<mapsto> listener AF_INET (sockaddr_in (word_of_int port) ip)))) \<or>
    (r = EG_NET_ERR \<and>
      socks n' = (case lost_socket os AF_INET of None \<Rightarrow> socks n | Some d \<Rightarrow> (socks n)(d \<mapsto> new_sock AF_INET)))"
proof -
  obtain d n1 where cs: "net_create_socket os AF_INET n = (d, n1)" by (cases "net_create_socket os AF_INET n")
  show ?thesis
  proof (cases "d = EG_NET_ERR")
    case True
    then have "r = EG_NET_ERR" "n' = n1" using c cs by (simp_all add: net_tcp_server_def)
    then show ?thesis using net_create_socket_result [OF fr cs] True by (auto simp: EG_NET_ERR_def)
  next
    case False
    have d: "socks n d = None" "n1 = n\<lparr>socks := (socks n)(d \<mapsto> (new_sock AF_INET)\<lparr>sk_reuse := True\<rparr>)\<rparr>" "lost_socket os AF_INET = None" "os_socket os AF_INET = Inr d"
      using net_create_socket_result [OF fr cs] False by auto
    show ?thesis
    proof (cases "case addr of None \<Rightarrow> Some 0 | Some a \<Rightarrow> inet_aton os a")
      case None
      then show ?thesis using c cs False d by (auto simp: net_tcp_server_def EG_NET_ERR_def fun_upd_idem)
    next
      case (Some ip)
      obtain q n2 where l: "net_listen os d (sockaddr_in (word_of_int port) ip) n1 = (q, n2)"
        by (cases "net_listen os d (sockaddr_in (word_of_int port) ip) n1")
      have "(r, n') = (if q = EG_NET_ERR then (EG_NET_ERR, n2) else (d, n2))"
        using c cs False Some l by (simp add: net_tcp_server_def Let_def)
      moreover have "(case addr of None \<Rightarrow> ip = 0 | Some a \<Rightarrow> inet_aton os a = Some ip)" using Some by (auto split: option.split_asm)
      ultimately show ?thesis using net_server_result [OF fr cs False l] d(3,4) by (auto simp: EG_NET_ERR_def EG_NET_OK_def split: if_split_asm)
    qed
  qed
qed

lemma net_unix_server_result:
  assumes fr: "fresh_descriptor os AF_LOCAL n" and c: "net_unix_server os path n = (r, n')"
  shows "(0 \<le> r \<and> socks n r = None \<and> net_error n' = net_error n \<and> paths n' = insert (take 107 path) (paths n) \<and>
      socks n' = (socks n)(r \<mapsto> listener AF_LOCAL (sockaddr_un (take 107 path)))) \<or>
    (r = EG_NET_ERR \<and>
      socks n' = (case lost_socket os AF_LOCAL of None \<Rightarrow> socks n | Some d \<Rightarrow> (socks n)(d \<mapsto> new_sock AF_LOCAL)))"
proof -
  obtain d n1 where cs: "net_create_socket os AF_LOCAL n = (d, n1)" by (cases "net_create_socket os AF_LOCAL n")
  show ?thesis
  proof (cases "d = EG_NET_ERR")
    case True
    then have "r = EG_NET_ERR" "n' = n1" using c cs by (simp_all add: net_unix_server_def)
    then show ?thesis using net_create_socket_result [OF fr cs] True by (auto simp: EG_NET_ERR_def)
  next
    case False
    obtain q n2 where l: "net_listen os d (sockaddr_un (take 107 path)) n1 = (q, n2)"
      by (cases "net_listen os d (sockaddr_un (take 107 path)) n1")
    have "(r, n') = (if q = EG_NET_ERR then (EG_NET_ERR, n2) else (d, n2))"
      using c cs False l by (simp add: net_unix_server_def SUN_PATH_LEN_def Let_def)
    then show ?thesis using net_server_result [OF fr cs False l] by (auto simp: EG_NET_ERR_def EG_NET_OK_def split: if_split_asm)
  qed
qed

text \<open>
  \<open>net_set_nonblock\<close> answers an error when it has worked, and success when it has done nothing at
  all; its only caller ignores the answer.
\<close>

lemma net_set_nonblock_result:
  assumes "net_set_nonblock os d n = (r, n')"
  shows "r = EG_NET_OK \<longleftrightarrow> os_getfl os d \<noteq> None"
    and "r = EG_NET_OK \<Longrightarrow> socks n' = socks n"
    and "os_getfl os d = None \<Longrightarrow> os_setfl os d = None \<Longrightarrow> socks n d = Some k \<Longrightarrow>
      r = EG_NET_ERR \<and> (\<exists>k'. socks n' d = Some k' \<and> sk_flags k' AND O_NONBLOCK = O_NONBLOCK)"
  using assms by (auto simp: net_set_nonblock_def EG_NET_OK_def EG_NET_ERR_def bit_eq_iff bit_simps split: option.split_asm)

text \<open>An interrupted \<open>accept\<close> is repeated; only calls interrupted for ever do not return.\<close>

lemma accept_from_result:
  assumes "\<forall>j. i \<le> j \<longrightarrow> j < k \<longrightarrow> os_accept os d j = Inl EINTR" "i \<le> k" "os_accept os d k \<noteq> Inl EINTR"
  shows "accept_from os d i n = (case os_accept os d k of
      Inl e \<Rightarrow> Some (EG_NET_ERR, None, net_set_error (ascii ''accept: '' @ strerror os e) n)
    | Inr (cfd, sa) \<Rightarrow>
        Some (cfd, Some sa, n\<lparr>socks := (socks n)(cfd \<mapsto> new_sock (case sa of sockaddr_in _ _ \<Rightarrow> AF_INET | sockaddr_un _ \<Rightarrow> AF_LOCAL))\<rparr>))"
  using assms
proof (induction "k - i" arbitrary: i)
  case 0
  then have "i = k" by simp
  then show ?case using assms(3) by (subst accept_from.simps) (auto split: sum.split)
next
  case (Suc m)
  then have "os_accept os d i = Inl EINTR" by simp
  then have "accept_from os d i n = accept_from os d (i + 1) n" by (subst accept_from.simps) simp
  then show ?case using Suc.hyps(1) [of "i + 1"] Suc.hyps(2) Suc.prems by simp
qed

text \<open>The text \<open>inet_ntoa\<close> writes fits in the \<open>ip[128]\<close> of the caller.\<close>

lemma decimal_byte: "n < 1000 \<Longrightarrow> length (decimal n) \<le> 3"
  by (simp add: decimal.simps [of n] decimal.simps [of "n div 10"] decimal.simps [of "n div 10 div 10"])

lemma inet_ntoa_fits: "length (inet_ntoa a) < 16"
proof -
  have "unat (take_bit 8 b) < 1000" for b :: u32
    using take_bit_nat_less_exp [of 8 "unat b"] by (simp add: unsigned_take_bit_eq)
  moreover have "drop_bit 24 a = take_bit 8 (drop_bit 24 a)"
    by (rule bit_word_eqI) (auto simp: bit_simps dest: bit_imp_le_length)
  ultimately have "length (decimal (unat (drop_bit 24 a))) \<le> 3" "\<And>b :: u32. length (decimal (unat (take_bit 8 b))) \<le> 3"
    using decimal_byte by metis+
  from this(1) this(2) [of "drop_bit 16 a"] this(2) [of "drop_bit 8 a"] this(2) [of a] show ?thesis
    by (simp add: inet_ntoa_def ascii_def)
qed

section \<open>A sample system\<close>

text \<open>Every call succeeds; sockets are 6 and 7, connections come from port 9000 of 10.0.0.1.\<close>

definition sample_os :: os where
  "sample_os = \<lparr>os_socket = (\<lambda>dm. Inr (case dm of AF_INET \<Rightarrow> 6 | AF_LOCAL \<Rightarrow> 7)), os_reuseaddr = (\<lambda>_. None), os_bind = (\<lambda>_. None),
     os_listen = (\<lambda>_. None), os_getfl = (\<lambda>_. None), os_setfl = (\<lambda>_. None), os_tcp_nodelay = (\<lambda>_. None),
     os_accept = (\<lambda>_ i. if i < 2 then Inl EINTR else Inr (8, sockaddr_in 9000 0x0A000001)), os_fopen = (\<lambda>_. True),
     inet_aton = (\<lambda>a. if a = ascii ''127.0.0.1'' then Some 0x7F000001 else None), strerror = (\<lambda>_. ascii ''error'')\<rparr>"

definition sample_process :: process where
  "sample_process = \<lparr>socks = Map.empty, net_error = Some [], paths = {}, killed = [], srv_fd = 0, srv_sfd = 0\<rparr>"

lemma sample_fresh: "fresh_descriptors sample_os sample_process"
  by (simp add: fresh_descriptors_def fresh_descriptor_def sample_os_def sample_process_def split: domain.split)

section \<open>Properties\<close>



text \<open>
  C19. An \<open>accept\<close> that a signal interrupts is repeated until it answers: the connection is not lost, and the
  caller gets its descriptor and the address of its peer, or the first error that is not an interruption.
\<close>

theorem accept_retried:
  assumes "\<forall>j < k. os_accept os d j = Inl EINTR" "os_accept os d k \<noteq> Inl EINTR"
  shows "net_generic_accept os d n = (case os_accept os d k of
      Inl e \<Rightarrow> Some (EG_NET_ERR, None, net_set_error (ascii ''accept: '' @ strerror os e) n)
    | Inr (cfd, sa) \<Rightarrow>
        Some (cfd, Some sa, n\<lparr>socks := (socks n)(cfd \<mapsto> new_sock (case sa of sockaddr_in _ _ \<Rightarrow> AF_INET | sockaddr_un _ \<Rightarrow> AF_LOCAL))\<rparr>))"
  unfolding net_generic_accept_def by (rule accept_from_result) (use assms in auto)

theorem accept_retried_witness:
  "\<exists>n. net_tcp_accept sample_os 6 sample_process = Some (8, Some (ascii ''10.0.0.1'', 9000), n) \<and> socks n 8 \<noteq> None \<and>
     os_accept sample_os 6 1 = Inl EINTR"
proof -
  have "inet_ntoa 0x0A000001 = ascii ''10.0.0.1''"
    by (simp add: inet_ntoa_def decimal.simps ascii_def unsigned_take_bit_eq unsigned_drop_bit_eq drop_bit_eq_div take_bit_eq_mod)
  then show ?thesis
    using accept_retried [of 2 sample_os 6 sample_process] by (simp add: net_tcp_accept_def sample_os_def EG_NET_ERR_def)
qed

end
