(* ===== verification/EagleServer.thy ===== *)
theory EagleServer
  imports Frame Timers Network Requests
begin

text \<open>
  The server as a whole: the periodic work of src/eagle.c (\<open>check_memory\<close>,
  \<open>process_queues_messages\<close>, \<open>storage_timeout\<close>, \<open>server_updater\<close>), its start (\<open>init_server_config\<close>,
  \<open>init_server\<close>, \<open>init_admin\<close>, \<open>init_storage\<close>) and the event loop of src/event.c that drives it
  (\<open>process_time_events\<close>, \<open>process_events\<close>, \<open>start_main_loop\<close>) over \<open>event_api_poll\<close> of
  src/event_epoll.c.
\<close>

section \<open>The periodic work\<close>

definition EG_MEMORY_CHECK_TIMEOUT :: int where "EG_MEMORY_CHECK_TIMEOUT = 10"

definition check_memory :: "server \<Rightarrow> server" where
  "check_memory s =
     (if max_memory s \<noteq> 0 then
        (if used_memory (env s) > max_memory s then
           s\<lparr>last_memcheck := (if now_time s - last_memcheck s > EG_MEMORY_CHECK_TIMEOUT then now_time s else last_memcheck s),
             nomemory := True\<rparr>
         else s\<lparr>nomemory := False\<rparr>)
      else s)"

definition process_queues_messages :: "server \<Rightarrow> server option" where
  "process_queues_messages s = for_each (\<lambda>q s. do {
     s \<leftarrow> process_expired_messages_queue_t q (word_of_int (now_timems s)) s;
     process_unconfirmed_messages_queue_t q (word_of_int (now_timems s)) s }) (queues s) s"

text \<open>\<open>storage_timeout\<close>; \<open>wait3\<close> answers non-zero when the child has ended.\<close>

definition storage_timeout_check :: "server \<Rightarrow> server" where
  "storage_timeout_check s =
     (let s = (if child_pid s \<noteq> None \<and> child_ended (env s) then s\<lparr>child_pid := None\<rparr> else s)
      in if storage_timeout s \<noteq> 0 \<and> child_pid s = None \<and> now_time s - last_save s > storage_timeout s
         then (case storage_save_background s of (_, s) \<Rightarrow> s\<lparr>last_save := now_time s\<rparr>)
         else s)"

definition stop_event_loop :: "event_loop \<Rightarrow> event_loop" where
  "stop_event_loop l = l\<lparr>stop := True\<rparr>"

text \<open>The signal only sets a flag; \<open>server_updater\<close> ends the loop.\<close>

definition sigterm_handler :: "server \<Rightarrow> server" where
  "sigterm_handler s = s\<lparr>shutdown := True\<rparr>"

text \<open>\<open>server_updater\<close>, with the number of milliseconds until it wants to run again.\<close>

definition server_updater_handler :: "server \<Rightarrow> (int \<times> server) option" where
  "server_updater_handler s = do {
     let s = s\<lparr>now_time := time_NULL (env s), now_timems := mstime (env s), msg_counter := 0\<rparr>;
     let s = check_memory s;
     s \<leftarrow> client_timeout_check s;
     s \<leftarrow> process_queues_messages s;
     let s = storage_timeout_check s;
     Some (100, if shutdown s then s\<lparr>loop := stop_event_loop (loop s)\<rparr> else s) }"

section \<open>The event loop\<close>

definition run_timer :: "time_handler \<Rightarrow> server \<Rightarrow> (int \<times> server) option" where
  "run_timer h s = (case h of server_updater \<Rightarrow> server_updater_handler s)"

text \<open>The new time of the timer that has run; -1 asks for its deletion.\<close>

definition reschedule :: "int \<Rightarrow> int \<Rightarrow> server \<Rightarrow> server" where
  "reschedule i retval s =
     (if retval \<noteq> -1
      then (case add_milliseconds_to_now retval (env s) of (sec, ms) \<Rightarrow>
        s\<lparr>loop := (loop s)\<lparr>time_events := map (\<lambda>te. if tid te = i then te\<lparr>tsec := sec, tms := ms\<rparr> else te) (time_events (loop s))\<rparr>\<rparr>)
      else s\<lparr>loop := snd (delete_time_event i (loop s))\<rparr>)"

text \<open>\<open>tes\<close> is the rest of the list; after a timer has run the scan starts again.\<close>

partial_function (option) timers_from :: "int \<Rightarrow> time_event list \<Rightarrow> nat \<Rightarrow> server \<Rightarrow> (nat \<times> server) option" where [code]:
  "timers_from max_id tes processed s = (case tes of
     [] \<Rightarrow> Some (processed, s)
   | te # tes' \<Rightarrow>
       if tid te > max_id then timers_from max_id tes' processed s
       else if timer_due te (env s) then
         Option.bind (run_timer (thandler te) s) (\<lambda>(retval, s').
           let s'' = reschedule (tid te) retval s'
           in timers_from max_id (time_events (loop s'')) (processed + 1) s'')
       else timers_from max_id tes' processed s)"

definition process_time_events :: "server \<Rightarrow> (nat \<times> server) option" where
  "process_time_events s = timers_from (time_event_id (loop s) - 1) (time_events (loop s)) 0 s"

text \<open>
  What the operating system does during one turn of the loop: the environment at that time, whether the
  process has got its SIGTERM since the turn before (a second one would kill it: \<open>SA_RESETHAND\<close>), what \<open>epoll_wait\<close> answers for a timeout, and the results
  of \<open>accept\<close> (-1 is an error), \<open>read\<close> and \<open>write\<close> on each descriptor.
\<close>

record turn =
  env_now :: environment
  got_sigterm :: bool
  epoll_wait :: "int \<Rightarrow> (int \<times> u32) list"
  accept_fd :: "int \<Rightarrow> int"
  read_fd :: "int \<Rightarrow> read_result"
  write_fd :: "int \<Rightarrow> write_result list"

definition EPOLLERR :: u32 where "EPOLLERR = 8"
definition EPOLLHUP :: u32 where "EPOLLHUP = 16"

definition fired_mask :: "u32 \<Rightarrow> u32" where
  "fired_mask ev = (if ev AND EPOLLIN \<noteq> 0 then EG_EVENT_READABLE else 0) OR
     (if ev AND EPOLLOUT \<noteq> 0 then EG_EVENT_WRITABLE else 0) OR
     (if ev AND EPOLLERR \<noteq> 0 then EG_EVENT_WRITABLE else 0) OR
     (if ev AND EPOLLHUP \<noteq> 0 then EG_EVENT_WRITABLE else 0)"

definition event_api_poll :: "turn \<Rightarrow> (int \<times> int) option \<Rightarrow> (int \<times> u32) list" where
  "event_api_poll t tvp = map (\<lambda>(d, ev). (d, fired_mask ev)) (epoll_wait t (poll_timeout tvp))"

text \<open>The handlers a file event can have; \<open>data\<close> is the client.\<close>

definition run_file_handler :: "turn \<Rightarrow> file_handler \<Rightarrow> int \<Rightarrow> addr option \<Rightarrow> server \<Rightarrow> server option" where
  "run_file_handler t h d data s = (case h of
     accept_tcp_handler \<Rightarrow> if accept_fd t d = -1 then Some s else accept_common_handler (accept_fd t d) s
   | accept_unix_handler \<Rightarrow> if accept_fd t d = -1 then Some s else accept_common_handler (accept_fd t d) s
   | read_request \<Rightarrow> do { client \<leftarrow> data; read_request_handler (read_fd t d) client s }
   | send_response \<Rightarrow> do { client \<leftarrow> data; (_, s) \<leftarrow> send_response_handler (write_fd t d) client s; Some s })"

text \<open>One fired event. \<open>file_event\<close> points into the table, so the second test sees what the read
  handler did to it.\<close>

definition fire_event :: "turn \<Rightarrow> int \<times> u32 \<Rightarrow> server \<Rightarrow> server option" where
  "fire_event t = (\<lambda>(d, mask) s. do {
     ev \<leftarrow> event_at (loop s) d;
     let rfired = (emask ev AND mask AND EG_EVENT_READABLE \<noteq> 0);
     s \<leftarrow> (if rfired then do { h \<leftarrow> read_handler ev; run_file_handler t h d (edata ev) s } else Some s);
     ev \<leftarrow> event_at (loop s) d;
     if emask ev AND mask AND EG_EVENT_WRITABLE \<noteq> 0 \<and> (\<not> rfired \<or> write_handler ev \<noteq> read_handler ev)
     then do { h \<leftarrow> write_handler ev; run_file_handler t h d (edata ev) s }
     else Some s })"

definition EG_EVENT_FILE :: u32 where "EG_EVENT_FILE = 1"
definition EG_EVENT_TIME :: u32 where "EG_EVENT_TIME = 2"
definition EG_EVENTS_ALL :: u32 where "EG_EVENTS_ALL = 3"
definition EG_DONT_WAIT :: u32 where "EG_DONT_WAIT = 4"

definition process_events :: "turn \<Rightarrow> u32 \<Rightarrow> server \<Rightarrow> (nat \<times> server) option" where
  "process_events t flags s =
     (if flags AND EG_EVENT_TIME = 0 \<and> flags AND EG_EVENT_FILE = 0 then Some (0, s)
      else do {
        (processed, s) \<leftarrow>
          (if maxfd (loop s) \<noteq> -1 \<or> (flags AND EG_EVENT_TIME \<noteq> 0 \<and> flags AND EG_DONT_WAIT = 0) then do {
             let shortest = (if flags AND EG_EVENT_TIME \<noteq> 0 \<and> flags AND EG_DONT_WAIT = 0
                             then search_nearest_timer (loop s) else None);
             let tvp = (case shortest of
                 Some te \<Rightarrow> Some (timer_wait te (env s))
               | None \<Rightarrow> if flags AND EG_DONT_WAIT \<noteq> 0 then Some (0, 0) else None);
             let fired = event_api_poll t tvp;
             s \<leftarrow> for_each (fire_event t) fired s;
             Some (length fired, s) }
           else Some (0, s));
        if flags AND EG_EVENT_TIME \<noteq> 0 then do {
          (n, s) \<leftarrow> process_time_events s;
          Some (processed + n, s) }
        else Some (processed, s) })"

text \<open>The main loop for as many turns as are given. No \<open>before_sleep_handler\<close> is ever set.\<close>

definition begin_turn :: "turn \<Rightarrow> server \<Rightarrow> server" where
  "begin_turn t s = (if got_sigterm t then sigterm_handler (s\<lparr>env := env_now t\<rparr>) else s\<lparr>env := env_now t\<rparr>)"

fun main_loop :: "turn list \<Rightarrow> server \<Rightarrow> server option" where
  "main_loop [] s = Some s"
| "main_loop (t # ts) s =
     (if stop (loop s) then Some s
      else do { (_, s) \<leftarrow> process_events t EG_EVENTS_ALL (begin_turn t s); main_loop ts s })"

definition start_main_loop :: "turn list \<Rightarrow> server \<Rightarrow> server option" where
  "start_main_loop ts s = main_loop ts (s\<lparr>loop := (loop s)\<lparr>stop := False\<rparr>\<rparr>)"

section \<open>Starting\<close>

definition EG_USER_SUPER_PERM :: u64 where "EG_USER_SUPER_PERM = 0x7F"

text \<open>The kernel accepts what it is asked to watch as \<open>epoll_ctl\<close> says; \<open>epoll_create\<close> succeeds.\<close>

definition create_event_loop :: "(epoll_op \<Rightarrow> int \<Rightarrow> u32 \<Rightarrow> bool) \<Rightarrow> nat \<Rightarrow> event_loop" where
  "create_event_loop ctl sz = \<lparr>maxfd = -1,
     events = replicate sz \<lparr>emask = EG_EVENT_NONE, read_handler = None, write_handler = None, edata = None\<rparr>,
     time_event_id = 0, time_events = [], stop = False, epoll_ctl = ctl, interest = Map.empty\<rparr>"

text \<open>\<open>init_server_config\<close> and the options that \<open>parse_args\<close> set; the loop is made later.\<close>

definition init_server_config :: "environment \<Rightarrow> settings \<Rightarrow> event_loop \<Rightarrow> bytes option \<Rightarrow> server" where
  "init_server_config e st l sf = \<lparr>env = e, loop = l, clients = [], users = [], queues = [], routes = [], channels = [],
     now_time = time_NULL e, now_timems = mstime e, start_time = time_NULL e, last_save = time_NULL e,
     last_memcheck = time_NULL e, nomemory = False, msg_counter = 0, max_clients = max_clients_opt st,
     max_memory = nat (max_memory_opt st), client_timeout = client_timeout_opt st, storage_timeout = storage_timeout_opt st,
     child_pid = None, shutdown = False, storage_file = sf, object_mem = Map.empty, message_mem = Map.empty,
     queue_mem = Map.empty, route_mem = Map.empty, channel_mem = Map.empty, user_mem = Map.empty, client_mem = Map.empty,
     fresh = 0\<rparr>"

text \<open>
  \<open>unblock_open_files_limit\<close>: \<open>rlim_t\<close> and \<open>max_clients\<close> have 64 bits, so a limit below 32 that cannot be
  raised wraps round.
\<close>

definition unblock_open_files_limit :: "server \<Rightarrow> server" where
  "unblock_open_files_limit s =
     (let maxfiles = max 1024 ((max_clients s + 32) mod 2 ^ 64)
      in case nofile_limit (env s) of
           None \<Rightarrow> s\<lparr>max_clients := 1024 - 32\<rparr>
         | Some oldlimit \<Rightarrow>
             (if oldlimit < maxfiles \<and> \<not> setrlimit_ok (env s) maxfiles
              then s\<lparr>max_clients := nat ((int oldlimit - 32) mod 2 ^ 64)\<rparr> else s))"

definition create_pid_file :: "os \<Rightarrow> bytes \<Rightarrow> process \<Rightarrow> process" where
  "create_pid_file os p n = (if os_fopen os p then n\<lparr>paths := insert p (paths n)\<rparr> else n)"

text \<open>
  The sockets of \<open>init_server\<close>. \<open>None\<close> is \<open>fatal\<close>. A stale unix socket is unlinked first.
\<close>

definition open_tcp :: "os \<Rightarrow> settings \<Rightarrow> process \<Rightarrow> process option" where
  "open_tcp os st n =
     (if port_opt st \<noteq> 0 then
        (let (d, n) = net_tcp_server os (Some (addr_opt st)) (port_opt st) n
         in if d = EG_NET_ERR then None else Some (n\<lparr>srv_fd := d\<rparr>))
      else Some n)"

definition open_unix :: "os \<Rightarrow> settings \<Rightarrow> process \<Rightarrow> process option" where
  "open_unix os st n = (case unix_socket_opt st of
     None \<Rightarrow> Some n
   | Some path \<Rightarrow>
       (let (d, n) = net_unix_server os path (unlink_path path n)
        in if d = EG_NET_ERR then None else Some (n\<lparr>srv_sfd := d\<rparr>)))"

definition listen_on :: "int \<Rightarrow> file_handler \<Rightarrow> event_loop \<Rightarrow> event_loop option" where
  "listen_on d h l =
     (if d > 0 then do { (r, l) \<leftarrow> create_file_event d EG_EVENT_READABLE h None l; if r = EG_STATUS_ERR then None else Some l }
      else Some l)"

text \<open>
  The size of the loop is an \<open>int\<close>: a number of clients that makes it negative asks \<open>xmalloc\<close> for more
  memory than there is, which ends the process, so this is \<open>None\<close> too.
\<close>

definition init_server ::
    "(epoll_op \<Rightarrow> int \<Rightarrow> u32 \<Rightarrow> bool) \<Rightarrow> os \<Rightarrow> settings \<Rightarrow> server \<Rightarrow> process \<Rightarrow> (server \<times> process) option" where
  "init_server ctl os st s n = do {
     let n = (case pidfile_opt st of None \<Rightarrow> n | Some p \<Rightarrow> create_pid_file os p n);
     let s = unblock_open_files_limit s;
     let sz = sint (of_nat (max_clients s + 1) :: u32);
     if sz < 0 then None
     else do {
       n \<leftarrow> open_tcp os st n;
       n \<leftarrow> open_unix os st n;
       if srv_fd n < 0 \<and> srv_sfd n < 0 then None
       else do {
         l \<leftarrow> listen_on (srv_fd n) accept_tcp_handler (create_event_loop ctl (nat sz));
         l \<leftarrow> listen_on (srv_sfd n) accept_unix_handler l;
         Some (s\<lparr>loop := snd (create_time_event 1 server_updater (env s) l)\<rparr>, n) } } }"

definition init_admin :: "settings \<Rightarrow> server \<Rightarrow> server option" where
  "init_admin st s = do {
     (s, admin) \<leftarrow> create_user (name_opt st) (password_opt st) EG_USER_SUPER_PERM s;
     Some (s\<lparr>users := users s @ [admin]\<rparr>) }"

text \<open>
  A missing storage is created first. That it could not be written, or not be opened to be read, is only
  logged: the server starts without it.
\<close>

definition init_storage :: "server \<Rightarrow> load_result option" where
  "init_storage s = do {
     s \<leftarrow> (if storage_file s = None then do { (_, s) \<leftarrow> storage_save s; Some s } else Some s);
     r \<leftarrow> storage_load s;
     Some (case r of Not_opened \<Rightarrow> Loaded s | _ \<Rightarrow> r) }"

text \<open>
  \<open>main\<close> up to the main loop; \<open>None\<close> is \<open>fatal\<close> here too. \<open>init_server_config\<close> sets the descriptors to 0.
\<close>

definition boot ::
    "(epoll_op \<Rightarrow> int \<Rightarrow> u32 \<Rightarrow> bool) \<Rightarrow> os \<Rightarrow> environment \<Rightarrow> settings \<Rightarrow> bytes option \<Rightarrow> process \<Rightarrow> (load_result \<times> process) option" where
  "boot ctl os e st sf n = do {
     (s, n) \<leftarrow> init_server ctl os st (init_server_config e st (create_event_loop ctl 0) sf) (n\<lparr>srv_fd := 0, srv_sfd := 0\<rparr>);
     s \<leftarrow> init_admin st s;
     r \<leftarrow> init_storage s;
     Some (r, n) }"

section \<open>What the periodic work leaves alone\<close>

lemma free_client_steady:
  assumes "free_client client s = Some s'"
  shows "env s' = env s" "time_events (loop s') = time_events (loop s)" "time_event_id (loop s') = time_event_id (loop s)"
    "stop (loop s') = stop (loop s)" "shutdown s' = shutdown s"
proof -
  obtain s2 s3 c2 l1 l2 where "loop_view s2 = loop_view s" and v: "loop_view s3 = loop_view s" and "client_mem s2 client = Some c2" and s:
      "delete_file_event (fd c2) EG_EVENT_READABLE (loop s3) = Some l1" "delete_file_event (fd c2) EG_EVENT_WRITABLE l1 = Some l2"
      "s' = s3\<lparr>loop := l2, clients := snd (seq_delete client (clients s3)), client_mem := (client_mem s3)(client := None)\<rparr>"
    by (rule free_client_cases [OF assms])
  note d = delete_file_event_frame(1-3) [OF s(1)] delete_file_event_frame(1-3) [OF s(2)]
  show "env s' = env s" "time_events (loop s') = time_events (loop s)" "time_event_id (loop s') = time_event_id (loop s)"
    "stop (loop s') = stop (loop s)" "shutdown s' = shutdown s"
    using d loop_viewD [OF v] by (simp_all add: s(3))
qed

definition steady :: "server \<Rightarrow> server \<Rightarrow> bool" where
  "steady s s' \<longleftrightarrow> env s' = env s \<and> time_events (loop s') = time_events (loop s) \<and> time_event_id (loop s') = time_event_id (loop s) \<and>
     shutdown s' = shutdown s"

lemma steady_trans: "steady s s' \<Longrightarrow> steady s' s'' \<Longrightarrow> steady s s''"
  by (simp add: steady_def)

lemma steady_for_each:
  assumes "for_each f xs s = Some s'" "\<And>x s s'. f x s = Some s' \<Longrightarrow> steady s s'"
  shows "steady s s'"
  using assms(1)
proof (induction xs arbitrary: s)
  case (Cons x xs)
  then obtain s1 where "f x s = Some s1" "for_each f xs s1 = Some s'" by (auto simp: bind_eq_Some_conv)
  then show ?case using Cons.IH assms(2) steady_trans by metis
qed (simp add: steady_def)

lemma client_timeout_steady: "client_timeout_check s = Some s' \<Longrightarrow> steady s s'"
  unfolding client_timeout_check_def
  by (auto simp: bind_eq_Some_conv steady_def dest: free_client_steady split: if_split_asm elim!: steady_for_each [unfolded steady_def])

lemma process_queues_steady: "process_queues_messages s = Some s' \<Longrightarrow> steady s s'"
  unfolding process_queues_messages_def
proof (erule steady_for_each)
  fix q s s' assume "do { s \<leftarrow> process_expired_messages_queue_t q (word_of_int (now_timems s)) s;
     process_unconfirmed_messages_queue_t q (word_of_int (now_timems s)) s } = Some s'"
  then obtain s1 where "process_expired_messages_queue_t q (word_of_int (now_timems s)) s = Some s1"
      "process_unconfirmed_messages_queue_t q (word_of_int (now_timems s1)) s1 = Some s'" by (auto simp: bind_eq_Some_conv)
  then have "loop_view s' = loop_view s" by (metis lv.view_process_messages)
  then show "steady s s'" using loop_viewD [of s' s] by (simp add: steady_def)
qed

lemma server_updater_steady:
  assumes "server_updater_handler s = Some (r, s')"
  shows "r = 100" "env s' = env s" "time_events (loop s') = time_events (loop s)" "time_event_id (loop s') = time_event_id (loop s)"
    "shutdown s' = shutdown s" "shutdown s \<Longrightarrow> stop (loop s')"
proof -
  define s0 where "s0 = check_memory (s\<lparr>now_time := time_NULL (env s), now_timems := mstime (env s), msg_counter := 0\<rparr>)"
  define fin where "fin = (\<lambda>s2. let s = storage_timeout_check s2 in if shutdown s then s\<lparr>loop := stop_event_loop (loop s)\<rparr> else s)"
  have eq: "do { s1 \<leftarrow> client_timeout_check s0; s2 \<leftarrow> process_queues_messages s1; Some (100, fin s2) } = Some (r, s')"
    using assms by (simp only: server_updater_handler_def Let_def s0_def fin_def)
  obtain s1 where s1: "client_timeout_check s0 = Some s1" using eq by (cases "client_timeout_check s0") auto
  obtain s2 where s2: "process_queues_messages s1 = Some s2" using eq s1 by (cases "process_queues_messages s1") auto
  have "r = 100" "s' = fin s2" using eq by (simp_all add: s1 s2)
  note s = s1 s2 this(1) this(2) [unfolded fin_def Let_def]
  have "steady s0 s2" using client_timeout_steady [OF s(1)] process_queues_steady [OF s(2)] steady_trans by blast
  moreover have "steady s s0" by (simp add: s0_def check_memory_def steady_def)
  moreover have "steady s2 (storage_timeout_check s2)"
    by (simp add: steady_def storage_timeout_check_def storage_save_background_def Let_def)
  ultimately have "steady s (storage_timeout_check s2)" using steady_trans by blast
  then show "r = 100" "env s' = env s" "time_events (loop s') = time_events (loop s)" "time_event_id (loop s') = time_event_id (loop s)"
    "shutdown s' = shutdown s" "shutdown s \<Longrightarrow> stop (loop s')"
    using s(3) by (simp_all add: steady_def s(4) stop_event_loop_def)
qed

section \<open>Properties\<close>

text \<open>
  C20. A connection that is lost is closed cleanly: when \<open>read\<close> reports the end of the stream or an
  error, the event frees the client, takes its descriptor out of the event table, and does not
  go on to call the write handler on the freed client, even if both were signalled.
\<close>

theorem hangup_closes_once:
  assumes ev: "event_at (loop s) d = Some ev" "read_handler ev = Some read_request" "edata ev = Some client"
    "emask ev AND NOT (EG_EVENT_READABLE OR EG_EVENT_WRITABLE) = 0" "emask ev AND m AND EG_EVENT_READABLE \<noteq> 0"
    and c: "client_mem s client = Some c" "fd c = d" and eof: "read_fd t d = Read_eof \<or> read_fd t d = Read_failed"
    and f: "free_client client s = Some s'"
  shows "fire_event t (d, m) s = Some s' \<and> client_mem s' client = None \<and> get_file_events (loop s') d = Some EG_EVENT_NONE"
proof -
  have d: "0 \<le> d" "d < int (length (events (loop s)))" "events (loop s) ! nat d = ev"
    using ev(1) by (auto simp: event_at_def split: if_split_asm)
  note fr = free_client_frame [OF f c(1)]
  have e: "event_at (loop s') d = Some (events (loop s') ! nat d)" "emask (events (loop s') ! nat d) = EG_EVENT_NONE"
      "client_mem s' client = None" "d < int (length (events (loop s')))"
    using fr d c(2) ev(4) by (simp_all add: event_at_def)
  have "run_file_handler t read_request d (edata ev) s = Some s'"
    using eof f ev(3) by (auto simp: run_file_handler_def read_request_handler_def)
  then have "fire_event t (d, m) s = Some s'"
    using ev(1,2,5) e by (simp add: fire_event_def Let_def EG_EVENT_NONE_def)
  then show ?thesis using e by (simp add: get_file_events_def)
qed

text \<open>The client at address 2 on descriptor 3 whose peer hangs up while a response is waiting.\<close>

definition sample_turn :: turn where
  "sample_turn = \<lparr>env_now = env (sample_server [] 0), got_sigterm = False, epoll_wait = (\<lambda>_. []), accept_fd = (\<lambda>_. -1), read_fd = (\<lambda>_. Read_eof),
     write_fd = (\<lambda>_. [])\<rparr>"

definition sample_event :: file_event where
  "sample_event = \<lparr>emask = 3, read_handler = Some read_request, write_handler = Some send_response, edata = Some 2\<rparr>"

definition sample_busy :: server where
  "sample_busy = (sample_server [] 0)\<lparr>loop := sample_loop\<lparr>events := [idle_event, idle_event, idle_event, sample_event], maxfd := 3\<rparr>\<rparr>"

theorem hangup_closes_once_witness:
  "\<exists>s'. client_mem sample_busy 2 \<noteq> None \<and> fire_event sample_turn (3, 3) sample_busy = Some s' \<and> client_mem s' 2 = None"
proof -
  have c: "client_mem sample_busy 2 = Some (sample_client [] 0)" by (simp add: sample_busy_def sample_server_def)
  have ev: "event_at (loop sample_busy) 3 = Some sample_event"
    by (simp add: event_at_def sample_busy_def sample_loop_def)
  have "\<exists>s'. free_client 2 sample_busy = Some s'"
    by (simp add: free_client_def eject_queue_client_def eject_channel_client_def c sample_client_def delete_file_event_def
        event_api_delete_def event_at_def sample_busy_def sample_server_def sample_loop_def sample_event_def event_mask_defs Let_def)
  then obtain s' where s': "free_client 2 sample_busy = Some s'" by blast
  have "fire_event sample_turn (3, 3) sample_busy = Some s' \<and> client_mem s' 2 = None \<and> get_file_events (loop s') 3 = Some EG_EVENT_NONE"
    by (rule hangup_closes_once [OF ev _ _ _ _ c _ _ s'])
      (simp_all add: sample_event_def sample_client_def sample_turn_def event_mask_defs)
  then show ?thesis using c by blast
qed

lemma timer_pass:
  assumes te: "time_events (loop s) = [te]" "tid te < time_event_id (loop s)"
    and ok: "timer_due te (env s) \<Longrightarrow> server_updater_handler s = Some (r, s1)"
  shows "process_time_events s = (if timer_due te (env s)
      then Some (1, reschedule (tid te) 100 s1) else Some (0, s)) \<and>
    (timer_due te (env s) \<longrightarrow> (\<exists>te'. time_events (loop (reschedule (tid te) 100 s1)) = [te'] \<and> tid te' = tid te \<and>
       thandler te' = thandler te \<and> proper te' \<and> due_at te' = mstime (env s) + 100))"
proof (cases "timer_due te (env s)")
  case False
  then show ?thesis using te by (simp add: process_time_events_def timers_from.simps)
next
  case True
  note u = server_updater_steady [OF ok [OF True]]
  obtain sec ms where t: "add_milliseconds_to_now 100 (env s) = (sec, ms)" by fastforce
  define te' where "te' = te\<lparr>tsec := sec, tms := ms\<rparr>"
  have p: "proper te'" "due_at te' = mstime (env s) + 100"
    using add_milliseconds_sum [OF _ t] by (simp_all add: proper_def due_at_def te'_def)
  let ?s = "reschedule (tid te) 100 s1"
  have s: "time_events (loop ?s) = [te']" "env ?s = env s"
    using te u t by (simp_all add: reschedule_def te'_def)
  have "\<not> timer_due te' (env s)" using timer_due_when [OF p(1)] p(2) by simp
  then have "timers_from (time_event_id (loop s) - 1) [te'] 1 ?s = Some (1, ?s)"
    using te(2) s(2) by (simp add: timers_from.simps te'_def)
  then have "process_time_events s = Some (1, ?s)"
    using te True ok u(1) s(1)
    by (cases "thandler te") (simp add: process_time_events_def timers_from.simps [of _ "[te]"] run_timer_def Let_def)
  then show ?thesis using True s(1) p by (simp add: te'_def)
qed

text \<open>
  C21. The timer of the server runs on time and the pass over the timers ends: if the timer is not
  due nothing happens; if it is due, \<open>server_updater\<close> runs exactly once and the timer is due
  again exactly 100 milliseconds later.
\<close>

theorem timer_runs_once:
  assumes te: "time_events (loop s) = [te]" "tid te < time_event_id (loop s)"
    and ok: "timer_due te (env s) \<Longrightarrow> server_updater_handler s = Some (r, s1)"
  shows "process_time_events s = (if timer_due te (env s)
      then Some (1, reschedule (tid te) 100 s1) else Some (0, s)) \<and>
    (timer_due te (env s) \<longrightarrow> (\<exists>te'. time_events (loop (reschedule (tid te) 100 s1)) = [te'] \<and> tid te' = tid te \<and>
       thandler te' = thandler te \<and> proper te' \<and> due_at te' = mstime (env s) + 100))"
  using timer_pass [OF te, of r s1] ok by blast

theorem timer_runs_once_witness:
  "\<exists>s1 te te'. process_time_events (sample_busy\<lparr>loop := (loop sample_busy)\<lparr>time_events := [te], time_event_id := 1\<rparr>\<rparr>) = Some (1, s1) \<and>
     due_at te = 4990 \<and> time_events (loop s1) = [te'] \<and> due_at te' = 5100"
proof -
  let ?te = "\<lparr>tid = 0, tsec = 4, tms = 990, thandler = server_updater\<rparr>"
  let ?s = "sample_busy\<lparr>loop := (loop sample_busy)\<lparr>time_events := [?te], time_event_id := 1\<rparr>\<rparr>"
  have "\<exists>s1. server_updater_handler ?s = Some (100, s1)"
    by (simp add: server_updater_handler_def check_memory_def client_timeout_check_def process_queues_messages_def sample_busy_def
        sample_server_def Let_def)
  then obtain s1 where s1: "server_updater_handler ?s = Some (100, s1)" by blast
  have e: "mstime (env ?s) = 5000" by (simp add: sample_busy_def sample_server_def)
  have d: "timer_due ?te (env ?s)" using e by (simp add: timer_due_def get_time_def)
  have "process_time_events ?s = Some (1, reschedule 0 100 s1) \<and>
      (\<exists>te'. time_events (loop (reschedule 0 100 s1)) = [te'] \<and> due_at te' = 5100)"
    using timer_runs_once [of ?s ?te 100 s1] s1 d e by auto
  moreover have "due_at ?te = 4990" by (simp add: due_at_def)
  ultimately show ?thesis by blast
qed

lemma begin_turn_simps [simp]:
  "env (begin_turn t s) = env_now t" "loop (begin_turn t s) = loop s" "shutdown (begin_turn t s) \<longleftrightarrow> shutdown s \<or> got_sigterm t"
  by (simp_all add: begin_turn_def sigterm_handler_def)

lemma last_turn:
  assumes sh: "shutdown s \<or> got_sigterm t" "\<not> stop (loop s)" and quiet: "\<forall>w. epoll_wait t w = []"
    and te: "time_events (loop s) = [te]" "tid te < time_event_id (loop s)" "timer_due te (env_now t)"
    and ok: "server_updater_handler (begin_turn t s) = Some (r, s1)"
  shows "main_loop (t # ts) s = Some (reschedule (tid te) 100 s1) \<and> stop (loop (reschedule (tid te) 100 s1))"
proof -
  let ?s = "begin_turn t s" and ?s' = "reschedule (tid te) 100 s1"
  have "process_time_events ?s = Some (1, ?s')"
    using timer_pass [of ?s te r s1] te ok by simp
  moreover have "event_api_poll t w = []" for w using quiet by (simp add: event_api_poll_def)
  ultimately have p: "process_events t EG_EVENTS_ALL ?s = Some (1, ?s')"
    by (simp add: process_events_def EG_EVENTS_ALL_def EG_EVENT_TIME_def EG_EVENT_FILE_def EG_DONT_WAIT_def Let_def)
  have "stop (loop s1)" using server_updater_steady(6) [OF ok] sh(1) by simp
  then have st: "stop (loop ?s')" by (simp add: reschedule_def split: prod.split)
  then have "main_loop ts ?s' = Some ?s'" by (cases ts) simp_all
  then show ?thesis using p sh(2) st by simp
qed



text \<open>
  A server without any socket starts: with port 0 and no unix socket \<open>init_server\<close> succeeds, and
  nothing but the timer is registered. (The test \<open>fd < 0 && sfd < 0\<close> is meant to refuse this.)
\<close>

theorem starts_without_socket:
  assumes "port_opt st = 0" "unix_socket_opt st = None" "pidfile_opt st = None" "srv_fd n = 0" "srv_sfd n = 0"
    and "max_clients (unblock_open_files_limit s) + 1 < 2 ^ 31"
  shows "\<exists>s'. init_server ctl os st s n = Some (s', n) \<and> maxfd (loop s') = -1 \<and>
    (\<forall>d. get_file_events (loop s') d \<noteq> None \<longrightarrow> get_file_events (loop s') d = Some EG_EVENT_NONE) \<and> length (time_events (loop s')) = 1"
proof -
  let ?s = "unblock_open_files_limit s"
  let ?l = "create_event_loop ctl (Suc (max_clients ?s))"
  have "sint (of_nat (max_clients ?s + 1) :: u32) = int (Suc (max_clients ?s))" using sint_of_nat32 [OF assms(6)] by simp
  then have "init_server ctl os st s n = Some (?s\<lparr>loop := snd (create_time_event 1 server_updater (env ?s) ?l)\<rparr>, n)"
    using assms(1-5) by (simp add: init_server_def open_tcp_def open_unix_def listen_on_def Let_def del: of_nat_Suc)
  then show ?thesis
    using nth_replicate [of _ "Suc (max_clients ?s)" "\<lparr>emask = EG_EVENT_NONE, read_handler = None, write_handler = None, edata = None\<rparr>"]
    by (auto simp: create_event_loop_def create_time_event_def get_file_events_def event_at_def Let_def
        simp del: replicate_Suc split: prod.split if_split_asm)
qed

theorem starts_without_socket_witness:
  "\<exists>s'. init_server (\<lambda>_ _ _. True) sample_os (default_settings\<lparr>port_opt := 0\<rparr>) (sample_server [] 0) sample_process =
     Some (s', sample_process) \<and> maxfd (loop s') = -1"
  using starts_without_socket [of "default_settings\<lparr>port_opt := 0\<rparr>" sample_process "sample_server [] 0" "\<lambda>_ _ _. True" sample_os]
  by (auto simp: default_settings_def sample_process_def unblock_open_files_limit_def sample_server_def)

end
