(* ===== verification/Select.thy ===== *)
theory Select
  imports EagleServer
begin

text \<open>
  src/event_select.c, the other backend of the event loop (chosen at compile time): the descriptors
  watched for reading and for writing are two bitmaps, and \<open>select\<close> is asked about copies of them.
  The theory shows that it watches and reports what the \<open>epoll\<close> backend does, for descriptors
  that fit the bitmaps.
\<close>

section \<open>Descriptor sets\<close>

text \<open>\<open>fd_set\<close>: a bitmap of \<open>FD_SETSIZE\<close> bits. An access outside of it is a fault.\<close>

type_synonym fd_set = "bool list"

definition FD_SETSIZE :: nat where "FD_SETSIZE = 1024"

definition FD_ZERO :: fd_set where "FD_ZERO = replicate FD_SETSIZE False"

definition FD_SET :: "int \<Rightarrow> fd_set \<Rightarrow> fd_set option" where
  "FD_SET d fs = (if 0 \<le> d \<and> d < int (length fs) then Some (fs[nat d := True]) else None)"

definition FD_CLR :: "int \<Rightarrow> fd_set \<Rightarrow> fd_set option" where
  "FD_CLR d fs = (if 0 \<le> d \<and> d < int (length fs) then Some (fs[nat d := False]) else None)"

definition FD_ISSET :: "int \<Rightarrow> fd_set \<Rightarrow> bool option" where
  "FD_ISSET d fs = (if 0 \<le> d \<and> d < int (length fs) then Some (fs ! nat d) else None)"

section \<open>The backend\<close>

record select_api =
  rfds :: fd_set
  wfds :: fd_set

definition select_api_init :: select_api where
  "select_api_init = \<lparr>rfds = FD_ZERO, wfds = FD_ZERO\<rparr>"

definition select_api_add :: "int \<Rightarrow> u32 \<Rightarrow> select_api \<Rightarrow> select_api option" where
  "select_api_add d msk a = do {
     a \<leftarrow> (if msk AND EG_EVENT_READABLE \<noteq> 0 then do { fs \<leftarrow> FD_SET d (rfds a); Some (a\<lparr>rfds := fs\<rparr>) } else Some a);
     (if msk AND EG_EVENT_WRITABLE \<noteq> 0 then do { fs \<leftarrow> FD_SET d (wfds a); Some (a\<lparr>wfds := fs\<rparr>) } else Some a) }"

definition select_api_delete :: "int \<Rightarrow> u32 \<Rightarrow> select_api \<Rightarrow> select_api option" where
  "select_api_delete d msk a = do {
     a \<leftarrow> (if msk AND EG_EVENT_READABLE \<noteq> 0 then do { fs \<leftarrow> FD_CLR d (rfds a); Some (a\<lparr>rfds := fs\<rparr>) } else Some a);
     (if msk AND EG_EVENT_WRITABLE \<noteq> 0 then do { fs \<leftarrow> FD_CLR d (wfds a); Some (a\<lparr>wfds := fs\<rparr>) } else Some a) }"

text \<open>The scan of \<open>event_api_poll\<close>: every registered descriptor is reported, also with an empty mask.\<close>

fun select_scan :: "event_loop \<Rightarrow> fd_set \<Rightarrow> fd_set \<Rightarrow> int list \<Rightarrow> (int \<times> u32) list option" where
  "select_scan l rs ws [] = Some []"
| "select_scan l rs ws (i # is) = do {
     ev \<leftarrow> event_at l i;
     (if emask ev = EG_EVENT_NONE then select_scan l rs ws is
      else do {
        r \<leftarrow> (if emask ev AND EG_EVENT_READABLE \<noteq> 0 then FD_ISSET i rs else Some False);
        w \<leftarrow> (if emask ev AND EG_EVENT_WRITABLE \<noteq> 0 then FD_ISSET i ws else Some False);
        fired \<leftarrow> select_scan l rs ws is;
        Some ((i, (if r then EG_EVENT_READABLE else 0) OR (if w then EG_EVENT_WRITABLE else 0)) # fired) }) }"

text \<open>\<open>sel\<close> is what the kernel answers to \<open>select\<close>: the count and the two sets, overwritten.\<close>

definition select_api_poll ::
    "(int \<Rightarrow> fd_set \<Rightarrow> fd_set \<Rightarrow> int \<times> fd_set \<times> fd_set) \<Rightarrow> event_loop \<Rightarrow> select_api \<Rightarrow> (int \<times> u32) list option" where
  "select_api_poll sel l a = (case sel (maxfd l + 1) (rfds a) (wfds a) of (retval, rs, ws) \<Rightarrow>
     if retval > 0 then select_scan l rs ws [0..maxfd l] else Some [])"

text \<open>\<open>create_file_event\<close> and \<open>delete_file_event\<close> of src/event.c over this backend.\<close>

definition select_create_file_event ::
    "int \<Rightarrow> u32 \<Rightarrow> file_handler \<Rightarrow> addr option \<Rightarrow> event_loop \<times> select_api \<Rightarrow> (status \<times> event_loop \<times> select_api) option" where
  "select_create_file_event d msk handler data = (\<lambda>(l, a).
     if d \<ge> int (length (events l)) then Some (EG_STATUS_ERR, l, a)
     else do {
       a \<leftarrow> select_api_add d msk a;
       ev \<leftarrow> event_at l d;
       let ev = ev\<lparr>emask := emask ev OR msk\<rparr>;
       let ev = (if msk AND EG_EVENT_READABLE \<noteq> 0 then ev\<lparr>read_handler := Some handler\<rparr> else ev);
       let ev = (if msk AND EG_EVENT_WRITABLE \<noteq> 0 then ev\<lparr>write_handler := Some handler\<rparr> else ev);
       let ev = ev\<lparr>edata := data\<rparr>;
       Some (EG_STATUS_OK, l\<lparr>events := (events l)[nat d := ev], maxfd := (if d > maxfd l then d else maxfd l)\<rparr>, a) })"

definition select_delete_file_event :: "int \<Rightarrow> u32 \<Rightarrow> event_loop \<times> select_api \<Rightarrow> (event_loop \<times> select_api) option" where
  "select_delete_file_event d msk = (\<lambda>(l, a).
     if d \<ge> int (length (events l)) then Some (l, a)
     else do {
       ev \<leftarrow> event_at l d;
       if emask ev = EG_EVENT_NONE then Some (l, a)
       else do {
         let ev = ev\<lparr>emask := emask ev AND NOT msk\<rparr>;
         let l = l\<lparr>events := (events l)[nat d := ev]\<rparr>;
         let l = (if d = maxfd l \<and> emask ev = EG_EVENT_NONE
                  then l\<lparr>maxfd := last_active (events l) (nat (maxfd l))\<rparr> else l);
         a \<leftarrow> select_api_delete d msk a;
         Some (l, a) } })"

section \<open>Both backends watch the same descriptors\<close>

text \<open>The bitmaps hold what the event table says. Only the two masks of the program occur.\<close>

definition select_ok :: "event_loop \<Rightarrow> select_api \<Rightarrow> bool" where
  "select_ok l a \<longleftrightarrow> length (events l) \<le> FD_SETSIZE \<and> length (rfds a) = FD_SETSIZE \<and> length (wfds a) = FD_SETSIZE \<and>
     (\<forall>i < length (events l). emask (events l ! i) \<in> {0, 1, 2, 3} \<and>
        (rfds a ! i \<longleftrightarrow> emask (events l ! i) AND EG_EVENT_READABLE \<noteq> 0) \<and>
        (wfds a ! i \<longleftrightarrow> emask (events l ! i) AND EG_EVENT_WRITABLE \<noteq> 0))"

lemma select_ok_init: "length (events l) \<le> FD_SETSIZE \<Longrightarrow> \<forall>e \<in> set (events l). emask e = 0 \<Longrightarrow> select_ok l select_api_init"
  by (simp add: select_ok_def select_api_init_def FD_ZERO_def)

lemma select_api_add_in:
  assumes "select_ok l a" "n < length (events l)" "m \<in> {1, 2, 3}"
  shows "select_api_add (int n) m a = Some (a\<lparr>rfds := (if m AND EG_EVENT_READABLE \<noteq> 0 then (rfds a)[n := True] else rfds a),
      wfds := (if m AND EG_EVENT_WRITABLE \<noteq> 0 then (wfds a)[n := True] else wfds a)\<rparr>)"
  using assms by (auto simp: select_api_add_def FD_SET_def select_ok_def event_mask_defs)

lemma select_api_delete_in:
  assumes "select_ok l a" "n < length (events l)" "m \<in> {1, 2, 3}"
  shows "select_api_delete (int n) m a = Some (a\<lparr>rfds := (if m AND EG_EVENT_READABLE \<noteq> 0 then (rfds a)[n := False] else rfds a),
      wfds := (if m AND EG_EVENT_WRITABLE \<noteq> 0 then (wfds a)[n := False] else wfds a)\<rparr>)"
  using assms by (auto simp: select_api_delete_def FD_CLR_def select_ok_def event_mask_defs)

lemma mask_or:
  assumes "e \<in> {0, 1, 2, 3 :: u32}" "m \<in> {1, 2, 3}"
  shows "e OR m \<in> {0, 1, 2, 3}" "(e OR m) AND EG_EVENT_READABLE \<noteq> 0 \<longleftrightarrow> e AND EG_EVENT_READABLE \<noteq> 0 \<or> m AND EG_EVENT_READABLE \<noteq> 0"
    "(e OR m) AND EG_EVENT_WRITABLE \<noteq> 0 \<longleftrightarrow> e AND EG_EVENT_WRITABLE \<noteq> 0 \<or> m AND EG_EVENT_WRITABLE \<noteq> 0"
  using assms by (auto simp: event_mask_defs)

lemma mask_and_not:
  assumes "e \<in> {0, 1, 2, 3 :: u32}" "m \<in> {1, 2, 3}"
  shows "e AND NOT m \<in> {0, 1, 2, 3}" "(e AND NOT m) AND EG_EVENT_READABLE \<noteq> 0 \<longleftrightarrow> e AND EG_EVENT_READABLE \<noteq> 0 \<and> m AND EG_EVENT_READABLE = 0"
    "(e AND NOT m) AND EG_EVENT_WRITABLE \<noteq> 0 \<longleftrightarrow> e AND EG_EVENT_WRITABLE \<noteq> 0 \<and> m AND EG_EVENT_WRITABLE = 0"
  using assms by (auto simp: event_mask_defs)

lemma select_ok_update:
  assumes "select_ok l a" "n < length (events l)" "emask ev \<in> {0, 1, 2, 3}"
    and "events l' = (events l)[n := ev]" "rfds a' = (rfds a)[n := emask ev AND EG_EVENT_READABLE \<noteq> 0]"
      "wfds a' = (wfds a)[n := emask ev AND EG_EVENT_WRITABLE \<noteq> 0]"
  shows "select_ok l' a'"
proof -
  have n: "n < FD_SETSIZE" using assms(1,2) by (simp add: select_ok_def)
  have "emask (events l' ! i) \<in> {0, 1, 2, 3} \<and> (rfds a' ! i \<longleftrightarrow> emask (events l' ! i) AND EG_EVENT_READABLE \<noteq> 0) \<and>
      (wfds a' ! i \<longleftrightarrow> emask (events l' ! i) AND EG_EVENT_WRITABLE \<noteq> 0)" if "i < length (events l)" for i
    using assms that n by (cases "i = n") (simp_all add: select_ok_def)
  then show ?thesis using assms(1,4-6) by (simp add: select_ok_def)
qed

lemma select_add_bits:
  assumes "select_ok l a" "n < length (events l)" "m \<in> {1, 2, 3}"
  shows "(if m AND EG_EVENT_READABLE \<noteq> 0 then (rfds a)[n := True] else rfds a) =
      (rfds a)[n := (emask (events l ! n) OR m) AND EG_EVENT_READABLE \<noteq> 0]"
    "(if m AND EG_EVENT_WRITABLE \<noteq> 0 then (wfds a)[n := True] else wfds a) =
      (wfds a)[n := (emask (events l ! n) OR m) AND EG_EVENT_WRITABLE \<noteq> 0]"
proof -
  have e: "emask (events l ! n) \<in> {0, 1, 2, 3}" "rfds a ! n \<longleftrightarrow> emask (events l ! n) AND EG_EVENT_READABLE \<noteq> 0"
      "wfds a ! n \<longleftrightarrow> emask (events l ! n) AND EG_EVENT_WRITABLE \<noteq> 0"
    using assms(1,2) unfolding select_ok_def by blast+
  note * = mask_or [OF e(1) assms(3)]
  show "(if m AND EG_EVENT_READABLE \<noteq> 0 then (rfds a)[n := True] else rfds a) =
      (rfds a)[n := (emask (events l ! n) OR m) AND EG_EVENT_READABLE \<noteq> 0]"
    unfolding *(2) e(2) [symmetric] by (cases "m AND EG_EVENT_READABLE \<noteq> 0") simp_all
  show "(if m AND EG_EVENT_WRITABLE \<noteq> 0 then (wfds a)[n := True] else wfds a) =
      (wfds a)[n := (emask (events l ! n) OR m) AND EG_EVENT_WRITABLE \<noteq> 0]"
    unfolding *(3) e(3) [symmetric] by (cases "m AND EG_EVENT_WRITABLE \<noteq> 0") simp_all
qed

lemma select_clear_bits:
  assumes "select_ok l a" "n < length (events l)" "m \<in> {1, 2, 3}"
  shows "(if m AND EG_EVENT_READABLE \<noteq> 0 then (rfds a)[n := False] else rfds a) =
      (rfds a)[n := (emask (events l ! n) AND NOT m) AND EG_EVENT_READABLE \<noteq> 0]"
    "(if m AND EG_EVENT_WRITABLE \<noteq> 0 then (wfds a)[n := False] else wfds a) =
      (wfds a)[n := (emask (events l ! n) AND NOT m) AND EG_EVENT_WRITABLE \<noteq> 0]"
proof -
  have e: "emask (events l ! n) \<in> {0, 1, 2, 3}" "rfds a ! n \<longleftrightarrow> emask (events l ! n) AND EG_EVENT_READABLE \<noteq> 0"
      "wfds a ! n \<longleftrightarrow> emask (events l ! n) AND EG_EVENT_WRITABLE \<noteq> 0"
    using assms(1,2) unfolding select_ok_def by blast+
  note * = mask_and_not [OF e(1) assms(3)]
  show "(if m AND EG_EVENT_READABLE \<noteq> 0 then (rfds a)[n := False] else rfds a) =
      (rfds a)[n := (emask (events l ! n) AND NOT m) AND EG_EVENT_READABLE \<noteq> 0]"
    unfolding *(2) e(2) [symmetric] by (cases "m AND EG_EVENT_READABLE = 0") simp_all
  show "(if m AND EG_EVENT_WRITABLE \<noteq> 0 then (wfds a)[n := False] else wfds a) =
      (wfds a)[n := (emask (events l ! n) AND NOT m) AND EG_EVENT_WRITABLE \<noteq> 0]"
    unfolding *(3) e(3) [symmetric] by (cases "m AND EG_EVENT_WRITABLE = 0") simp_all
qed

lemma select_create_file_event:
  assumes "select_ok l a" "n < length (events l)" "m \<in> {1, 2, 3}" "\<And>op k. epoll_ctl l op (int n) k"
  shows "\<exists>l1 l2 a2. create_file_event (int n) m h x l = Some (EG_STATUS_OK, l1) \<and>
    select_create_file_event (int n) m h x (l, a) = Some (EG_STATUS_OK, l2, a2) \<and>
    events l2 = events l1 \<and> maxfd l2 = maxfd l1 \<and> select_ok l1 a2"
proof -
  let ?e = "events l ! n"
  define ev where "ev = \<lparr>emask = emask ?e OR m, read_handler = (if m AND EG_EVENT_READABLE \<noteq> 0 then Some h else read_handler ?e),
    write_handler = (if m AND EG_EVENT_WRITABLE \<noteq> 0 then Some h else write_handler ?e), edata = x\<rparr>"
  define l2 where "l2 = l\<lparr>events := (events l)[n := ev], maxfd := (if int n > maxfd l then int n else maxfd l)\<rparr>"
  define a2 where "a2 = \<lparr>rfds = (rfds a)[n := emask ev AND EG_EVENT_READABLE \<noteq> 0], wfds = (wfds a)[n := emask ev AND EG_EVENT_WRITABLE \<noteq> 0]\<rparr>"
  have ev: "(let ev = ?e\<lparr>emask := emask ?e OR m\<rparr>;
      ev = (if m AND EG_EVENT_READABLE \<noteq> 0 then ev\<lparr>read_handler := Some h\<rparr> else ev);
      ev = (if m AND EG_EVENT_WRITABLE \<noteq> 0 then ev\<lparr>write_handler := Some h\<rparr> else ev) in ev\<lparr>edata := x\<rparr>) = ev"
    by (simp add: ev_def Let_def)
  have "a\<lparr>rfds := (if m AND EG_EVENT_READABLE \<noteq> 0 then (rfds a)[n := True] else rfds a),
      wfds := (if m AND EG_EVENT_WRITABLE \<noteq> 0 then (wfds a)[n := True] else wfds a)\<rparr> = a2"
    unfolding select_add_bits [OF assms(1-3)] by (simp add: a2_def ev_def)
  then have "select_create_file_event (int n) m h x (l, a) = Some (EG_STATUS_OK, l2, a2)"
    using assms(2) select_api_add_in [OF assms(1-3)] ev by (simp add: select_create_file_event_def event_at_def l2_def Let_def)
  moreover have "create_file_event (int n) m h x l =
      Some (EG_STATUS_OK, l2\<lparr>interest := (interest l)(int n \<mapsto> epoll_mask (m OR emask ?e))\<rparr>)"
    using assms(2,4) ev
    by (cases "int n > maxfd l") (simp_all add: create_file_event_def event_api_add_def event_at_def l2_def Let_def)
  moreover have "emask ev \<in> {0, 1, 2, 3}" using assms mask_or(1) unfolding select_ok_def ev_def by simp
  then have "select_ok (l2\<lparr>interest := i\<rparr>) a2" for i
    by (rule select_ok_update [OF assms(1,2)]) (simp_all add: l2_def a2_def)
  ultimately show ?thesis by (intro exI conjI) (assumption | simp)+
qed

lemma select_delete_file_event:
  assumes "select_ok l a" "n < length (events l)" "m \<in> {1, 2, 3}" "\<And>op k. epoll_ctl l op (int n) k"
  shows "\<exists>l1 l2 a2. delete_file_event (int n) m l = Some l1 \<and> select_delete_file_event (int n) m (l, a) = Some (l2, a2) \<and>
    events l2 = events l1 \<and> maxfd l2 = maxfd l1 \<and> select_ok l1 a2"
proof (cases "emask (events l ! n) = EG_EVENT_NONE")
  case True
  then show ?thesis using assms(1,2) by (simp add: delete_file_event_def select_delete_file_event_def event_at_def)
next
  case False
  define ev where "ev = (events l ! n)\<lparr>emask := emask (events l ! n) AND NOT m\<rparr>"
  define evs where "evs = (events l)[n := ev]"
  define mx where "mx = (if int n = maxfd l \<and> emask ev = EG_EVENT_NONE then last_active evs (nat (maxfd l)) else maxfd l)"
  define l2 where "l2 = l\<lparr>events := evs, maxfd := mx\<rparr>"
  define a2 where "a2 = \<lparr>rfds = (rfds a)[n := emask ev AND EG_EVENT_READABLE \<noteq> 0], wfds = (wfds a)[n := emask ev AND EG_EVENT_WRITABLE \<noteq> 0]\<rparr>"
  have l: "(if int n = maxfd l \<and> emask ev = EG_EVENT_NONE
      then l\<lparr>events := evs, maxfd := last_active evs (nat (maxfd l))\<rparr> else l\<lparr>events := evs\<rparr>) = l2"
    by (simp add: l2_def mx_def)
  have "a\<lparr>rfds := (if m AND EG_EVENT_READABLE \<noteq> 0 then (rfds a)[n := False] else rfds a),
      wfds := (if m AND EG_EVENT_WRITABLE \<noteq> 0 then (wfds a)[n := False] else wfds a)\<rparr> = a2"
    unfolding select_clear_bits [OF assms(1-3)] by (simp add: a2_def ev_def)
  then have "select_delete_file_event (int n) m (l, a) = Some (l2, a2)"
    using False assms(2) select_api_delete_in [OF assms(1-3)] l
    by (auto simp: select_delete_file_event_def event_at_def Let_def ev_def [symmetric] evs_def [symmetric] split: if_split_asm)
  moreover have "\<exists>i. event_api_delete (int n) m l2 = Some (l2\<lparr>interest := i\<rparr>)"
    using assms(2,4) by (auto simp: event_api_delete_def event_at_def l2_def evs_def Let_def)
  moreover have "delete_file_event (int n) m l = event_api_delete (int n) m l2"
    using False assms(2) unfolding l [symmetric] by (simp add: delete_file_event_def event_at_def Let_def evs_def ev_def)
  ultimately obtain i where "select_delete_file_event (int n) m (l, a) = Some (l2, a2)"
      "delete_file_event (int n) m l = Some (l2\<lparr>interest := i\<rparr>)" by auto
  moreover have "emask ev \<in> {0, 1, 2, 3}" using assms mask_and_not(1) unfolding select_ok_def ev_def by simp
  then have "select_ok (l2\<lparr>interest := i\<rparr>) a2"
    by (rule select_ok_update [OF assms(1,2)]) (simp_all add: l2_def a2_def evs_def)
  ultimately show ?thesis by (intro exI conjI) (assumption | simp)+
qed

section \<open>Both backends report the same events\<close>

text \<open>What the kernel answers when \<open>ready d\<close> are the conditions of descriptor \<open>d\<close>, of
  \<open>EPOLLIN\<close> and \<open>EPOLLOUT\<close>.\<close>

definition select_reports ::
    "(int \<Rightarrow> u32) \<Rightarrow> (int \<Rightarrow> fd_set \<Rightarrow> fd_set \<Rightarrow> int \<times> fd_set \<times> fd_set) \<Rightarrow> int \<Rightarrow> fd_set \<Rightarrow> fd_set \<Rightarrow> bool" where
  "select_reports ready sel n rs ws \<longleftrightarrow> (case sel n rs ws of (retval, rs', ws') \<Rightarrow>
     length rs' = length rs \<and> length ws' = length ws \<and> (retval > 0 \<longleftrightarrow> True \<in> set rs' \<union> set ws') \<and>
     (\<forall>i < length rs. rs' ! i \<longleftrightarrow> rs ! i \<and> int i < n \<and> ready (int i) AND EPOLLIN \<noteq> 0) \<and>
     (\<forall>i < length ws. ws' ! i \<longleftrightarrow> ws ! i \<and> int i < n \<and> ready (int i) AND EPOLLOUT \<noteq> 0))"

definition epoll_reports :: "(int \<Rightarrow> u32) \<Rightarrow> event_loop \<Rightarrow> (int \<times> u32) list \<Rightarrow> bool" where
  "epoll_reports ready l evs \<longleftrightarrow> set evs = {(int i, ev) | i ev. i < length (events l) \<and>
     (\<exists>m. interest l (int i) = Some m \<and> ev = m AND ready (int i) \<and> ev \<noteq> 0)}"

definition fired_at :: "(int \<Rightarrow> u32) \<Rightarrow> event_loop \<Rightarrow> nat \<Rightarrow> u32" where
  "fired_at ready l i = (if emask (events l ! i) AND EG_EVENT_READABLE \<noteq> 0 \<and> ready (int i) AND EPOLLIN \<noteq> 0 then EG_EVENT_READABLE else 0) OR
     (if emask (events l ! i) AND EG_EVENT_WRITABLE \<noteq> 0 \<and> ready (int i) AND EPOLLOUT \<noteq> 0 then EG_EVENT_WRITABLE else 0)"

lemma fired_epoll:
  assumes "e \<in> {0, 1, 2, 3 :: u32}"
  shows "fired_mask (epoll_mask e AND w) = (if e AND EG_EVENT_READABLE \<noteq> 0 \<and> w AND EPOLLIN \<noteq> 0 then EG_EVENT_READABLE else 0) OR
     (if e AND EG_EVENT_WRITABLE \<noteq> 0 \<and> w AND EPOLLOUT \<noteq> 0 then EG_EVENT_WRITABLE else 0)"
    "epoll_mask e AND w \<noteq> 0 \<longleftrightarrow> fired_mask (epoll_mask e AND w) \<noteq> 0"
proof -
  have a: "(c AND w) AND d = (c AND d) AND w" for c d :: u32 by (simp add: ac_simps)
  have w5: "5 AND w = 0 \<longleftrightarrow> 1 AND w = 0 \<and> 4 AND w = 0"
  proof -
    have "5 AND w = (1 AND w) OR (4 AND w)" by (simp flip: bit.conj_disj_distrib2)
    then show ?thesis by (simp add: or_eq_0_iff)
  qed
  show "fired_mask (epoll_mask e AND w) = (if e AND EG_EVENT_READABLE \<noteq> 0 \<and> w AND EPOLLIN \<noteq> 0 then EG_EVENT_READABLE else 0) OR
     (if e AND EG_EVENT_WRITABLE \<noteq> 0 \<and> w AND EPOLLOUT \<noteq> 0 then EG_EVENT_WRITABLE else 0)"
    using assms by (auto simp: fired_mask_def epoll_mask_def event_mask_defs EPOLLERR_def EPOLLHUP_def a and.commute [of w])
  then show "epoll_mask e AND w \<noteq> 0 \<longleftrightarrow> fired_mask (epoll_mask e AND w) \<noteq> 0"
    using assms w5 by (auto simp: epoll_mask_def event_mask_defs and.commute [of w])
qed


lemma select_scan_reports:
  assumes "select_ok l a" "select_reports ready sel n (rfds a) (wfds a)" "sel n (rfds a) (wfds a) = (c, rs, ws)"
    and "\<forall>i \<in> set is. 0 \<le> i \<and> i < n \<and> i < int (length (events l))"
  shows "select_scan l rs ws is = Some (map (\<lambda>i. (i, fired_at ready l (nat i))) (filter (\<lambda>i. emask (events l ! nat i) \<noteq> EG_EVENT_NONE) is))"
  using assms(4)
proof (induction "is")
  case Nil
  then show ?case by simp
next
  case (Cons i "is")
  let ?e = "emask (events l ! nat i)"
  have i: "0 \<le> i" "i < n" "nat i < length (events l)" using Cons.prems by auto
  then have f: "nat i < FD_SETSIZE" "length rs = FD_SETSIZE" "length ws = FD_SETSIZE" "length (rfds a) = FD_SETSIZE" "length (wfds a) = FD_SETSIZE"
    using assms(1-3) by (auto simp: select_ok_def select_reports_def)
  have "FD_ISSET i rs = Some (?e AND EG_EVENT_READABLE \<noteq> 0 \<and> ready i AND EPOLLIN \<noteq> 0)"
    "FD_ISSET i ws = Some (?e AND EG_EVENT_WRITABLE \<noteq> 0 \<and> ready i AND EPOLLOUT \<noteq> 0)"
    using assms(1-3) i f by (auto simp: FD_ISSET_def select_reports_def select_ok_def)
  moreover have "event_at l i = Some (events l ! nat i)" using i by (simp add: event_at_def)
  ultimately show ?case using Cons i(1) by (simp add: fired_at_def)
qed

lemma set_fired_epoll:
  assumes "loop_ok l" "select_ok l a" "epoll_reports ready l (epoll_wait t (poll_timeout tvp))"
  shows "set (event_api_poll t tvp) = {(int i, fired_at ready l i) | i. i < length (events l) \<and> fired_at ready l i \<noteq> EG_EVENT_NONE}"
proof -
  have *: "(\<exists>m. interest l (int i) = Some m \<and> m AND ready (int i) \<noteq> 0 \<and> k = fired_mask (m AND ready (int i))) \<longleftrightarrow>
      k = fired_at ready l i \<and> k \<noteq> EG_EVENT_NONE" if "i < length (events l)" for i k
  proof -
    let ?e = "emask (events l ! i)"
    have e: "?e \<in> {0, 1, 2, 3}" using assms(2) that unfolding select_ok_def by blast
    have f: "fired_mask (epoll_mask ?e AND ready (int i)) = fired_at ready l i" using fired_epoll(1) [OF e] by (simp add: fired_at_def)
    have z: "epoll_mask ?e AND ready (int i) \<noteq> 0 \<longleftrightarrow> fired_at ready l i \<noteq> 0" using fired_epoll(2) [OF e] f by simp
    have n: "interest l (int i) = (if ?e = EG_EVENT_NONE then None else Some (epoll_mask ?e))" using assms(1) that unfolding loop_ok_def by blast
    have "fired_at ready l i = 0" if "?e = EG_EVENT_NONE" using that by (simp add: fired_at_def event_mask_defs)
    then show ?thesis using f z by (cases "?e = EG_EVENT_NONE") (auto simp: n EG_EVENT_NONE_def)
  qed
  have "x \<in> set (event_api_poll t tvp) \<longleftrightarrow> (\<exists>i k. x = (int i, k) \<and> i < length (events l) \<and>
      (\<exists>m. interest l (int i) = Some m \<and> m AND ready (int i) \<noteq> 0 \<and> k = fired_mask (m AND ready (int i))))" for x
    using assms(3) unfolding event_api_poll_def epoll_reports_def by (auto simp: image_iff)
  then have "x \<in> set (event_api_poll t tvp) \<longleftrightarrow> (\<exists>i k. x = (int i, k) \<and> i < length (events l) \<and> k = fired_at ready l i \<and> k \<noteq> EG_EVENT_NONE)" for x
    by (simp add: * cong: conj_cong)
  then show ?thesis by auto
qed

lemma fired_select:
  assumes "loop_ok l" "select_ok l a" "select_reports ready sel (maxfd l + 1) (rfds a) (wfds a)"
  shows "\<exists>fs. select_api_poll sel l a = Some fs \<and> {(d, m) \<in> set fs. m \<noteq> EG_EVENT_NONE} =
    {(int i, fired_at ready l i) | i. i < length (events l) \<and> fired_at ready l i \<noteq> EG_EVENT_NONE}"
proof -
  obtain c rs ws where s: "sel (maxfd l + 1) (rfds a) (wfds a) = (c, rs, ws)" by (cases "sel (maxfd l + 1) (rfds a) (wfds a)")
  have mx: "maxfd l < int (length (events l))" using assms(1) by (auto simp: loop_ok_def)
  have in_use: "emask (events l ! i) \<noteq> EG_EVENT_NONE \<and> int i \<le> maxfd l" if "i < length (events l)" "fired_at ready l i \<noteq> EG_EVENT_NONE" for i
  proof -
    have "emask (events l ! i) \<noteq> EG_EVENT_NONE" using that(2) by (auto simp: fired_at_def event_mask_defs)
    then show ?thesis using assms(1) that(1) unfolding loop_ok_def by blast
  qed
  show ?thesis
  proof (cases "c > 0")
    case True
    let ?fs = "map (\<lambda>i. (i, fired_at ready l (nat i))) (filter (\<lambda>i. emask (events l ! nat i) \<noteq> EG_EVENT_NONE) [0..maxfd l])"
    have "select_api_poll sel l a = Some ?fs"
      using True s select_scan_reports [OF assms(2,3) s, of "[0..maxfd l]"] mx by (simp add: select_api_poll_def)
    moreover have "{(d, m) \<in> set ?fs. m \<noteq> EG_EVENT_NONE} =
        {(int i, fired_at ready l i) | i. i < length (events l) \<and> fired_at ready l i \<noteq> EG_EVENT_NONE}" (is "?l = ?r")
    proof
      show "?l \<subseteq> ?r"
      proof
        fix x assume "x \<in> ?l"
        then obtain i where i: "x = (i, fired_at ready l (nat i))" "0 \<le> i" "i \<le> maxfd l" "fired_at ready l (nat i) \<noteq> EG_EVENT_NONE" by auto
        then have "x = (int (nat i), fired_at ready l (nat i)) \<and> nat i < length (events l)" using mx by simp
        then show "x \<in> ?r" using i(4) by blast
      qed
      show "?r \<subseteq> ?l"
      proof
        fix x assume "x \<in> ?r"
        then obtain i where i: "x = (int i, fired_at ready l i)" "i < length (events l)" "fired_at ready l i \<noteq> EG_EVENT_NONE" by blast
        then show "x \<in> ?l" using in_use [OF i(2,3)] by (auto intro!: image_eqI [of _ _ "int i"])
      qed
    qed
    ultimately show ?thesis by blast
  next
    case False
    have "fired_at ready l i = EG_EVENT_NONE" if i: "i < length (events l)" for i
    proof (rule ccontr)
      assume n: "fired_at ready l i \<noteq> EG_EVENT_NONE"
      have "i < length rs" "i < length ws" "\<not> rs ! i" "\<not> ws ! i"
        using assms(2,3) s False i by (auto simp: select_reports_def select_ok_def in_set_conv_nth)
      then show False using assms(2,3) s i n in_use [OF i n]
        by (auto simp: select_reports_def select_ok_def fired_at_def EG_EVENT_NONE_def split: if_split_asm)
    qed
    then have "{(int i, fired_at ready l i) | i. i < length (events l) \<and> fired_at ready l i \<noteq> EG_EVENT_NONE} = {}" by blast
    moreover have "select_api_poll sel l a = Some []" using False s by (simp add: select_api_poll_def)
    ultimately show ?thesis by simp
  qed
qed




text \<open>A kernel that answers \<open>select\<close> as documented.\<close>

definition kernel_select :: "(int \<Rightarrow> u32) \<Rightarrow> int \<Rightarrow> fd_set \<Rightarrow> fd_set \<Rightarrow> int \<times> fd_set \<times> fd_set" where
  "kernel_select ready n rs ws =
     (let rs' = map (\<lambda>i. rs ! i \<and> int i < n \<and> ready (int i) AND EPOLLIN \<noteq> 0) [0..<length rs];
          ws' = map (\<lambda>i. ws ! i \<and> int i < n \<and> ready (int i) AND EPOLLOUT \<noteq> 0) [0..<length ws]
      in (int (length (filter (\<lambda>b. b) (rs' @ ws'))), rs', ws'))"

lemma count_positive: "int (length (filter (\<lambda>b. b) bs)) > 0 \<longleftrightarrow> True \<in> set bs"
  by (induction bs) auto

lemma kernel_select_reports: "select_reports ready (kernel_select ready) n rs ws"
  unfolding select_reports_def kernel_select_def Let_def prod.case count_positive set_append by simp


end
