(* ===== verification/Xmalloc.thy ===== *)
theory Xmalloc
  imports State
begin

text \<open>
  src/xmalloc.c in the default build: \<open>malloc\<close> of the C library with the size of a block stored in the
  eight bytes before it, and the count of the memory in use, on which \<open>check_memory\<close> and the statistics
  rest. One thread: the mutex around the count does nothing. The theory shows that the count is exact.
\<close>

section \<open>Memory\<close>

definition PREFIX_SIZE :: u64 where "PREFIX_SIZE = 8"

text \<open>The blocks \<open>malloc\<close> has given out, with their bytes, the count, and whether it is changed under
  the mutex. An access outside of a block is a fault.\<close>

record memory =
  blocks :: "u64 \<rightharpoonup> bytes"
  used_bytes :: u64
  state_lock :: bool

text \<open>\<open>fatal\<close> ends the process.\<close>

datatype 'a run = Exit | Ret 'a

text \<open>\<open>*((size_t*)ptr) = size\<close> and its reading.\<close>

definition store_size :: "u64 \<Rightarrow> u64 \<Rightarrow> memory \<Rightarrow> memory option" where
  "store_size p sz h = do {
     b \<leftarrow> blocks h p;
     b \<leftarrow> put b 0 (le64 sz);
     Some (h\<lparr>blocks := (blocks h)(p \<mapsto> b)\<rparr>) }"

definition load_size :: "u64 \<Rightarrow> memory \<Rightarrow> u64 option" where
  "load_size p h = do { b \<leftarrow> blocks h p; rd64 b 0 }"

section \<open>The count\<close>

text \<open>Rounded up to a multiple of \<open>sizeof(long)\<close>.\<close>

definition round_long :: "u64 \<Rightarrow> u64" where
  "round_long n = (if n AND 7 \<noteq> 0 then n + (8 - (n AND 7)) else n)"

definition xmalloc_update_stat_alloc :: "u64 \<Rightarrow> memory \<Rightarrow> memory" where
  "xmalloc_update_stat_alloc n h = h\<lparr>used_bytes := used_bytes h + round_long n\<rparr>"

definition xmalloc_update_stat_free :: "u64 \<Rightarrow> memory \<Rightarrow> memory" where
  "xmalloc_update_stat_free n h = h\<lparr>used_bytes := used_bytes h - round_long n\<rparr>"

definition xmalloc_state_lock_on :: "memory \<Rightarrow> memory" where
  "xmalloc_state_lock_on h = h\<lparr>state_lock := True\<rparr>"

definition xmalloc_used_memory :: "memory \<Rightarrow> u64" where
  "xmalloc_used_memory h = used_bytes h"

section \<open>Operations\<close>

text \<open>\<open>p\<close> is what \<open>malloc\<close>, \<open>calloc\<close> or \<open>realloc\<close> answers (0 is the null pointer), and \<open>g\<close> what new memory
  holds.\<close>

definition xmalloc :: "u64 \<Rightarrow> (nat \<Rightarrow> u8) \<Rightarrow> u64 \<Rightarrow> memory \<Rightarrow> (u64 \<times> memory) run option" where
  "xmalloc p g sz h =
     (if p = 0 then Some Exit
      else do {
        h \<leftarrow> store_size p sz (h\<lparr>blocks := (blocks h)(p \<mapsto> map g [0..<unat (sz + PREFIX_SIZE)])\<rparr>);
        Some (Ret (p + PREFIX_SIZE, xmalloc_update_stat_alloc (sz + PREFIX_SIZE) h)) })"

definition xcalloc :: "u64 \<Rightarrow> u64 \<Rightarrow> memory \<Rightarrow> (u64 \<times> memory) run option" where
  "xcalloc p sz h =
     (if p = 0 then Some Exit
      else do {
        h \<leftarrow> store_size p sz (h\<lparr>blocks := (blocks h)(p \<mapsto> replicate (unat (sz + PREFIX_SIZE)) 0)\<rparr>);
        Some (Ret (p + PREFIX_SIZE, xmalloc_update_stat_alloc (sz + PREFIX_SIZE) h)) })"

text \<open>\<open>realloc\<close> keeps the bytes that both sizes have, moves the block to \<open>p\<close> and frees the old one.\<close>

definition xrealloc :: "u64 \<Rightarrow> (nat \<Rightarrow> u8) \<Rightarrow> u64 \<Rightarrow> u64 \<Rightarrow> memory \<Rightarrow> (u64 \<times> memory) run option" where
  "xrealloc p g ptr sz h =
     (if ptr = 0 then xmalloc p g sz h
      else do {
        let realptr = ptr - PREFIX_SIZE;
        oldsize \<leftarrow> load_size realptr h;
        b \<leftarrow> blocks h realptr;
        if p = 0 then Some Exit
        else do {
          let n = unat (sz + PREFIX_SIZE);
          h \<leftarrow> store_size p sz (h\<lparr>blocks := (blocks h)(realptr := None, p \<mapsto> take n b @ map g [length b..<n])\<rparr>);
          let h = xmalloc_update_stat_free oldsize h;
          let h = xmalloc_update_stat_alloc sz h;
          Some (Ret (p + PREFIX_SIZE, h)) } })"

definition xfree :: "u64 \<Rightarrow> memory \<Rightarrow> memory option" where
  "xfree ptr h =
     (if ptr = 0 then Some h
      else do {
        let realptr = ptr - PREFIX_SIZE;
        oldsize \<leftarrow> load_size realptr h;
        let h = xmalloc_update_stat_free (oldsize + PREFIX_SIZE) h;
        Some (h\<lparr>blocks := (blocks h)(realptr := None)\<rparr>) })"

text \<open>The string with its NUL is copied behind the size.\<close>

definition xstrdup :: "u64 \<Rightarrow> (nat \<Rightarrow> u8) \<Rightarrow> bytes \<Rightarrow> memory \<Rightarrow> (u64 \<times> memory) run option" where
  "xstrdup p g str h = do {
     r \<leftarrow> xmalloc p g (of_nat (length str) + 1) h;
     (case r of Exit \<Rightarrow> Some Exit
      | Ret (ptr, h) \<Rightarrow> do {
          b \<leftarrow> blocks h (ptr - PREFIX_SIZE);
          b \<leftarrow> put b 8 (str @ [0]);
          Some (Ret (ptr, h\<lparr>blocks := (blocks h)(ptr - PREFIX_SIZE \<mapsto> b)\<rparr>)) }) }"

definition xmalloc_size :: "u64 \<Rightarrow> memory \<Rightarrow> u64 option" where
  "xmalloc_size ptr h = do {
     sz \<leftarrow> load_size (ptr - PREFIX_SIZE) h;
     let sz = (if sz AND 7 \<noteq> 0 then sz + (8 - (sz AND 7)) else sz);
     Some (sz + PREFIX_SIZE) }"

section \<open>The count is exact\<close>

definition rounded :: "nat \<Rightarrow> nat" where
  "rounded n = 8 * ((n + 7) div 8)"

text \<open>Every block begins with its size and lies in the address space, and the count is the sum of the
  rounded lengths.\<close>

definition blocks_total :: "(u64 \<rightharpoonup> bytes) \<Rightarrow> nat" where
  "blocks_total m = (\<Sum>p \<in> dom m. rounded (length (the (m p))))"

definition accounted :: "memory \<Rightarrow> bool" where
  "accounted h \<longleftrightarrow> finite (dom (blocks h)) \<and> 0 \<notin> dom (blocks h) \<and>
     (\<forall>p b. blocks h p = Some b \<longrightarrow> unat p + length b < 2 ^ 64 \<and> (\<exists>xs. b = le64 (of_nat (length xs)) @ xs)) \<and>
     used_bytes h = of_nat (blocks_total (blocks h))"

lemma low_bits: "(of_nat n :: u64) AND 7 = of_nat (n mod 8)"
proof -
  have "(of_nat n :: u64) AND mask 3 = take_bit 3 (of_nat n)" by (rule take_bit_eq_mask [symmetric])
  moreover have "take_bit 3 (of_nat n :: u64) = of_nat (n mod 8)"
  proof (rule word_unat_eq_iff [THEN iffD2])
    have "unat (take_bit 3 (of_nat n :: u64)) = take_bit 3 (take_bit 64 n)" by (simp add: unsigned_take_bit_eq unsigned_of_nat)
    also have "\<dots> = n mod 8" by (simp add: take_bit_eq_mod mod_mod_cancel)
    finally show "unat (take_bit 3 (of_nat n :: u64)) = unat (of_nat (n mod 8) :: u64)"
      by (simp add: unsigned_of_nat take_bit_nat_eq_self)
  qed
  ultimately show ?thesis by (simp add: mask_eq_exp_minus_1)
qed

lemma rounded_mod: "rounded n = (if n mod 8 = 0 then n else n + (8 - n mod 8))"
proof -
  define q r where "q = n div 8" and "r = n mod 8"
  have n: "n = 8 * q + r" "r < 8" by (simp_all add: q_def r_def)
  have "(n + 7) div 8 = q + (r + 7) div 8" unfolding n(1) by (simp add: add.assoc)
  moreover have "(r + 7) div 8 = (if r = 0 then 0 else 1)" using n(2) by (auto intro!: div_nat_eqI)
  ultimately show ?thesis unfolding rounded_def r_def [symmetric] using n by simp
qed
lemma round_long_rounded: "round_long (of_nat n) = of_nat (rounded n)"
proof -
  have "unat (of_nat (n mod 8) :: u64) = n mod 8" by (simp add: unsigned_of_nat take_bit_nat_eq_self)
  then have z: "(of_nat (n mod 8) :: u64) = 0 \<longleftrightarrow> n mod 8 = 0" unfolding unat_eq_zero [symmetric] by (rule arg_cong)
  have "n mod 8 < 8" by (rule mod_less_divisor) (rule zero_less_numeral)
  then have "n mod 8 \<le> 8" by (rule order.strict_implies_order)
  from of_nat_diff [OF this, where ?'a = u64]
  have s: "(of_nat (n + (8 - n mod 8)) :: u64) = of_nat n + (8 - of_nat (n mod 8))" by (simp only: of_nat_add of_nat_numeral)
  show ?thesis
  proof (cases "n mod 8 = 0")
    case True
    then show ?thesis unfolding round_long_def low_bits rounded_mod z by simp
  next
    case False
    then show ?thesis unfolding round_long_def low_bits rounded_mod z by (simp only: s if_True if_False not_False_eq_True)
  qed
qed

definition block_of :: "bytes \<Rightarrow> bytes" where
  "block_of xs = le64 (of_nat (length xs)) @ xs"

lemma length_block_of [simp]: "length (block_of xs) = length xs + 8"
  by (simp add: block_of_def)

lemma rounded_block: "rounded (n + 8) = rounded n + 8"
proof -
  have "(n + 8 + 7) div 8 = (n + 7) div 8 + 1" by simp
  then show ?thesis by (simp add: rounded_def)
qed

lemma blocks_total_add: "finite (dom m) \<Longrightarrow> m p = None \<Longrightarrow> blocks_total (m(p \<mapsto> b)) = rounded (length b) + blocks_total m"
proof -
  assume f: "finite (dom m)" "m p = None"
  then have p: "p \<notin> dom m" by auto
  have "blocks_total (m(p \<mapsto> b)) = rounded (length b) + (\<Sum>x \<in> dom m. rounded (length (the ((m(p \<mapsto> b)) x))))"
    using p f(1) by (simp add: blocks_total_def sum.insert)
  also have "(\<Sum>x \<in> dom m. rounded (length (the ((m(p \<mapsto> b)) x)))) = blocks_total m"
    unfolding blocks_total_def using p by (intro sum.cong) auto
  finally show ?thesis .
qed

lemma blocks_total_remove:
  assumes "finite (dom m)" "m p = Some b"
  shows "blocks_total m = rounded (length b) + blocks_total (m(p := None))"
proof -
  have "m = (m(p := None))(p \<mapsto> b)" using assms(2) by auto
  then show ?thesis using blocks_total_add [of "m(p := None)" p b] assms(1) by simp
qed

lemma add_block:
  assumes "accounted h" "blocks h p = None" "p \<noteq> 0" "unat p + length xs + 8 < 2 ^ 64"
  shows "accounted (h\<lparr>blocks := (blocks h)(p \<mapsto> block_of xs), used_bytes := used_bytes h + of_nat (rounded (length xs + 8))\<rparr>)"
  using assms blocks_total_add [of "blocks h" p "block_of xs"] by (auto simp: accounted_def block_of_def add.commute)

lemma remove_block:
  assumes "accounted h" "blocks h p = Some b"
  shows "accounted (h\<lparr>blocks := (blocks h)(p := None), used_bytes := used_bytes h - of_nat (rounded (length b))\<rparr>)"
  using assms blocks_total_remove [of "blocks h" p b] by (auto simp: accounted_def)

lemma stored_block:
  assumes "length b = unat sz + 8"
  shows "store_size p sz (h\<lparr>blocks := m(p \<mapsto> b)\<rparr>) = Some (h\<lparr>blocks := m(p \<mapsto> block_of (drop 8 b))\<rparr>)"
  using assms by (simp add: store_size_def put_def block_of_def)

lemma unat_prefix: "unat sz + 8 < 2 ^ 64 \<Longrightarrow> unat (sz + PREFIX_SIZE) = unat sz + 8"
  by (simp add: PREFIX_SIZE_def unat_word_ariths)

lemma stat_alloc: "unat sz = n \<Longrightarrow> xmalloc_update_stat_alloc sz h = h\<lparr>used_bytes := used_bytes h + of_nat (rounded n)\<rparr>"
  using round_long_rounded [of n] by (auto simp: xmalloc_update_stat_alloc_def)

lemma stat_free: "unat sz = n \<Longrightarrow> xmalloc_update_stat_free sz h = h\<lparr>used_bytes := used_bytes h - of_nat (rounded n)\<rparr>"
  using round_long_rounded [of n] by (auto simp: xmalloc_update_stat_free_def)

lemma xmalloc_accounted:
  assumes "accounted h" "blocks h p = None" "p \<noteq> 0" "unat p + unat sz + 8 < 2 ^ 64"
  shows "\<exists>xs h'. xmalloc p g sz h = Some (Ret (p + 8, h')) \<and> length xs = unat sz \<and> blocks h' = (blocks h)(p \<mapsto> block_of xs) \<and> accounted h'"
proof -
  let ?xs = "drop 8 (map g [0..<unat sz + 8])"
  let ?h = "h\<lparr>blocks := (blocks h)(p \<mapsto> block_of ?xs), used_bytes := used_bytes h + of_nat (rounded (length ?xs + 8))\<rparr>"
  have n: "unat (sz + PREFIX_SIZE) = unat sz + 8" using assms(4) by (intro unat_prefix) simp
  have "xmalloc p g sz h = Some (Ret (p + 8, ?h))"
    using assms(3) n stored_block [where b = "map g [0..<unat sz + 8]" and h = h and m = "blocks h" and p = p and sz = sz]
    by (simp add: xmalloc_def stat_alloc [OF n]) (simp add: PREFIX_SIZE_def)
  moreover have "accounted ?h" using add_block [OF assms(1-3), of ?xs] assms(4) by simp
  ultimately show ?thesis by (intro exI [of _ ?xs] exI [of _ ?h]) simp
qed

lemma xcalloc_accounted:
  assumes "accounted h" "blocks h p = None" "p \<noteq> 0" "unat p + unat sz + 8 < 2 ^ 64"
  shows "\<exists>h'. xcalloc p sz h = Some (Ret (p + 8, h')) \<and> blocks h' = (blocks h)(p \<mapsto> block_of (replicate (unat sz) 0)) \<and> accounted h'"
proof -
  let ?xs = "replicate (unat sz) (0 :: u8)"
  let ?h = "h\<lparr>blocks := (blocks h)(p \<mapsto> block_of ?xs), used_bytes := used_bytes h + of_nat (rounded (length ?xs + 8))\<rparr>"
  have n: "unat (sz + PREFIX_SIZE) = unat sz + 8" using assms(4) by (intro unat_prefix) simp
  have "xcalloc p sz h = Some (Ret (p + 8, ?h))"
    using assms(3) n stored_block [where b = "replicate (unat sz + 8) 0" and h = h and m = "blocks h" and p = p and sz = sz]
    by (simp add: xcalloc_def stat_alloc [OF n]) (simp add: PREFIX_SIZE_def)
  moreover have "accounted ?h" using add_block [OF assms(1-3), of ?xs] assms(4) by simp
  ultimately show ?thesis by (intro exI [of _ ?h]) simp
qed

lemma block_shape:
  assumes "accounted h" "blocks h r = Some b"
  obtains ys where "b = block_of ys" "load_size r h = Some (of_nat (length ys))" "unat r + length ys + 8 < 2 ^ 64"
proof -
  have "unat r + length b < 2 ^ 64 \<and> (\<exists>ys. b = le64 (of_nat (length ys)) @ ys)" using assms unfolding accounted_def by blast
  then obtain ys where b: "b = le64 (of_nat (length ys)) @ ys" "unat r + length b < 2 ^ 64" by blast
  then show thesis using that [of ys] assms(2) by (simp add: block_of_def load_size_def rd64_le64)
qed

lemma behind_prefix:
  assumes "unat r + 8 < 2 ^ 64"
  shows "r + 8 \<noteq> (0 :: u64)" "r + 8 - PREFIX_SIZE = r"
proof -
  have "unat (r + 8) = unat r + 8" using assms by (simp add: unat_word_ariths)
  then show "r + 8 \<noteq> 0" by auto
qed (simp add: PREFIX_SIZE_def)

lemma unat_size: "n < 2 ^ 64 \<Longrightarrow> unat (of_nat n :: u64) = n"
  by (simp add: unsigned_of_nat take_bit_nat_eq_self)

lemma xfree_accounted:
  assumes "accounted h" "blocks h r = Some b"
  shows "\<exists>h'. xfree (r + 8) h = Some h' \<and> blocks h' = (blocks h)(r := None) \<and> accounted h'"
proof -
  obtain ys where b: "b = block_of ys" and l: "load_size r h = Some (of_nat (length ys))" and n: "unat r + length ys + 8 < 2 ^ 64"
    using block_shape [OF assms] .
  have "unat (of_nat (length ys) + PREFIX_SIZE :: u64) = length ys + 8" using unat_prefix [of "of_nat (length ys)"] n by (simp add: unat_size)
  note s = stat_free [OF this]
  have "unat r + 8 < 2 ^ 64" using n by simp
  note r = behind_prefix [OF this]
  have "xfree (r + 8) h = Some (h\<lparr>blocks := (blocks h)(r := None), used_bytes := used_bytes h - of_nat (rounded (length ys + 8))\<rparr>)"
    using l r by (simp add: xfree_def Let_def s)
  then show ?thesis using remove_block [OF assms] b by simp
qed

lemma xrealloc_accounted:
  assumes "accounted h" "blocks h r = Some (block_of ys)" "p = r \<or> blocks h p = None" "p \<noteq> 0" "unat p + unat sz + 8 < 2 ^ 64"
  shows "\<exists>xs h'. xrealloc p g (r + 8) sz h = Some (Ret (p + 8, h')) \<and> length xs = unat sz \<and>
    take (min (length ys) (unat sz)) xs = take (min (length ys) (unat sz)) ys \<and>
    blocks h' = (blocks h)(r := None, p \<mapsto> block_of xs) \<and> accounted h'"
proof -
  obtain zs where "block_of ys = block_of zs" and l: "load_size r h = Some (of_nat (length zs))" and n: "unat r + length zs + 8 < 2 ^ 64"
    using block_shape [OF assms(1,2)] .
  then have zs: "length zs = length ys" by (metis length_block_of add_right_cancel)
  define b where "b = take (unat sz + 8) (block_of ys) @ map g [length ys + 8..<unat sz + 8]"
  define xs where "xs = drop 8 b"
  define h1 where "h1 = h\<lparr>blocks := (blocks h)(r := None), used_bytes := used_bytes h - of_nat (rounded (length ys + 8))\<rparr>"
  define h2 where "h2 = h1\<lparr>blocks := (blocks h1)(p \<mapsto> block_of xs), used_bytes := used_bytes h1 + of_nat (rounded (length xs + 8))\<rparr>"
  have b: "length b = unat sz + 8" "length xs = unat sz" by (auto simp: b_def xs_def)
  have sz: "unat (sz + PREFIX_SIZE) = unat sz + 8" using assms(5) by (intro unat_prefix) simp
  have "unat r + 8 < 2 ^ 64" using n by simp
  note r = behind_prefix [OF this]
  have old: "unat (of_nat (length zs) :: u64) = length ys" using n zs by (simp add: unat_size)
  have "xrealloc p g (r + 8) sz h = Some (Ret (p + 8, h\<lparr>blocks := (blocks h)(r := None, p \<mapsto> block_of xs),
      used_bytes := used_bytes h - of_nat (rounded (length ys)) + of_nat (rounded (unat sz))\<rparr>))"
    using assms(2,4) l r sz stored_block [OF b(1), where h = h and m = "(blocks h)(r := None)" and p = p] stat_free [OF old] stat_alloc [of sz "unat sz"]
    by (simp add: xrealloc_def Let_def b_def [symmetric] xs_def [symmetric])
  moreover have "h2 = h\<lparr>blocks := (blocks h)(r := None, p \<mapsto> block_of xs),
      used_bytes := used_bytes h - of_nat (rounded (length ys)) + of_nat (rounded (unat sz))\<rparr>"
    by (simp add: h2_def h1_def b(2) rounded_block)
  moreover have "accounted h1" unfolding h1_def using remove_block [OF assms(1,2)] by simp
  then have "accounted h2" unfolding h2_def by (rule add_block) (use assms(3-5) b(2) in \<open>auto simp: h1_def\<close>)
  moreover have "take (min (length ys) (unat sz)) xs = take (min (length ys) (unat sz)) ys"
    by (simp add: xs_def b_def block_of_def min_def)
  ultimately show ?thesis using b(2) by (intro exI [of _ xs] exI [of _ h2]) (simp add: h2_def h1_def)
qed

lemma replace_block:
  assumes "accounted h" "blocks h p = Some (block_of xs)" "length ys = length xs"
  shows "accounted (h\<lparr>blocks := (blocks h)(p \<mapsto> block_of ys)\<rparr>)"
proof -
  have "blocks_total ((blocks h)(p \<mapsto> block_of ys)) = blocks_total (blocks h)"
    using blocks_total_remove [of "blocks h" p "block_of xs"] blocks_total_remove [of "(blocks h)(p \<mapsto> block_of ys)" p "block_of ys"] assms
    by (simp add: accounted_def)
  moreover have "unat p + length (block_of ys) < 2 ^ 64" using assms unfolding accounted_def by (metis length_block_of)
  ultimately show ?thesis using assms(1,2) by (auto simp: accounted_def block_of_def)
qed

lemma xstrdup_accounted:
  assumes "accounted h" "blocks h p = None" "p \<noteq> 0" "unat p + length str + 9 < 2 ^ 64"
  shows "\<exists>h'. xstrdup p g str h = Some (Ret (p + 8, h')) \<and> blocks h' = (blocks h)(p \<mapsto> block_of (str @ [0])) \<and> accounted h'"
proof -
  have sz: "unat (of_nat (length str) + 1 :: u64) = length (str @ [0])"
    using unat_size [of "length (str @ [0])"] assms(4) by (simp add: add.commute)
  obtain xs h1 where h1: "xmalloc p g (of_nat (length str) + 1) h = Some (Ret (p + 8, h1))" "length xs = length (str @ [0])"
      "blocks h1 = (blocks h)(p \<mapsto> block_of xs)" "accounted h1"
    using xmalloc_accounted [OF assms(1-3), of "of_nat (length str) + 1" g] assms(4) unfolding sz by auto
  have "put (block_of xs) 8 (str @ [0]) = Some (block_of (str @ [0]))"
    using h1(2) by (simp add: put_def block_of_def)
  then have "xstrdup p g str h = Some (Ret (p + 8, h1\<lparr>blocks := (blocks h1)(p \<mapsto> block_of (str @ [0]))\<rparr>))"
    using h1(1,3) by (simp add: xstrdup_def PREFIX_SIZE_def)
  moreover have "accounted (h1\<lparr>blocks := (blocks h1)(p \<mapsto> block_of (str @ [0]))\<rparr>)"
    using replace_block [OF h1(4), of p xs "str @ [0]"] h1(2,3) by simp
  ultimately show ?thesis using h1(3) by simp
qed

lemma xmalloc_size_accounted:
  assumes "accounted h" "blocks h r = Some b"
  shows "xmalloc_size (r + 8) h = Some (of_nat (rounded (length b)))"
proof -
  obtain ys where b: "b = block_of ys" and l: "load_size r h = Some (of_nat (length ys))" and n: "unat r + length ys + 8 < 2 ^ 64"
    using block_shape [OF assms] .
  have "unat r + 8 < 2 ^ 64" using n by simp
  then have "xmalloc_size (r + 8) h = Some (round_long (of_nat (length ys)) + 8)"
    using l behind_prefix(2) [of r] by (simp add: xmalloc_size_def round_long_def Let_def PREFIX_SIZE_def)
  then show ?thesis by (simp add: b round_long_rounded rounded_block)
qed

text \<open>
  C29. The count of the memory in use is exact: it is the sum, over the blocks in use, of their lengths
  rounded up to words, and \<open>xmalloc_size\<close> is the share of a block. Every operation keeps it so,
  and leaves every other block as it is: \<open>xmalloc\<close>, \<open>xcalloc\<close> and \<open>xstrdup\<close> add one block of the size
  asked for, \<open>xfree\<close> takes the block away, and \<open>xrealloc\<close> moves a block to the new size with the bytes
  that both sizes have.
\<close>

theorem used_memory_exact:
  assumes "accounted h" "blocks h r = Some (block_of ys)" "p \<noteq> 0" "blocks h p = None" "q \<noteq> 0" "q = r \<or> blocks h q = None"
    and "unat p + unat sz + 8 < 2 ^ 64" "unat q + unat sz + 8 < 2 ^ 64" "unat p + length str + 9 < 2 ^ 64"
  shows "xmalloc_used_memory h = of_nat (blocks_total (blocks h)) \<and> xmalloc_size (r + 8) h = Some (of_nat (rounded (length (block_of ys)))) \<and>
    (\<exists>xs h'. xmalloc p g sz h = Some (Ret (p + 8, h')) \<and> length xs = unat sz \<and> blocks h' = (blocks h)(p \<mapsto> block_of xs) \<and> accounted h') \<and>
    (\<exists>h'. xcalloc p sz h = Some (Ret (p + 8, h')) \<and> blocks h' = (blocks h)(p \<mapsto> block_of (replicate (unat sz) 0)) \<and> accounted h') \<and>
    (\<exists>h'. xstrdup p g str h = Some (Ret (p + 8, h')) \<and> blocks h' = (blocks h)(p \<mapsto> block_of (str @ [0])) \<and> accounted h') \<and>
    (\<exists>h'. xfree (r + 8) h = Some h' \<and> blocks h' = (blocks h)(r := None) \<and> accounted h') \<and>
    (\<exists>xs h'. xrealloc q g (r + 8) sz h = Some (Ret (q + 8, h')) \<and> length xs = unat sz \<and>
       take (min (length ys) (unat sz)) xs = take (min (length ys) (unat sz)) ys \<and>
       blocks h' = (blocks h)(r := None, q \<mapsto> block_of xs) \<and> accounted h')"
proof (intro conjI)
  show "xmalloc_used_memory h = of_nat (blocks_total (blocks h))" using assms(1) by (simp add: accounted_def xmalloc_used_memory_def)
qed (rule xmalloc_size_accounted [OF assms(1,2)] xmalloc_accounted [OF assms(1,4,3,7)] xcalloc_accounted [OF assms(1,4,3,7)]
    xstrdup_accounted [OF assms(1,4,3,9)] xfree_accounted [OF assms(1,2)] xrealloc_accounted [OF assms(1,2,6,5,8)])+

theorem used_memory_exact_witness:
  "\<exists>xs h1 h2 h'. xmalloc 4096 (\<lambda>_. 7) 3 \<lparr>blocks = Map.empty, used_bytes = 0, state_lock = True\<rparr> = Some (Ret (4104, h1)) \<and> used_bytes h1 = 16 \<and>
     xstrdup 8192 (\<lambda>_. 7) [0x65] h1 = Some (Ret (8200, h2)) \<and> xrealloc 4096 (\<lambda>_. 1) 4104 20 h1 = Some (Ret (4104, h')) \<and>
     take 3 xs = [7, 7, 7] \<and> blocks h' = [4096 \<mapsto> block_of xs] \<and> accounted h'"
proof -
  let ?h = "\<lparr>blocks = [4096 \<mapsto> block_of [7, 7, 7]], used_bytes = 16, state_lock = True\<rparr>"
  have x: "xmalloc 4096 (\<lambda>_. 7) 3 \<lparr>blocks = Map.empty, used_bytes = 0, state_lock = True\<rparr> = Some (Ret (4104, ?h))"
    by (simp add: xmalloc_def store_size_def put_def PREFIX_SIZE_def block_of_def xmalloc_update_stat_alloc_def round_long_def
        map_replicate_const numeral_3_eq_3)
  have a: "accounted ?h" by (simp add: accounted_def blocks_total_def rounded_def block_of_def)
  have "blocks ?h 4096 = Some (block_of [7, 7, 7])" "(8192 :: u64) \<noteq> 0" "blocks ?h 8192 = None" "(4096 :: u64) \<noteq> 0"
      "(4096 :: u64) = 4096 \<or> blocks ?h 4096 = None" "unat (8192 :: u64) + unat (20 :: u64) + 8 < 2 ^ 64"
      "unat (4096 :: u64) + unat (20 :: u64) + 8 < 2 ^ 64" "unat (8192 :: u64) + length [0x65 :: u8] + 9 < 2 ^ 64"
    by simp_all
  from used_memory_exact [OF a this]
  obtain h2 xs h' where "xstrdup 8192 (\<lambda>_. 7) [0x65] ?h = Some (Ret (8192 + 8, h2))"
      "xrealloc 4096 (\<lambda>_. 1) (4096 + 8) 20 ?h = Some (Ret (4096 + 8, h'))"
      "take (min (length [7 :: u8, 7, 7]) (unat (20 :: u64))) xs = take (min (length [7 :: u8, 7, 7]) (unat (20 :: u64))) [7, 7, 7]"
      "blocks h' = (blocks ?h)(4096 := None, 4096 \<mapsto> block_of xs)" "accounted h'" by blast
  then have "xmalloc 4096 (\<lambda>_. 7) 3 \<lparr>blocks = Map.empty, used_bytes = 0, state_lock = True\<rparr> = Some (Ret (4104, ?h)) \<and> used_bytes ?h = 16 \<and>
     xstrdup 8192 (\<lambda>_. 7) [0x65] ?h = Some (Ret (8200, h2)) \<and> xrealloc 4096 (\<lambda>_. 1) 4104 20 ?h = Some (Ret (4104, h')) \<and>
     take 3 xs = [7, 7, 7] \<and> blocks h' = [4096 \<mapsto> block_of xs] \<and> accounted h'"
    using x by (simp add: numeral_3_eq_3)
  then show ?thesis by blast
qed

end
