(* ===== verification/LzfRoundtrip.thy ===== *)
theory LzfRoundtrip
  imports Lzf
begin

text \<open>
  Compression and decompression are inverse. Between the two programs stands the format: a
  sequence of literal runs and back references with an encoding and a meaning. The compressor
  writes the encoding of a sequence whose meaning is its input, the decompressor computes the
  meaning of what it reads.
\<close>

section \<open>The format\<close>

text \<open>
  The compressed format as the comment in lzf_c.c describes it, independent of both programs: a
  sequence of literal runs and back references.
\<close>

datatype item = Literal bytes | Reference nat nat

fun valid_item :: "bytes \<Rightarrow> item \<Rightarrow> bool" where
  "valid_item ds (Literal bs) \<longleftrightarrow> bs \<noteq> [] \<and> length bs \<le> 32"
| "valid_item ds (Reference off len) \<longleftrightarrow> off < 8192 \<and> 1 \<le> len \<and> len \<le> 262 \<and> off < length ds"

fun encode_item :: "item \<Rightarrow> bytes" where
  "encode_item (Literal bs) = of_nat (length bs - 1) # bs"
| "encode_item (Reference off len) =
     (if len < 7 then [of_nat (off div 256 + len * 32), of_nat off]
      else [of_nat (off div 256 + 7 * 32), of_nat (len - 7), of_nat off])"

fun repeat_from :: "nat \<Rightarrow> bytes \<Rightarrow> nat \<Rightarrow> bytes" where
  "repeat_from 0 ds p = ds"
| "repeat_from (Suc k) ds p = repeat_from k (ds @ [ds ! p]) (p + 1)"

fun decode_item :: "bytes \<Rightarrow> item \<Rightarrow> bytes" where
  "decode_item ds (Literal bs) = ds @ bs"
| "decode_item ds (Reference off len) = repeat_from (len + 2) ds (length ds - off - 1)"

fun valid_items :: "bytes \<Rightarrow> item list \<Rightarrow> bool" where
  "valid_items ds [] \<longleftrightarrow> True"
| "valid_items ds (i # is) \<longleftrightarrow> valid_item ds i \<and> valid_items (decode_item ds i) is"

abbreviation encode_items :: "item list \<Rightarrow> bytes" where
  "encode_items is \<equiv> concat (map encode_item is)"

abbreviation decode_items :: "bytes \<Rightarrow> item list \<Rightarrow> bytes" where
  "decode_items ds is \<equiv> foldl decode_item ds is"

lemma valid_items_append:
  "valid_items ds (is @ js) \<longleftrightarrow> valid_items ds is \<and> valid_items (decode_items ds is) js"
  by (induction "is" arbitrary: ds) auto

lemma encode_item_nonempty: "encode_item i \<noteq> []"
  by (cases i) auto

lemma repeat_from_prefix: "\<exists>es. repeat_from k ds p = ds @ es \<and> length es = k"
proof (induction k arbitrary: ds p)
  case (Suc k)
  then obtain es where "repeat_from k (ds @ [ds ! p]) (p + 1) = (ds @ [ds ! p]) @ es" "length es = k" by blast
  then show ?case by (intro exI [of _ "ds ! p # es"]) simp
qed simp

text \<open>A reference to bytes that equal the next ones of a text extends its prefix.\<close>

lemma repeat_from_text:
  assumes "\<forall>j < k. txt ! (r + j) = txt ! (i + j)" "r < i" "i + k \<le> length txt"
  shows "repeat_from k (take i txt) r = take (i + k) txt"
  using assms
proof (induction k arbitrary: i r)
  case (Suc k)
  have "take i txt @ [take i txt ! r] = take (Suc i) txt"
    using Suc.prems by (simp add: take_Suc_conv_app_nth) (metis add_0_right zero_less_Suc)
  moreover have "\<forall>j < k. txt ! (Suc r + j) = txt ! (Suc i + j)"
    using Suc.prems(1) by (metis Suc_less_eq add_Suc_right add_Suc)
  ultimately show ?case using Suc.IH [of "Suc r" "Suc i"] Suc.prems by simp
qed simp

section \<open>Decompression follows the format\<close>

lemma wr_Some: "i < length buf \<Longrightarrow> wr buf i b = Some (buf[i := b])"
  by (simp add: wr_def)

lemma take_update_snoc: "take i out = ds \<Longrightarrow> i < length out \<Longrightarrow> take (Suc i) (out[i := b]) = ds @ [b]"
  by (simp add: take_Suc_conv_app_nth)

lemma copy_literals_ok:
  assumes "ip + k \<le> length inp" "take op out = ds" "op + k \<le> length out"
  shows "\<exists>out'. copy_literals k inp ip out op = Some out' \<and> length out' = length out \<and>
    take (op + k) out' = ds @ take k (drop ip inp)"
  using assms
proof (induction k arbitrary: ip op out ds)
  case (Suc k)
  let ?out = "out[op := inp ! ip]"
  have "take (op + 1) ?out = ds @ [inp ! ip]" using Suc.prems take_update_snoc [of op out ds "inp ! ip"] by simp
  with Suc.IH [of "ip + 1" "op + 1" ?out "ds @ [inp ! ip]"] Suc.prems
  obtain out' where "copy_literals k inp (ip + 1) ?out (op + 1) = Some out'" "length out' = length out"
    "take (op + 1 + k) out' = (ds @ [inp ! ip]) @ take k (drop (ip + 1) inp)" by auto
  then show ?case using Suc.prems by (simp add: rd_def wr_Some Cons_nth_drop_Suc [symmetric])
qed simp

lemma copy_back_ok:
  assumes "take op out = ds" "op \<le> length out" "r < op" "op + k \<le> length out"
  shows "\<exists>out'. copy_back k out r op = Some out' \<and> length out' = length out \<and>
    take (op + k) out' = repeat_from k ds r"
  using assms
proof (induction k arbitrary: op out ds r)
  case (Suc k)
  let ?out = "out[op := out ! r]"
  have r: "ds ! r = out ! r" "r < length out" using Suc.prems by auto
  have "take (op + 1) ?out = ds @ [ds ! r]" using Suc.prems r take_update_snoc [of op out ds] by simp
  with Suc.IH [of "op + 1" ?out "ds @ [ds ! r]" "r + 1"] Suc.prems
  obtain out' where "copy_back k ?out (r + 1) (op + 1) = Some out'" "length out' = length out"
    "take (op + 1 + k) out' = repeat_from k (ds @ [ds ! r]) (r + 1)" by auto
  then show ?case using Suc.prems r by (simp add: rd_def wr_Some)
qed simp

declare copy_literals.simps [simp del] copy_back.simps [simp del] repeat_from.simps [simp del]

lemma rd_at: "drop ip inp = b # bs \<Longrightarrow> rd inp ip = Some b"
  by (metis drop_eq_Nil2 list.distinct(1) nth_via_drop rd_def not_le)

lemma drop_take_suffix: "drop ip inp = xs @ ys \<Longrightarrow> xs \<noteq> [] \<Longrightarrow>
  ip + length xs + length ys = length inp \<and> drop (ip + length xs) inp = ys"
  by (metis add.commute append_eq_conv_conj drop_drop length_append length_drop length_greater_0_conv
      append_is_Nil_conv drop_eq_Nil2 not_le le_add_diff_inverse less_or_eq_imp_le add.assoc)

lemma unat_of_nat8: "n < 256 \<Longrightarrow> unat (of_nat n :: u8) = n"
  by (simp add: unat_of_nat)

lemma unat_of_nat8_mod: "unat (of_nat n :: u8) = n mod 256"
  by (simp add: unat_of_nat)

lemma unlzf_step_literal:
  assumes d: "drop ip inp = encode_item (Literal bs) @ cs" and v: "valid_item ds (Literal bs)"
    and t: "take op out = ds" and n: "op + length bs \<le> n" "n \<le> length out"
  shows "\<exists>out'. unlzf_step inp n ip op out = Some (Some (ip + length (encode_item (Literal bs)), op + length bs, out')) \<and>
    length out' = length out \<and> take (op + length bs) out' = ds @ bs"
proof -
  have bs: "bs \<noteq> []" "length bs \<le> 32" using v by simp_all
  have rd: "rd inp ip = Some (of_nat (length bs - 1))" using d by (auto intro: rd_at)
  have ctrl: "unat (of_nat (length bs - 1) :: u8) = length bs - 1" "length bs - 1 < 32" "length bs - 1 + 1 = length bs"
    using bs by (simp_all add: unat_of_nat8 Suc_le_eq del: of_nat_diff)
  have len: "ip + 1 + length bs \<le> length inp" "drop (ip + 1) inp = bs @ cs"
    using drop_take_suffix [OF d] drop_take_suffix [of ip inp "[of_nat (length bs - 1)]" "bs @ cs"] d by simp_all
  obtain out' where "copy_literals (length bs) inp (ip + 1) out op = Some out'" "length out' = length out"
    "take (op + length bs) out' = ds @ take (length bs) (drop (ip + 1) inp)"
    using copy_literals_ok [of "ip + 1" "length bs" inp op out ds] len t n by auto
  then show ?thesis
    using rd ctrl len n by (simp add: unlzf_step_def Let_def del: of_nat_diff)
qed

lemma unlzf_step_reference:
  assumes d: "drop ip inp = encode_item (Reference off len) @ cs" and v: "valid_item ds (Reference off len)"
    and t: "take op out = ds" and n: "op + len + 2 \<le> n" "n \<le> length out"
  shows "\<exists>out'. unlzf_step inp n ip op out = Some (Some (ip + length (encode_item (Reference off len)), op + len + 2, out')) \<and>
    length out' = length out \<and> take (op + len + 2) out' = decode_item ds (Reference off len)"
proof -
  have v': "off < 8192" "1 \<le> len" "len \<le> 262" "off < op" using v t by auto
  have op: "length ds = op" using t n by auto
  have q: "off div 256 < 32" using v'(1) by (simp add: less_mult_imp_div_less)
  have "off = off div 256 * 256 + off mod 256" by simp
  then have ref: "nat (int op - int (off div 256) * 256 - 1 - int (off mod 256)) = op - off - 1"
      "\<not> int op - int (off div 256) * 256 - 1 < int (off mod 256)"
    using v'(4) by linarith+
  have u: "uint (of_nat off :: u8) = int (off mod 256)"
    by (simp add: uint_nat unat_of_nat8_mod)
  obtain out' where out': "copy_back (len + 2) out (op - off - 1) op = Some out'" "length out' = length out"
    "take (op + (len + 2)) out' = repeat_from (len + 2) ds (op - off - 1)"
    using copy_back_ok [OF t, of "op - off - 1" "len + 2"] v'(4) n by auto
  show ?thesis
  proof (cases "len < 7")
    case True
    let ?c = "off div 256 + len * 32"
    have d': "drop ip inp = of_nat ?c # of_nat off # cs" using d True by simp
    have c: "unat (of_nat ?c :: u8) = ?c" using q True by (intro unat_of_nat8) simp
    have "rd inp ip = Some (of_nat ?c)" "rd inp (ip + 1) = Some (of_nat off)" "ip + 1 < length inp"
      using d' rd_at [OF d'] rd_at [of "ip + 1" inp "of_nat off" cs] drop_take_suffix [of ip inp "[of_nat ?c]" "of_nat off # cs"]
      by auto
    then show ?thesis
      using True c q v' ref out' n op u
      by (simp add: unlzf_step_def Let_def unat_of_nat8_mod)
  next
    case False
    let ?c = "off div 256 + 7 * 32"
    have d': "drop ip inp = of_nat ?c # of_nat (len - 7) # of_nat off # cs" using d False by simp
    have c: "unat (of_nat ?c :: u8) = ?c" "unat (of_nat (len - 7) :: u8) = len - 7"
      using q v'(3) by (intro unat_of_nat8; simp)+
    have c7: "(off div 256 + 224) div 32 = 7" "(off div 256 + 224) mod 32 = off div 256"
      using q div_mult_self1 [of 32 "off div 256" 7] mod_mult_self1 [of "off div 256" 7 32] by simp_all
    have "rd inp ip = Some (of_nat ?c)" "rd inp (ip + 1) = Some (of_nat (len - 7))" "rd inp (ip + 2) = Some (of_nat off)"
       "ip + 2 < length inp"
      using d' rd_at [OF d'] rd_at [of "ip + 1" inp "of_nat (len - 7)" "of_nat off # cs"] rd_at [of "ip + 2" inp "of_nat off" cs]
        drop_take_suffix [of ip inp "[of_nat ?c]" "of_nat (len - 7) # of_nat off # cs"]
        drop_take_suffix [of ip inp "[of_nat ?c, of_nat (len - 7)]" "of_nat off # cs"]
      by auto
    then show ?thesis
      using False c c7 v' ref out' n op u
      by (simp add: unlzf_step_def Let_def unat_of_nat8_mod del: of_nat_diff)
  qed
qed

lemma decode_item_grows: "valid_item ds i \<Longrightarrow> length ds < length (decode_item ds i)"
proof (cases i)
  case (Reference off len)
  then show ?thesis using repeat_from_prefix [of "len + 2" ds "length ds - off - 1"] by auto
qed auto

lemma decode_items_grow: "valid_items ds is \<Longrightarrow> length ds \<le> length (decode_items ds is)"
proof (induction "is" arbitrary: ds)
  case (Cons i "is")
  then show ?case using decode_item_grows [of ds i] by fastforce
qed simp

lemma unlzf_step_item:
  assumes d: "drop ip inp = encode_item i @ cs" and v: "valid_item ds i" and t: "take op out = ds"
    and n: "length (decode_item ds i) \<le> n" "n \<le> length out" "op \<le> length out"
  shows "\<exists>out'. unlzf_step inp n ip op out = Some (Some (ip + length (encode_item i), length (decode_item ds i), out')) \<and>
    length out' = length out \<and> take (length (decode_item ds i)) out' = decode_item ds i"
proof (cases i)
  case (Literal bs)
  have "length ds = op" using t n by auto
  then show ?thesis using unlzf_step_literal [of ip inp bs cs ds op out n] d v t n Literal by auto
next
  case (Reference off len)
  have op: "length ds = op" using t n by auto
  then have "length (decode_item ds i) = op + len + 2"
    using repeat_from_prefix [of "len + 2" ds "length ds - off - 1"] Reference by auto
  then show ?thesis using unlzf_step_reference [of ip inp off len cs ds op out n] d v t n Reference op by auto
qed

lemma unlzf_loop_items:
  assumes "drop ip inp = encode_items is" "is \<noteq> []" "valid_items ds is" "take op out = ds" "op \<le> length out"
    "length (decode_items ds is) \<le> n" "n \<le> length out"
  shows "\<exists>out'. unlzf_loop inp n ip op out = Some (length (decode_items ds is), out') \<and> length out' = length out \<and>
    take (length (decode_items ds is)) out' = decode_items ds is"
  using assms
proof (induction "is" arbitrary: ip ds op out)
  case (Cons i "is")
  let ?ds = "decode_item ds i" and ?ip = "ip + length (encode_item i)"
  have v: "valid_item ds i" "valid_items ?ds is" using Cons.prems by auto
  have le: "length ?ds \<le> n" using decode_items_grow [OF v(2)] Cons.prems(6) by simp
  have d: "drop ip inp = encode_item i @ encode_items is" using Cons.prems(1) by simp
  obtain out1 where s: "unlzf_step inp n ip op out = Some (Some (?ip, length ?ds, out1))"
    "length out1 = length out" "take (length ?ds) out1 = ?ds"
    using unlzf_step_item [OF d v(1) Cons.prems(4) le Cons.prems(7,5)] by blast
  have rest: "drop ?ip inp = encode_items is" "?ip + length (encode_items is) = length inp"
    using drop_take_suffix [OF d encode_item_nonempty] by simp_all
  show ?case
  proof (cases "is = []")
    case True
    then show ?thesis using s rest by (simp add: unlzf_loop.simps)
  next
    case False
    have "encode_items is \<noteq> []" using False encode_item_nonempty by (cases "is") auto
    then have "?ip < length inp" using rest(2) by (cases "encode_items is") auto
    then show ?thesis
      using Cons.IH [OF rest(1) False v(2) s(3)] s le Cons.prems(6,7) by (simp add: unlzf_loop.simps)
  qed
qed simp

lemma lzf_decompress_items:
  assumes "is \<noteq> []" "valid_items [] is" "length (decode_items [] is) \<le> n" "n \<le> length out"
  shows "\<exists>out'. lzf_decompress (encode_items is) out n = Some (length (decode_items [] is), out') \<and>
    length out' = length out \<and> take (length (decode_items [] is)) out' = decode_items [] is"
  using unlzf_loop_items [of 0 "encode_items is" "is" "[]" 0 out n] assms by (simp add: lzf_decompress_def)

section \<open>Compression produces the format\<close>

text \<open>The first \<open>n\<close> bytes at two places of a text agree.\<close>

definition agree :: "bytes \<Rightarrow> nat \<Rightarrow> nat \<Rightarrow> nat \<Rightarrow> bool" where
  "agree inp ref ip n \<longleftrightarrow> (\<forall>j < n. inp ! (ref + j) = inp ! (ip + j))"

lemma agree_Suc: "agree inp ref ip (Suc n) \<longleftrightarrow> agree inp ref ip n \<and> inp ! (ref + n) = inp ! (ip + n)"
  by (auto simp: agree_def less_Suc_eq)

lemma match_at_ok:
  assumes "ip + 2 < length inp"
  shows "\<exists>b. match_at inp ip ref = Some b \<and> (b \<longrightarrow> ref < ip \<and> ip - ref - 1 < 8192 \<and> agree inp ref ip 3)"
  using assms by (auto simp: match_at_def rd_def MAX_OFF_def numeral_3_eq_3 less_Suc_eq agree_def)

lemma unrolled_ok:
  assumes "agree inp ref ip (Suc len)" "ref < ip" "ip + len + k < length inp"
  shows "\<exists>brk len'. unrolled k inp ref ip len = Some (brk, len') \<and> len \<le> len' \<and> len' \<le> len + k \<and>
    (if brk then len < len' \<and> agree inp ref ip len' else len' = len + k \<and> agree inp ref ip (Suc len'))"
  using assms
proof (induction k arbitrary: len)
  case 0
  then show ?case by (intro exI [of _ False]) simp
next
  case (Suc k)
  show ?case
  proof (cases "inp ! (ref + Suc len) = inp ! (ip + Suc len)")
    case True
    have "agree inp ref ip (Suc (Suc len))" using Suc.prems True by (simp add: agree_Suc [of _ _ _ "Suc len"])
    from Suc.IH [OF this Suc.prems(2)] Suc.prems(3) obtain brk len' where
      "unrolled k inp ref ip (Suc len) = Some (brk, len')" "Suc len \<le> len'" "len' \<le> Suc len + k"
      "if brk then Suc len < len' \<and> agree inp ref ip len' else len' = Suc len + k \<and> agree inp ref ip (Suc len')"
      by auto
    then show ?thesis using True Suc.prems by (cases brk) (auto simp: rd_def)
  next
    case False
    then show ?thesis using Suc.prems by (intro exI [of _ True] exI [of _ "Suc len"]) (simp add: rd_def)
  qed
qed

lemma extend_match_ok:
  assumes "agree inp ref ip (Suc len)" "ref < ip" "ip + maxlen \<le> length inp"
  shows "\<exists>len'. extend_match maxlen inp ref ip len = Some len' \<and> len < len' \<and> (len' = len + 1 \<or> len' \<le> maxlen) \<and>
    agree inp ref ip len'"
  using assms
proof (induction maxlen inp ref ip len rule: extend_match.induct)
  case (1 maxlen inp ref ip len)
  show ?case
  proof (cases "len + 1 < maxlen \<and> inp ! (ref + (len + 1)) = inp ! (ip + (len + 1))")
    case True
    have "\<exists>len'. extend_match maxlen inp ref ip (len + 1) = Some len' \<and> len + 1 < len' \<and>
       (len' = len + 1 + 1 \<or> len' \<le> maxlen) \<and> agree inp ref ip len'"
      using True "1.prems" by (intro "1.IH") (auto simp: rd_def agree_Suc [of _ _ _ "Suc len"])
    then show ?thesis using True "1.prems" by (auto simp: extend_match.simps [of maxlen inp ref ip len] rd_def)
  next
    case False
    then show ?thesis using "1.prems" by (auto simp: extend_match.simps [of maxlen inp ref ip len] rd_def)
  qed
qed

lemma match_length_ok:
  assumes "agree inp ref ip 3" "ref < ip" "ip + 2 < length inp"
  shows "\<exists>len. match_length inp ref ip = Some len \<and> 3 \<le> len \<and> len \<le> 264 \<and> ip + len \<le> length inp \<and>
    agree inp ref ip len"
proof -
  define maxlen where "maxlen = min (length inp - ip - 2) MAX_REF"
  have m: "ip + maxlen + 2 \<le> length inp" "maxlen \<le> 264" "1 \<le> maxlen"
    using assms(3) by (auto simp: maxlen_def MAX_REF_def)
  have ml: "match_length inp ref ip = do {
     (brk, len) \<leftarrow> (if maxlen > 16 then unrolled 16 inp ref ip 2 else Some (False, 2));
     if brk then Some len else extend_match maxlen inp ref ip len }"
    unfolding match_length_def maxlen_def Let_def ..
  have a: "agree inp ref ip (Suc 2)" using assms(1) by (simp add: numeral_3_eq_3)
  show ?thesis
  proof (cases "maxlen > 16")
    case True
    then obtain brk l where l: "unrolled 16 inp ref ip 2 = Some (brk, l)" "2 \<le> l" "l \<le> 18"
      "if brk then 2 < l \<and> agree inp ref ip l else l = 2 + 16 \<and> agree inp ref ip (Suc l)"
      using unrolled_ok [OF a assms(2), of 16] m by auto
    show ?thesis
    proof (cases brk)
      case True
      then show ?thesis using l m \<open>maxlen > 16\<close> by (auto simp: ml)
    next
      case False
      then obtain l' where "extend_match maxlen inp ref ip l = Some l'" "l < l'" "l' = l + 1 \<or> l' \<le> maxlen"
          "agree inp ref ip l'"
        using extend_match_ok [of inp ref ip l maxlen] l(4) assms(2) m by auto
      then show ?thesis using False l m \<open>maxlen > 16\<close>
        by (auto simp: ml)
    qed
  next
    case False
    obtain l' where "extend_match maxlen inp ref ip 2 = Some l'" "2 < l'" "l' = 2 + 1 \<or> l' \<le> maxlen" "agree inp ref ip l'"
      using extend_match_ok [OF a assms(2), of maxlen] m by auto
    then show ?thesis using False m by (auto simp: ml)
  qed
qed

text \<open>The state with a run of literals open, and with all output complete.\<close>

definition running :: "bytes \<Rightarrow> nat \<Rightarrow> lzf \<Rightarrow> item list \<Rightarrow> bool" where
  "running inp n z is \<longleftrightarrow> inpos z \<le> length inp \<and> lit z \<le> inpos z \<and> lit z \<le> 32 \<and>
     outpos z = length (encode_items is) + 1 + lit z \<and> length (outbuf z) = n \<and> outpos z \<le> n + 1 \<and>
     (0 < lit z \<longrightarrow> outpos z \<le> n) \<and> take (length (encode_items is)) (outbuf z) = encode_items is \<and>
     (\<forall>j < lit z. outbuf z ! (length (encode_items is) + 1 + j) = inp ! (inpos z - lit z + j)) \<and>
     valid_items [] is \<and> decode_items [] is = take (inpos z - lit z) inp"

definition flushed :: "bytes \<Rightarrow> nat \<Rightarrow> lzf \<Rightarrow> item list \<Rightarrow> bool" where
  "flushed inp n z is \<longleftrightarrow> inpos z \<le> length inp \<and> length (outbuf z) = n \<and> outpos z \<le> n \<and>
     take (outpos z) (outbuf z) = encode_items is \<and> valid_items [] is \<and> decode_items [] is = take (inpos z) inp"

lemma start_run_running: "flushed inp n z is \<Longrightarrow> running inp n (start_run z) is"
proof -
  assume f: "flushed inp n z is"
  then have "length (encode_items is) = outpos z"
    by (metis flushed_def length_take min_absorb2)
  then show ?thesis using f by (simp add: flushed_def running_def start_run_def)
qed

text \<open>The literals of a run are in the output already; closing the run writes their count before them.\<close>

lemma closed_run_bytes:
  assumes r: "running inp n z is" and n: "outpos z \<le> n" and some: "lit z \<noteq> 0"
  shows "take (outpos z) ((outbuf z)[length (encode_items is) := of_nat (lit z) - 1]) =
    encode_items is @ encode_item (Literal (take (lit z) (drop (inpos z - lit z) inp)))"
proof -
  let ?e = "length (encode_items is)" and ?lits = "take (lit z) (drop (inpos z - lit z) inp)"
  let ?ob = "(outbuf z)[?e := of_nat (lit z) - 1]"
  have z: "outpos z = ?e + 1 + lit z" "length (outbuf z) = n" "take ?e (outbuf z) = encode_items is" "lit z \<le> inpos z"
    "inpos z \<le> length inp" "lit z \<le> 32" "valid_items [] is" "decode_items [] is = take (inpos z - lit z) inp"
    using r by (simp_all add: running_def)
  have len: "length ?lits = lit z" using z by simp
  show ?thesis
  proof (rule nth_equalityI)
    show "length (take (outpos z) ?ob) = length (encode_items is @ encode_item (Literal ?lits))"
      using z n len by simp
  next
    fix j assume "j < length (take (outpos z) ?ob)"
    then have j: "j < ?e + 1 + lit z" using z by simp
    have c: "j < ?e \<Longrightarrow> outbuf z ! j = encode_items is ! j" using z(3) by (metis nth_take)
    have d: "?e < j \<Longrightarrow> outbuf z ! j = ?lits ! (j - ?e - 1)"
    proof -
      assume "?e < j"
      then have k: "j - ?e - 1 < lit z" "?e + 1 + (j - ?e - 1) = j" using j by simp_all
      have "outbuf z ! (?e + 1 + (j - ?e - 1)) = inp ! (inpos z - lit z + (j - ?e - 1))"
        using r k(1) unfolding running_def by blast
      then show ?thesis using k z by simp
    qed
    consider "j < ?e" | "j = ?e" | "?e < j" by linarith
    then show "take (outpos z) ?ob ! j = (encode_items is @ encode_item (Literal ?lits)) ! j"
    proof cases
      case 1 then show ?thesis using c z j by (simp add: nth_append)
    next
      case 2 then show ?thesis using z n len some by (simp add: nth_append)
    next
      case 3
      then have "(of_nat (length ?lits - 1) # ?lits) ! (j - ?e) = ?lits ! (j - ?e - 1)"
        by (simp only: nth_Cons') simp
      then show ?thesis using 3 d z(1) j by (simp only: encode_item.simps nth_append) simp
    qed
  qed
qed

lemma stop_run_flushed:
  assumes r: "running inp n z is" and n: "outpos z \<le> n"
  shows "\<exists>ob is'. stop_run z = Some (z\<lparr>outbuf := ob\<rparr>) \<and> flushed inp n (undo_run (z\<lparr>outbuf := ob\<rparr>)) is'"
proof -
  let ?e = "length (encode_items is)" and ?lits = "take (lit z) (drop (inpos z - lit z) inp)"
  let ?ob = "(outbuf z)[?e := of_nat (lit z) - 1]"
  have z: "outpos z = ?e + 1 + lit z" "length (outbuf z) = n" "take ?e (outbuf z) = encode_items is" "lit z \<le> inpos z"
    "inpos z \<le> length inp" "lit z \<le> 32" "valid_items [] is" "decode_items [] is = take (inpos z - lit z) inp"
    using r by (simp_all add: running_def)
  have s: "stop_run z = Some (z\<lparr>outbuf := ?ob\<rparr>)"
    using z n by (simp add: stop_run_def wr_Some)
  show ?thesis
  proof (cases "lit z = 0")
    case True
    then have "flushed inp n (undo_run (z\<lparr>outbuf := ?ob\<rparr>)) is"
      using z n by (simp add: flushed_def undo_run_def)
    with s show ?thesis by blast
  next
    case False
    have len: "length ?lits = lit z" using z by simp
    have "take (outpos z) ?ob = encode_items is @ encode_item (Literal ?lits)" by (rule closed_run_bytes [OF r n False])
    moreover have "take (inpos z - lit z) inp @ ?lits = take (inpos z) inp"
      using z(4) by (metis add.commute le_add_diff_inverse2 take_add)
    moreover have "valid_item (decode_items [] is) (Literal ?lits)"
      using len False z(6) by (cases "?lits = []") simp_all
    ultimately have "flushed inp n (undo_run (z\<lparr>outbuf := ?ob\<rparr>)) (is @ [Literal ?lits])"
      using z n False by (simp add: flushed_def undo_run_def valid_items_append)
    with s show ?thesis by blast
  qed
qed

lemma put_byte_ok: "outpos z < length (outbuf z) \<Longrightarrow>
    put_byte b z = Some (z\<lparr>outbuf := (outbuf z)[outpos z := b], outpos := outpos z + 1\<rparr>)"
  by (simp add: put_byte_def wr_Some)

lemma put_literal_ok:
  assumes r: "running inp n z is" and l: "lit z < 32" and i: "inpos z < length inp" and o: "outpos z < n"
  shows "\<exists>z' is'. put_literal inp z = Some z' \<and> running inp n z' is' \<and> inpos z' = inpos z + 1 \<and>
    lit z' = (if lit z = 31 then 0 else lit z + 1) \<and> outpos z' = outpos z + (if lit z = 31 then 2 else 1)"
proof -
  let ?z = "z\<lparr>lit := lit z + 1, inpos := inpos z + 1, outbuf := (outbuf z)[outpos z := inp ! inpos z],
    outpos := outpos z + 1\<rparr>"
  have n: "length (outbuf z) = n" "outpos z = length (encode_items is) + 1 + lit z" using r by (simp_all add: running_def)
  have "put_byte (inp ! inpos z) (z\<lparr>lit := lit z + 1, inpos := inpos z + 1\<rparr>) = Some ?z"
    using o n by (simp add: put_byte_def wr_Some)
  then have p: "put_literal inp z = (if lit z + 1 = 32 then do { z \<leftarrow> stop_run ?z; Some (start_run z) } else Some ?z)"
    using i by (simp add: put_literal_def rd_def MAX_LIT_def)
  have r1: "running inp n ?z is"
    unfolding running_def
  proof (intro conjI)
    show "\<forall>j < lit ?z. outbuf ?z ! (length (encode_items is) + 1 + j) = inp ! (inpos ?z - lit ?z + j)"
    proof (intro allI impI)
      fix j assume "j < lit ?z"
      then show "outbuf ?z ! (length (encode_items is) + 1 + j) = inp ! (inpos ?z - lit ?z + j)"
        using r o n by (cases "j = lit z") (simp_all add: running_def)
    qed
  qed (use r l i o n in \<open>simp_all add: running_def\<close>)
  show ?thesis
  proof (cases "lit z = 31")
    case False
    then show ?thesis using p r1 l by auto
  next
    case True
    obtain ob is' where s: "stop_run ?z = Some (?z\<lparr>outbuf := ob\<rparr>)" "flushed inp n (undo_run (?z\<lparr>outbuf := ob\<rparr>)) is'"
      using stop_run_flushed [OF r1] o by auto
    have "undo_run (?z\<lparr>outbuf := ob\<rparr>) = ?z\<lparr>outbuf := ob\<rparr>" by (simp add: undo_run_def)
    with s(2) have "running inp n (start_run (?z\<lparr>outbuf := ob\<rparr>)) is'" using start_run_running by metis
    moreover have "put_literal inp z = Some (start_run (?z\<lparr>outbuf := ob\<rparr>))" using p True s(1) by simp
    ultimately show ?thesis using True by (intro exI conjI) (assumption | simp add: start_run_def)+
  qed
qed

text \<open>Writing bytes after complete output.\<close>

lemma put_byte_snoc:
  assumes "take (outpos z) (outbuf z) = e" "outpos z < length (outbuf z)"
  shows "\<exists>z'. put_byte b z = Some z' \<and> take (outpos z') (outbuf z') = e @ [b] \<and> outpos z' = outpos z + 1 \<and>
    length (outbuf z') = length (outbuf z) \<and> inpos z' = inpos z"
  using assms by (simp add: put_byte_ok take_update_snoc)

lemma emit_reference_ok:
  assumes "take (outpos z) (outbuf z) = e" "outpos z + 3 \<le> length (outbuf z)"
  shows "\<exists>z'. emit_reference off len z = Some z' \<and>
     take (outpos z') (outbuf z') = e @ encode_item (Reference off len) \<and> outpos z' \<le> length (outbuf z') \<and>
     length (outbuf z') = length (outbuf z) \<and> inpos z' = inpos z"
proof (cases "len < 7")
  case True
  obtain z1 where z1: "put_byte (of_nat (off div 256 + len * 32)) z = Some z1" "outpos z1 = outpos z + 1"
    "take (outpos z1) (outbuf z1) = e @ [of_nat (off div 256 + len * 32)]" "length (outbuf z1) = length (outbuf z)"
    "inpos z1 = inpos z"
    using put_byte_snoc [OF assms(1)] assms(2) by force
  obtain z2 where "put_byte (of_nat off) z1 = Some z2" "outpos z2 = outpos z1 + 1"
    "take (outpos z2) (outbuf z2) = (e @ [of_nat (off div 256 + len * 32)]) @ [of_nat off]"
    "length (outbuf z2) = length (outbuf z1)" "inpos z2 = inpos z1"
    using put_byte_snoc [OF z1(3)] z1(2,4) assms(2) by force
  then show ?thesis using True z1 assms(2) by (simp add: emit_reference_def)
next
  case False
  obtain z1 where z1: "put_byte (of_nat (off div 256 + 7 * 32)) z = Some z1" "outpos z1 = outpos z + 1"
    "take (outpos z1) (outbuf z1) = e @ [of_nat (off div 256 + 7 * 32)]" "length (outbuf z1) = length (outbuf z)"
    "inpos z1 = inpos z"
    using put_byte_snoc [OF assms(1)] assms(2) by force
  obtain z2 where z2: "put_byte (of_nat (len - 7)) z1 = Some z2" "outpos z2 = outpos z1 + 1"
    "take (outpos z2) (outbuf z2) = (e @ [of_nat (off div 256 + 7 * 32)]) @ [of_nat (len - 7)]"
    "length (outbuf z2) = length (outbuf z1)" "inpos z2 = inpos z1"
    using put_byte_snoc [OF z1(3)] z1(2,4) assms(2) by force
  obtain z3 where "put_byte (of_nat off) z2 = Some z3" "outpos z3 = outpos z2 + 1"
    "take (outpos z3) (outbuf z3) = ((e @ [of_nat (off div 256 + 7 * 32)]) @ [of_nat (len - 7)]) @ [of_nat off]"
    "length (outbuf z3) = length (outbuf z2)" "inpos z3 = inpos z2"
    using put_byte_snoc [OF z2(3)] z1 z2 assms(2) by force
  then show ?thesis using False z1 z2 assms(2) by (simp add: emit_reference_def del: of_nat_diff)
qed

lemma rehash_ok:
  assumes "inpos z + 2 < length inp"
  shows "\<exists>h ht. rehash inp z = Some (z\<lparr>hval := h, htab := ht, inpos := inpos z + 1\<rparr>)"
proof -
  obtain h where "NEXT (hval z) inp (inpos z) = Some h" using assms by (simp add: NEXT_def rd_def)
  then have "rehash inp z = Some (z\<lparr>hval := h, htab := (htab z)(IDX h := of_nat (inpos z)), inpos := inpos z + 1\<rparr>)"
    by (simp add: rehash_def)
  then show ?thesis by blast
qed

lemma running_hash: "running inp n (z\<lparr>hval := h, htab := ht\<rparr>) is = running inp n z is"
  by (simp add: running_def)

text \<open>What a pass of the main loop achieves.\<close>

fun progress :: "bytes \<Rightarrow> nat \<Rightarrow> nat \<Rightarrow> lzf_next \<Rightarrow> bool" where
  "progress inp n i Return_0 \<longleftrightarrow> True"
| "progress inp n i (Again z) \<longleftrightarrow> i < inpos z \<and> lit z < 32 \<and> (\<exists>is. running inp n z is)"
| "progress inp n i (Break z) \<longleftrightarrow> length inp \<le> inpos z + 2 \<and> lit z < 32 \<and> (\<exists>is. running inp n z is)"

lemma resume_ok:
  assumes "running inp n z is" "lit z < 32" "2 \<le> inpos z" "i < inpos z"
  shows "\<exists>x. resume inp z = Some x \<and> progress inp n i x"
proof (cases "inpos z + 2 \<ge> length inp")
  case True
  then show ?thesis using assms by (auto simp: resume_def)
next
  case False
  let ?z = "z\<lparr>inpos := inpos z - 2\<rparr>"
  have p: "Suc (inpos z - 2) = inpos z - 1" "Suc (inpos z - 1) = inpos z" "Suc (inpos z - Suc 0) = inpos z"
    using assms(3) by simp_all
  have "inpos z - 2 < length inp" "Suc (inpos z - 2) < length inp" using False by linarith+
  then obtain h where h: "FRST inp (inpos ?z) = Some h" by (simp add: FRST_def rd_def)
  obtain h1 ht1 where r1: "rehash inp (?z\<lparr>hval := h\<rparr>) = Some (?z\<lparr>hval := h1, htab := ht1, inpos := inpos z - 1\<rparr>)"
    using rehash_ok [of "?z\<lparr>hval := h\<rparr>" inp] False p by auto
  obtain h2 ht2 where r2: "rehash inp (?z\<lparr>hval := h1, htab := ht1, inpos := inpos z - 1\<rparr>) =
      Some (?z\<lparr>hval := h2, htab := ht2, inpos := inpos z\<rparr>)"
    using rehash_ok [of "?z\<lparr>hval := h1, htab := ht1, inpos := inpos z - 1\<rparr>" inp] False p by auto
  have "resume inp z = Some (Again (z\<lparr>hval := h2, htab := ht2\<rparr>))"
    using False h r1 r2 by (simp add: resume_def Let_def)
  then show ?thesis using assms by (auto simp: running_hash)
qed

lemma put_reference_ok:
  assumes r: "running inp n z is" and i: "inpos z + 2 < length inp" and ref: "ref < inpos z"
    and off: "inpos z - ref - 1 < 8192" and a: "agree inp ref (inpos z) 3"
  shows "\<exists>x. put_reference inp ref z = Some x \<and> progress inp n (inpos z) x"
proof (cases "outpos z - (if lit z = 0 then 1 else 0) + 4 < n")
  case False
  then show ?thesis using r by (auto simp: put_reference_def running_def)
next
  case True
  define off where "off = inpos z - ref - 1"
  have n: "length (outbuf z) = n" "outpos z \<ge> 1" using r by (simp_all add: running_def)
  obtain ob is1 where s: "stop_run z = Some (z\<lparr>outbuf := ob\<rparr>)" "flushed inp n (undo_run (z\<lparr>outbuf := ob\<rparr>)) is1"
    using stop_run_flushed [OF r] True n by (auto split: if_split_asm)
  let ?z1 = "undo_run (z\<lparr>outbuf := ob\<rparr>)"
  have z1: "inpos ?z1 = inpos z" "length (outbuf ?z1) = n" "outpos ?z1 + 3 \<le> length (outbuf ?z1)"
      "take (outpos ?z1) (outbuf ?z1) = encode_items is1" "valid_items [] is1" "decode_items [] is1 = take (inpos z) inp"
    using s(2) True by (simp_all add: flushed_def undo_run_def)
  obtain l where l: "match_length inp ref (inpos z) = Some l" "3 \<le> l" "l \<le> 264" "inpos z + l \<le> length inp"
      "agree inp ref (inpos z) l"
    using match_length_ok [OF a ref i] by blast
  define len where "len = l - 2"
  have "l = len + 2" using l(2) by (simp add: len_def)
  then have len: "match_length inp ref (inpos z) = Some (len + 2)" "1 \<le> len" "len \<le> 262"
      "inpos z + len + 2 \<le> length inp" "agree inp ref (inpos z) (len + 2)"
    using l by simp_all
  obtain z2 where z2: "emit_reference off len ?z1 = Some z2"
     "take (outpos z2) (outbuf z2) = encode_items is1 @ encode_item (Reference off len)"
     "outpos z2 \<le> length (outbuf z2)" "length (outbuf z2) = n"
    using emit_reference_ok [OF z1(4,3), of off len] z1(2) by auto
  let ?z3 = "z2\<lparr>inpos := inpos z + len + 2\<rparr>"
  have "decode_item (take (inpos z) inp) (Reference off len) = take (inpos z + (len + 2)) inp"
    using repeat_from_text [of "len + 2" inp ref "inpos z"] len ref i by (simp add: off_def agree_def)
  moreover have "valid_item (decode_items [] is1) (Reference off len)"
    using z1(6) len off ref i by (simp add: off_def)
  ultimately have "flushed inp n ?z3 (is1 @ [Reference off len])"
    using z1 z2 len by (simp add: flushed_def valid_items_append)
  then have "running inp n (start_run ?z3) (is1 @ [Reference off len])" by (rule start_run_running)
  then have "\<exists>x. resume inp (start_run ?z3) = Some x \<and> progress inp n (inpos z) x"
    by (rule resume_ok) (simp_all add: start_run_def)
  moreover have "\<not> (outpos z + 3 + 1 \<ge> length (outbuf z) \<and>
      outpos z - (if lit z = 0 then 1 else 0) + 3 + 1 \<ge> length (outbuf z))"
    using True n by (cases "lit z = 0") simp_all
  then have "put_reference inp ref z = resume inp ((start_run z2)\<lparr>inpos := inpos z + len + 2\<rparr>)"
    using s(1) len(1) z2(1) by (simp only: put_reference_def if_False off_def) simp
  moreover have "(start_run z2)\<lparr>inpos := inpos z + len + 2\<rparr> = start_run ?z3"
    by (simp add: start_run_def)
  ultimately show ?thesis by simp
qed

lemma lzf_step_ok:
  assumes r: "running inp n z is" and l: "lit z < 32" and i: "inpos z + 2 < length inp"
  shows "\<exists>x. lzf_step inp z = Some x \<and> progress inp n (inpos z) x"
proof -
  obtain h where h: "NEXT (hval z) inp (inpos z) = Some h" using i by (simp add: NEXT_def rd_def)
  define ref where "ref = unat (htab z (IDX h))"
  let ?z = "z\<lparr>hval := h, htab := (htab z)(IDX h := of_nat (inpos z))\<rparr>"
  have r1: "running inp n ?z is" using r by (simp add: running_hash)
  obtain b where b: "match_at inp (inpos z) ref = Some b"
    "b \<longrightarrow> ref < inpos z \<and> inpos z - ref - 1 < 8192 \<and> agree inp ref (inpos z) 3"
    using match_at_ok [OF i, of ref] by blast
  have s: "lzf_step inp z = (if b then put_reference inp ref ?z
      else if outpos z \<ge> length (outbuf z) then Some Return_0 else map_option Again (put_literal inp ?z))"
    using h b(1) by (simp add: lzf_step_def Let_def ref_def)
  show ?thesis
  proof (cases b)
    case True
    then show ?thesis using put_reference_ok [OF r1, of ref] b(2) i s by simp
  next
    case False
    show ?thesis
    proof (cases "outpos z \<ge> length (outbuf z)")
      case True
      then show ?thesis using False s by simp
    next
      case 2: False
      have "length (outbuf z) = n" using r by (simp add: running_def)
      then obtain z' is' where "put_literal inp ?z = Some z'" "running inp n z' is'" "inpos z' = inpos z + 1"
          "lit z' < 32"
        using put_literal_ok [OF r1] l i 2 by (auto split: if_split_asm)
      then show ?thesis using False 2 s by auto
    qed
  qed
qed

lemma lzf_loop_ok:
  assumes "running inp n z is" "lit z < 32"
  shows "\<exists>r. lzf_loop inp z = Some r \<and>
    (\<forall>z'. r = Some z' \<longrightarrow> length inp \<le> inpos z' + 2 \<and> lit z' < 32 \<and> (\<exists>is'. running inp n z' is'))"
  using assms
proof (induction "length inp - inpos z" arbitrary: z "is" rule: less_induct)
  case less
  show ?case
  proof (cases "inpos z + 2 < length inp")
    case True
    obtain x where x: "lzf_step inp z = Some x" "progress inp n (inpos z) x"
      using lzf_step_ok [OF less.prems True] by blast
    show ?thesis
    proof (cases x)
      case (Again z')
      then obtain is' where z': "inpos z < inpos z'" "lit z' < 32" "running inp n z' is'" using x(2) by auto
      have "length inp - inpos z' < length inp - inpos z" using z'(1) True by simp
      from less.hyps [OF this z'(3,2)] show ?thesis using True x Again by (simp add: lzf_loop.simps [of inp z])
    qed (use True x in \<open>simp_all add: lzf_loop.simps [of inp z]\<close>)
  next
    case False
    then show ?thesis using less.prems by (auto simp: lzf_loop.simps [of inp z])
  qed
qed

lemma lzf_tail_ok:
  assumes "running inp n z is" "lit z < 32" "length inp \<le> inpos z + k" "k \<le> 2"
    "outpos z + k + (if lit z + k \<ge> 32 then 1 else 0) \<le> n"
  shows "\<exists>z' is'. lzf_tail inp z = Some z' \<and> running inp n z' is' \<and> inpos z' = length inp \<and> outpos z' \<le> n"
  using assms
proof (induction k arbitrary: z "is")
  case 0
  then have "inpos z = length inp" by (simp add: running_def)
  then show ?case using 0 by (auto simp: lzf_tail.simps [of inp z] split: if_split_asm)
next
  case (Suc k)
  show ?case
  proof (cases "inpos z < length inp")
    case True
    have "outpos z < n" using Suc.prems(5) by (auto split: if_split_asm)
    then obtain z' is' where z': "put_literal inp z = Some z'" "running inp n z' is'" "inpos z' = inpos z + 1"
        "lit z' = (if lit z = 31 then 0 else lit z + 1)" "outpos z' = outpos z + (if lit z = 31 then 2 else 1)"
      using put_literal_ok [OF Suc.prems(1,2) True] by blast
    have "outpos z' + k + (if lit z' + k \<ge> 32 then 1 else 0) \<le> n"
      using z'(4,5) Suc.prems(2,4,5) by (auto split: if_split_asm)
    then show ?thesis using Suc.IH [OF z'(2)] z' Suc.prems True by (simp add: lzf_tail.simps [of inp z])
  next
    case False
    then have "inpos z = length inp" using Suc.prems(1) by (simp add: running_def)
    then show ?thesis using Suc.prems by (auto simp: lzf_tail.simps [of inp z] split: if_split_asm)
  qed
qed

section \<open>The round trip\<close>

lemma lzf_inverse:
  assumes "2 \<le> length inp"
  shows "\<exists>n out'. lzf_compress ht inp out = Some (n, out') \<and> n \<le> length out \<and> length out' = length out \<and>
    (n \<noteq> 0 \<longrightarrow> (\<forall>buf. length inp \<le> length buf \<longrightarrow>
      (\<exists>buf'. lzf_decompress (take n out') buf (length inp) = Some (length inp, buf') \<and> length buf' = length buf \<and>
         take (length inp) buf' = inp)))"
proof (cases "out = []")
  case True
  then show ?thesis by (simp add: lzf_compress_def)
next
  case False
  have "0 < length inp" "1 < length inp" using assms by linarith+
  then obtain h where h: "FRST inp 0 = Some h" by (simp add: FRST_def rd_def)
  let ?z = "\<lparr>inpos = 0, outpos = 1, lit = 0, hval = h, htab = ht, outbuf = out\<rparr>"
  have "running inp (length out) ?z []" using False by (simp add: running_def)
  then obtain r where r: "lzf_loop inp ?z = Some r"
    "\<forall>z'. r = Some z' \<longrightarrow> length inp \<le> inpos z' + 2 \<and> lit z' < 32 \<and> (\<exists>is'. running inp (length out) z' is')"
    using lzf_loop_ok [of inp "length out" ?z "[]"] by auto
  have inp: "inp \<noteq> []" using assms by auto
  show ?thesis
  proof (cases r)
    case None
    then show ?thesis using h r inp False by (simp add: lzf_compress_def)
  next
    case (Some z1)
    obtain is1 where z1: "length inp \<le> inpos z1 + 2" "lit z1 < 32" "running inp (length out) z1 is1"
      using r(2) Some by blast
    have len: "length (outbuf z1) = length out" using z1(3) by (simp add: running_def)
    show ?thesis
    proof (cases "outpos z1 + 3 > length out")
      case True
      then show ?thesis using h r Some inp False len by (simp add: lzf_compress_def)
    next
      case 2: False
      obtain z2 is2 where z2: "lzf_tail inp z1 = Some z2" "running inp (length out) z2 is2" "inpos z2 = length inp"
          "outpos z2 \<le> length out"
        using lzf_tail_ok [OF z1(3,2,1)] 2 by (cases "30 \<le> lit z1") auto
      obtain ob is3 where s: "stop_run z2 = Some (z2\<lparr>outbuf := ob\<rparr>)" "flushed inp (length out) (undo_run (z2\<lparr>outbuf := ob\<rparr>)) is3"
        using stop_run_flushed [OF z2(2,4)] by blast
      let ?n = "outpos (undo_run (z2\<lparr>outbuf := ob\<rparr>))"
      have c: "lzf_compress ht inp out = Some (?n, ob)"
        using h r(1) Some inp False 2 len z2(1) s(1) by (simp add: lzf_compress_def Let_def undo_run_def)
      have f: "length ob = length out" "?n \<le> length out" "take ?n ob = encode_items is3" "valid_items [] is3" "decode_items [] is3 = inp"
        using s(2) z2(3) by (simp_all add: flushed_def undo_run_def)
      have "is3 \<noteq> []" using f(5) inp by auto
      then have "\<forall>buf. length inp \<le> length buf \<longrightarrow>
          (\<exists>buf'. lzf_decompress (take ?n ob) buf (length inp) = Some (length inp, buf') \<and> length buf' = length buf \<and> take (length inp) buf' = inp)"
        using lzf_decompress_items [of is3 "length inp"] f by simp
      with c f(1,2) show ?thesis by blast
    qed
  qed
qed



end
