(* ===== verification/StorageRecords.thy ===== *)
theory StorageRecords
  imports Storage LzfRoundtrip
begin

text \<open>
  Records of the storage file: what a writer appends, and that the readers get it back.
  \<open>writes w bs\<close> is the contract of every writer: it appends \<open>bs\<close> if the disk has room for all of
  it, and otherwise answers an error; it never faults.
\<close>

section \<open>Writers\<close>

definition appended :: "wfile \<Rightarrow> bytes \<Rightarrow> wfile" where
  "appended f bs = \<lparr>written = written f @ bs, space = space f - length bs\<rparr>"

definition writes :: "writer \<Rightarrow> bytes \<Rightarrow> bool" where
  "writes w bs \<longleftrightarrow> (\<forall>f. if length bs \<le> space f then w f = Some (EG_STATUS_OK, appended f bs)
                      else \<exists>f'. w f = Some (EG_STATUS_ERR, f'))"

lemma appended_append: "appended f (xs @ ys) = appended (appended f xs) ys"
  by (simp add: appended_def)

lemma appended_Nil [simp]: "appended f [] = f"
  by (simp add: appended_def)

lemma space_appended [simp]: "space (appended f bs) = space f - length bs"
  by (simp add: appended_def)

named_theorems writers \<open>what the writers append\<close>

lemma writes_storage_write: "data \<noteq> [] \<Longrightarrow> writes (storage_write data) data"
  by (simp add: writes_def storage_write_def appended_def)

lemma writes_type [writers]: "writes (storage_write_type t) [t]"
  by (simp add: storage_write_type_def writes_storage_write)

lemma writes_seq:
  assumes "writes w xs" "writes v ys"
  shows "writes (\<lambda>f. do { (st, f) \<leftarrow> w f; if st = EG_STATUS_ERR then Some (EG_STATUS_ERR, f) else v f }) (xs @ ys)"
  unfolding writes_def
proof
  fix f
  have w: "if length xs \<le> space f then w f = Some (EG_STATUS_OK, appended f xs) else \<exists>f'. w f = Some (EG_STATUS_ERR, f')"
    using assms(1) by (simp add: writes_def)
  have v: "if length ys \<le> space f - length xs then v (appended f xs) = Some (EG_STATUS_OK, appended f (xs @ ys))
      else \<exists>f'. v (appended f xs) = Some (EG_STATUS_ERR, f')"
    using assms(2) by (simp add: writes_def appended_append)
  consider "length (xs @ ys) \<le> space f" | "length xs \<le> space f" "\<not> length (xs @ ys) \<le> space f" | "\<not> length xs \<le> space f"
    by fastforce
  then show "if length (xs @ ys) \<le> space f
     then do { (st, f) \<leftarrow> w f; if st = EG_STATUS_ERR then Some (EG_STATUS_ERR, f) else v f } =
       Some (EG_STATUS_OK, appended f (xs @ ys))
     else \<exists>f'. do { (st, f) \<leftarrow> w f; if st = EG_STATUS_ERR then Some (EG_STATUS_ERR, f) else v f } =
       Some (EG_STATUS_ERR, f')"
    by cases (use w v in auto)
qed

lemma writes_in_turn: "list_all2 writes ws bss \<Longrightarrow> writes (in_turn ws) (concat bss)"
proof (induction rule: list_all2_induct)
  case Nil
  then show ?case by (simp add: writes_def)
next
  case (Cons w ws b bs)
  have "in_turn (w # ws) = (\<lambda>f. do { (st, f) \<leftarrow> w f; if st = EG_STATUS_ERR then Some (EG_STATUS_ERR, f) else in_turn ws f })"
    by (simp add: fun_eq_iff)
  then show ?case using writes_seq [OF Cons(1,3)] by simp
qed

lemma writes_save_each:
  "(\<forall>x \<in> set xs. writes (w x) (e x)) \<Longrightarrow> writes (save_each w xs) (concat (map e xs))"
proof (induction xs)
  case Nil
  then show ?case by (simp add: writes_def)
next
  case (Cons x xs)
  have "save_each w (x # xs) = (\<lambda>f. do { (st, f) \<leftarrow> w x f; if st = EG_STATUS_ERR then Some (EG_STATUS_ERR, f) else save_each w xs f })"
    by (auto simp: fun_eq_iff intro!: Option.bind_cong) (metis status.exhaust)+
  then show ?case using writes_seq [of "w x" "e x"] Cons by simp
qed

section \<open>Records\<close>

text \<open>\<open>cs\<close> is compressed \<open>data\<close>.\<close>

definition inflates :: "bytes \<Rightarrow> bytes \<Rightarrow> bool" where
  "inflates cs data \<longleftrightarrow> cs \<noteq> [] \<and> (\<forall>buf. length data \<le> length buf \<longrightarrow> (\<exists>buf'.
     lzf_decompress cs buf (length data) = Some (length data, buf') \<and> take (length data) buf' = data \<and>
     length buf' = length buf))"

lemma compressed:
  assumes "4 < length data"
  shows "\<exists>n out. lzf_compress ht data (replicate (length data - 4) 0) = Some (n, out) \<and> n \<le> length data - 4 \<and>
    (n \<noteq> 0 \<longrightarrow> length (take n out) = n \<and> inflates (take n out) data)"
proof -
  obtain n out where c: "lzf_compress ht data (replicate (length data - 4) 0) = Some (n, out)" "n \<le> length data - 4"
      "length out = length data - 4"
      "n \<noteq> 0 \<longrightarrow> (\<forall>buf. length data \<le> length buf \<longrightarrow> (\<exists>buf'. lzf_decompress (take n out) buf (length data) =
         Some (length data, buf') \<and> length buf' = length buf \<and> take (length data) buf' = data))"
    using lzf_inverse [of data ht "replicate (length data - 4) 0"] assms by auto
  moreover have "n \<noteq> 0 \<longrightarrow> length (take n out) = n \<and> take n out \<noteq> []" using c assms by auto
  ultimately show ?thesis by (auto simp: inflates_def simp del: take_eq_Nil)
qed

definition raw_record :: "bytes \<Rightarrow> bytes" where
  "raw_record data = le32 0 @ le32 (of_nat (length data)) @ data"

definition record_of :: "(u32 \<Rightarrow> u32) \<Rightarrow> bytes \<Rightarrow> bytes" where
  "record_of ht data =
     (if length data \<le> 4 then raw_record data
      else case lzf_compress ht data (replicate (length data - 4) 0) of
          None \<Rightarrow> []
        | Some (n, out) \<Rightarrow> if n = 0 then raw_record data
            else le32 (of_nat (length data)) @ le32 (of_nat n) @ take n out)"

text \<open>Data that fits the 32-bit length of a record.\<close>

abbreviation recordable :: "bytes \<Rightarrow> bool" where
  "recordable data \<equiv> data \<noteq> [] \<and> length data < 2 ^ 32"

lemma le32_nonempty: "le32 w \<noteq> []"
  by (simp add: le32_def)

lemma writes_raw: "data \<noteq> [] \<Longrightarrow>
    writes (in_turn [storage_write (le32 0), storage_write (le32 (of_nat (length data))), storage_write data]) (raw_record data)"
  using writes_in_turn [of "[storage_write (le32 0), storage_write (le32 (of_nat (length data))), storage_write data]"
      "[le32 0, le32 (of_nat (length data)), data]"]
  by (simp add: raw_record_def writes_storage_write le32_nonempty)

lemma writes_data [writers]:
  assumes "recordable data"
  shows "writes (storage_write_data ht data) (record_of ht data)"
proof -
  have [simp]: "unat (of_nat (length data) :: u32) = length data" using assms by (simp add: unat_of_nat32)
  let ?raw = "in_turn [storage_write (le32 0), storage_write (le32 (of_nat (length data))), storage_write data]"
  show ?thesis
  proof (cases "length data \<le> 4")
    case True
    then have "storage_write_data ht data = ?raw"
      by (simp add: fun_eq_iff storage_write_data_def storage_write_lzf_data_def)
    then show ?thesis using writes_raw [of data] True assms by (simp add: record_of_def)
  next
    case False
    obtain n out where c: "lzf_compress ht data (replicate (length data - 4) 0) = Some (n, out)"
        "n \<noteq> 0 \<longrightarrow> take n out \<noteq> []"
      using compressed [of data ht] False by (auto simp: inflates_def)
    show ?thesis
    proof (cases "n = 0")
      case True
      then have "storage_write_data ht data = ?raw"
        using False c by (simp add: fun_eq_iff storage_write_data_def storage_write_lzf_data_def)
      then show ?thesis using writes_raw [of data] True False c assms by (simp add: record_of_def)
    next
      case n: False
      let ?ws = "[storage_write (le32 (of_nat (length data))), storage_write (le32 (of_nat n)), storage_write (take n out)]"
      have "take n out \<noteq> []" using c(2) n by simp
      then have "writes (in_turn ?ws) (record_of ht data)"
        using writes_in_turn [of ?ws "[le32 (of_nat (length data)), le32 (of_nat n), take n out]"] n c False
        by (simp add: record_of_def writes_storage_write le32_nonempty)
      moreover have "storage_write_data ht data = in_turn ?ws"
      proof
        fix f
        obtain st f' where "in_turn ?ws f = Some (st, f')"
          using calculation unfolding writes_def by (metis (no_types, lifting))
        then show "storage_write_data ht data f = in_turn ?ws f" using n c(1) False
          by (cases st) (simp_all add: storage_write_data_def storage_write_lzf_data_def del: in_turn.simps)
      qed
      ultimately show ?thesis by (simp only:)
    qed
  qed
qed

section \<open>Readers\<close>

lemma storage_read_append: "n = length bs \<Longrightarrow> bs \<noteq> [] \<Longrightarrow> storage_read n (bs @ rest) = (Some bs, rest)"
  by (simp add: storage_read_def)

lemma rd32_le32_0 [simp]: "rd32 (le32 w) 0 = Some w"
  using rd32_le32 [of "[]" w "[]"] by simp

lemma read_lengths_append: "read_lengths (le32 a @ le32 b @ rest) = (Some (a, b), rest)"
  by (simp add: read_lengths_def storage_read_append le32_nonempty)

lemma record_cases [consumes 1, case_names raw lzf]:
  assumes "recordable data"
  obtains (raw) "record_of ht data = raw_record data"
    | (lzf) n out where "record_of ht data = le32 (of_nat (length data)) @ le32 (of_nat n) @ take n out"
        "4 < length data" "n < 2 ^ 32" "length (take n out) = n" "inflates (take n out) data"
proof (cases "length data \<le> 4")
  case True
  then show ?thesis using raw by (simp add: record_of_def)
next
  case False
  obtain n out where c: "lzf_compress ht data (replicate (length data - 4) 0) = Some (n, out)" "n \<le> length data - 4"
      "n \<noteq> 0 \<longrightarrow> length (take n out) = n \<and> inflates (take n out) data"
    using compressed [of data ht] False by (auto simp del: length_take)
  show ?thesis
  proof (cases "n = 0")
    case True
    then show ?thesis using c raw False by (simp add: record_of_def)
  next
    case n: False
    have "record_of ht data = le32 (of_nat (length data)) @ le32 (of_nat n) @ take n out"
      using n c(1) False by (simp add: record_of_def)
    moreover have "n < 2 ^ 32" using c(2) assms by linarith
    ultimately show ?thesis using c n False by (intro lzf [of n out]) simp_all
  qed
qed

lemma read_data_record:
  assumes "recordable data" "length data \<le> maxlen"
  shows "storage_read_data maxlen (record_of ht data @ rest) = Some (Some data, rest)"
  using assms(1)
proof (cases rule: record_cases [of data ht])
  case raw
  then show ?thesis
    using assms by (simp add: raw_record_def storage_read_data_def read_lengths_append unat_of_nat32 storage_read_append)
next
  case (lzf n out)
  obtain buf' where "lzf_decompress (take n out) (replicate maxlen 0) (length data) = Some (length data, buf')"
      "take (length data) buf' = data"
    using lzf(5) assms(2) unfolding inflates_def by (metis length_replicate)
  moreover have "(of_nat (length data) :: u32) \<noteq> 0" using assms(1) by (simp add: of_nat32_eq_0_iff)
  moreover have "take n out \<noteq> []" using lzf(5) by (simp add: inflates_def)
  ultimately show ?thesis
    using lzf assms
    by (simp add: storage_read_data_def read_lengths_append unat_of_nat32 storage_read_append del: take_eq_Nil)
qed

lemma read_object_record:
  assumes "recordable data"
  shows "storage_read_data_object s (record_of ht data @ rest) = Some (Some (create_object data (length data) s), rest)"
  using assms(1)
proof (cases rule: record_cases [of data ht])
  case raw
  then show ?thesis
    using assms by (simp add: raw_record_def storage_read_data_object_def read_lengths_append unat_of_nat32 storage_read_append)
next
  case (lzf n out)
  obtain buf' where "lzf_decompress (take n out) (replicate (length data) 0) (length data) = Some (length data, buf')"
      "take (length data) buf' = data" "length buf' = length data"
    using lzf(5) unfolding inflates_def by (metis length_replicate order_refl)
  moreover have "buf' = data" using calculation(2,3) by simp
  moreover have "(of_nat (length data) :: u32) \<noteq> 0" using assms(1) by (simp add: of_nat32_eq_0_iff)
  moreover have "take n out \<noteq> []" using lzf(5) by (simp add: inflates_def)
  ultimately show ?thesis
    using lzf assms
    by (simp add: storage_read_data_object_def read_lengths_append unat_of_nat32 storage_read_append del: take_eq_Nil)
qed

end
