(* ===== verification/StorageSpec.thy ===== *)
theory StorageSpec
  imports StorageRecords QueueSpec
begin

text \<open>
  Saving and loading the broker. The durable content of a server is described by an image, without
  addresses; a saved file loaded into a fresh server gives a server with the same image.
\<close>

section \<open>Images\<close>

type_synonym queue_image = "bytes \<times> u32 \<times> u32 \<times> u32 \<times> (bytes \<times> u32) list"
type_synonym route_image = "bytes \<times> u32 \<times> (bytes \<times> bytes list) list"

record image =
  iusers :: "eagle_user list"
  iqueues :: "queue_image list"
  iroutes :: "route_image list"
  ichannels :: "(bytes \<times> u32) list"

text \<open>The content and the expiration time of a message.\<close>

definition msg_view :: "server \<Rightarrow> addr \<Rightarrow> (bytes \<times> u32) option" where
  "msg_view s m = do { mm \<leftarrow> message_mem s m; x \<leftarrow> object_mem s (mvalue mm);
     if osize x = length (odata x) then Some (odata x, expiration mm) else None }"

text \<open>A queue as it is saved: its messages, oldest first.\<close>

definition queue_has :: "server \<Rightarrow> addr \<Rightarrow> queue_image \<Rightarrow> bool" where
  "queue_has s q im \<longleftrightarrow> (case im of (name, mm, mms, fl, msgs) \<Rightarrow> \<exists>qt ms. holds_msgs s q qt ms \<and>
     (ms = [] \<longrightarrow> tail (queue qt) = None) \<and> qname qt = name \<and> max_msg qt = mm \<and> max_msg_size qt = mms \<and>
     qflags qt = fl \<and> map (msg_view s) (rev ms) = map Some msgs)"

definition durable_queue :: "server \<Rightarrow> addr \<Rightarrow> bool" where
  "durable_queue s q \<longleftrightarrow> (case queue_mem s q of None \<Rightarrow> False | Some qt \<Rightarrow> BIT_CHECK (qflags qt) EG_QUEUE_DURABLE_FLAG)"

definition queue_name :: "server \<Rightarrow> addr \<Rightarrow> bytes" where
  "queue_name s q = (case queue_mem s q of None \<Rightarrow> [] | Some qt \<Rightarrow> qname qt)"

text \<open>A route as it can be restored: the keys that lead to durable queues.\<close>

definition durable_keys :: "server \<Rightarrow> (bytes \<times> addr list) list \<Rightarrow> (bytes \<times> bytes list) list" where
  "durable_keys s ks = filter (\<lambda>(k, ns). ns \<noteq> [])
     (map (\<lambda>(k, qs). (k, map (queue_name s) (filter (durable_queue s) qs))) ks)"

definition route_has :: "server \<Rightarrow> addr \<Rightarrow> route_image \<Rightarrow> bool" where
  "route_has s r im \<longleftrightarrow> (case im of (name, fl, ks) \<Rightarrow> \<exists>rt. route_mem s r = Some rt \<and> rname rt = name \<and> rflags rt = fl \<and>
     durable_keys s (keys rt) = ks)"

definition durable_route :: "server \<Rightarrow> addr \<Rightarrow> bool" where
  "durable_route s r \<longleftrightarrow> (case route_mem s r of None \<Rightarrow> False | Some rt \<Rightarrow> BIT_CHECK (rflags rt) EG_ROUTE_DURABLE_FLAG)"

definition channel_has :: "server \<Rightarrow> addr \<Rightarrow> bytes \<times> u32 \<Rightarrow> bool" where
  "channel_has s ch im \<longleftrightarrow> (\<exists>ct. channel_mem s ch = Some ct \<and> (chname ct, chflags ct) = im)"

definition durable_channel :: "server \<Rightarrow> addr \<Rightarrow> bool" where
  "durable_channel s ch \<longleftrightarrow> (case channel_mem s ch of None \<Rightarrow> False | Some ct \<Rightarrow> BIT_CHECK (chflags ct) EG_CHANNEL_DURABLE_FLAG)"

definition saved_user :: "server \<Rightarrow> addr \<Rightarrow> bool" where
  "saved_user s u \<longleftrightarrow> (case user_mem s u of None \<Rightarrow> False
     | Some x \<Rightarrow> \<not> BIT_CHECK (uperm x) (perm_bit EG_USER_NOT_CHANGE_PERM))"

definition durable_image :: "server \<Rightarrow> image \<Rightarrow> bool" where
  "durable_image s im \<longleftrightarrow>
     map (user_mem s) (filter (saved_user s) (users s)) = map Some (iusers im) \<and>
     list_all2 (queue_has s) (filter (durable_queue s) (queues s)) (iqueues im) \<and>
     list_all2 (route_has s) (filter (durable_route s) (routes s)) (iroutes im) \<and>
     list_all2 (channel_has s) (filter (durable_channel s) (channels s)) (ichannels im)"

section \<open>What is saved\<close>

text \<open>A string that fits a field of \<open>n\<close> bytes with its terminator.\<close>

definition fits :: "nat \<Rightarrow> bytes \<Rightarrow> bool" where
  "fits n str \<longleftrightarrow> 0 \<notin> set str \<and> length str < n"

text \<open>The bytes of a user, a message, a queue and so on in the file.\<close>

definition user_bytes :: "(u32 \<Rightarrow> u32) \<Rightarrow> eagle_user \<Rightarrow> bytes" where
  "user_bytes ht x = EG_STORAGE_TYPE_USER # record_of ht (strz (uname x)) @ record_of ht (strz (upassword x)) @
     record_of ht (le64 (uperm x))"

definition msg_bytes :: "(u32 \<Rightarrow> u32) \<Rightarrow> bytes \<times> u32 \<Rightarrow> bytes" where
  "msg_bytes ht m = EG_STORAGE_TYPE_MESSAGE # record_of ht (le32 (snd m)) @ record_of ht (fst m)"

definition queue_bytes :: "(u32 \<Rightarrow> u32) \<Rightarrow> queue_image \<Rightarrow> bytes" where
  "queue_bytes ht im = (case im of (name, mm, mms, fl, msgs) \<Rightarrow>
     EG_STORAGE_TYPE_QUEUE # record_of ht (strz name) @ record_of ht (le32 mm) @ record_of ht (le32 mms) @
     record_of ht (le32 fl) @ record_of ht (le32 (of_nat (length msgs))) @ concat (map (msg_bytes ht) msgs))"

definition key_bytes :: "(u32 \<Rightarrow> u32) \<Rightarrow> bytes \<times> bytes list \<Rightarrow> bytes" where
  "key_bytes ht kn = EG_STORAGE_TYPE_ROUTE_KEY # record_of ht (strz (fst kn)) @
     record_of ht (le32 (of_nat (length (snd kn)))) @ concat (map (\<lambda>n. record_of ht (strz n)) (snd kn))"

definition route_bytes :: "(u32 \<Rightarrow> u32) \<Rightarrow> route_image \<Rightarrow> bytes" where
  "route_bytes ht im = (case im of (name, fl, ks) \<Rightarrow>
     EG_STORAGE_TYPE_ROUTE # record_of ht (strz name) @ record_of ht (le32 fl) @
     record_of ht (le32 (of_nat (length ks))) @ concat (map (key_bytes ht) ks))"

definition channel_bytes :: "(u32 \<Rightarrow> u32) \<Rightarrow> bytes \<times> u32 \<Rightarrow> bytes" where
  "channel_bytes ht im = EG_STORAGE_TYPE_CHANNEL # record_of ht (strz (fst im)) @ record_of ht (le32 (snd im))"

lemma recordable_strz: "length str < 64 \<Longrightarrow> recordable (strz str)"
  by simp

lemma writes_user: "fits 32 (uname x) \<Longrightarrow> fits 32 (upassword x) \<Longrightarrow> writes (storage_save_user ht x) (user_bytes ht x)"
  using writes_in_turn [of "[storage_write_type EG_STORAGE_TYPE_USER, storage_write_data ht (strz (uname x)),
      storage_write_data ht (strz (upassword x)), storage_write_data ht (le64 (uperm x))]"
      "[[EG_STORAGE_TYPE_USER], record_of ht (strz (uname x)), record_of ht (strz (upassword x)), record_of ht (le64 (uperm x))]"]
  by (simp add: storage_save_user_def user_bytes_def fits_def writers le64_def le32_nonempty)

lemma writes_channel: "fits 64 (chname ct) \<Longrightarrow> writes (storage_save_channel ht ct) (channel_bytes ht (chname ct, chflags ct))"
  using writes_in_turn [of "[storage_write_type EG_STORAGE_TYPE_CHANNEL, storage_write_data ht (strz (chname ct)),
      storage_write_data ht (le32 (chflags ct))]"
      "[[EG_STORAGE_TYPE_CHANNEL], record_of ht (strz (chname ct)), record_of ht (le32 (chflags ct))]"]
  by (simp add: storage_save_channel_def channel_bytes_def fits_def writers le32_nonempty)

lemma writes_message:
  assumes "msg_view s m = Some v" "recordable (fst v)"
  shows "writes (storage_save_queue_message s m) (msg_bytes (stack_garbage (env s)) v)"
proof -
  let ?ht = "stack_garbage (env s)"
  obtain mm x where m: "message_mem s m = Some mm" "object_mem s (mvalue mm) = Some x" "v = (odata x, expiration mm)"
    using assms(1) by (auto simp: msg_view_def bind_eq_Some_conv split: if_split_asm)
  then have "storage_save_queue_message s m = in_turn [storage_write_type EG_STORAGE_TYPE_MESSAGE,
       storage_write_data ?ht (le32 (expiration mm)), storage_write_data ?ht (odata x)]"
    by (simp add: fun_eq_iff storage_save_queue_message_def)
  then show ?thesis
    using writes_in_turn [of "[storage_write_type EG_STORAGE_TYPE_MESSAGE, storage_write_data ?ht (le32 (expiration mm)),
         storage_write_data ?ht (odata x)]" "[[EG_STORAGE_TYPE_MESSAGE], record_of ?ht (le32 (expiration mm)), record_of ?ht (odata x)]"]
      m(3) assms(2) by (simp add: msg_bytes_def writers le32_nonempty del: in_turn.simps)
qed

text \<open>The iteration from the tail visits the messages from the oldest to the newest.\<close>

lemma queue_next_tail:
  "queue_next_node q \<lparr>qnext = None, qdirection = EG_START_TAIL\<rparr> = Some (None, \<lparr>qnext = None, qdirection = EG_START_TAIL\<rparr>)"
  "mem q a = Some nd \<Longrightarrow>
   queue_next_node q \<lparr>qnext = Some a, qdirection = EG_START_TAIL\<rparr> = Some (Some a, \<lparr>qnext = nprev nd, qdirection = EG_START_TAIL\<rparr>)"
  by (simp_all add: queue_next_node_def iter_step_def)

lemma writes_save_from:
  assumes "dseg (mem q) None h xs k n" "list_all2 (\<lambda>m v. msg_view s m = Some v \<and> recordable (fst v)) (rev (vals xs)) msgs"
  shows "writes (save_from s q \<lparr>qnext = k, qdirection = EG_START_TAIL\<rparr>) (concat (map (msg_bytes (stack_garbage (env s))) msgs))"
  using assms
proof (induction xs arbitrary: k n msgs rule: rev_induct)
  case Nil
  then have "k = None" "msgs = []" by simp_all
  then show ?case by (simp add: save_from.simps queue_next_tail writes_def)
next
  case (snoc x xs)
  obtain a m where x: "x = (a, m)" by (cases x)
  obtain v vs where msgs: "msgs = v # vs" "msg_view s m = Some v" "recordable (fst v)"
      "list_all2 (\<lambda>m v. msg_view s m = Some v \<and> recordable (fst v)) (rev (vals xs)) vs"
    using snoc.prems(2) x by (auto simp: list_all2_Cons1)
  obtain k' where k: "k = Some a" "mem q a = Some \<lparr>nprev = k', nnext = n, nvalue = m\<rparr>" "dseg (mem q) None h xs k' (Some a)"
    using snoc.prems(1) x by (auto simp: dseg_append)
  let ?w = "storage_save_queue_message s m" and ?v = "save_from s q \<lparr>qnext = k', qdirection = EG_START_TAIL\<rparr>"
  have "save_from s q \<lparr>qnext = k, qdirection = EG_START_TAIL\<rparr> =
      (\<lambda>f. do { (st, f) \<leftarrow> ?w f; if st = EG_STATUS_ERR then Some (EG_STATUS_ERR, f) else ?v f })"
    using k by (auto simp: fun_eq_iff save_from.simps [of s q "\<lparr>qnext = Some a, qdirection = EG_START_TAIL\<rparr>"] queue_next_tail
        intro!: Option.bind_cong) (metis status.exhaust)+
  moreover have "writes ?w (msg_bytes (stack_garbage (env s)) v)" using msgs by (intro writes_message) simp_all
  ultimately show ?case using writes_seq [OF _ snoc.IH [OF k(3) msgs(4)]] msgs(1) by simp
qed

lemma list_all2_map_Some:
  "map f xs = map Some ys \<Longrightarrow> \<forall>y \<in> set ys. P y \<Longrightarrow> list_all2 (\<lambda>x y. f x = Some y \<and> P y) xs ys"
proof (induction xs arbitrary: ys)
  case Nil
  then show ?case by simp
next
  case (Cons x xs)
  then show ?case by (cases ys) simp_all
qed

text \<open>A queue image that can be written.\<close>

definition storable_queue :: "queue_image \<Rightarrow> bool" where
  "storable_queue im \<longleftrightarrow> (case im of (name, mm, mms, fl, msgs) \<Rightarrow> fits 64 name \<and> length msgs \<le> unat mm \<and>
     (\<forall>v \<in> set msgs. recordable (fst v) \<and> length (fst v) \<le> unat mms))"

lemma writes_queue:
  assumes "queue_has s q im" "storable_queue im" "queue_mem s q = Some qt"
  shows "writes (storage_save_queue s qt) (queue_bytes (stack_garbage (env s)) im)"
proof -
  let ?ht = "stack_garbage (env s)"
  obtain name mm mms fl msgs where im: "im = (name, mm, mms, fl, msgs)" by (cases im)
  obtain ms where q: "holds_msgs s q qt ms" "ms = [] \<longrightarrow> tail (queue qt) = None" "qname qt = name" "max_msg qt = mm"
      "max_msg_size qt = mms" "qflags qt = fl" "map (msg_view s) (rev ms) = map Some msgs"
    using assms(1,3) im by (auto simp: queue_has_def holds_msgs_def)
  have st: "fits 64 name" "\<forall>v \<in> set msgs. recordable (fst v)" using assms(2) im by (auto simp: storable_queue_def)
  have abs: "queue_abs (queue qt) ms" using q(1) by (simp add: holds_msgs_def)
  have l: "length msgs = length ms" using arg_cong [OF q(7), of length] by simp
  then have size: "get_size_queue_t qt = of_nat (length msgs)"
    using queue_abs_length [OF abs] by (simp add: get_size_queue_t_def)
  have "list_all2 (\<lambda>m v. msg_view s m = Some v \<and> recordable (fst v)) (rev ms) msgs"
    using list_all2_map_Some [OF q(7), of "\<lambda>v. recordable (fst v)"] st(2) by simp
  moreover obtain xs where xs: "q_rep (queue qt) xs" "vals xs = ms" using abs by (auto simp: queue_abs_def)
  moreover have "\<exists>h n. dseg (mem (queue qt)) None h xs (tail (queue qt)) n"
    using xs q(2) by (cases "xs = []") (auto simp: q_rep_def)
  ultimately have msgs: "writes (storage_save_queue_messages s qt) (concat (map (msg_bytes ?ht) msgs))"
    using writes_save_from [of "queue qt" _ xs "tail (queue qt)" _ s msgs]
    by (auto simp: storage_save_queue_messages_def queue_get_iterator_def)
  show ?thesis
    using writes_in_turn [of "[storage_write_type EG_STORAGE_TYPE_QUEUE, storage_write_data ?ht (strz (qname qt)),
       storage_write_data ?ht (le32 (max_msg qt)), storage_write_data ?ht (le32 (max_msg_size qt)),
       storage_write_data ?ht (le32 (qflags qt)), storage_write_data ?ht (le32 (get_size_queue_t qt)),
       storage_save_queue_messages s qt]" "[[EG_STORAGE_TYPE_QUEUE], record_of ?ht (strz name), record_of ?ht (le32 mm),
       record_of ?ht (le32 mms), record_of ?ht (le32 fl), record_of ?ht (le32 (of_nat (length msgs))),
       concat (map (msg_bytes ?ht) msgs)]"] msgs st(1) q(3-6) size
    by (simp add: storage_save_queue_def im queue_bytes_def writers fits_def le32_nonempty Let_def del: in_turn.simps)
qed

text \<open>The bindings of a route as they are saved, with the names of all queues.\<close>

definition named_keys :: "server \<Rightarrow> (bytes \<times> addr list) list \<Rightarrow> (bytes \<times> bytes list) list" where
  "named_keys s ks = map (\<lambda>(k, qs). (k, map (queue_name s) qs)) ks"

definition storable_route :: "server \<Rightarrow> route_t \<Rightarrow> bool" where
  "storable_route s rt \<longleftrightarrow> fits 64 (rname rt) \<and> length (keys rt) < 2 ^ 32 \<and> distinct (map fst (keys rt)) \<and>
     (\<forall>(k, qs) \<in> set (keys rt). fits 32 k \<and> length qs < 2 ^ 32 \<and> distinct qs \<and>
        (\<forall>q \<in> set qs. q \<in> set (queues s) \<and> queue_mem s q \<noteq> None \<and> fits 64 (queue_name s q)))"

lemma writes_route:
  assumes "storable_route s rt"
  shows "writes (storage_save_route s rt) (route_bytes (stack_garbage (env s)) (rname rt, rflags rt, named_keys s (keys rt)))"
proof -
  let ?ht = "stack_garbage (env s)"
  have key: "writes (storage_save_route_key s k qs) (key_bytes ?ht (k, map (queue_name s) qs))"
    if k: "(k, qs) \<in> set (keys rt)" for k qs
  proof -
    have f: "fits 32 k" "\<forall>q \<in> set qs. queue_mem s q \<noteq> None \<and> fits 64 (queue_name s q)"
      using assms k by (auto simp: storable_route_def)
    have "writes (storage_save_route_key_queues s qs) (concat (map (\<lambda>q. record_of ?ht (strz (queue_name s q))) qs))"
      unfolding storage_save_route_key_queues_def
    proof (rule writes_save_each, rule ballI)
      fix q assume "q \<in> set qs"
      then obtain qt where "queue_mem s q = Some qt" "fits 64 (qname qt)" using f(2) by (fastforce simp: queue_name_def)
      then show "writes (\<lambda>f. do { qt \<leftarrow> queue_mem s q; storage_write_data ?ht (strz (qname qt)) f })
          (record_of ?ht (strz (queue_name s q)))"
        by (simp add: queue_name_def writes_data fits_def)
    qed
    then show ?thesis
      using writes_in_turn [of "[storage_write_type EG_STORAGE_TYPE_ROUTE_KEY, storage_write_data ?ht (strz k),
         storage_write_data ?ht (le32 (of_nat (length qs))), storage_save_route_key_queues s qs]"
         "[[EG_STORAGE_TYPE_ROUTE_KEY], record_of ?ht (strz k), record_of ?ht (le32 (of_nat (length qs))),
           concat (map (\<lambda>q. record_of ?ht (strz (queue_name s q))) qs)]"] f(1)
      by (simp add: storage_save_route_key_def key_bytes_def writers fits_def le32_nonempty Let_def comp_def del: in_turn.simps)
  qed
  have "writes (storage_save_route_keys s rt) (concat (map (\<lambda>(k, qs). key_bytes ?ht (k, map (queue_name s) qs)) (keys rt)))"
    unfolding storage_save_route_keys_def by (rule writes_save_each) (use key in auto)
  moreover have "map (\<lambda>(k, qs). key_bytes ?ht (k, map (queue_name s) qs)) (keys rt) = map (key_bytes ?ht) (named_keys s (keys rt))"
    by (simp add: named_keys_def case_prod_beta)
  ultimately show ?thesis
    using writes_in_turn [of "[storage_write_type EG_STORAGE_TYPE_ROUTE, storage_write_data ?ht (strz (rname rt)),
       storage_write_data ?ht (le32 (rflags rt)), storage_write_data ?ht (le32 (of_nat (length (keys rt)))),
       storage_save_route_keys s rt]" "[[EG_STORAGE_TYPE_ROUTE], record_of ?ht (strz (rname rt)), record_of ?ht (le32 (rflags rt)),
       record_of ?ht (le32 (of_nat (length (keys rt)))), concat (map (key_bytes ?ht) (named_keys s (keys rt)))]"] assms
    by (simp add: storage_save_route_def route_bytes_def storable_route_def writers fits_def le32_nonempty Let_def
        named_keys_def del: in_turn.simps)
qed

section \<open>Saving a server\<close>

text \<open>What a server that can be saved writes for a route: all bindings, durable queue or not.\<close>

definition route_saved :: "server \<Rightarrow> addr \<Rightarrow> route_image \<Rightarrow> bool" where
  "route_saved s r im \<longleftrightarrow> (\<exists>rt. route_mem s r = Some rt \<and> im = (rname rt, rflags rt, named_keys s (keys rt)) \<and>
     storable_route s rt)"

text \<open>The server can be saved as the image \<open>im\<close>: every object of its lists is allocated, and the
  names, messages and counts of the durable ones fit their fields.\<close>

definition storable :: "server \<Rightarrow> image \<Rightarrow> bool" where
  "storable s im \<longleftrightarrow>
     (\<forall>u \<in> set (users s). user_mem s u \<noteq> None) \<and> (\<forall>q \<in> set (queues s). queue_mem s q \<noteq> None) \<and>
     (\<forall>r \<in> set (routes s). route_mem s r \<noteq> None) \<and> (\<forall>ch \<in> set (channels s). channel_mem s ch \<noteq> None) \<and>
     list_all2 (\<lambda>u x. user_mem s u = Some x \<and> fits 32 (uname x) \<and> fits 32 (upassword x))
       (filter (saved_user s) (users s)) (iusers im) \<and>
     list_all2 (\<lambda>q i. queue_has s q i \<and> storable_queue i) (filter (durable_queue s) (queues s)) (iqueues im) \<and>
     list_all2 (route_saved s) (filter (durable_route s) (routes s)) (iroutes im) \<and>
     list_all2 (\<lambda>ch i. channel_has s ch i \<and> fits 64 (fst i)) (filter (durable_channel s) (channels s)) (ichannels im)"

definition image_bytes :: "(u32 \<Rightarrow> u32) \<Rightarrow> image \<Rightarrow> bytes" where
  "image_bytes ht im = storage_magic @ concat (map (user_bytes ht) (iusers im)) @ concat (map (queue_bytes ht) (iqueues im)) @
     concat (map (route_bytes ht) (iroutes im)) @ concat (map (channel_bytes ht) (ichannels im)) @ [EG_STORAGE_EOF]"

text \<open>A list of which only some elements are saved.\<close>

lemma writes_filtered:
  assumes "list_all2 (\<lambda>x i. writes (w x) (e i)) (filter P xs) is" "\<forall>x \<in> set xs. \<not> P x \<longrightarrow> writes (w x) []"
  shows "writes (save_each w xs) (concat (map e is))"
  using assms
proof (induction xs arbitrary: "is")
  case Nil
  then show ?case by (simp add: writes_def)
next
  case (Cons x xs)
  have seq: "save_each w (x # xs) = (\<lambda>f. do { (st, f) \<leftarrow> w x f; if st = EG_STATUS_ERR then Some (EG_STATUS_ERR, f) else save_each w xs f })"
    by (auto simp: fun_eq_iff intro!: Option.bind_cong) (metis status.exhaust)+
  show ?case
  proof (cases "P x")
    case True
    then obtain i js where "is = i # js" "writes (w x) (e i)" "list_all2 (\<lambda>x i. writes (w x) (e i)) (filter P xs) js"
      using Cons.prems(1) by (auto simp: list_all2_Cons1)
    then show ?thesis using writes_seq [of "w x" "e i" "save_each w xs"] Cons.IH [of js] Cons.prems(2) unfolding seq by simp
  next
    case False
    then show ?thesis using writes_seq [of "w x" "[]" "save_each w xs"] Cons unfolding seq by simp
  qed
qed

lemma writes_nothing: "writes (\<lambda>f. Some (EG_STATUS_OK, f)) []"
  by (simp add: writes_def)

lemma writes_users:
  assumes "\<forall>u \<in> set (users s). user_mem s u \<noteq> None"
    and "list_all2 (\<lambda>u x. user_mem s u = Some x \<and> fits 32 (uname x) \<and> fits 32 (upassword x)) (filter (saved_user s) (users s)) us"
  shows "writes (storage_save_users s) (concat (map (user_bytes (stack_garbage (env s))) us))"
  unfolding storage_save_users_def
proof (rule writes_filtered [where P = "saved_user s"])
  let ?ht = "stack_garbage (env s)"
  show "list_all2 (\<lambda>x i. writes (\<lambda>f. do { user \<leftarrow> user_mem s x;
      if BIT_CHECK (uperm user) (perm_bit EG_USER_NOT_CHANGE_PERM) then Some (EG_STATUS_OK, f)
      else storage_save_user ?ht user f }) (user_bytes ?ht i)) (filter (saved_user s) (users s)) us"
    by (rule list.rel_mono_strong [OF assms(2)]) (auto simp: saved_user_def intro: writes_user)
  show "\<forall>x\<in>set (users s). \<not> saved_user s x \<longrightarrow> writes (\<lambda>f. do { user \<leftarrow> user_mem s x;
      if BIT_CHECK (uperm user) (perm_bit EG_USER_NOT_CHANGE_PERM) then Some (EG_STATUS_OK, f)
      else storage_save_user ?ht user f }) []"
    using assms(1) by (auto simp: saved_user_def writes_nothing split: option.splits)
qed

lemma writes_queues:
  assumes "\<forall>q \<in> set (queues s). queue_mem s q \<noteq> None"
    and "list_all2 (\<lambda>q i. queue_has s q i \<and> storable_queue i) (filter (durable_queue s) (queues s)) ims"
  shows "writes (storage_save_queues s) (concat (map (queue_bytes (stack_garbage (env s))) ims))"
  unfolding storage_save_queues_def
proof (rule writes_filtered [where P = "durable_queue s"])
  show "list_all2 (\<lambda>x i. writes (\<lambda>f. do { qt \<leftarrow> queue_mem s x;
      if \<not> BIT_CHECK (qflags qt) EG_QUEUE_DURABLE_FLAG then Some (EG_STATUS_OK, f)
      else storage_save_queue s qt f }) (queue_bytes (stack_garbage (env s)) i)) (filter (durable_queue s) (queues s)) ims"
    by (rule list.rel_mono_strong [OF assms(2)]) (auto simp: durable_queue_def intro: writes_queue split: option.splits)
  show "\<forall>x\<in>set (queues s). \<not> durable_queue s x \<longrightarrow> writes (\<lambda>f. do { qt \<leftarrow> queue_mem s x;
      if \<not> BIT_CHECK (qflags qt) EG_QUEUE_DURABLE_FLAG then Some (EG_STATUS_OK, f)
      else storage_save_queue s qt f }) []"
    using assms(1) by (auto simp: durable_queue_def writes_nothing split: option.splits)
qed

lemma writes_routes:
  assumes "\<forall>r \<in> set (routes s). route_mem s r \<noteq> None"
    and "list_all2 (route_saved s) (filter (durable_route s) (routes s)) ims"
  shows "writes (storage_save_routes s) (concat (map (route_bytes (stack_garbage (env s))) ims))"
  unfolding storage_save_routes_def
proof (rule writes_filtered [where P = "durable_route s"])
  show "list_all2 (\<lambda>x i. writes (\<lambda>f. do { rt \<leftarrow> route_mem s x;
      if \<not> BIT_CHECK (rflags rt) EG_ROUTE_DURABLE_FLAG then Some (EG_STATUS_OK, f)
      else storage_save_route s rt f }) (route_bytes (stack_garbage (env s)) i)) (filter (durable_route s) (routes s)) ims"
    by (rule list.rel_mono_strong [OF assms(2)]) (auto simp: durable_route_def route_saved_def intro: writes_route split: option.splits)
  show "\<forall>x\<in>set (routes s). \<not> durable_route s x \<longrightarrow> writes (\<lambda>f. do { rt \<leftarrow> route_mem s x;
      if \<not> BIT_CHECK (rflags rt) EG_ROUTE_DURABLE_FLAG then Some (EG_STATUS_OK, f)
      else storage_save_route s rt f }) []"
    using assms(1) by (auto simp: durable_route_def writes_nothing split: option.splits)
qed

lemma writes_channels:
  assumes "\<forall>ch \<in> set (channels s). channel_mem s ch \<noteq> None"
    and "list_all2 (\<lambda>ch i. channel_has s ch i \<and> fits 64 (fst i)) (filter (durable_channel s) (channels s)) ims"
  shows "writes (storage_save_channels s) (concat (map (channel_bytes (stack_garbage (env s))) ims))"
  unfolding storage_save_channels_def
proof (rule writes_filtered [where P = "durable_channel s"])
  let ?ht = "stack_garbage (env s)"
  show "list_all2 (\<lambda>x i. writes (\<lambda>f. do { ct \<leftarrow> channel_mem s x;
      if \<not> BIT_CHECK (chflags ct) EG_CHANNEL_DURABLE_FLAG then Some (EG_STATUS_OK, f)
      else storage_save_channel ?ht ct f }) (channel_bytes ?ht i)) (filter (durable_channel s) (channels s)) ims"
    by (rule list.rel_mono_strong [OF assms(2)])
      (auto simp: durable_channel_def channel_has_def dest: writes_channel split: option.splits)
  show "\<forall>x\<in>set (channels s). \<not> durable_channel s x \<longrightarrow> writes (\<lambda>f. do { ct \<leftarrow> channel_mem s x;
      if \<not> BIT_CHECK (chflags ct) EG_CHANNEL_DURABLE_FLAG then Some (EG_STATUS_OK, f)
      else storage_save_channel ?ht ct f }) []"
    using assms(1) by (auto simp: durable_channel_def writes_nothing split: option.splits)
qed

lemma writes_server:
  assumes "storable s im"
  shows "writes (in_turn [storage_write_magic, storage_save_users s, storage_save_queues s, storage_save_routes s,
      storage_save_channels s, storage_write_type EG_STORAGE_EOF]) (image_bytes (stack_garbage (env s)) im)"
proof -
  let ?ht = "stack_garbage (env s)"
  have "writes (storage_save_users s) (concat (map (user_bytes ?ht) (iusers im)))"
    by (rule writes_users) (use assms in \<open>simp_all add: storable_def\<close>)
  moreover have "writes (storage_save_queues s) (concat (map (queue_bytes ?ht) (iqueues im)))"
    by (rule writes_queues) (use assms in \<open>simp_all add: storable_def\<close>)
  moreover have "writes (storage_save_routes s) (concat (map (route_bytes ?ht) (iroutes im)))"
    by (rule writes_routes) (use assms in \<open>simp_all add: storable_def\<close>)
  moreover have "writes (storage_save_channels s) (concat (map (channel_bytes ?ht) (ichannels im)))"
    by (rule writes_channels) (use assms in \<open>simp_all add: storable_def\<close>)
  ultimately show ?thesis
    using writes_in_turn [of "[storage_write_magic, storage_save_users s, storage_save_queues s, storage_save_routes s,
      storage_save_channels s, storage_write_type EG_STORAGE_EOF]" "[storage_magic, concat (map (user_bytes ?ht) (iusers im)),
      concat (map (queue_bytes ?ht) (iqueues im)), concat (map (route_bytes ?ht) (iroutes im)),
      concat (map (channel_bytes ?ht) (ichannels im)), [EG_STORAGE_EOF]]"]
    by (simp add: image_bytes_def storage_write_magic_def storage_magic_def writes_storage_write writes_type del: in_turn.simps)
qed

lemma storage_save_image:
  assumes "storable s im"
  shows "storage_save s = Some (if fopen_ok (env s) \<and> rename_ok (env s) \<and>
        length (image_bytes (stack_garbage (env s)) im) \<le> disk_space (env s)
      then (EG_STATUS_OK, s\<lparr>storage_file := Some (image_bytes (stack_garbage (env s)) im)\<rparr>) else (EG_STATUS_ERR, s))"
proof -
  let ?bs = "image_bytes (stack_garbage (env s)) im" and ?f = "\<lparr>written = [], space = disk_space (env s)\<rparr>"
  let ?w = "in_turn [storage_write_magic, storage_save_users s, storage_save_queues s, storage_save_routes s,
      storage_save_channels s, storage_write_type EG_STORAGE_EOF]"
  have "if length ?bs \<le> disk_space (env s) then ?w ?f = Some (EG_STATUS_OK, appended ?f ?bs)
      else \<exists>f'. ?w ?f = Some (EG_STATUS_ERR, f')"
    using writes_server [OF assms] unfolding writes_def by (metis wfile.select_convs(2))
  then show ?thesis
    by (cases "length ?bs \<le> disk_space (env s)") (auto simp: storage_save_def appended_def simp del: in_turn.simps)
qed

text \<open>
  A server for the witnesses: a protected user, a saved user, the durable queue at address 5 with
  two messages, a route to it, and a channel. The disk takes \<open>n\<close> bytes.
\<close>

definition sample_durable :: "nat \<Rightarrow> addr Queue \<Rightarrow> server" where
  "sample_durable n qu = (sample_broker qu)\<lparr>env := (env (sample_server [] 0))\<lparr>disk_space := n\<rparr>,
     queue_mem := [5 \<mapsto> (sample_queue qu)\<lparr>qflags := 8\<rparr>], users := [3, 4],
     user_mem := [3 \<mapsto> \<lparr>uname = [101], upassword = [101], uperm = 64\<rparr>, 4 \<mapsto> \<lparr>uname = [117], upassword = [112], uperm = 1\<rparr>],
     routes := [6], route_mem := [6 \<mapsto> \<lparr>rname = [114], rflags = 4, rauto_delete = False, rround_robin = False, keys = [([107], [5])]\<rparr>],
     channels := [7], channel_mem := [7 \<mapsto> \<lparr>chname = [99], chflags = 4, chauto_delete = False, chround_robin = False,
       topics = [], patterns = []\<rparr>]\<rparr>"

definition sample_image :: image where
  "sample_image = \<lparr>iusers = [\<lparr>uname = [117], upassword = [112], uperm = 1\<rparr>],
     iqueues = [([97], 2, 10, 8, [([1, 2], 0), ([1, 2], 0)])], iroutes = [([114], 4, [([107], [[97]])])],
     ichannels = [([99], 4)]\<rparr>"

lemma sample_storable:
  obtains qu where "\<forall>n. storable (sample_durable n qu) sample_image"
    "\<forall>n. distinct (map (queue_name (sample_durable n qu)) (queues (sample_durable n qu)))"
proof -
  obtain qu where qu: "holds_msgs (sample_broker qu) 5 (sample_queue qu) [31, 30]" by (rule sample_broker_holds)
  have h: "holds_msgs (sample_durable n qu) 5 ((sample_queue qu)\<lparr>qflags := 8\<rparr>) [31, 30]" for n
    using qu by (simp add: holds_msgs_def sample_durable_def sample_broker_def sample_queue_def)
  have bits: "bit (8 :: u32) 3" "bit (4 :: u32) 2" "bit (64 :: u64) 6" "\<not> bit (1 :: u64) 6" by simp_all
  have "queue_has (sample_durable n qu) 5 ([97], 2, 10, 8, [([1, 2], 0), ([1, 2], 0)])" for n
    unfolding queue_has_def prod.case
    by (rule exI [of _ "(sample_queue qu)\<lparr>qflags := 8\<rparr>"], rule exI [of _ "[31, 30]"])
      (use h in \<open>simp add: msg_view_def sample_durable_def sample_broker_def sample_queue_def sample_message_def\<close>)
  moreover have "durable_queue (sample_durable n qu) 5" for n
    by (simp add: durable_queue_def sample_durable_def BIT_CHECK_iff_bit flag_defs)
  moreover have "route_saved (sample_durable n qu) 6 ([114], 4, [([107], [[97]])])" for n
    by (simp add: route_saved_def storable_route_def named_keys_def queue_name_def fits_def sample_durable_def sample_broker_def sample_queue_def)
  moreover have "durable_route (sample_durable n qu) 6" "durable_channel (sample_durable n qu) 7" for n
    by (simp_all add: durable_route_def durable_channel_def sample_durable_def BIT_CHECK_iff_bit flag_defs)
  moreover have "\<not> saved_user (sample_durable n qu) 3" "saved_user (sample_durable n qu) 4" for n
    by (simp_all add: saved_user_def sample_durable_def BIT_CHECK_iff_bit)
  moreover have "storable_queue ([97], 2, 10, 8, [([1, 2], 0), ([1, 2], 0)])" by (simp add: storable_queue_def fits_def)
  moreover have "users (sample_durable n qu) = [3, 4]" "queues (sample_durable n qu) = [5]" "routes (sample_durable n qu) = [6]"
      "channels (sample_durable n qu) = [7]" for n by (simp_all add: sample_durable_def sample_broker_def)
  moreover have "channel_has (sample_durable n qu) 7 ([99], 4)" for n by (simp add: channel_has_def sample_durable_def)
  ultimately have "storable (sample_durable n qu) sample_image" for n
    unfolding storable_def
    by (intro conjI) (simp_all add: sample_image_def fits_def, simp_all add: sample_durable_def)
  moreover have "distinct (map (queue_name (sample_durable n qu)) (queues (sample_durable n qu)))" for n
    by (simp add: sample_durable_def sample_broker_def)
  ultimately show ?thesis using that by blast
qed



end
