(* ===== verification/StorageLoad.thy ===== *)
theory StorageLoad
  imports StorageSpec
begin

text \<open>
  Loading a saved image: every loader adds its element to the server and leaves the rest, so a
  loaded server has the image that was saved.
\<close>

section \<open>Loading\<close>

text \<open>A server that never allocated an address from \<open>fresh\<close> on.\<close>

definition bounded :: "server \<Rightarrow> bool" where
  "bounded s \<longleftrightarrow> (\<forall>a \<ge> fresh s. user_mem s a = None \<and> queue_mem s a = None \<and> route_mem s a = None \<and>
     channel_mem s a = None \<and> message_mem s a = None \<and> object_mem s a = None)"

text \<open>Equal up to the links of a queue to its routes.\<close>

definition same_queue :: "queue_t option \<Rightarrow> queue_t option \<Rightarrow> bool" where
  "same_queue x y \<longleftrightarrow> map_option (\<lambda>q. q\<lparr>qroutes := []\<rparr>) x = map_option (\<lambda>q. q\<lparr>qroutes := []\<rparr>) y"

text \<open>What was there before a record is loaded is there afterwards.\<close>

definition grows :: "server \<Rightarrow> server \<Rightarrow> bool" where
  "grows s s' \<longleftrightarrow> fresh s \<le> fresh s' \<and> bounded s' \<and> (\<forall>a < fresh s. user_mem s' a = user_mem s a \<and>
     same_queue (queue_mem s' a) (queue_mem s a) \<and> route_mem s' a = route_mem s a \<and> channel_mem s' a = channel_mem s a \<and>
     message_mem s' a = message_mem s a \<and> object_mem s' a = object_mem s a)"

lemma same_queue_refl [simp]: "same_queue x x"
  by (simp add: same_queue_def)

lemma same_queue_trans: "same_queue x y \<Longrightarrow> same_queue y z \<Longrightarrow> same_queue x z"
  by (simp add: same_queue_def)

lemma same_queue_SomeE:
  assumes "same_queue x (Some qt)"
  obtains rs where "x = Some (qt\<lparr>qroutes := rs\<rparr>)"
proof -
  obtain q where q: "x = Some q" "q\<lparr>qroutes := []\<rparr> = qt\<lparr>qroutes := []\<rparr>" using assms by (auto simp: same_queue_def)
  have "q = q\<lparr>qroutes := []\<rparr>\<lparr>qroutes := qroutes q\<rparr>" by simp
  then show ?thesis using q that by simp
qed

lemma grows_trans: "grows s s' \<Longrightarrow> grows s' s'' \<Longrightarrow> grows s s''"
  unfolding grows_def using same_queue_trans by (auto dest: less_le_trans)

lemma bounded_less:
  assumes "bounded s"
  shows "user_mem s a = Some x1 \<Longrightarrow> a < fresh s" "queue_mem s a = Some x2 \<Longrightarrow> a < fresh s"
    "route_mem s a = Some x3 \<Longrightarrow> a < fresh s" "channel_mem s a = Some x4 \<Longrightarrow> a < fresh s"
    "message_mem s a = Some x5 \<Longrightarrow> a < fresh s" "object_mem s a = Some x6 \<Longrightarrow> a < fresh s"
  using assms unfolding bounded_def by (metis not_le option.distinct(1))+

lemma msg_view_grows: "bounded s \<Longrightarrow> grows s s' \<Longrightarrow> msg_view s m = Some v \<Longrightarrow> msg_view s' m = Some v"
  using bounded_less(5,6) [of s] by (fastforce simp: msg_view_def grows_def bind_eq_Some_conv split: if_split_asm)

lemma queue_has_grows:
  assumes "bounded s" "grows s s'" "queue_has s q im"
  shows "queue_has s' q im"
proof -
  obtain name mm mms fl msgs where im: "im = (name, mm, mms, fl, msgs)" by (cases im)
  obtain qt ms where q: "holds_msgs s q qt ms" "ms = [] \<longrightarrow> tail (queue qt) = None" "qname qt = name" "max_msg qt = mm"
      "max_msg_size qt = mms" "qflags qt = fl" "map (msg_view s) (rev ms) = map Some msgs"
    using assms(3) im by (auto simp: queue_has_def)
  have qm: "queue_mem s q = Some qt" using q(1) by (simp add: holds_msgs_def)
  then obtain rs where q': "queue_mem s' q = Some (qt\<lparr>qroutes := rs\<rparr>)"
    using assms(2) bounded_less(2) [OF assms(1) qm] same_queue_SomeE unfolding grows_def by metis
  have "message_mem s' a = message_mem s a" if "a \<in> set ms" for a
    using that q(1) bounded_less(5) [OF assms(1)] assms(2) unfolding holds_msgs_def grows_def by metis
  then have "holds_msgs s' q (qt\<lparr>qroutes := rs\<rparr>) ms"
    by (intro holds_msgs_frame [OF q(1) q']) (use q(1) in \<open>simp_all add: holds_msgs_def\<close>)
  moreover have "map (msg_view s') (rev ms) = map Some msgs"
  proof -
    have "list_all2 (\<lambda>m v. msg_view s m = Some v \<and> True) (rev ms) msgs" using list_all2_map_Some [OF q(7), of "\<lambda>_. True"] by simp
    then have "list_all2 (\<lambda>m v. msg_view s' m = Some v) (rev ms) msgs"
      by (rule list.rel_mono_strong) (use msg_view_grows assms in blast)
    then show ?thesis by (induction rule: list_all2_induct) simp_all
  qed
  ultimately show ?thesis using q(2-6) im by (auto simp: queue_has_def intro!: exI [of _ "qt\<lparr>qroutes := rs\<rparr>"] exI [of _ ms])
qed

lemma load_field_record:
  "recordable data \<Longrightarrow> length data \<le> n \<Longrightarrow> load_field n s (record_of ht data @ rest) k = k data rest"
  by (simp add: load_field_def read_data_record)

lemma recordable_le32: "recordable (le32 w)" "length (le32 w) = 4" "recordable (le64 d)" "length (le64 d) = 8"
  by (simp_all add: le32_def le64_def)

lemma cstr_strz: "0 \<notin> set str \<Longrightarrow> cstr (strz str) = Some str"
  by (induction str) (auto simp: cstr_def split: if_split_asm)

lemma rd64_le64_0: "rd64 (le64 w) 0 = Some w"
  using rd64_le64 [of w "[]"] by simp

lemma fits_strz: "fits n str \<Longrightarrow> n \<le> 64 \<Longrightarrow> recordable (strz str) \<and> length (strz str) \<le> n \<and> cstr (strz str) = Some str \<and> copy_name n str = Some str"
  by (simp add: fits_def cstr_strz copy_name_def) 

text \<open>The lists of the server that a loader leaves alone.\<close>

lemma load_user:
  assumes "bounded s" "fits 32 (uname x)" "fits 32 (upassword x)"
  shows "\<exists>s' u. storage_load_user s (tl (user_bytes ht x) @ rest) = Some (EG_STATUS_OK, s', rest) \<and> grows s s' \<and>
    user_mem s' u = Some x \<and> users s' = users s @ [u] \<and> queues s' = queues s \<and> routes s' = routes s \<and> channels s' = channels s"
proof -
  have x: "\<lparr>uname = uname x, upassword = upassword x, uperm = uperm x\<rparr> = x" by simp
  let ?s = "s\<lparr>user_mem := (user_mem s)(fresh s \<mapsto> x), fresh := Suc (fresh s), users := users s @ [fresh s]\<rparr>"
  have "storage_load_user s (tl (user_bytes ht x) @ rest) = Some (EG_STATUS_OK, ?s, rest)"
    using fits_strz [OF assms(2)] fits_strz [OF assms(3)]
    by (simp add: storage_load_user_def user_bytes_def load_field_record recordable_le32 rd64_le64_0 create_user_def x Let_def)
  moreover have "grows s ?s" using assms(1) by (simp add: grows_def bounded_def)
  ultimately show ?thesis by (intro exI [of _ ?s] exI [of _ "fresh s"]) simp
qed

lemma load_channel:
  assumes "bounded s" "fits 64 (fst im)"
  shows "\<exists>s' ch. storage_load_channel s (tl (channel_bytes ht im) @ rest) = Some (EG_STATUS_OK, s', rest) \<and> grows s s' \<and>
    channel_has s' ch im \<and> users s' = users s \<and> queues s' = queues s \<and> routes s' = routes s \<and> channels s' = channels s @ [ch]"
proof -
  let ?ct = "\<lparr>chname = fst im, chflags = snd im, chauto_delete = BIT_CHECK (snd im) EG_CHANNEL_AUTODELETE_FLAG,
      chround_robin = BIT_CHECK (snd im) EG_CHANNEL_ROUND_ROBIN_FLAG, topics = [], patterns = []\<rparr>"
  define s1 where "s1 = s\<lparr>channel_mem := (channel_mem s)(fresh s \<mapsto> ?ct), fresh := Suc (fresh s)\<rparr>"
  have c: "create_channel_t (fst im) (snd im) s = Some (s1, fresh s)"
    using assms(2) by (simp add: create_channel_t_def copy_name_def fits_def s1_def Let_def)
  have g: "grows s s1" using assms(1) by (simp add: grows_def bounded_def s1_def)
  let ?s = "s1\<lparr>channels := channels s1 @ [fresh s]\<rparr>"
  have "storage_load_channel s (tl (channel_bytes ht im) @ rest) = Some (EG_STATUS_OK, ?s, rest)"
    using fits_strz [OF assms(2)] c
    by (simp add: storage_load_channel_def channel_bytes_def load_field_record recordable_le32)
  moreover have "grows s ?s" using g by (simp add: grows_def bounded_def)
  moreover have "channel_has ?s (fresh s) im" by (simp add: channel_has_def s1_def)
  ultimately show ?thesis by (intro exI [of _ ?s] exI [of _ "fresh s"]) (simp add: s1_def)
qed

text \<open>A queue being loaded into the server \<open>b\<close>: it has the messages \<open>vs\<close> so far.\<close>

definition filling :: "server \<Rightarrow> server \<Rightarrow> addr \<Rightarrow> queue_t \<Rightarrow> (bytes \<times> u32) list \<Rightarrow> bool" where
  "filling b s q qt vs \<longleftrightarrow> grows b s \<and> fresh b \<le> q \<and>
     users s = users b \<and> queues s = queues b \<and> routes s = routes b \<and> channels s = channels b \<and>
     subscribed_clients_msg qt = [] \<and> subscribed_clients_notify qt = [] \<and>
     (\<exists>ms. holds_msgs s q qt ms \<and> (ms = [] \<longrightarrow> tail (queue qt) = None) \<and> map (msg_view s) (rev ms) = map Some vs)"

lemma enqueue_message_frame:
  assumes "enqueue_message q m s = Some s'"
  obtains Q M x where "s' = s\<lparr>queue_mem := (queue_mem s)(q \<mapsto> Q), message_mem := (message_mem s)(m \<mapsto> M)\<rparr>"
    "message_mem s m = Some x" "mvalue M = mvalue x" "expiration M = expiration x"
proof -
  obtain qt q' x where x: "queue_mem s q = Some qt" "queue_push_value_head (queue qt) m = Some q'" "message_mem s m = Some x"
    using assms by (auto simp: enqueue_message_def upd_queue_def bind_eq_Some_conv)
  show ?thesis
  proof (cases "expiration x = 0")
    case True
    have t: "(message_mem s)(m \<mapsto> x) = message_mem s" using x(3) by auto
    have "s' = s\<lparr>queue_mem := (queue_mem s)(q \<mapsto> qt\<lparr>queue := q'\<rparr>), message_mem := (message_mem s)(m \<mapsto> x)\<rparr>"
      using assms x True unfolding t by (auto simp: enqueue_message_def upd_Some)
    then show ?thesis using x(3) that by blast
  next
    case False
    have "s' = s\<lparr>queue_mem := (queue_mem s)(q \<mapsto> qt\<lparr>queue := q', expire_messages := expire_messages qt @ [m]\<rparr>),
        message_mem := (message_mem s)(m \<mapsto> x\<lparr>data0 := Some m, data1 := head q'\<rparr>)\<rparr>"
      using assms x False by (simp add: enqueue_message_def upd_Some)
    then show ?thesis using x(3) that by fastforce
  qed
qed

lemma msg_view_old:
  assumes "bounded s" "msg_view s a = Some v"
    and "\<And>x. x < fresh s \<Longrightarrow> message_mem s' x = message_mem s x" "\<And>x. x < fresh s \<Longrightarrow> object_mem s' x = object_mem s x"
  shows "msg_view s' a = Some v"
  using assms bounded_less(5,6) [OF assms(1)] by (fastforce simp: msg_view_def bind_eq_Some_conv split: if_split_asm)

text \<open>The server after the object and the message of a loaded message are made.\<close>

definition with_message :: "bytes \<times> u32 \<Rightarrow> server \<Rightarrow> server" where
  "with_message v s = (let s1 = s\<lparr>object_mem := (object_mem s)(fresh s \<mapsto> \<lparr>odata = fst v, osize = length (fst v), refcount = 1\<rparr>), fresh := Suc (fresh s)\<rparr>
     in s1\<lparr>msg_counter := msg_counter s + 1, message_mem := (message_mem s)(Suc (fresh s) \<mapsto> new_message (fresh s) (snd v) s1),
           fresh := Suc (Suc (fresh s))\<rparr>)"

lemma load_message_enqueues:
  assumes "queue_mem s q = Some qt" "queue_abs (queue qt) ms" "recordable (fst v)" "length (fst v) \<le> unat (max_msg_size qt)"
    and sub: "subscribed_clients_msg qt = []" "subscribed_clients_notify qt = []" and room: "length ms < unat (max_msg qt)"
  shows "storage_load_queue_message q s (msg_bytes ht v @ rest) =
    do { s' \<leftarrow> enqueue_message q (Suc (fresh s)) (with_message v s); Some (EG_STATUS_OK, s', rest) }"
proof -
  define x where "x = \<lparr>odata = fst v, osize = length (fst v), refcount = 1\<rparr>"
  define s1 where "s1 = s\<lparr>object_mem := (object_mem s)(fresh s \<mapsto> x), fresh := Suc (fresh s)\<rparr>"
  have q1: "queue_mem s1 q = Some qt" "object_mem s1 (fresh s) = Some x" using assms(1) by (simp_all add: s1_def)
  have "push_message_queue_t q (fresh s) (snd v) s1 =
      do { s' \<leftarrow> enqueue_message q (Suc (fresh s)) (with_message v s); Some (EG_STATUS_OK, s') }"
    using push_message_unsubscribed [OF q1(1) assms(2) q1(2) sub, of "snd v"] assms(4) room
    by (simp add: x_def s1_def with_message_def Let_def)
  then show ?thesis
    using assms(3) by (simp add: storage_load_queue_message_def msg_bytes_def storage_read_type_def storage_read_def
        load_field_record recordable_le32 read_object_record create_object_def x_def s1_def Let_def)
qed

lemma load_message:
  assumes f: "filling b s q qt vs" and v: "recordable (fst v)" "length (fst v) \<le> unat (max_msg_size qt)"
    and room: "length vs < unat (max_msg qt)"
  shows "\<exists>s' qt'. storage_load_queue_message q s (msg_bytes ht v @ rest) = Some (EG_STATUS_OK, s', rest) \<and>
    filling b s' q qt' (vs @ [v]) \<and> (\<exists>qu ex. qt' = qt\<lparr>queue := qu, expire_messages := ex\<rparr>)"
proof -
  obtain ms where ms: "holds_msgs s q qt ms" "map (msg_view s) (rev ms) = map Some vs"
    and sub: "subscribed_clients_msg qt = []" "subscribed_clients_notify qt = []" and g: "grows b s" "fresh b \<le> q"
    and ls: "users s = users b" "queues s = queues b" "routes s = routes b" "channels s = channels b"
    using f by (auto simp: filling_def)
  have bd: "bounded s" using g by (simp add: grows_def)
  let ?m = "Suc (fresh s)"
  have q1: "queue_mem s q = Some qt" "queue_abs (queue qt) ms" using ms(1) by (simp_all add: holds_msgs_def)
  have notin: "a \<noteq> ?m" if "a \<in> set ms" for a
    using that ms(1) bounded_less(5) [OF bd, of a] by (fastforce simp: holds_msgs_def)
  have h2: "holds_msgs (with_message v s) q qt ms"
    by (rule holds_msgs_frame [OF ms(1)]) (use ms(1) notin in \<open>auto simp: holds_msgs_def with_message_def Let_def\<close>)
  have len: "length ms = length vs" using arg_cong [OF ms(2), of length] by simp
  have "Suc (length ms) < 2 ^ 32" using room len unsigned_less [of "max_msg qt", where ?'a = nat] by simp
  moreover obtain mm where m2: "message_mem (with_message v s) ?m = Some mm" "mvalue mm = fresh s" "expiration mm = snd v"
    by (simp add: with_message_def Let_def new_message_def)
  ultimately obtain s' qt' where e: "enqueue_message q ?m (with_message v s) = Some s'" "holds_msgs s' q qt' (?m # ms)"
      "qt' = qt\<lparr>queue := queue qt', expire_messages := expire_messages qt'\<rparr>"
    using enqueue_message_holds [OF h2, of ?m mm] notin by blast
  obtain Q M where s': "s' = (with_message v s)\<lparr>queue_mem := (queue_mem (with_message v s))(q \<mapsto> Q), message_mem := (message_mem (with_message v s))(?m \<mapsto> M)\<rparr>"
      "mvalue M = fresh s" "expiration M = snd v"
    using enqueue_message_frame [OF e(1)] m2 by (metis option.inject)
  have load: "storage_load_queue_message q s (msg_bytes ht v @ rest) = Some (EG_STATUS_OK, s', rest)"
    using load_message_enqueues [OF q1 v sub] room len e(1) by simp
  have "grows b s'"
  proof -
    have "fresh b \<le> fresh s" "q < fresh s" using g(1) bounded_less(2) [OF bd q1(1)] by (simp_all add: grows_def)
    moreover have "bounded s'" using bd calculation(2) unfolding bounded_def s' with_message_def by (simp add: Let_def)
    ultimately show ?thesis using g unfolding grows_def by (simp add: s' with_message_def Let_def)
  qed
  moreover have "msg_view s' ?m = Some v" using s'(2,3) by (simp add: s'(1) msg_view_def with_message_def Let_def)
  moreover have "msg_view s' a = msg_view s a" if "a \<in> set ms" for a
  proof -
    have "msg_view s a \<in> Some ` set vs" using that ms(2) by (metis image_eqI list.set_map set_rev)
    then obtain w where "msg_view s a = Some w" by blast
    then show ?thesis using msg_view_old [OF bd, of a w s'] by (simp add: s'(1) with_message_def Let_def)
  qed
  then have "map (msg_view s') ms = map (msg_view s) ms" by simp
  ultimately have "map (msg_view s') (rev (?m # ms)) = map Some (vs @ [v])" using ms(2) by (simp add: rev_map [symmetric] del: map_eq_conv)
  moreover have "subscribed_clients_msg qt' = []" "subscribed_clients_notify qt' = []"
    using sub by (subst e(3), simp)+
  moreover have "users s' = users b" "queues s' = queues b" "routes s' = routes b" "channels s' = channels b"
    using ls by (simp_all add: s'(1) with_message_def Let_def)
  ultimately have "filling b s' q qt' (vs @ [v])"
    unfolding filling_def using \<open>grows b s'\<close> g(2) e(2) by (intro conjI exI [of _ "?m # ms"]) simp_all
  then show ?thesis using load e(3) by blast
qed

lemma load_messages:
  assumes "filling b s q qt vs" "\<forall>v \<in> set ws. recordable (fst v) \<and> length (fst v) \<le> unat (max_msg_size qt)"
    "length vs + length ws \<le> unat (max_msg qt)"
  shows "\<exists>s' qt'. load_times (length ws) (storage_load_queue_message q) s (concat (map (msg_bytes ht) ws) @ rest) =
      Some (EG_STATUS_OK, s', rest) \<and>
    filling b s' q qt' (vs @ ws) \<and> (\<exists>qu ex. qt' = qt\<lparr>queue := qu, expire_messages := ex\<rparr>)"
  using assms
proof (induction ws arbitrary: s qt vs)
  case Nil
  moreover have "\<exists>qu ex. qt = qt\<lparr>queue := qu, expire_messages := ex\<rparr>"
    by (rule exI [of _ "queue qt"], rule exI [of _ "expire_messages qt"]) simp
  ultimately show ?case by auto
next
  case (Cons v ws)
  obtain s1 qt1 qu1 ex1 where s1: "filling b s1 q qt1 (vs @ [v])" "qt1 = qt\<lparr>queue := qu1, expire_messages := ex1\<rparr>"
      "storage_load_queue_message q s (msg_bytes ht v @ concat (map (msg_bytes ht) ws) @ rest) =
         Some (EG_STATUS_OK, s1, concat (map (msg_bytes ht) ws) @ rest)"
    using load_message [OF Cons.prems(1), of v ht "concat (map (msg_bytes ht) ws) @ rest"] Cons.prems(2,3) by auto
  obtain s2 qt2 where s2: "load_times (length ws) (storage_load_queue_message q) s1 (concat (map (msg_bytes ht) ws) @ rest) =
      Some (EG_STATUS_OK, s2, rest)" "filling b s2 q qt2 ((vs @ [v]) @ ws)"
      "\<exists>qu ex. qt2 = qt1\<lparr>queue := qu, expire_messages := ex\<rparr>"
    using Cons.IH [OF s1(1)] Cons.prems(2,3) s1(2) by auto
  have "\<exists>qu ex. qt2 = qt\<lparr>queue := qu, expire_messages := ex\<rparr>" using s1(2) s2(3) by auto
  then show ?case using s1(3) s2(1,2) by simp blast
qed

lemma load_queue:
  assumes "bounded s" "storable_queue im"
  shows "\<exists>s' q. storage_load_queue s (tl (queue_bytes ht im) @ rest) = Some (EG_STATUS_OK, s', rest) \<and> grows s s' \<and>
    queue_has s' q im \<and> users s' = users s \<and> queues s' = queues s @ [q] \<and> routes s' = routes s \<and> channels s' = channels s"
proof -
  obtain name mm mms fl ws where im: "im = (name, mm, mms, fl, ws)" by (cases im)
  have st: "fits 64 name" "length ws \<le> unat mm" "\<forall>v \<in> set ws. recordable (fst v) \<and> length (fst v) \<le> unat mms"
    using assms(2) im by (auto simp: storable_queue_def)
  define qt where "qt = \<lparr>qname = name, max_msg = mm, max_msg_size = mms, qflags = fl,
     qauto_delete = BIT_CHECK fl EG_QUEUE_AUTODELETE_FLAG, force_push = BIT_CHECK fl EG_QUEUE_FORCE_PUSH_FLAG,
     qround_robin = BIT_CHECK fl EG_QUEUE_ROUND_ROBIN_FLAG, queue = (queue_create :: addr Queue)\<lparr>qfree := True\<rparr>, expire_messages = [],
     confirm_messages = [], declared_clients = [], subscribed_clients_msg = [], subscribed_clients_notify = [], qroutes = []\<rparr>"
  define s1 where "s1 = s\<lparr>queue_mem := (queue_mem s)(fresh s \<mapsto> qt), fresh := Suc (fresh s)\<rparr>"
  have c: "create_queue_t name mm mms fl s = Some (s1, fresh s)"
    using st(1) by (simp add: create_queue_t_def copy_name_def fits_def s1_def qt_def Let_def)
  have e: "queue_abs (queue qt) []" "tail (queue qt) = None"
    using qu.inv_empty by (auto simp: qt_def queue_create_def queue_abs_def q_rep_def owns_def)
  have "grows s s1" using assms(1) by (simp add: grows_def bounded_def s1_def)
  then have "filling s s1 (fresh s) qt []"
    using e unfolding filling_def by (intro conjI exI [of _ "[]"]) (simp_all add: s1_def qt_def holds_msgs_def)
  moreover have "max_msg qt = mm" "max_msg_size qt = mms" by (simp_all add: qt_def)
  ultimately obtain s2 qt2 where s2: "load_times (length ws) (storage_load_queue_message (fresh s)) s1
        (concat (map (msg_bytes ht) ws) @ rest) = Some (EG_STATUS_OK, s2, rest)"
      "filling s s2 (fresh s) qt2 ws" "\<exists>qu ex. qt2 = qt\<lparr>queue := qu, expire_messages := ex\<rparr>"
    using load_messages [of s s1 "fresh s" qt "[]" ws ht rest] st by auto
  let ?s = "s2\<lparr>queues := queues s2 @ [fresh s]\<rparr>"
  have "unat (of_nat (length ws) :: u32) = length ws" using st(2) unsigned_less [of mm, where ?'a = nat] by (simp add: unat_of_nat32)
  then have "storage_load_queue s (tl (queue_bytes ht im) @ rest) = Some (EG_STATUS_OK, ?s, rest)"
    using fits_strz [OF st(1)] c s2(1)
    by (simp add: im storage_load_queue_def queue_bytes_def load_field_record recordable_le32)
  moreover have "grows s ?s" using s2(2) by (simp add: filling_def grows_def bounded_def)
  moreover have "queue_has ?s (fresh s) im"
  proof -
    obtain ms where "holds_msgs s2 (fresh s) qt2 ms" "ms = [] \<longrightarrow> tail (queue qt2) = None" "map (msg_view s2) (rev ms) = map Some ws"
      using s2(2) by (auto simp: filling_def)
    moreover have "msg_view ?s = msg_view s2" by (simp add: fun_eq_iff msg_view_def)
    moreover have "qname qt2 = name" "max_msg qt2 = mm" "max_msg_size qt2 = mms" "qflags qt2 = fl"
      using s2(3) by (auto simp: qt_def)
    ultimately show ?thesis unfolding im queue_has_def by (auto simp: holds_msgs_def intro!: exI [of _ ms])
  qed
  ultimately show ?thesis using s2(2) by (intro exI [of _ ?s] exI [of _ "fresh s"]) (simp add: filling_def)
qed

text \<open>The bindings that can be restored: those to a queue that is in the file.\<close>

definition restored_keys :: "bytes set \<Rightarrow> (bytes \<times> bytes list) list \<Rightarrow> (bytes \<times> bytes list) list" where
  "restored_keys names ks = filter (\<lambda>(k, ns). ns \<noteq> []) (map (\<lambda>(k, ns). (k, filter (\<lambda>n. n \<in> names) ns)) ks)"

text \<open>A route image that can be loaded.\<close>

definition loadable_route :: "route_image \<Rightarrow> bool" where
  "loadable_route im \<longleftrightarrow> (case im of (name, fl, ks) \<Rightarrow> fits 64 name \<and> length ks < 2 ^ 32 \<and> distinct (map fst ks) \<and>
     (\<forall>(k, ns) \<in> set ks. fits 32 k \<and> length ns < 2 ^ 32 \<and> distinct ns \<and> (\<forall>n \<in> set ns. fits 64 n)))"

text \<open>The route \<open>r\<close>, being loaded into the server \<open>b\<close>, has the bindings \<open>ks\<close>.\<close>

definition binding :: "server \<Rightarrow> server \<Rightarrow> addr \<Rightarrow> route_t \<Rightarrow> (bytes \<times> bytes list) list \<Rightarrow> bool" where
  "binding b s r rt ks \<longleftrightarrow> grows b s \<and> fresh b \<le> r \<and>
     users s = users b \<and> queues s = queues b \<and> routes s = routes b \<and> channels s = channels b \<and>
     route_mem s r = Some rt \<and> (\<forall>(k, qs) \<in> set (keys rt). set qs \<subseteq> set (queues b)) \<and>
     map (\<lambda>(k, qs). (k, map (queue_name b) qs)) (keys rt) = ks"

definition live_queues :: "server \<Rightarrow> bool" where
  "live_queues b \<longleftrightarrow> bounded b \<and> (\<forall>q \<in> set (queues b). queue_mem b q \<noteq> None)"

lemma names_cong:
  "\<forall>(k, qs) \<in> set ks. set qs \<subseteq> Q \<Longrightarrow> \<forall>q \<in> Q. f q = g q \<Longrightarrow>
   map (\<lambda>(k, qs). (k, map f qs)) ks = map (\<lambda>(k, qs). (k, map g qs)) ks"
  by (induction ks) (auto simp: subset_iff)

lemma queue_name_grows: "bounded b \<Longrightarrow> grows b s \<Longrightarrow> queue_mem b q \<noteq> None \<Longrightarrow> queue_name s q = queue_name b q \<and> queue_mem s q \<noteq> None"
proof -
  assume a: "bounded b" "grows b s" "queue_mem b q \<noteq> None"
  then obtain qt where q: "queue_mem b q = Some qt" by blast
  then obtain rs where "queue_mem s q = Some (qt\<lparr>qroutes := rs\<rparr>)"
    using a(2) bounded_less(2) [OF a(1) q] same_queue_SomeE unfolding grows_def by metis
  then show ?thesis using q by (simp add: queue_name_def)
qed

lemma find_queue_named:
  assumes "live_queues b" "grows b s" "queues s = queues b"
  shows "find_queue_t (queues s) n s = Some (find (\<lambda>q. queue_name b q = n) (queues b))"
  unfolding find_queue_t_def assms(3)
proof (rule find_by_Some)
  fix q assume "q \<in> set (queues b)"
  then have "queue_name s q = queue_name b q" "queue_mem s q \<noteq> None"
    using queue_name_grows [of b s q] assms by (auto simp: live_queues_def)
  then show "do { qt \<leftarrow> queue_mem s q; Some (qname qt = n) } = Some (queue_name b q = n)"
    by (auto simp: queue_name_def)
qed

lemma bind_route:
  assumes bd: "binding b s r rt ks" and b: "live_queues b" and q: "q \<in> set (queues b)"
    and new: "\<forall>qs. map_of (keys rt) k = Some qs \<longrightarrow> q \<notin> set qs"
  shows "\<exists>s' rt'. bind_route_t r q k s = Some s' \<and>
    rt' = rt\<lparr>keys := AList.update k (case map_of (keys rt) k of None \<Rightarrow> [q] | Some qs \<Rightarrow> qs @ [q]) (keys rt)\<rparr> \<and>
    grows b s' \<and> users s' = users b \<and> queues s' = queues b \<and> routes s' = routes b \<and> channels s' = channels b \<and>
    route_mem s' r = Some rt'"
proof -
  let ?rt = "rt\<lparr>keys := AList.update k (case map_of (keys rt) k of None \<Rightarrow> [q] | Some qs \<Rightarrow> qs @ [q]) (keys rt)\<rparr>"
  let ?s1 = "s\<lparr>route_mem := (route_mem s)(r \<mapsto> ?rt)\<rparr>"
  have r: "route_mem s r = Some rt" "grows b s" "fresh b \<le> r" and ls: "users s = users b" "queues s = queues b" "routes s = routes b" "channels s = channels b"
    using bd by (auto simp: binding_def)
  have rl: "r < fresh s" using bounded_less(3) r(1,2) by (metis grows_def)
  obtain qt where qt: "queue_mem s q = Some qt" "q < fresh s"
    using queue_name_grows [of b s q] b q r(2) bounded_less(2) unfolding live_queues_def grows_def by (metis option.exhaust)
  have step: "bind_route_t r q k s = link_queue_route_t q r k ?s1"
    using r(1) new by (auto simp: bind_route_t_def upd_Some split: option.split)
  obtain rs where lk: "link_queue_route_t q r k ?s1 = Some (?s1\<lparr>queue_mem := (queue_mem s)(q \<mapsto> qt\<lparr>qroutes := rs\<rparr>)\<rparr>)"
  proof -
    define f where "f = (\<lambda>x :: queue_t. case map_of (qroutes x) k of None \<Rightarrow> x\<lparr>qroutes := AList.update k [r] (qroutes x)\<rparr>
     | Some rs \<Rightarrow> (if r \<in> set rs then x else x\<lparr>qroutes := AList.update k (rs @ [r]) (qroutes x)\<rparr>))"
    have "\<exists>rs. f qt = qt\<lparr>qroutes := rs\<rparr>"
      by (rule exI [of _ "qroutes (f qt)"]) (simp add: f_def split: option.split)
    then obtain rs where "f qt = qt\<lparr>qroutes := rs\<rparr>" by blast
    then have "link_queue_route_t q r k ?s1 = Some (?s1\<lparr>queue_mem := (queue_mem s)(q \<mapsto> qt\<lparr>qroutes := rs\<rparr>)\<rparr>)"
      using qt unfolding link_queue_route_t_def f_def [symmetric] by (simp add: upd_Some)
    then show ?thesis by (rule that)
  qed
  let ?s = "?s1\<lparr>queue_mem := (queue_mem s)(q \<mapsto> qt\<lparr>qroutes := rs\<rparr>)\<rparr>"
  have "grows b ?s"
  proof -
    have "bounded ?s" using r(2) qt rl by (auto simp: grows_def bounded_def)
    moreover have "same_queue (if a = q then Some (qt\<lparr>qroutes := rs\<rparr>) else queue_mem s a) (queue_mem b a)" if "a < fresh b" for a
    proof -
      have "same_queue (queue_mem s a) (queue_mem b a)" using r(2) that by (simp add: grows_def)
      moreover have "same_queue (Some (qt\<lparr>qroutes := rs\<rparr>)) (Some qt)" by (simp add: same_queue_def)
      ultimately show ?thesis using qt(1) same_queue_trans by auto
    qed
    ultimately show ?thesis using r(2,3) by (auto simp: grows_def)
  qed
  then show ?thesis using step lk ls by (intro exI [of _ ?s] exI [of _ ?rt]) simp
qed

text \<open>A key with its queues, once it has one.\<close>

definition pend :: "bytes \<Rightarrow> addr list \<Rightarrow> (bytes \<times> addr list) list" where
  "pend k qs = (if qs = [] then [] else [(k, qs)])"

lemma update_pend:
  assumes "k \<notin> fst ` set K"
  shows "AList.update k (case map_of (K @ pend k qs) k of None \<Rightarrow> [q] | Some qs \<Rightarrow> qs @ [q]) (K @ pend k qs) = K @ pend k (qs @ [q])"
    "map_of (K @ pend k qs) k = (if qs = [] then None else Some qs)"
proof -
  have m: "map_of (K @ pend k qs) k = (if qs = [] then None else Some qs)"
    using assms map_of_eq_None_iff [of K k] by (auto simp: map_add_def pend_def split: option.split)
  have "AList.update k v (K @ pend k qs) = K @ [(k, v)]" for v
    using assms by (induction K) (auto simp: pend_def)
  then show "AList.update k (case map_of (K @ pend k qs) k of None \<Rightarrow> [q] | Some qs \<Rightarrow> qs @ [q]) (K @ pend k qs) = K @ pend k (qs @ [q])"
    unfolding m by (simp add: pend_def)
  show "map_of (K @ pend k qs) k = (if qs = [] then None else Some qs)" by (rule m)
qed

lemma binding_pend:
  "binding b s r rt ks \<Longrightarrow> keys rt = K @ pend k qs \<Longrightarrow> set qs \<subseteq> set (queues b)"
  by (auto simp: binding_def pend_def split: if_split_asm)

lemma load_key_queues:
  assumes "binding b s r rt ks" "live_queues b" "keys rt = K @ pend k qs" "k \<notin> fst ` set K" "fits 32 k"
    "map (queue_name b) qs = filter (\<lambda>n. n \<in> queue_name b ` set (queues b)) ds"
    "distinct (ds @ ns)" "\<forall>n \<in> set ns. fits 64 n"
  shows "\<exists>s' rt' ks' qs'. load_times (length ns) (storage_load_route_key_queues r (strz k)) s
      (concat (map (\<lambda>n. record_of ht (strz n)) ns) @ rest) = Some (EG_STATUS_OK, s', rest) \<and>
    binding b s' r rt' ks' \<and> rt' = rt\<lparr>keys := K @ pend k qs'\<rparr> \<and>
    map (queue_name b) qs' = filter (\<lambda>n. n \<in> queue_name b ` set (queues b)) (ds @ ns)"
  using assms
proof (induction ns arbitrary: s rt ks qs ds)
  case Nil
  then have "rt = rt\<lparr>keys := K @ pend k qs\<rparr>" by simp
  then show ?case using Nil by (intro exI [of _ s] exI [of _ rt] exI [of _ ks] exI [of _ qs]) simp
next
  case (Cons n ns)
  let ?names = "queue_name b ` set (queues b)" and ?tl = "concat (map (\<lambda>n. record_of ht (strz n)) ns) @ rest"
  have b: "grows b s" "queues s = queues b" using Cons.prems(1) by (auto simp: binding_def)
  have n: "fits 64 n" and ns: "distinct ((ds @ [n]) @ ns)" "\<forall>n \<in> set ns. fits 64 n" using Cons.prems(7,8) by simp_all
  have f: "storage_load_route_key_queues r (strz k) s (record_of ht (strz n) @ ?tl) =
     (case find (\<lambda>q. queue_name b q = n) (queues b) of None \<Rightarrow> Some (EG_STATUS_OK, s, ?tl)
      | Some q \<Rightarrow> do { s \<leftarrow> bind_route_t r q k s; Some (EG_STATUS_OK, s, ?tl) })"
    using fits_strz [OF n] fits_strz [OF Cons.prems(5)] find_queue_named [OF Cons.prems(2) b, of n]
    by (simp add: storage_load_route_key_queues_def load_field_record split: option.split)
  show ?case
  proof (cases "find (\<lambda>q. queue_name b q = n) (queues b)")
    case None
    then have "n \<notin> ?names" by (auto simp: find_None_iff)
    then have "map (queue_name b) qs = filter (\<lambda>n. n \<in> ?names) (ds @ [n])" using Cons.prems(6) by simp
    then show ?thesis using Cons.IH [OF Cons.prems(1-5) _ ns] f None by simp
  next
    case (Some q)
    then have q: "q \<in> set (queues b)" "queue_name b q = n" by (auto simp: find_Some_iff)
    have dn: "map (queue_name b) (qs @ [q]) = filter (\<lambda>n. n \<in> ?names) (ds @ [n])" using Cons.prems(6) q by auto
    have "n \<notin> set ds" using Cons.prems(7) by simp
    then have "n \<notin> set (map (queue_name b) qs)" unfolding Cons.prems(6) by simp
    then have new: "q \<notin> set qs" using q(2) by auto
    have "\<forall>qs. map_of (keys rt) k = Some qs \<longrightarrow> q \<notin> set qs"
      unfolding Cons.prems(3) update_pend(2) [OF Cons.prems(4)] using new by simp
    from bind_route [OF Cons.prems(1,2) q(1) this]
    obtain s1 rt1 where s1: "bind_route_t r q k s = Some s1" "rt1 = rt\<lparr>keys := K @ pend k (qs @ [q])\<rparr>"
        "grows b s1" "users s1 = users b" "queues s1 = queues b" "routes s1 = routes b" "channels s1 = channels b"
        "route_mem s1 r = Some rt1"
      unfolding Cons.prems(3) update_pend(1) [OF Cons.prems(4)] by blast
    have "\<forall>(k, qs) \<in> set (keys rt1). set qs \<subseteq> set (queues b)"
      using Cons.prems(1,3) q(1) s1(2) binding_pend [OF Cons.prems(1,3)] by (auto simp: binding_def pend_def)
    then have "binding b s1 r rt1 (map (\<lambda>(k, qs). (k, map (queue_name b) qs)) (keys rt1))"
      using s1 Cons.prems(1) by (simp add: binding_def)
    from Cons.IH [OF this Cons.prems(2) _ Cons.prems(4,5) dn ns]
    show ?thesis using f Some s1(1,2) by simp
  qed
qed

lemma restored_keys_simps:
  "restored_keys N [] = []"
  "restored_keys N ((k, ns) # ks) = (let ms = filter (\<lambda>n. n \<in> N) ns in (if ms = [] then [] else [(k, ms)]) @ restored_keys N ks)"
  by (simp_all add: restored_keys_def Let_def)

lemma load_route_keys:
  assumes "binding b s r rt ks" "live_queues b" "distinct (map fst js)" "fst ` set ks \<inter> fst ` set js = {}"
    "\<forall>(k, ns) \<in> set js. fits 32 k \<and> length ns < 2 ^ 32 \<and> distinct ns \<and> (\<forall>n \<in> set ns. fits 64 n)"
  shows "\<exists>s' rt'. load_times (length js) (storage_load_route_key r) s (concat (map (key_bytes ht) js) @ rest) =
      Some (EG_STATUS_OK, s', rest) \<and> (\<exists>K. rt' = rt\<lparr>keys := K\<rparr>) \<and>
    binding b s' r rt' (ks @ restored_keys (queue_name b ` set (queues b)) js)"
  using assms
proof (induction js arbitrary: s rt ks)
  case Nil
  then show ?case by (intro exI [of _ s] exI [of _ rt]) (auto simp: restored_keys_simps intro!: exI [of _ "keys rt"])
next
  case (Cons j js)
  obtain k ns where j: "j = (k, ns)" by (cases j)
  let ?N = "queue_name b ` set (queues b)" and ?tl = "concat (map (key_bytes ht) js) @ rest"
  have k: "fits 32 k" "length ns < 2 ^ 32" "distinct ns" "\<forall>n \<in> set ns. fits 64 n" using Cons.prems(5) j by auto
  have ks: "ks = map (\<lambda>(k, qs). (k, map (queue_name b) qs)) (keys rt)" using Cons.prems(1) by (simp add: binding_def)
  have kn: "k \<notin> fst ` set (keys rt)" using Cons.prems(4) j unfolding ks by (force simp: image_iff)
  have nil: "keys rt = keys rt @ pend k []" "map (queue_name b) [] = filter (\<lambda>n. n \<in> ?N) []" by (simp_all add: pend_def)
  from load_key_queues [OF Cons.prems(1,2) nil(1) kn k(1) nil(2) _ k(4), of ht ?tl] k(3)
  obtain s1 rt1 ks1 qs where s1: "load_times (length ns) (storage_load_route_key_queues r (strz k)) s
        (concat (map (\<lambda>n. record_of ht (strz n)) ns) @ ?tl) = Some (EG_STATUS_OK, s1, ?tl)"
      "binding b s1 r rt1 ks1" "rt1 = rt\<lparr>keys := keys rt @ pend k qs\<rparr>" "map (queue_name b) qs = filter (\<lambda>n. n \<in> ?N) ns"
    by auto
  have load: "storage_load_route_key r s (key_bytes ht j @ ?tl) = Some (EG_STATUS_OK, s1, ?tl)"
    using fits_strz [OF k(1)] k(2) s1(1)
    by (simp add: j storage_load_route_key_def key_bytes_def storage_read_type_def storage_read_def
        load_field_record recordable_le32 unat_of_nat32)
  have ks1: "ks1 = ks @ (if map (queue_name b) qs = [] then [] else [(k, map (queue_name b) qs)])"
    using s1(2,3) ks by (auto simp: binding_def pend_def)
  have "fst ` set ks1 \<inter> fst ` set js = {}" using Cons.prems(3,4) j unfolding ks1 by auto
  from Cons.IH [OF s1(2) Cons.prems(2) _ this] Cons.prems(3,5) j
  obtain s2 rt2 K where s2: "load_times (length js) (storage_load_route_key r) s1 ?tl = Some (EG_STATUS_OK, s2, rest)"
      "rt2 = rt1\<lparr>keys := K\<rparr>" "binding b s2 r rt2 (ks1 @ restored_keys ?N js)" by auto
  have "ks1 @ restored_keys ?N js = ks @ restored_keys ?N (j # js)"
    unfolding ks1 s1(4) j restored_keys_simps by (simp add: Let_def)
  moreover have "rt2 = rt\<lparr>keys := K\<rparr>" using s2(2) s1(3) by simp
  ultimately show ?case using load s2 by (intro exI [of _ s2] exI [of _ rt2]) auto
qed

text \<open>The route \<open>r\<close> binds queues of the server under the names \<open>ks\<close>.\<close>

definition route_binds :: "server \<Rightarrow> addr \<Rightarrow> route_image \<Rightarrow> bool" where
  "route_binds s r im \<longleftrightarrow> (\<exists>rt. route_mem s r = Some rt \<and> (\<forall>(k, qs) \<in> set (keys rt). set qs \<subseteq> set (queues s)) \<and>
     im = (rname rt, rflags rt, map (\<lambda>(k, qs). (k, map (queue_name s) qs)) (keys rt)))"

definition restored_route :: "bytes set \<Rightarrow> route_image \<Rightarrow> route_image" where
  "restored_route N im = (case im of (name, fl, ks) \<Rightarrow> (name, fl, restored_keys N ks))"

lemma load_route:
  assumes "live_queues s" "loadable_route im"
  shows "\<exists>s' r. storage_load_route s (tl (route_bytes ht im) @ rest) = Some (EG_STATUS_OK, s', rest) \<and> grows s s' \<and>
    route_binds s' r (restored_route (queue_name s ` set (queues s)) im) \<and>
    users s' = users s \<and> queues s' = queues s \<and> routes s' = routes s @ [r] \<and> channels s' = channels s"
proof -
  obtain name fl js where im: "im = (name, fl, js)" by (cases im)
  have st: "fits 64 name" "length js < 2 ^ 32" "distinct (map fst js)"
      "\<forall>(k, ns) \<in> set js. fits 32 k \<and> length ns < 2 ^ 32 \<and> distinct ns \<and> (\<forall>n \<in> set ns. fits 64 n)"
    using assms(2) im by (auto simp: loadable_route_def)
  have bs: "bounded s" using assms(1) by (simp add: live_queues_def)
  define rt where "rt = \<lparr>rname = name, rflags = fl, rauto_delete = BIT_CHECK fl EG_ROUTE_AUTODELETE_FLAG,
     rround_robin = BIT_CHECK fl EG_ROUTE_ROUND_ROBIN_FLAG, keys = []\<rparr>"
  define s1 where "s1 = s\<lparr>route_mem := (route_mem s)(fresh s \<mapsto> rt), fresh := Suc (fresh s)\<rparr>"
  have c: "create_route_t name fl s = Some (s1, fresh s)"
    using st(1) by (simp add: create_route_t_def copy_name_def fits_def s1_def rt_def Let_def)
  have "grows s s1" using bs by (simp add: grows_def bounded_def s1_def)
  then have "binding s s1 (fresh s) rt []" by (simp add: binding_def s1_def rt_def)
  from load_route_keys [OF this assms(1) st(3) _ st(4), of ht rest]
  obtain s2 rt2 K where s2: "load_times (length js) (storage_load_route_key (fresh s)) s1 (concat (map (key_bytes ht) js) @ rest) =
        Some (EG_STATUS_OK, s2, rest)" "rt2 = rt\<lparr>keys := K\<rparr>"
      "binding s s2 (fresh s) rt2 (restored_keys (queue_name s ` set (queues s)) js)" by auto
  let ?s = "s2\<lparr>routes := routes s2 @ [fresh s]\<rparr>"
  have load: "storage_load_route s (tl (route_bytes ht im) @ rest) = Some (EG_STATUS_OK, ?s, rest)"
    using fits_strz [OF st(1)] st(2) c s2(1)
    by (simp add: im storage_load_route_def route_bytes_def load_field_record recordable_le32 unat_of_nat32)
  have g: "grows s ?s" "queues ?s = queues s" using s2(3) by (simp_all add: binding_def grows_def bounded_def)
  have "queue_name ?s q = queue_name s q" if "q \<in> set (queues s)" for q
    using queue_name_grows [OF bs g(1)] that assms(1) by (simp add: live_queues_def)
  then have "map (\<lambda>(k, qs). (k, map (queue_name ?s) qs)) (keys rt2) = map (\<lambda>(k, qs). (k, map (queue_name s) qs)) (keys rt2)"
    using s2(3) by (intro names_cong [where Q = "set (queues s)"]) (auto simp: binding_def)
  then have "map (\<lambda>(k, qs). (k, map (queue_name ?s) qs)) (keys rt2) = restored_keys (queue_name s ` set (queues s)) js"
    using s2(3) by (simp only: binding_def)
  moreover have "rname rt2 = name" "rflags rt2 = fl" using s2(2) by (simp_all add: rt_def)
  moreover have "route_mem ?s (fresh s) = Some rt2" "\<forall>(k, qs) \<in> set (keys rt2). set qs \<subseteq> set (queues ?s)"
    using s2(3) by (auto simp: binding_def)
  ultimately have "route_binds ?s (fresh s) (restored_route (queue_name s ` set (queues s)) im)"
    unfolding route_binds_def im restored_route_def by (intro exI [of _ rt2]) (simp only: prod.case simp_thms)
  then show ?thesis using load g s2(3) by (intro exI [of _ ?s] exI [of _ "fresh s"]) (simp add: binding_def)
qed

text \<open>An image the loader can restore, and what it restores.\<close>

definition valid_image :: "image \<Rightarrow> bool" where
  "valid_image im \<longleftrightarrow>
     (\<forall>x \<in> set (iusers im). fits 32 (uname x) \<and> fits 32 (upassword x) \<and> \<not> BIT_CHECK (uperm x) (perm_bit EG_USER_NOT_CHANGE_PERM)) \<and>
     (\<forall>(n, mm, mms, fl, msgs) \<in> set (iqueues im). storable_queue (n, mm, mms, fl, msgs) \<and> BIT_CHECK fl EG_QUEUE_DURABLE_FLAG) \<and>
     (\<forall>(n, fl, ks) \<in> set (iroutes im). loadable_route (n, fl, ks) \<and> BIT_CHECK fl EG_ROUTE_DURABLE_FLAG) \<and>
     (\<forall>(n, fl) \<in> set (ichannels im). fits 64 n \<and> BIT_CHECK fl EG_CHANNEL_DURABLE_FLAG)"

definition restored :: "image \<Rightarrow> image" where
  "restored im = im\<lparr>iroutes := map (restored_route (fst ` set (iqueues im))) (iroutes im)\<rparr>"

text \<open>The server after some records: \<open>U\<close> are the users it had before.\<close>

definition loaded :: "addr list \<Rightarrow> server \<Rightarrow> image \<Rightarrow> bool" where
  "loaded U s im \<longleftrightarrow> bounded s \<and> (\<forall>u \<in> set U. \<exists>x. user_mem s u = Some x \<and> BIT_CHECK (uperm x) (perm_bit EG_USER_NOT_CHANGE_PERM)) \<and>
     (\<exists>us. users s = U @ us \<and> list_all2 (\<lambda>u x. user_mem s u = Some x) us (iusers im)) \<and>
     list_all2 (queue_has s) (queues s) (iqueues im) \<and> list_all2 (route_binds s) (routes s) (iroutes im) \<and>
     list_all2 (channel_has s) (channels s) (ichannels im)"

lemma queue_has_name: "queue_has s q im \<Longrightarrow> queue_mem s q \<noteq> None \<and> queue_name s q = fst im"
  by (auto simp: queue_has_def holds_msgs_def queue_name_def split: prod.splits)

lemma loaded_queues:
  assumes "loaded U s im"
  shows "live_queues s" "queue_name s ` set (queues s) = fst ` set (iqueues im)"
proof -
  have l: "list_all2 (queue_has s) (queues s) (iqueues im)" "bounded s" using assms by (auto simp: loaded_def)
  have "list_all2 (\<lambda>q i. queue_mem s q \<noteq> None \<and> queue_name s q = fst i) (queues s) (iqueues im)"
    by (rule list.rel_mono_strong [OF l(1)]) (use queue_has_name in blast)
  then have "(\<forall>q \<in> set (queues s). queue_mem s q \<noteq> None) \<and> map (queue_name s) (queues s) = map fst (iqueues im)"
    by (induction rule: list_all2_induct) auto
  then show "live_queues s" "queue_name s ` set (queues s) = fst ` set (iqueues im)"
    using l(2) by (auto simp: live_queues_def simp flip: set_map)
qed

lemma route_binds_grows:
  assumes "live_queues s" "grows s s'" "set (queues s) \<subseteq> set (queues s')" "route_binds s r im"
  shows "route_binds s' r im"
proof -
  obtain rt where rt: "route_mem s r = Some rt" "\<forall>(k, qs) \<in> set (keys rt). set qs \<subseteq> set (queues s)"
      "im = (rname rt, rflags rt, map (\<lambda>(k, qs). (k, map (queue_name s) qs)) (keys rt))"
    using assms(4) by (auto simp: route_binds_def)
  have b: "bounded s" using assms(1) by (simp add: live_queues_def)
  have "route_mem s' r = Some rt" using rt(1) assms(2) bounded_less(3) [OF b rt(1)] by (simp add: grows_def)
  moreover have "queue_name s' q = queue_name s q" if "q \<in> set (queues s)" for q
    using queue_name_grows [OF b assms(2)] that assms(1) by (simp add: live_queues_def)
  then have "map (\<lambda>(k, qs). (k, map (queue_name s') qs)) (keys rt) = map (\<lambda>(k, qs). (k, map (queue_name s) qs)) (keys rt)"
    using names_cong [OF rt(2), of "queue_name s'" "queue_name s"] by blast
  ultimately show ?thesis using rt(2,3) assms(3) by (fastforce simp: route_binds_def)
qed

lemma loaded_grows:
  assumes l: "loaded U s im" and g: "grows s s'"
    and ls: "set (queues s) \<subseteq> set (queues s')"
  shows "bounded s'" "\<forall>u \<in> set U. \<exists>x. user_mem s' u = Some x \<and> BIT_CHECK (uperm x) (perm_bit EG_USER_NOT_CHANGE_PERM)"
    "\<exists>us. users s = U @ us \<and> list_all2 (\<lambda>u x. user_mem s' u = Some x) us (iusers im)"
    "list_all2 (queue_has s') (queues s) (iqueues im)" "list_all2 (route_binds s') (routes s) (iroutes im)"
    "list_all2 (channel_has s') (channels s) (ichannels im)"
proof -
  have b: "bounded s" using l by (simp add: loaded_def)
  have u: "user_mem s' u = Some x" if "user_mem s u = Some x" for u x
    using g that bounded_less(1) [OF b that] by (simp add: grows_def)
  have c: "channel_has s' ch i" if "channel_has s ch i" for ch i
    using g that bounded_less(4) [OF b] by (auto simp: grows_def channel_has_def)
  show "bounded s'" using g by (simp add: grows_def)
  show "\<forall>u \<in> set U. \<exists>x. user_mem s' u = Some x \<and> BIT_CHECK (uperm x) (perm_bit EG_USER_NOT_CHANGE_PERM)"
    using l u unfolding loaded_def by blast
  obtain us where "users s = U @ us" "list_all2 (\<lambda>u x. user_mem s u = Some x) us (iusers im)" using l by (auto simp: loaded_def)
  then show "\<exists>us. users s = U @ us \<and> list_all2 (\<lambda>u x. user_mem s' u = Some x) us (iusers im)"
    using list.rel_mono_strong [of "\<lambda>u x. user_mem s u = Some x" us "iusers im" "\<lambda>u x. user_mem s' u = Some x"] u by blast
  have q: "list_all2 (queue_has s) (queues s) (iqueues im)" and r: "list_all2 (route_binds s) (routes s) (iroutes im)"
    and ch: "list_all2 (channel_has s) (channels s) (ichannels im)" using l by (auto simp: loaded_def)
  show "list_all2 (queue_has s') (queues s) (iqueues im)"
    by (rule list.rel_mono_strong [OF q]) (use queue_has_grows [OF b g] in blast)
  show "list_all2 (route_binds s') (routes s) (iroutes im)"
    by (rule list.rel_mono_strong [OF r]) (use route_binds_grows [OF loaded_queues(1) [OF l] g ls] in blast)
  show "list_all2 (channel_has s') (channels s) (ichannels im)"
    by (rule list.rel_mono_strong [OF ch]) (use c in blast)
qed

lemma load_loop_records:
  assumes "Inv [] s" "\<And>x. x \<in> set xs \<Longrightarrow> bytes x = ty # tl (bytes x)" "ty \<noteq> EG_STORAGE_EOF" "load_record ty = Some l"
    "\<And>x ys s rest. x \<in> set xs \<Longrightarrow> Inv ys s \<Longrightarrow> \<exists>s'. l s (tl (bytes x) @ rest) = Some (EG_STATUS_OK, s', rest) \<and> Inv (ys @ [x]) s'"
  shows "\<exists>s'. Inv xs s' \<and> load_loop s (concat (map bytes xs) @ rest) = load_loop s' rest"
proof -
  have "\<exists>s'. Inv (ys @ zs) s' \<and> load_loop s (concat (map bytes zs) @ rest) = load_loop s' rest"
    if "Inv ys s" "set zs \<subseteq> set xs" for ys zs s
    using that
  proof (induction zs arbitrary: ys s)
    case Nil
    then show ?case by auto
  next
    case (Cons z zs)
    let ?tl = "concat (map bytes zs) @ rest"
    obtain s1 where s1: "l s (tl (bytes z) @ ?tl) = Some (EG_STATUS_OK, s1, ?tl)" "Inv (ys @ [z]) s1"
      using assms(5) [of z ys s ?tl] Cons.prems by auto
    have "bytes z = ty # tl (bytes z)" using assms(2) Cons.prems(2) by simp
    then have eq: "concat (map bytes (z # zs)) @ rest = ty # (tl (bytes z) @ ?tl)" by (metis append.assoc append_Cons concat.simps(2) list.map(2))
    have "load_loop s (ty # (tl (bytes z) @ ?tl)) = load_loop s1 ?tl"
      using s1(1) assms(3,4) by (subst load_loop.simps) (simp add: storage_read_type_def storage_read_def)
    then have "load_loop s (concat (map bytes (z # zs)) @ rest) = load_loop s1 ?tl" unfolding eq .
    then show ?case using Cons.IH [OF s1(2)] Cons.prems(2) by (simp del: concat.simps list.map)
  qed
  from this [OF assms(1), of xs] show ?thesis by simp
qed

text \<open>Each loader adds one element to the image.\<close>

lemma loaded_user:
  assumes "loaded U s im" "fits 32 (uname x)" "fits 32 (upassword x)"
  shows "\<exists>s'. storage_load_user s (tl (user_bytes ht x) @ rest) = Some (EG_STATUS_OK, s', rest) \<and>
    loaded U s' (im\<lparr>iusers := iusers im @ [x]\<rparr>)"
proof -
  have "bounded s" using assms(1) by (simp add: loaded_def)
  from load_user [OF this assms(2,3), of ht rest] obtain s' u where s': "grows s s'" "user_mem s' u = Some x"
      "storage_load_user s (tl (user_bytes ht x) @ rest) = Some (EG_STATUS_OK, s', rest)"
      "users s' = users s @ [u]" "queues s' = queues s" "routes s' = routes s" "channels s' = channels s" by blast
  note k = loaded_grows [OF assms(1) s'(1)]
  obtain us where "users s = U @ us" "list_all2 (\<lambda>u x. user_mem s' u = Some x) us (iusers im)" using k(3) s'(5) by auto
  then have "\<exists>us. users s' = U @ us \<and> list_all2 (\<lambda>u x. user_mem s' u = Some x) us (iusers im @ [x])"
    using s'(2,4) by (intro exI [of _ "us @ [u]"]) (simp add: list_all2_appendI)
  then have "loaded U s' (im\<lparr>iusers := iusers im @ [x]\<rparr>)" using k s'(5-7) by (simp add: loaded_def)
  then show ?thesis using s'(3) by blast
qed

lemma loaded_queue:
  assumes "loaded U s im" "storable_queue i"
  shows "\<exists>s'. storage_load_queue s (tl (queue_bytes ht i) @ rest) = Some (EG_STATUS_OK, s', rest) \<and>
    loaded U s' (im\<lparr>iqueues := iqueues im @ [i]\<rparr>)"
proof -
  have "bounded s" using assms(1) by (simp add: loaded_def)
  from load_queue [OF this assms(2), of ht rest] obtain s' q where s': "grows s s'" "queue_has s' q i"
      "storage_load_queue s (tl (queue_bytes ht i) @ rest) = Some (EG_STATUS_OK, s', rest)"
      "users s' = users s" "queues s' = queues s @ [q]" "routes s' = routes s" "channels s' = channels s" by blast
  have "loaded U s' (im\<lparr>iqueues := iqueues im @ [i]\<rparr>)"
    using loaded_grows [OF assms(1) s'(1)] s'(2,4-7) by (simp add: loaded_def list_all2_appendI subset_insertI)
  then show ?thesis using s'(3) by blast
qed

lemma loaded_route:
  assumes "loaded U s im" "loadable_route i"
  shows "\<exists>s'. storage_load_route s (tl (route_bytes ht i) @ rest) = Some (EG_STATUS_OK, s', rest) \<and>
    loaded U s' (im\<lparr>iroutes := iroutes im @ [restored_route (fst ` set (iqueues im)) i]\<rparr>)"
proof -
  from load_route [OF loaded_queues(1) [OF assms(1)] assms(2), of ht rest] loaded_queues(2) [OF assms(1)]
  obtain s' r where s': "grows s s'" "route_binds s' r (restored_route (fst ` set (iqueues im)) i)"
      "storage_load_route s (tl (route_bytes ht i) @ rest) = Some (EG_STATUS_OK, s', rest)"
      "users s' = users s" "queues s' = queues s" "routes s' = routes s @ [r]" "channels s' = channels s" by auto
  have "loaded U s' (im\<lparr>iroutes := iroutes im @ [restored_route (fst ` set (iqueues im)) i]\<rparr>)"
    using loaded_grows [OF assms(1) s'(1)] s'(2,4-7) by (simp add: loaded_def list_all2_appendI)
  then show ?thesis using s'(3) by blast
qed

lemma loaded_channel:
  assumes "loaded U s im" "fits 64 (fst i)"
  shows "\<exists>s'. storage_load_channel s (tl (channel_bytes ht i) @ rest) = Some (EG_STATUS_OK, s', rest) \<and>
    loaded U s' (im\<lparr>ichannels := ichannels im @ [i]\<rparr>)"
proof -
  have "bounded s" using assms(1) by (simp add: loaded_def)
  from load_channel [OF this assms(2), of ht rest] obtain s' ch where s': "grows s s'" "channel_has s' ch i"
      "storage_load_channel s (tl (channel_bytes ht i) @ rest) = Some (EG_STATUS_OK, s', rest)"
      "users s' = users s" "queues s' = queues s" "routes s' = routes s" "channels s' = channels s @ [ch]" by blast
  have "loaded U s' (im\<lparr>ichannels := ichannels im @ [i]\<rparr>)"
    using loaded_grows [OF assms(1) s'(1)] s'(2,4-7) by (simp add: loaded_def list_all2_appendI)
  then show ?thesis using s'(3) by blast
qed

lemma load_users:
  assumes "loaded U s im" "\<forall>x \<in> set xs. fits 32 (uname x) \<and> fits 32 (upassword x)"
  shows "\<exists>s'. loaded U s' (im\<lparr>iusers := iusers im @ xs\<rparr>) \<and>
    load_loop s (concat (map (user_bytes ht) xs) @ rest) = load_loop s' rest"
proof (rule load_loop_records [where ty = EG_STORAGE_TYPE_USER and l = storage_load_user and
      Inv = "\<lambda>ys s. loaded U s (im\<lparr>iusers := iusers im @ ys\<rparr>)"])
  show "loaded U s (im\<lparr>iusers := iusers im @ []\<rparr>)" using assms(1) by simp
  show "EG_STORAGE_TYPE_USER \<noteq> EG_STORAGE_EOF" "load_record EG_STORAGE_TYPE_USER = Some storage_load_user"
    by (simp_all add: load_record_def storage_codes)
  show "user_bytes ht x = EG_STORAGE_TYPE_USER # tl (user_bytes ht x)" for x by (simp add: user_bytes_def split: prod.split)
  show "\<exists>s'. storage_load_user s (tl (user_bytes ht x) @ rest) = Some (EG_STATUS_OK, s', rest) \<and>
      loaded U s' (im\<lparr>iusers := iusers im @ (ys @ [x])\<rparr>)"
    if "x \<in> set xs" "loaded U s (im\<lparr>iusers := iusers im @ ys\<rparr>)" for x ys s rest
    using loaded_user [OF that(2), of x ht rest] assms(2) that(1) by simp
qed

lemma load_queues:
  assumes "loaded U s im" "\<forall>x \<in> set xs. storable_queue x"
  shows "\<exists>s'. loaded U s' (im\<lparr>iqueues := iqueues im @ xs\<rparr>) \<and>
    load_loop s (concat (map (queue_bytes ht) xs) @ rest) = load_loop s' rest"
proof (rule load_loop_records [where ty = EG_STORAGE_TYPE_QUEUE and l = storage_load_queue and
      Inv = "\<lambda>ys s. loaded U s (im\<lparr>iqueues := iqueues im @ ys\<rparr>)"])
  show "loaded U s (im\<lparr>iqueues := iqueues im @ []\<rparr>)" using assms(1) by simp
  show "EG_STORAGE_TYPE_QUEUE \<noteq> EG_STORAGE_EOF" "load_record EG_STORAGE_TYPE_QUEUE = Some storage_load_queue"
    by (simp_all add: load_record_def storage_codes)
  show "queue_bytes ht x = EG_STORAGE_TYPE_QUEUE # tl (queue_bytes ht x)" for x by (simp add: queue_bytes_def split: prod.split)
  show "\<exists>s'. storage_load_queue s (tl (queue_bytes ht x) @ rest) = Some (EG_STATUS_OK, s', rest) \<and>
      loaded U s' (im\<lparr>iqueues := iqueues im @ (ys @ [x])\<rparr>)"
    if "x \<in> set xs" "loaded U s (im\<lparr>iqueues := iqueues im @ ys\<rparr>)" for x ys s rest
    using loaded_queue [OF that(2), of x ht rest] assms(2) that(1) by simp
qed

lemma load_routes:
  assumes "loaded U s im" "\<forall>x \<in> set xs. loadable_route x"
  shows "\<exists>s'. loaded U s' (im\<lparr>iroutes := iroutes im @ map (restored_route (fst ` set (iqueues im))) xs\<rparr>) \<and>
    load_loop s (concat (map (route_bytes ht) xs) @ rest) = load_loop s' rest"
proof (rule load_loop_records [where ty = EG_STORAGE_TYPE_ROUTE and l = storage_load_route and
      Inv = "\<lambda>ys s. loaded U s (im\<lparr>iroutes := iroutes im @ map (restored_route (fst ` set (iqueues im))) ys\<rparr>)"])
  show "loaded U s (im\<lparr>iroutes := iroutes im @ map (restored_route (fst ` set (iqueues im))) []\<rparr>)" using assms(1) by simp
  show "EG_STORAGE_TYPE_ROUTE \<noteq> EG_STORAGE_EOF" "load_record EG_STORAGE_TYPE_ROUTE = Some storage_load_route"
    by (simp_all add: load_record_def storage_codes)
  show "route_bytes ht x = EG_STORAGE_TYPE_ROUTE # tl (route_bytes ht x)" for x by (simp add: route_bytes_def split: prod.split)
  show "\<exists>s'. storage_load_route s (tl (route_bytes ht x) @ rest) = Some (EG_STATUS_OK, s', rest) \<and>
      loaded U s' (im\<lparr>iroutes := iroutes im @ map (restored_route (fst ` set (iqueues im))) (ys @ [x])\<rparr>)"
    if "x \<in> set xs" "loaded U s (im\<lparr>iroutes := iroutes im @ map (restored_route (fst ` set (iqueues im))) ys\<rparr>)" for x ys s rest
    using loaded_route [OF that(2), of x ht rest] assms(2) that(1) by simp
qed

lemma load_channels:
  assumes "loaded U s im" "\<forall>x \<in> set xs. fits 64 (fst x)"
  shows "\<exists>s'. loaded U s' (im\<lparr>ichannels := ichannels im @ xs\<rparr>) \<and>
    load_loop s (concat (map (channel_bytes ht) xs) @ rest) = load_loop s' rest"
proof (rule load_loop_records [where ty = EG_STORAGE_TYPE_CHANNEL and l = storage_load_channel and
      Inv = "\<lambda>ys s. loaded U s (im\<lparr>ichannels := ichannels im @ ys\<rparr>)"])
  show "loaded U s (im\<lparr>ichannels := ichannels im @ []\<rparr>)" using assms(1) by simp
  show "EG_STORAGE_TYPE_CHANNEL \<noteq> EG_STORAGE_EOF" "load_record EG_STORAGE_TYPE_CHANNEL = Some storage_load_channel"
    by (simp_all add: load_record_def storage_codes)
  show "channel_bytes ht x = EG_STORAGE_TYPE_CHANNEL # tl (channel_bytes ht x)" for x by (simp add: channel_bytes_def split: prod.split)
  show "\<exists>s'. storage_load_channel s (tl (channel_bytes ht x) @ rest) = Some (EG_STATUS_OK, s', rest) \<and>
      loaded U s' (im\<lparr>ichannels := ichannels im @ (ys @ [x])\<rparr>)"
    if "x \<in> set xs" "loaded U s (im\<lparr>ichannels := ichannels im @ ys\<rparr>)" for x ys s rest
    using loaded_channel [OF that(2), of x ht rest] assms(2) that(1) by simp
qed

lemma load_image:
  assumes v: "valid_image im" and s: "loaded U s \<lparr>iusers = [], iqueues = [], iroutes = [], ichannels = []\<rparr>"
    and sf: "storage_file s = Some (image_bytes ht im)"
  shows "\<exists>s'. storage_load s = Some (Loaded s') \<and> loaded U s' (restored im)"
proof -
  have ok: "\<forall>x \<in> set (iusers im). fits 32 (uname x) \<and> fits 32 (upassword x)" "\<forall>x \<in> set (iqueues im). storable_queue x"
      "\<forall>x \<in> set (iroutes im). loadable_route x" "\<forall>x \<in> set (ichannels im). fits 64 (fst x)"
    using v by (auto simp: valid_image_def)
  let ?cs = "concat (map (channel_bytes ht) (ichannels im)) @ [EG_STORAGE_EOF]"
  let ?rs = "concat (map (route_bytes ht) (iroutes im)) @ ?cs" let ?qs = "concat (map (queue_bytes ht) (iqueues im)) @ ?rs"
  let ?us = "concat (map (user_bytes ht) (iusers im)) @ ?qs"
  obtain s1 where s1: "loaded U s1 \<lparr>iusers = iusers im, iqueues = [], iroutes = [], ichannels = []\<rparr>" "load_loop s ?us = load_loop s1 ?qs"
    using load_users [OF s ok(1), of ht ?qs] by auto
  obtain s2 where s2: "loaded U s2 \<lparr>iusers = iusers im, iqueues = iqueues im, iroutes = [], ichannels = []\<rparr>" "load_loop s1 ?qs = load_loop s2 ?rs"
    using load_queues [OF s1(1) ok(2), of ht ?rs] by auto
  have eq: "(restored im)\<lparr>ichannels := []\<rparr> = \<lparr>iusers = iusers im, iqueues = iqueues im,
      iroutes = map (restored_route (fst ` set (iqueues im))) (iroutes im), ichannels = []\<rparr>"
      "(restored im)\<lparr>ichannels := ichannels im\<rparr> = restored im"
    by (cases im, simp add: restored_def)+
  obtain s3 where s3: "loaded U s3 ((restored im)\<lparr>ichannels := []\<rparr>)" "load_loop s2 ?rs = load_loop s3 ?cs"
    using load_routes [OF s2(1) ok(3), of ht ?cs] unfolding eq(1) by auto
  obtain s4 where s4: "loaded U s4 (restored im)" "load_loop s3 ?cs = load_loop s4 [EG_STORAGE_EOF]"
    using load_channels [OF s3(1) ok(4), of ht "[EG_STORAGE_EOF]"] by (auto simp: eq(2))
  have "load_loop s4 [EG_STORAGE_EOF] = Some (Loaded s4)"
    by (subst load_loop.simps) (simp add: storage_read_type_def storage_read_def)
  moreover have "storage_load s = load_loop s ?us"
    using sf by (simp add: storage_load_def storage_read_magic_def storage_read_def image_bytes_def storage_magic_def
        atoi_def is_space_def IS_NUM_def EG_STORAGE_VERSION_def)
  ultimately show ?thesis using s1(2) s2(2) s3(2) s4 by auto
qed

section \<open>Round trip\<close>

lemma list_all2_left: "list_all2 R xs ys \<Longrightarrow> x \<in> set xs \<Longrightarrow> \<exists>y \<in> set ys. R x y"
  by (induction rule: list_all2_induct) auto

lemma list_all2_right: "list_all2 R xs ys \<Longrightarrow> y \<in> set ys \<Longrightarrow> \<exists>x \<in> set xs. R x y"
  by (induction rule: list_all2_induct) auto

lemma filter_all: "\<forall>x \<in> set xs. P x \<Longrightarrow> filter P xs = xs"
  by (induction xs) auto

lemma durable_keys_names:
  "\<forall>(k, qs) \<in> set ks. qs \<noteq> [] \<and> (\<forall>q \<in> set qs. durable_queue s q) \<Longrightarrow>
   durable_keys s ks = map (\<lambda>(k, qs). (k, map (queue_name s) qs)) ks"
  by (induction ks) (auto simp: durable_keys_def filter_all)

text \<open>The server that was loaded has the image.\<close>

lemma restored_route_has:
  assumes b: "route_binds s x i" "i \<in> set (map (restored_route (fst ` set (iqueues im))) (iroutes im))"
    and v: "valid_image im" and dq: "\<forall>q \<in> set (queues s). durable_queue s q"
  shows "durable_route s x \<and> route_has s x i"
proof -
  obtain rt where rt: "route_mem s x = Some rt" "\<forall>(k, qs) \<in> set (keys rt). set qs \<subseteq> set (queues s)"
      "i = (rname rt, rflags rt, map (\<lambda>(k, qs). (k, map (queue_name s) qs)) (keys rt))"
    using b(1) by (auto simp: route_binds_def)
  obtain name fl ks where ks: "(name, fl, ks) \<in> set (iroutes im)" "i = (name, fl, restored_keys (fst ` set (iqueues im)) ks)"
    using b(2) by (auto simp: restored_route_def)
  have m: "map (\<lambda>(k, qs). (k, map (queue_name s) qs)) (keys rt) = restored_keys (fst ` set (iqueues im)) ks"
    using rt(3) ks(2) by simp
  have "\<forall>(k, ns) \<in> set (restored_keys (fst ` set (iqueues im)) ks). ns \<noteq> []" by (auto simp: restored_keys_def)
  then have "\<forall>(k, qs) \<in> set (keys rt). qs \<noteq> []" unfolding m [symmetric] by auto
  then have "durable_keys s (keys rt) = map (\<lambda>(k, qs). (k, map (queue_name s) qs)) (keys rt)"
    using rt(2) dq by (intro durable_keys_names) fastforce
  moreover have "durable_route s x" using rt(1,3) ks v by (auto simp: durable_route_def valid_image_def)
  ultimately show ?thesis using rt(1,3) by (simp add: route_has_def)
qed

lemma loaded_durable:
  assumes l: "loaded U s (restored im)" and v: "valid_image im"
  shows "durable_image s (restored im)"
proof -
  obtain us where us: "users s = U @ us" "list_all2 (\<lambda>u x. user_mem s u = Some x) us (iusers im)"
    and U: "\<forall>u \<in> set U. \<not> saved_user s u"
    using l by (fastforce simp: loaded_def restored_def saved_user_def)
  have q: "list_all2 (queue_has s) (queues s) (iqueues im)" and c: "list_all2 (channel_has s) (channels s) (ichannels im)"
    and r: "list_all2 (route_binds s) (routes s) (map (restored_route (fst ` set (iqueues im))) (iroutes im))"
    using l by (auto simp: loaded_def restored_def)
  have "map (user_mem s) us = map Some (iusers im) \<and> (\<forall>u \<in> set us. saved_user s u)"
  proof -
    have "\<forall>x \<in> set (iusers im). \<not> BIT_CHECK (uperm x) (perm_bit EG_USER_NOT_CHANGE_PERM)" using v by (auto simp: valid_image_def)
    with us(2) show ?thesis by (induction rule: list_all2_induct) (auto simp: saved_user_def)
  qed
  then have "map (user_mem s) (filter (saved_user s) (users s)) = map Some (iusers im)"
    using U us(1) by (simp add: filter_all)
  moreover have dq: "\<forall>q \<in> set (queues s). durable_queue s q"
  proof
    fix x assume "x \<in> set (queues s)"
    then obtain i where "queue_has s x i" "i \<in> set (iqueues im)"
      using list_all2_left [OF q] by blast
    then show "durable_queue s x" using v
      by (fastforce simp: valid_image_def queue_has_def durable_queue_def holds_msgs_def split: prod.splits)
  qed
  moreover have "\<forall>ch \<in> set (channels s). durable_channel s ch"
  proof
    fix x assume "x \<in> set (channels s)"
    then obtain i where "channel_has s x i" "i \<in> set (ichannels im)"
      using list_all2_left [OF c] by blast
    then show "durable_channel s x" using v by (auto simp: valid_image_def channel_has_def durable_channel_def)
  qed
  moreover have rr: "durable_route s x \<and> route_has s x i"
    if "route_binds s x i" "i \<in> set (map (restored_route (fst ` set (iqueues im))) (iroutes im))" for x i
    using restored_route_has [OF that v dq] .
  moreover have "\<forall>r \<in> set (routes s). durable_route s r" using list_all2_left [OF r] rr by blast
  moreover have "list_all2 (route_has s) (routes s) (map (restored_route (fst ` set (iqueues im))) (iroutes im))"
    by (rule list.rel_mono_strong [OF r]) (use rr in blast)
  ultimately show ?thesis using q c by (simp add: durable_image_def filter_all restored_def)
qed

text \<open>The server that was saved has it, too.\<close>

lemma storable_valid:
  assumes s: "storable s im" and d: "distinct (map (queue_name s) (queues s))"
  shows "valid_image im"
proof -
  have u: "list_all2 (\<lambda>u x. user_mem s u = Some x \<and> fits 32 (uname x) \<and> fits 32 (upassword x)) (filter (saved_user s) (users s)) (iusers im)"
    and q: "list_all2 (\<lambda>q i. queue_has s q i \<and> storable_queue i) (filter (durable_queue s) (queues s)) (iqueues im)"
    and r: "list_all2 (route_saved s) (filter (durable_route s) (routes s)) (iroutes im)"
    and c: "list_all2 (\<lambda>ch i. channel_has s ch i \<and> fits 64 (fst i)) (filter (durable_channel s) (channels s)) (ichannels im)"
    using s by (auto simp: storable_def)
  have inj: "inj_on (queue_name s) (set (queues s))" using d by (simp add: distinct_map)
  have "fits 32 (uname x) \<and> fits 32 (upassword x) \<and> \<not> BIT_CHECK (uperm x) (perm_bit EG_USER_NOT_CHANGE_PERM)"
    if "x \<in> set (iusers im)" for x
    using list_all2_right [OF u that] by (auto simp: saved_user_def)
  moreover have "storable_queue (n, mm, mms, fl, msgs) \<and> BIT_CHECK fl EG_QUEUE_DURABLE_FLAG"
    if "(n, mm, mms, fl, msgs) \<in> set (iqueues im)" for n mm mms fl msgs
    using list_all2_right [OF q that] by (auto simp: durable_queue_def queue_has_def holds_msgs_def)
  moreover have "fits 64 n \<and> BIT_CHECK fl EG_CHANNEL_DURABLE_FLAG" if "(n, fl) \<in> set (ichannels im)" for n fl
    using list_all2_right [OF c that] by (auto simp: durable_channel_def channel_has_def)
  moreover have "loadable_route (n, fl, ks) \<and> BIT_CHECK fl EG_ROUTE_DURABLE_FLAG" if i: "(n, fl, ks) \<in> set (iroutes im)" for n fl ks
  proof -
    obtain x rt where rt: "durable_route s x" "route_mem s x = Some rt" "n = rname rt" "fl = rflags rt" "ks = named_keys s (keys rt)" "storable_route s rt"
      using list_all2_right [OF r i] by (auto simp: route_saved_def)
    have "distinct (map (queue_name s) qs)" if "distinct qs" "set qs \<subseteq> set (queues s)" for qs
      using that inj by (auto simp: distinct_map intro: inj_on_subset)
    then have "\<forall>(k, ns) \<in> set (named_keys s (keys rt)). fits 32 k \<and> length ns < 2 ^ 32 \<and> distinct ns \<and> (\<forall>n \<in> set ns. fits 64 n)"
      using rt(6) unfolding named_keys_def storable_route_def by fastforce
    moreover have "map fst (named_keys s (keys rt)) = map fst (keys rt)" by (simp add: named_keys_def case_prod_beta comp_def)
    moreover have "length (named_keys s (keys rt)) = length (keys rt)" by (simp add: named_keys_def)
    ultimately show ?thesis using rt by (simp add: loadable_route_def storable_route_def durable_route_def)
  qed
  ultimately show ?thesis unfolding valid_image_def by blast
qed

lemma restored_named_keys:
  assumes "\<forall>(k, qs) \<in> set ks. set qs \<subseteq> Q" "\<forall>q \<in> Q. queue_name s q \<in> N \<longleftrightarrow> durable_queue s q"
  shows "restored_keys N (named_keys s ks) = durable_keys s ks"
proof -
  have "filter (\<lambda>n. n \<in> N) (map (queue_name s) qs) = map (queue_name s) (filter (durable_queue s) qs)" if "set qs \<subseteq> Q" for qs
    using that assms(2) by (induction qs) auto
  then show ?thesis using assms(1) by (induction ks) (auto simp: restored_keys_def named_keys_def durable_keys_def)
qed

lemma storable_durable:
  assumes s: "storable s im" and d: "distinct (map (queue_name s) (queues s))"
  shows "durable_image s (restored im)"
proof -
  have u: "list_all2 (\<lambda>u x. user_mem s u = Some x \<and> fits 32 (uname x) \<and> fits 32 (upassword x)) (filter (saved_user s) (users s)) (iusers im)"
    and q: "list_all2 (\<lambda>q i. queue_has s q i \<and> storable_queue i) (filter (durable_queue s) (queues s)) (iqueues im)"
    and r: "list_all2 (route_saved s) (filter (durable_route s) (routes s)) (iroutes im)"
    and c: "list_all2 (\<lambda>ch i. channel_has s ch i \<and> fits 64 (fst i)) (filter (durable_channel s) (channels s)) (ichannels im)"
    using s by (auto simp: storable_def)
  have "map (user_mem s) (filter (saved_user s) (users s)) = map Some (iusers im)"
    using u by (induction rule: list_all2_induct) auto
  moreover have "list_all2 (queue_has s) (filter (durable_queue s) (queues s)) (iqueues im)"
    by (rule list.rel_mono_strong [OF q]) simp
  moreover have "list_all2 (channel_has s) (filter (durable_channel s) (channels s)) (ichannels im)"
    by (rule list.rel_mono_strong [OF c]) simp
  moreover have "list_all2 (route_has s) (filter (durable_route s) (routes s)) (map (restored_route (fst ` set (iqueues im))) (iroutes im))"
    unfolding list_all2_map2
  proof (rule list.rel_mono_strong [OF r])
    fix x i assume "route_saved s x i"
    then obtain rt where rt: "route_mem s x = Some rt" "i = (rname rt, rflags rt, named_keys s (keys rt))" "storable_route s rt"
      by (auto simp: route_saved_def)
    have "list_all2 (\<lambda>q i. queue_name s q = fst i) (filter (durable_queue s) (queues s)) (iqueues im)"
      by (rule list.rel_mono_strong [OF q]) (use queue_has_name in blast)
    then have "map (queue_name s) (filter (durable_queue s) (queues s)) = map fst (iqueues im)"
      by (induction rule: list_all2_induct) auto
    then have N: "fst ` set (iqueues im) = queue_name s ` {q \<in> set (queues s). durable_queue s q}"
      by (metis list.set_map set_filter)
    have "inj_on (queue_name s) (set (queues s))" using d by (simp add: distinct_map)
    then have "\<forall>q \<in> set (queues s). queue_name s q \<in> fst ` set (iqueues im) \<longleftrightarrow> durable_queue s q"
      unfolding N by (auto dest: inj_onD)
    then have "restored_keys (fst ` set (iqueues im)) (named_keys s (keys rt)) = durable_keys s (keys rt)"
      by (intro restored_named_keys [of _ "set (queues s)"]) (use rt(3) in \<open>auto simp: storable_route_def\<close>)
    then show "route_has s x (restored_route (fst ` set (iqueues im)) i)"
      using rt by (simp add: route_has_def restored_route_def)
  qed
  ultimately show ?thesis by (simp add: durable_image_def restored_def)
qed

text \<open>A server before \<open>storage_load\<close>: nothing but users that are never saved.\<close>

definition starting :: "server \<Rightarrow> bool" where
  "starting s \<longleftrightarrow> bounded s \<and> queues s = [] \<and> routes s = [] \<and> channels s = [] \<and>
     (\<forall>u \<in> set (users s). \<exists>x. user_mem s u = Some x \<and> BIT_CHECK (uperm x) (perm_bit EG_USER_NOT_CHANGE_PERM))"

lemma save_load:
  assumes "storable s im" "distinct (map (queue_name s) (queues s))" "storage_save s = Some (EG_STATUS_OK, s1)"
    "starting s0" "storage_file s0 = storage_file s1"
  shows "\<exists>s2. storage_load s0 = Some (Loaded s2) \<and> durable_image s (restored im) \<and> durable_image s2 (restored im)"
proof -
  have "storage_file s0 = Some (image_bytes (stack_garbage (env s)) im)"
    using storage_save_image [OF assms(1)] assms(3,5) by (auto split: if_split_asm)
  moreover have "loaded (users s0) s0 \<lparr>iusers = [], iqueues = [], iroutes = [], ichannels = []\<rparr>"
    using assms(4) by (simp add: starting_def loaded_def)
  ultimately obtain s2 where "storage_load s0 = Some (Loaded s2)" "loaded (users s0) s2 (restored im)"
    using load_image [OF storable_valid [OF assms(1,2)]] by blast
  then show ?thesis using loaded_durable storable_valid [OF assms(1,2)] storable_durable [OF assms(1,2)] by blast
qed



end
