(* ===== verification/Links.thy ===== *)
theory Links
  imports RouteT
begin

text \<open>
  The bindings between routes and queues are kept twice: a route maps a key to its queues, a queue
  maps the key to its routes. This theory shows that the two sides always agree, so that deleting
  either of them leaves no pointer to it behind.
\<close>

section \<open>Keyed sets\<close>

text \<open>A keylist of non-empty lists without duplicates is a relation between keys and values.\<close>

definition entries :: "('k \<times> 'v list) list \<Rightarrow> ('k \<times> 'v) set" where
  "entries kl = {(k, x). \<exists>xs. map_of kl k = Some xs \<and> x \<in> set xs}"

definition wf_keyed :: "('k \<times> 'v list) list \<Rightarrow> bool" where
  "wf_keyed kl \<longleftrightarrow> distinct (map fst kl) \<and> (\<forall>k xs. map_of kl k = Some xs \<longrightarrow> xs \<noteq> [] \<and> distinct xs)"

lemma keyed_update:
  assumes "wf_keyed kl" "xs \<noteq> []" "distinct xs"
  shows "wf_keyed (AList.update k xs kl)" "(j, x) \<in> entries (AList.update k xs kl) \<longleftrightarrow> (if j = k then x \<in> set xs else (j, x) \<in> entries kl)"
  using assms by (simp_all add: wf_keyed_def entries_def update_conv distinct_update)

lemma keyed_delete:
  assumes "wf_keyed kl"
  shows "wf_keyed (AList.delete k kl)" "(j, x) \<in> entries (AList.delete k kl) \<longleftrightarrow> j \<noteq> k \<and> (j, x) \<in> entries kl"
  using assms by (simp_all add: wf_keyed_def entries_def delete_conv' distinct_delete)

lemma keyed_absent: "map_of kl k = None \<Longrightarrow> (k, x) \<notin> entries kl"
  by (simp add: entries_def)

lemma keyed_add:
  assumes "wf_keyed kl" "(k, x) \<notin> entries kl"
  shows "wf_keyed (case map_of kl k of None \<Rightarrow> AList.update k [x] kl | Some xs \<Rightarrow> AList.update k (xs @ [x]) kl) \<and>
    entries (case map_of kl k of None \<Rightarrow> AList.update k [x] kl | Some xs \<Rightarrow> AList.update k (xs @ [x]) kl) = insert (k, x) (entries kl)"
proof (cases "map_of kl k")
  case None
  then show ?thesis using keyed_update [OF assms(1), where xs = "[x]" and k = k] keyed_absent [of kl k] by (auto split: if_split_asm)
next
  case (Some xs)
  then have "distinct (xs @ [x])" "\<And>y. (k, y) \<in> entries kl \<longleftrightarrow> y \<in> set xs" using assms by (auto simp: entries_def wf_keyed_def simp del: map_of_eq_Some_iff)
  then show ?thesis using Some keyed_update [OF assms(1), where xs = "xs @ [x]" and k = k] by (auto split: if_split_asm)
qed

lemma keyed_remove:
  assumes "wf_keyed kl" "map_of kl k = Some xs"
  shows "wf_keyed (if remove1 x xs = [] then AList.delete k kl else AList.update k (remove1 x xs) kl) \<and>
    entries (if remove1 x xs = [] then AList.delete k kl else AList.update k (remove1 x xs) kl) = entries kl - {(k, x)}"
proof -
  have xs: "distinct xs" "distinct (remove1 x xs)" "\<And>y. (k, y) \<in> entries kl \<longleftrightarrow> y \<in> set xs"
    using assms by (auto simp: wf_keyed_def entries_def simp del: map_of_eq_Some_iff)
  show ?thesis
  proof (cases "remove1 x xs = []")
    case True
    then have "set xs \<subseteq> {x}" using xs(1) by (metis set_remove1_eq Diff_eq_empty_iff list.set(1))
    then show ?thesis using True keyed_delete [OF assms(1), where k = k] xs(3) by auto
  next
    case False
    then show ?thesis using keyed_update [OF assms(1) False xs(2), where k = k] xs(1,3) by (auto split: if_split_asm)
  qed
qed

section \<open>Both sides of a binding\<close>

definition binds :: "server \<Rightarrow> (addr \<times> bytes \<times> addr) set" where
  "binds s = {(r, k, q). \<exists>rt. route_mem s r = Some rt \<and> (k, q) \<in> entries (keys rt)}"

definition links :: "server \<Rightarrow> (addr \<times> bytes \<times> addr) set" where
  "links s = {(r, k, q). \<exists>qt. queue_mem s q = Some qt \<and> (k, r) \<in> entries (qroutes qt)}"

definition wf_routes :: "server \<Rightarrow> bool" where
  "wf_routes s \<longleftrightarrow> (\<forall>r rt. route_mem s r = Some rt \<longrightarrow> wf_keyed (keys rt)) \<and>
     (\<forall>q qt. queue_mem s q = Some qt \<longrightarrow> wf_keyed (qroutes qt))"

definition linked :: "server \<Rightarrow> bool" where
  "linked s \<longleftrightarrow> wf_routes s \<and> binds s = links s"

lemma set_qroutes:
  assumes "wf_routes s" "queue_mem s q = Some qt" "wf_keyed kl"
    and "s' = s\<lparr>queue_mem := (queue_mem s)(q \<mapsto> qt\<lparr>qroutes := kl\<rparr>)\<rparr>"
  shows "wf_routes s'" "binds s' = binds s" "route_mem s' = route_mem s" "routes s' = routes s" "dom (queue_mem s') = dom (queue_mem s)"
    and "(r, k, p) \<in> links s' \<longleftrightarrow> (if p = q then (k, r) \<in> entries kl else (r, k, p) \<in> links s)"
    and "(r, k, q) \<in> links s \<longleftrightarrow> (k, r) \<in> entries (qroutes qt)"
  using assms by (auto simp: wf_routes_def binds_def links_def)

lemma set_rkeys:
  assumes "wf_routes s" "route_mem s r = Some rt" "wf_keyed kl"
    and "s' = s\<lparr>route_mem := (route_mem s)(r \<mapsto> rt\<lparr>keys := kl\<rparr>)\<rparr>"
  shows "wf_routes s'" "links s' = links s" "queue_mem s' = queue_mem s" "routes s' = routes s" "dom (route_mem s') = dom (route_mem s)"
    and "(p, k, q) \<in> binds s' \<longleftrightarrow> (if p = r then (k, q) \<in> entries kl else (p, k, q) \<in> binds s)"
    and "(r, k, q) \<in> binds s \<longleftrightarrow> (k, q) \<in> entries (keys rt)"
  using assms by (auto simp: wf_routes_def binds_def links_def)

lemma link_queue_route:
  assumes "wf_routes s" "queue_mem s q = Some qt"
  shows "\<exists>s'. link_queue_route_t q r k s = Some s' \<and> wf_routes s' \<and> links s' = insert (r, k, q) (links s) \<and>
    binds s' = binds s \<and> route_mem s' = route_mem s \<and> routes s' = routes s \<and> dom (queue_mem s') = dom (queue_mem s)"
proof -
  have w: "wf_keyed (qroutes qt)" using assms by (simp add: wf_routes_def)
  define kl where "kl = (if (k, r) \<in> entries (qroutes qt) then qroutes qt
     else (case map_of (qroutes qt) k of None \<Rightarrow> AList.update k [r] (qroutes qt) | Some rs \<Rightarrow> AList.update k (rs @ [r]) (qroutes qt)))"
  define s' where "s' = s\<lparr>queue_mem := (queue_mem s)(q \<mapsto> qt\<lparr>qroutes := kl\<rparr>)\<rparr>"
  have kl: "wf_keyed kl" "entries kl = insert (k, r) (entries (qroutes qt))"
    using keyed_add [OF w, of k r] w by (simp_all add: kl_def insert_absorb)
  have "(case map_of (qroutes qt) k of None \<Rightarrow> qt\<lparr>qroutes := AList.update k [r] (qroutes qt)\<rparr>
     | Some rs \<Rightarrow> (if r \<in> set rs then qt else qt\<lparr>qroutes := AList.update k (rs @ [r]) (qroutes qt)\<rparr>)) = qt\<lparr>qroutes := kl\<rparr>"
    by (cases "map_of (qroutes qt) k") (simp_all add: kl_def entries_def)
  then have "link_queue_route_t q r k s = Some s'" using assms(2) by (simp add: link_queue_route_t_def upd_Some s'_def)
  moreover note * = set_qroutes [OF assms kl(1) s'_def]
  moreover have "links s' = insert (r, k, q) (links s)" using *(6) *(7) kl(2) by (auto split: if_split_asm)
  ultimately show ?thesis by blast
qed

lemma unlink_queue_route:
  assumes "wf_routes s" "queue_mem s q = Some qt"
  shows "\<exists>s'. unlink_queue_route_t q r k s = Some s' \<and> wf_routes s' \<and> links s' = links s - {(r, k, q)} \<and>
    binds s' = binds s \<and> route_mem s' = route_mem s \<and> routes s' = routes s \<and> dom (queue_mem s') = dom (queue_mem s)"
proof -
  have w: "wf_keyed (qroutes qt)" using assms by (simp add: wf_routes_def)
  define kl where "kl = (case map_of (qroutes qt) k of None \<Rightarrow> qroutes qt
     | Some rs \<Rightarrow> (if remove1 r rs = [] then AList.delete k (qroutes qt) else AList.update k (remove1 r rs) (qroutes qt)))"
  define s' where "s' = s\<lparr>queue_mem := (queue_mem s)(q \<mapsto> qt\<lparr>qroutes := kl\<rparr>)\<rparr>"
  have kl: "wf_keyed kl \<and> entries kl = entries (qroutes qt) - {(k, r)}"
    using keyed_remove [OF w, of k _ r] keyed_absent [of "qroutes qt" k r] w
    by (cases "map_of (qroutes qt) k") (simp_all add: kl_def)
  have "(case map_of (qroutes qt) k of None \<Rightarrow> qt
     | Some rs \<Rightarrow> (let rs' = snd (seq_delete r rs) in
         if rs' = [] then qt\<lparr>qroutes := AList.delete k (qroutes qt)\<rparr>
         else qt\<lparr>qroutes := AList.update k rs' (qroutes qt)\<rparr>)) = qt\<lparr>qroutes := kl\<rparr>"
    by (cases "map_of (qroutes qt) k") (simp_all add: kl_def seq_delete_def remove1_idem Let_def)
  then have "unlink_queue_route_t q r k s = Some s'" using assms(2) by (simp add: unlink_queue_route_t_def upd_Some s'_def)
  moreover note * = set_qroutes [OF assms _ s'_def]
  moreover have "links s' = links s - {(r, k, q)}" using *(6) *(7) kl by (auto split: if_split_asm)
  ultimately show ?thesis using kl by blast
qed

lemma linked_live:
  assumes "linked s" "(r, k, q) \<in> binds s"
  obtains rt qt where "route_mem s r = Some rt" "queue_mem s q = Some qt"
proof -
  have "(r, k, q) \<in> links s" using assms by (simp add: linked_def)
  then show thesis using assms(2) that by (auto simp: binds_def links_def)
qed

section \<open>Binding and unbinding\<close>

lemma bind_route_keeps:
  assumes "linked s" "route_mem s r = Some rt" "queue_mem s q = Some qt"
  shows "\<exists>s'. bind_route_t r q k s = Some s' \<and> linked s' \<and> binds s' = insert (r, k, q) (binds s) \<and>
    routes s' = routes s \<and> dom (route_mem s') = dom (route_mem s) \<and> dom (queue_mem s') = dom (queue_mem s)"
proof (cases "(r, k, q) \<in> binds s")
  case True
  then obtain qs where "map_of (keys rt) k = Some qs" "q \<in> set qs" using assms(2) by (auto simp: binds_def entries_def)
  then have "bind_route_t r q k s = Some s" using assms(2) by (simp add: bind_route_t_def)
  then show ?thesis using assms(1) True by auto
next
  case False
  have w: "wf_routes s" "wf_keyed (keys rt)" using assms by (auto simp: linked_def wf_routes_def)
  have n: "(k, q) \<notin> entries (keys rt)" using False assms(2) by (simp add: binds_def)
  define kl where "kl = (case map_of (keys rt) k of None \<Rightarrow> AList.update k [q] (keys rt) | Some qs \<Rightarrow> AList.update k (qs @ [q]) (keys rt))"
  define s1 where "s1 = s\<lparr>route_mem := (route_mem s)(r \<mapsto> rt\<lparr>keys := kl\<rparr>)\<rparr>"
  have kl: "wf_keyed kl" "entries kl = insert (k, q) (entries (keys rt))" using keyed_add [OF w(2) n] by (simp_all add: kl_def)
  note * = set_rkeys [OF w(1) assms(2) kl(1) s1_def]
  have b: "binds s1 = insert (r, k, q) (binds s)" using *(6) *(7) kl(2) by (auto split: if_split_asm)
  have "bind_route_t r q k s = link_queue_route_t q r k s1"
    using assms(2) n by (cases "map_of (keys rt) k") (simp_all add: bind_route_t_def upd_Some s1_def kl_def entries_def)
  moreover obtain s' where "link_queue_route_t q r k s1 = Some s'" "wf_routes s'" "links s' = insert (r, k, q) (links s1)"
      "binds s' = binds s1" "route_mem s' = route_mem s1" "routes s' = routes s1" "dom (queue_mem s') = dom (queue_mem s1)"
    using link_queue_route [OF *(1), of q qt r k] assms(3) *(3) by auto
  ultimately show ?thesis using b *(2-5) assms(1) by (auto simp: linked_def)
qed

lemma drop_route:
  assumes "wf_routes s" "s' = s\<lparr>routes := rs, route_mem := (route_mem s)(r := None)\<rparr>"
  shows "wf_routes s'" "links s' = links s" "queue_mem s' = queue_mem s" "binds s' = {(p, k, q) \<in> binds s. p \<noteq> r}"
  using assms(1) by (auto simp: assms(2) wf_routes_def binds_def links_def split: if_split_asm)

lemma delete_unbound_route:
  assumes "linked s" "route_mem s r = Some rt" "keys rt = []"
  shows "\<exists>s'. routes_delete_value r s = Some (if r \<in> set (routes s) then EG_STATUS_OK else EG_STATUS_ERR, s') \<and>
    linked s' \<and> binds s' = binds s \<and> dom (queue_mem s') = dom (queue_mem s) \<and> set (routes s') \<subseteq> set (routes s)"
proof -
  define s1 where "s1 = s\<lparr>routes := remove1 r (routes s), route_mem := (route_mem s)(r := None)\<rparr>"
  have w: "wf_routes s" "binds s = links s" using assms(1) by (simp_all add: linked_def)
  have "(r, k, q) \<notin> binds s" for k q using assms(2,3) by (simp add: binds_def entries_def)
  then have "binds s1 = binds s" using drop_route(4) [OF w(1) s1_def] by auto
  moreover have "linked s1" using drop_route [OF w(1) s1_def] w(2) calculation by (simp add: linked_def)
  moreover have "set (routes s1) \<subseteq> set (routes s)" "dom (queue_mem s1) = dom (queue_mem s)"
    by (simp_all add: s1_def set_remove1_subset)
  moreover have "routes_delete_value r s = (if r \<in> set (routes s) then Some (EG_STATUS_OK, s1) else Some (EG_STATUS_ERR, s))"
    using assms by (simp add: routes_delete_value_def delete_route_t_def unbind_queues_route_t_def s1_def)
  ultimately show ?thesis using assms(1) by (cases "r \<in> set (routes s)") auto
qed

lemma unbind_route_keeps:
  assumes "linked s" "route_mem s r = Some rt" "queue_mem s q = Some qt"
  shows "\<exists>st s'. unbind_route_t r q k s = Some (st, s') \<and> linked s' \<and> binds s' = binds s - {(r, k, q)} \<and>
    (st = EG_STATUS_OK \<longleftrightarrow> map_of (keys rt) k \<noteq> None) \<and> dom (queue_mem s') = dom (queue_mem s) \<and> set (routes s') \<subseteq> set (routes s)"
proof (cases "map_of (keys rt) k")
  case None
  then have "(r, k, q) \<notin> binds s" using assms(2) by (simp add: binds_def entries_def)
  then show ?thesis using None assms by (simp add: unbind_route_t_def)
next
  case (Some qs)
  have w: "wf_routes s" "wf_keyed (keys rt)" using assms by (auto simp: linked_def wf_routes_def)
  define kl where "kl = (if remove1 q qs = [] then AList.delete k (keys rt) else AList.update k (remove1 q qs) (keys rt))"
  define s1 where "s1 = s\<lparr>route_mem := (route_mem s)(r \<mapsto> rt\<lparr>keys := kl\<rparr>)\<rparr>"
  have kl: "wf_keyed kl \<and> entries kl = entries (keys rt) - {(k, q)}" using keyed_remove [OF w(2) Some] by (simp add: kl_def)
  note * = set_rkeys [OF w(1) assms(2) kl [THEN conjunct1] s1_def]
  have b: "binds s1 = binds s - {(r, k, q)}" using *(6) *(7) kl by (auto split: if_split_asm)
  obtain s2 where s2: "unlink_queue_route_t q r k s1 = Some s2" "wf_routes s2" "links s2 = links s1 - {(r, k, q)}"
      "binds s2 = binds s1" "route_mem s2 = route_mem s1" "routes s2 = routes s1" "dom (queue_mem s2) = dom (queue_mem s1)"
    using unlink_queue_route [OF *(1), of q qt r k] assms(3) *(3) by auto
  have l2: "linked s2" using s2 b *(2) assms(1) by (simp add: linked_def)
  have r2: "route_mem s2 r = Some (rt\<lparr>keys := kl\<rparr>)" using s2(5) by (simp add: s1_def)
  have up: "upd_route r (\<lambda>x. x\<lparr>keys := (if snd (seq_delete q qs) = [] then AList.delete k (keys x)
      else AList.update k (snd (seq_delete q qs)) (keys x))\<rparr>) s = Some s1"
    using assms(2) by (simp add: seq_delete_def remove1_idem upd_Some s1_def kl_def)
  have u: "unbind_route_t r q k s = (if rauto_delete rt \<and> kl = [] then do { (_, s) \<leftarrow> routes_delete_value r s2; Some (EG_STATUS_OK, s) }
      else Some (EG_STATUS_OK, s2))"
    using assms(2) Some s2(1) r2 by (simp add: unbind_route_t_def Let_def up)
  show ?thesis
  proof (cases "rauto_delete rt \<and> kl = []")
    case True
    then obtain x s3 where "routes_delete_value r s2 = Some (x, s3)" "linked s3" "binds s3 = binds s2"
        "dom (queue_mem s3) = dom (queue_mem s2)" "set (routes s3) \<subseteq> set (routes s2)"
      using delete_unbound_route [OF l2 r2] by auto
    then show ?thesis using True u b s2 *(3,4) Some by simp
  next
    case False
    then show ?thesis using u b s2 *(3,4) Some l2 by auto
  qed
qed

section \<open>Deleting either side\<close>

lemma unbind_queues_key:
  assumes "wf_routes s" "\<forall>q \<in> set qs. q \<in> dom (queue_mem s)"
  shows "\<exists>s'. unbind_queues_key_route_t r qs k s = Some s' \<and> wf_routes s' \<and> links s' = links s - {r} \<times> {k} \<times> set qs \<and>
    binds s' = binds s \<and> route_mem s' = route_mem s \<and> routes s' = routes s \<and> dom (queue_mem s') = dom (queue_mem s)"
  using assms
proof (induction qs arbitrary: s)
  case Nil
  then show ?case by (simp add: unbind_queues_key_route_t_def)
next
  case (Cons q qs)
  obtain qt where "queue_mem s q = Some qt" using Cons.prems(2) by auto
  from unlink_queue_route [OF Cons.prems(1) this, of r k]
  obtain s1 where s1: "unlink_queue_route_t q r k s = Some s1" "wf_routes s1" "links s1 = links s - {(r, k, q)}" "binds s1 = binds s"
      "route_mem s1 = route_mem s" "routes s1 = routes s" "dom (queue_mem s1) = dom (queue_mem s)" by blast
  have "\<forall>q \<in> set qs. q \<in> dom (queue_mem s1)" using Cons.prems(2) s1(7) by simp
  from Cons.IH [OF s1(2) this]
  obtain s2 where s2: "unbind_queues_key_route_t r qs k s1 = Some s2" "wf_routes s2" "links s2 = links s1 - {r} \<times> {k} \<times> set qs"
      "binds s2 = binds s1" "route_mem s2 = route_mem s1" "routes s2 = routes s1" "dom (queue_mem s2) = dom (queue_mem s1)" by blast
  have "links s2 = links s - {r} \<times> {k} \<times> set (q # qs)" unfolding s2(3) s1(3) by auto
  moreover have "unbind_queues_key_route_t r (q # qs) k s = Some s2" using s1(1) s2(1) by (simp add: unbind_queues_key_route_t_def)
  ultimately show ?case using s1(4-7) s2(2,4-7) by simp
qed

lemma unbind_queues:
  assumes "wf_routes s" "\<forall>(k, qs) \<in> set kl. \<forall>q \<in> set qs. q \<in> dom (queue_mem s)"
  shows "\<exists>s'. for_each (\<lambda>(k, qs). unbind_queues_key_route_t r qs k) kl s = Some s' \<and> wf_routes s' \<and>
    links s' = links s - {(p, k, q). p = r \<and> (\<exists>qs. (k, qs) \<in> set kl \<and> q \<in> set qs)} \<and>
    binds s' = binds s \<and> route_mem s' = route_mem s \<and> routes s' = routes s \<and> dom (queue_mem s') = dom (queue_mem s)"
  using assms
proof (induction kl arbitrary: s)
  case Nil
  then show ?case by simp
next
  case (Cons e kl)
  obtain k qs where e: "e = (k, qs)" by (cases e)
  have "\<forall>q \<in> set qs. q \<in> dom (queue_mem s)" using Cons.prems(2) e by simp
  from unbind_queues_key [OF Cons.prems(1) this, of r k]
  obtain s1 where s1: "unbind_queues_key_route_t r qs k s = Some s1" "wf_routes s1" "links s1 = links s - {r} \<times> {k} \<times> set qs"
      "binds s1 = binds s" "route_mem s1 = route_mem s" "routes s1 = routes s" "dom (queue_mem s1) = dom (queue_mem s)" by blast
  have "\<forall>(k, qs) \<in> set kl. \<forall>q \<in> set qs. q \<in> dom (queue_mem s1)" using Cons.prems(2) s1(7) by simp
  from Cons.IH [OF s1(2) this]
  obtain s2 where s2: "for_each (\<lambda>(k, qs). unbind_queues_key_route_t r qs k) kl s1 = Some s2" "wf_routes s2"
      "links s2 = links s1 - {(p, k, q). p = r \<and> (\<exists>qs. (k, qs) \<in> set kl \<and> q \<in> set qs)}"
      "binds s2 = binds s1" "route_mem s2 = route_mem s1" "routes s2 = routes s1" "dom (queue_mem s2) = dom (queue_mem s1)" by blast
  have "links s2 = links s - {(p, k, q). p = r \<and> (\<exists>qs. (k, qs) \<in> set (e # kl) \<and> q \<in> set qs)}"
    unfolding s2(3) s1(3) e by auto
  moreover have "for_each (\<lambda>(k, qs). unbind_queues_key_route_t r qs k) (e # kl) s = Some s2" using s1(1) s2(1) e by simp
  ultimately show ?case using s1(4-7) s2(2,4-7) by simp
qed

lemma entries_set: "wf_keyed kl \<Longrightarrow> (k, x) \<in> entries kl \<longleftrightarrow> (\<exists>xs. (k, xs) \<in> set kl \<and> x \<in> set xs)"
  by (simp add: entries_def wf_keyed_def)

lemma delete_route_keeps:
  assumes "linked s" "route_mem s r = Some rt"
  shows "\<exists>s'. delete_route_t r s = Some s' \<and> linked s' \<and> binds s' = {(p, k, q) \<in> binds s. p \<noteq> r} \<and>
    route_mem s' = (route_mem s)(r := None) \<and> dom (queue_mem s') = dom (queue_mem s)"
proof -
  have w: "wf_routes s" "wf_keyed (keys rt)" "binds s = links s" using assms by (auto simp: linked_def wf_routes_def)
  have m: "(r, k, q) \<in> links s \<longleftrightarrow> (\<exists>qs. (k, qs) \<in> set (keys rt) \<and> q \<in> set qs)" for k q
    using assms(2) entries_set [OF w(2)] w(3) [symmetric] by (simp add: binds_def)
  then have "\<forall>(k, qs) \<in> set (keys rt). \<forall>q \<in> set qs. q \<in> dom (queue_mem s)" by (fastforce simp: links_def)
  then obtain s1 where s1: "for_each (\<lambda>(k, qs). unbind_queues_key_route_t r qs k) (keys rt) s = Some s1" "wf_routes s1"
      "links s1 = links s - {(p, k, q). p = r \<and> (\<exists>qs. (k, qs) \<in> set (keys rt) \<and> q \<in> set qs)}"
      "binds s1 = binds s" "route_mem s1 = route_mem s" "dom (queue_mem s1) = dom (queue_mem s)"
    using unbind_queues [OF w(1), of "keys rt" r] by blast
  define s2 where "s2 = s1\<lparr>routes := routes s1, route_mem := (route_mem s1)(r := None)\<rparr>"
  note * = drop_route [OF s1(2) s2_def]
  have "links s1 = {(p, k, q) \<in> binds s. p \<noteq> r}" unfolding s1(3) w(3) using m by auto
  then have "linked s2" "binds s2 = {(p, k, q) \<in> binds s. p \<noteq> r}" using * s1(4) by (simp_all add: linked_def)
  moreover have "delete_route_t r s = Some s2"
    using assms(2) s1(1) by (simp add: delete_route_t_def unbind_queues_route_t_def s2_def)
  moreover have "route_mem s2 = (route_mem s)(r := None)" "queue_mem s2 = queue_mem s1" using s1(5) by (simp_all add: s2_def)
  ultimately show ?thesis using s1(6) by auto
qed

lemma eject_key:
  assumes "linked s" "q \<in> dom (queue_mem s)" "distinct rs" "\<forall>r \<in> set rs. (r, k, q) \<in> binds s"
  shows "\<exists>s'. eject_routes_key_queue_t q rs k s = Some s' \<and> linked s' \<and> binds s' = binds s - set rs \<times> {k} \<times> {q} \<and>
    dom (queue_mem s') = dom (queue_mem s)"
  using assms
proof (induction rs arbitrary: s)
  case Nil
  then show ?case by (simp add: eject_routes_key_queue_t_def)
next
  case (Cons r rs)
  have "(r, k, q) \<in> binds s" using Cons.prems(4) by simp
  with Cons.prems(1) obtain rt qt where "route_mem s r = Some rt" "queue_mem s q = Some qt" by (rule linked_live)
  from unbind_route_keeps [OF Cons.prems(1) this, of k]
  obtain st s1 where s1: "unbind_route_t r q k s = Some (st, s1)" "linked s1" "binds s1 = binds s - {(r, k, q)}"
      "dom (queue_mem s1) = dom (queue_mem s)" by blast
  have "q \<in> dom (queue_mem s1)" "distinct rs" "\<forall>r \<in> set rs. (r, k, q) \<in> binds s1" using Cons.prems s1(3,4) by auto
  from Cons.IH [OF s1(2) this]
  obtain s2 where s2: "eject_routes_key_queue_t q rs k s1 = Some s2" "linked s2" "binds s2 = binds s1 - set rs \<times> {k} \<times> {q}"
      "dom (queue_mem s2) = dom (queue_mem s1)" by blast
  have "binds s2 = binds s - set (r # rs) \<times> {k} \<times> {q}" unfolding s2(3) s1(3) by auto
  moreover have "eject_routes_key_queue_t q (r # rs) k s = Some s2" using s1(1) s2(1) by (simp add: eject_routes_key_queue_t_def)
  ultimately show ?case using s1(4) s2(2,4) by simp
qed

lemma eject_keys:
  assumes "linked s" "q \<in> dom (queue_mem s)" "distinct ks" "\<forall>k \<in> set ks. \<exists>r. (r, k, q) \<in> binds s"
  shows "\<exists>s'. for_each (\<lambda>key s. do { qt \<leftarrow> queue_mem s q; rs \<leftarrow> map_of (qroutes qt) key; eject_routes_key_queue_t q rs key s }) ks s = Some s' \<and>
    linked s' \<and> binds s' = binds s - {(r, k, p). k \<in> set ks \<and> p = q} \<and> dom (queue_mem s') = dom (queue_mem s)"
  using assms
proof (induction ks arbitrary: s)
  case Nil
  then show ?case by simp
next
  case (Cons k ks)
  have b: "binds s = links s" using Cons.prems(1) by (simp add: linked_def)
  obtain qt where qt: "queue_mem s q = Some qt" using Cons.prems(2) by auto
  obtain r where "(r, k, q) \<in> links s" using Cons.prems(4) b by auto
  then obtain rs where rs: "map_of (qroutes qt) k = Some rs" using qt by (auto simp: links_def entries_def simp del: map_of_eq_Some_iff)
  then have m: "(r, k, q) \<in> binds s \<longleftrightarrow> r \<in> set rs" for r using qt by (simp add: b links_def entries_def)
  have "wf_keyed (qroutes qt)" using Cons.prems(1) qt by (simp add: linked_def wf_routes_def)
  then have "distinct rs" using rs unfolding wf_keyed_def by blast
  from eject_key [OF Cons.prems(1,2) this, of k] m
  obtain s1 where s1: "eject_routes_key_queue_t q rs k s = Some s1" "linked s1" "binds s1 = binds s - set rs \<times> {k} \<times> {q}"
      "dom (queue_mem s1) = dom (queue_mem s)" by blast
  have "q \<in> dom (queue_mem s1)" "distinct ks" "\<forall>k \<in> set ks. \<exists>r. (r, k, q) \<in> binds s1" using Cons.prems s1(3,4) by auto
  from Cons.IH [OF s1(2) this]
  obtain s2 where s2: "for_each (\<lambda>key s. do { qt \<leftarrow> queue_mem s q; rs \<leftarrow> map_of (qroutes qt) key; eject_routes_key_queue_t q rs key s }) ks s1 = Some s2"
      "linked s2" "binds s2 = binds s1 - {(r, k, p). k \<in> set ks \<and> p = q}" "dom (queue_mem s2) = dom (queue_mem s1)" by blast
  have "binds s2 = binds s - {(r, k', p). k' \<in> set (k # ks) \<and> p = q}" unfolding s2(3) s1(3) using m by auto
  then show ?case using s1(1,4) s2(1,2,4) qt rs by simp
qed

lemma eject_routes:
  assumes "linked s" "queue_mem s q = Some qt"
  shows "\<exists>s'. eject_routes_queue_t q s = Some s' \<and> linked s' \<and> binds s' = {(r, k, p) \<in> binds s. p \<noteq> q} \<and>
    dom (queue_mem s') = dom (queue_mem s)"
proof -
  have w: "wf_keyed (qroutes qt)" "binds s = links s" using assms by (auto simp: linked_def wf_routes_def)
  have m: "(r, k, q) \<in> binds s \<longleftrightarrow> (k, r) \<in> entries (qroutes qt)" for r k using assms(2) w(2) by (simp add: links_def)
  have "\<exists>r. (r, k, q) \<in> binds s" if "k \<in> set (map fst (qroutes qt))" for k
  proof -
    obtain rs where "map_of (qroutes qt) k = Some rs" using \<open>k \<in> _\<close> by (metis map_of_eq_None_iff not_None_eq set_map)
    moreover from this obtain r where "r \<in> set rs" using w(1) unfolding wf_keyed_def by (metis last_in_set)
    ultimately show ?thesis using m by (auto simp: entries_def)
  qed
  moreover have "distinct (map fst (qroutes qt))" "q \<in> dom (queue_mem s)" using w(1) assms(2) by (auto simp: wf_keyed_def)
  ultimately obtain s' where s': "eject_routes_queue_t q s = Some s'" "linked s'" "dom (queue_mem s') = dom (queue_mem s)"
      "binds s' = binds s - {(r, k, p). k \<in> set (map fst (qroutes qt)) \<and> p = q}"
    using eject_keys [OF assms(1), of q "map fst (qroutes qt)"] assms(2) by (auto simp: eject_routes_queue_t_def)
  have "k \<in> set (map fst (qroutes qt))" if "(r, k, q) \<in> binds s" for r k
    using that m by (auto simp: entries_def dest: map_of_SomeD intro: rev_image_eqI)
  then have "binds s' = {(r, k, p) \<in> binds s. p \<noteq> q}" unfolding s'(4) by auto
  then show ?thesis using s' by blast
qed

section \<open>What holds of the broker\<close>

definition unbound_route :: route_t where
  "unbound_route = \<lparr>rname = [0x72], rflags = 0, rauto_delete = True, rround_robin = False, keys = []\<rparr>"

definition unbound_queue :: queue_t where
  "unbound_queue = \<lparr>qname = [0x71], max_msg = 10, max_msg_size = 100, qflags = 0, qauto_delete = False, force_push = False,
     qround_robin = False, queue = queue_create, expire_messages = [], confirm_messages = [], declared_clients = [],
     subscribed_clients_msg = [], subscribed_clients_notify = [], qroutes = []\<rparr>"

definition unbound_server :: server where
  "unbound_server = (sample_server [] 0)\<lparr>routes := [3], route_mem := [3 \<mapsto> unbound_route], queues := [4], queue_mem := [4 \<mapsto> unbound_queue]\<rparr>"

lemma unbound_server_linked:
  "linked unbound_server" "binds unbound_server = {}" "route_mem unbound_server 3 = Some unbound_route" "queue_mem unbound_server 4 = Some unbound_queue"
  by (auto simp: linked_def wf_routes_def binds_def links_def entries_def wf_keyed_def unbound_server_def unbound_route_def
      unbound_queue_def sample_server_def split: if_split_asm)

text \<open>
  C15. The two sides of a binding never disagree: from a server where the keys of every route and
  the routes of every queue are sets of pairs describing the same bindings, binding a queue adds
  exactly that binding to both sides (or nothing, when it was there), and unbinding it removes exactly
  that one from both, whether or not the route deletes itself when its last key goes. Unbinding
  succeeds exactly when the key is known to the route.
\<close>

theorem bindings_agree:
  assumes "linked s" "route_mem s r = Some rt" "queue_mem s q = Some qt"
  shows "(\<exists>s'. bind_route_t r q k s = Some s' \<and> linked s' \<and> binds s' = insert (r, k, q) (binds s)) \<and>
    (\<exists>st s'. unbind_route_t r q k s = Some (st, s') \<and> linked s' \<and> binds s' = binds s - {(r, k, q)} \<and>
       (st = EG_STATUS_OK \<longleftrightarrow> map_of (keys rt) k \<noteq> None))"
  (is "?bound \<and> ?unbound")
proof
  show ?bound using bind_route_keeps [OF assms, of k] by (elim exE conjE) (intro exI conjI, assumption+)
  show ?unbound using unbind_route_keeps [OF assms, of k] by (elim exE conjE) (intro exI conjI, assumption+)
qed

theorem bindings_agree_witness:
  "\<exists>s. bind_route_t 3 4 [0x6B] unbound_server = Some s \<and> linked s \<and> binds s = {(3, [0x6B], 4)}"
  using bindings_agree [OF unbound_server_linked(1,3,4), of "[0x6B]"] unbound_server_linked(2) by simp

text \<open>
  C16. Deleting a route, or ejecting a queue from its routes as the deletion of the queue does, always
  finishes and leaves no pointer behind: every binding of the deleted side is gone from both sides,
  every other binding is untouched, and whatever is still bound is a live route and a live queue.
\<close>

theorem deleting_leaves_no_binding:
  assumes "linked s" "route_mem s r = Some rt" "queue_mem s q = Some qt"
  shows "(\<exists>s'. delete_route_t r s = Some s' \<and> route_mem s' r = None \<and> linked s' \<and> binds s' = {(p, k, x) \<in> binds s. p \<noteq> r}) \<and>
    (\<exists>s'. eject_routes_queue_t q s = Some s' \<and> linked s' \<and> binds s' = {(p, k, x) \<in> binds s. x \<noteq> q})"
  (is "?deleted \<and> ?ejected")
proof
  show ?deleted using delete_route_keeps [OF assms(1,2)] by (elim exE conjE) (intro exI conjI; simp)
  show ?ejected using eject_routes [OF assms(1,3)] by (elim exE conjE) (intro exI conjI, assumption+)
qed

theorem deleting_leaves_no_binding_witness:
  "\<exists>s s1 s2. binds s = {(3, [0x6B], 4)} \<and> delete_route_t 3 s = Some s1 \<and> binds s1 = {} \<and>
     eject_routes_queue_t 4 s = Some s2 \<and> binds s2 = {}"
proof -
  obtain s where s: "linked s" "binds s = {(3, [0x6B], 4)}"
    using bind_route_keeps [OF unbound_server_linked(1,3,4), of "[0x6B]"] unbound_server_linked(2) by auto
  then obtain rt qt where "route_mem s 3 = Some rt" "queue_mem s 4 = Some qt" using linked_live [of s 3 "[0x6B]" 4] by auto
  from deleting_leaves_no_binding [OF s(1) this] obtain s1 s2
    where "delete_route_t 3 s = Some s1" "binds s1 = {(p, k, x) \<in> binds s. p \<noteq> 3}"
      "eject_routes_queue_t 4 s = Some s2" "binds s2 = {(p, k, x) \<in> binds s. x \<noteq> 4}" by blast
  moreover from this have "binds s1 = {}" "binds s2 = {}" using s(2) by auto
  ultimately show ?thesis using s(2) by blast
qed

end
