(* ===== verification/Partial.thy ===== *)
theory Partial
  imports Requests StorageLoad Links "HOL-Library.Multiset"
begin

text \<open>
  How the invariant of the whole server is proved: a calculus of what holds of the result of an operation
  (\<open>ok\<close>), the part of the server the invariant is about (its wiring: who is tied, bound and listed where),
  and the locale of the invariants that only depend on it.
\<close>

text \<open>
  A small calculus for "if the operation returns, what it returns satisfies \<open>Q\<close>": one rule per
  construct of the fault monad. The operations add their own rules to \<open>ok_rules\<close>.
\<close>

named_theorems ok_rules \<open>what holds of the result of a construct\<close>
named_theorems keep_rules \<open>what holds of the result of an operation on contents\<close>

definition ok :: "'a option \<Rightarrow> ('a \<Rightarrow> bool) \<Rightarrow> bool" where
  "ok m Q \<longleftrightarrow> (\<forall>x. m = Some x \<longrightarrow> Q x)"

lemma okD: "ok m Q \<Longrightarrow> m = Some x \<Longrightarrow> Q x"
  by (simp add: ok_def)

lemma okI: "(\<And>x. m = Some x \<Longrightarrow> Q x) \<Longrightarrow> ok m Q"
  by (simp add: ok_def)

lemma ok_mono: "ok m P \<Longrightarrow> (\<And>x. P x \<Longrightarrow> Q x) \<Longrightarrow> ok m Q"
  by (simp add: ok_def)

lemma ok_mono2: "ok m (\<lambda>(a, s). P s) \<Longrightarrow> (\<And>a s. P s \<Longrightarrow> Q (a, s)) \<Longrightarrow> ok m Q"
  by (auto simp: ok_def)

lemma ok_mono1: "ok m (\<lambda>(s, a). P s) \<Longrightarrow> (\<And>s a. P s \<Longrightarrow> Q (s, a)) \<Longrightarrow> ok m Q"
  by (auto simp: ok_def)

lemma ok_None [ok_rules]: "ok None Q"
  by (simp add: ok_def)

lemma ok_Some [ok_rules]: "Q x \<Longrightarrow> ok (Some x) Q"
  by (simp add: ok_def)

lemma ok_bind [ok_rules]: "ok m (\<lambda>x. ok (f x) Q) \<Longrightarrow> ok (Option.bind m f) Q"
  by (cases m) (simp_all add: ok_def)

lemma ok_if [ok_rules]: "(b \<Longrightarrow> ok x Q) \<Longrightarrow> (\<not> b \<Longrightarrow> ok y Q) \<Longrightarrow> ok (if b then x else y) Q"
  by simp

lemma ok_option [ok_rules]:
  "(m = None \<Longrightarrow> ok x Q) \<Longrightarrow> (\<And>a. m = Some a \<Longrightarrow> ok (f a) Q) \<Longrightarrow> ok (case m of None \<Rightarrow> x | Some a \<Rightarrow> f a) Q"
  by (cases m) simp_all

lemma ok_list [ok_rules]:
  "(m = [] \<Longrightarrow> ok x Q) \<Longrightarrow> (\<And>a as. m = a # as \<Longrightarrow> ok (f a as) Q) \<Longrightarrow> ok (case m of [] \<Rightarrow> x | a # as \<Rightarrow> f a as) Q"
  by (cases m) simp_all

lemma ok_pair [ok_rules]: "ok (f a b) Q \<Longrightarrow> ok (case (a, b) of (x, y) \<Rightarrow> f x y) Q"
  by simp

lemma ok_let [ok_rules]: "ok (f a) Q \<Longrightarrow> ok (Let a f) Q"
  by simp

lemma ok_any2: "(\<And>a b. m = Some (a, b) \<Longrightarrow> Q (a, b)) \<Longrightarrow> ok m Q"
  by (auto simp: ok_def)

lemma ok_for_each:
  assumes "\<And>x s. x \<in> set xs \<Longrightarrow> P s \<Longrightarrow> ok (f x s) P" "P s" "\<And>s'. P s' \<Longrightarrow> Q s'"
  shows "ok (for_each f xs s) Q"
proof -
  have "for_each f xs s = Some s' \<Longrightarrow> P s'" for s'
    using assms(1,2)
  proof (induction xs arbitrary: s)
    case (Cons x xs)
    then obtain s1 where "f x s = Some s1" "for_each f xs s1 = Some s'" by (auto simp: bind_eq_Some_conv)
    then show ?case using Cons.IH [of s1] Cons.prems(2,3) by (fastforce dest: okD)
  qed simp
  then show ?thesis using assms(3) by (simp add: ok_def)
qed

text \<open>Lookups: what they return is only remembered.\<close>

lemmas ok_lookups [ok_rules] =
  okI [where m = "queue_mem s q" for s q] okI [where m = "route_mem s r" for s r] okI [where m = "channel_mem s ch" for s ch]
  okI [where m = "client_mem s c" for s c] okI [where m = "user_mem s u" for s u] okI [where m = "message_mem s m" for s m]
  okI [where m = "object_mem s ob" for s ob] okI [where m = "map_of kl k" for kl k] okI [where m = "find_by P xs" for P xs]
  okI [where m = "find_queue_t qs n s" for qs n s] okI [where m = "find_route_t rs n s" for rs n s]
  okI [where m = "find_channel_t chs n s" for chs n s] okI [where m = "find_user us n p s" for us n p s]
  okI [where m = "EG_MESSAGE_SIZE s m" for s m] okI [where m = "rd b i" for b i] okI [where m = "rd16 b i" for b i]
  okI [where m = "rd32 b i" for b i] okI [where m = "rd64 b i" for b i] okI [where m = "cstr b" for b] okI [where m = "put b i d" for b i d]
  okI [where m = "valid1 b n" for b n] okI [where m = "valid2 b n" for b n] okI [where m = "valid3 b n" for b n]
  okI [where m = "both x y" for x y] okI [where m = "collect f xs" for f xs] okI [where m = "copy_name n b" for n b]
  okI [where m = "pattern_match a b c" for a b c] okI [where m = "get_message_queue_t q s" for q s]
  okI [where m = "queue_push_value_head q v" for q v] okI [where m = "queue_push_value_tail q v" for q v]
  ok_any2 [where m = "queue_pop_value q" for q] ok_any2 [where m = "queue_purge q" for q] ok_any2 [where m = "queue_release q" for q]
  ok_any2 [where m = "queue_delete_node q n" for q n] okI [where m = "delete_file_event d m l" for d m l]
  ok_any2 [where m = "create_file_event d m h x l" for d m h x l] ok_any2 [where m = "for_each put_fields es b" for es b]
  okI [where m = "frame_step c" for c]

section \<open>What the wiring of the broker is\<close>

definition shape :: "('k \<times> 'v list) list \<Rightarrow> ('k \<times> 'v multiset) list" where
  "shape kl = map (\<lambda>(k, xs). (k, mset xs)) kl"

text \<open>What a view of a structure determines can be said of either of two pointers that agree on it.\<close>

lemma same_view:
  assumes "map_option f m = map_option f m'" "\<And>x y. f x = f y \<Longrightarrow> P x = P y"
  shows "(\<forall>x. m = Some x \<longrightarrow> P x) \<longleftrightarrow> (\<forall>x. m' = Some x \<longrightarrow> P x)" "(\<exists>x. m = Some x \<and> P x) \<longleftrightarrow> (\<exists>x. m' = Some x \<and> P x)"
proof -
  have "m = None \<and> m' = None \<or> (\<exists>x y. m = Some x \<and> m' = Some y \<and> P x = P y)"
  proof (cases m)
    case None
    then show ?thesis using assms(1) by simp
  next
    case (Some x)
    then obtain y where y: "m' = Some y" "f x = f y" using assms(1) by (cases m') auto
    then show ?thesis using Some assms(2) [OF y(2)] by blast
  qed
  then show "(\<forall>x. m = Some x \<longrightarrow> P x) \<longleftrightarrow> (\<forall>x. m' = Some x \<longrightarrow> P x)" "(\<exists>x. m = Some x \<and> P x) \<longleftrightarrow> (\<exists>x. m' = Some x \<and> P x)"
    by (elim disjE exE conjE; simp)+
qed

lemma shape_keyed:
  assumes "shape kl = shape kl'"
  shows "wf_keyed kl = wf_keyed kl'" "entries kl = entries kl'" "kl = [] \<longleftrightarrow> kl' = []"
proof -
  have m: "map_of (shape l) k = map_option mset (map_of l k)" for l :: "('a \<times> 'b list) list" and k
    by (simp add: shape_def map_of_map)
  have k: "map fst (shape l) = map fst l" for l :: "('a \<times> 'b list) list" by (simp add: shape_def case_prod_unfold)
  have eq: "map_option mset (map_of kl k) = map_option mset (map_of kl' k)" for k using m assms by metis
  have a: "(\<exists>xs. map_of kl k = Some xs \<and> P xs) \<longleftrightarrow> (\<exists>xs. map_of kl' k = Some xs \<and> P xs)"
    and b: "(\<forall>xs. map_of kl k = Some xs \<longrightarrow> P xs) \<longleftrightarrow> (\<forall>xs. map_of kl' k = Some xs \<longrightarrow> P xs)"
    if "\<And>xs ys. mset xs = mset ys \<Longrightarrow> P xs = P ys" for k and P :: "'b list \<Rightarrow> bool"
    by (rule same_view [OF eq [of k] that]; assumption)+
  have "xs \<noteq> [] \<and> distinct xs \<longleftrightarrow> ys \<noteq> [] \<and> distinct ys" if "mset xs = mset ys" for xs ys :: "'b list"
    using mset_eq_imp_distinct_iff [OF that] mset_eq_setD [OF that] by force
  note bb = b [where P = "\<lambda>xs. xs \<noteq> [] \<and> distinct xs", OF this]
  have "map fst kl = map fst kl'" using k assms by metis
  then show "wf_keyed kl = wf_keyed kl'" unfolding wf_keyed_def by (simp only: bb)
  have "x \<in> set xs \<longleftrightarrow> x \<in> set ys" if "mset xs = mset ys" for xs ys :: "'b list" and x
    using mset_eq_setD [OF that] by simp
  note aa = a [where P = "\<lambda>xs. x \<in> set xs" for x, OF this]
  show "entries kl = entries kl'" unfolding entries_def by (simp only: aa)
  show "kl = [] \<longleftrightarrow> kl' = []" using assms by (auto simp: shape_def)
qed

lemma shape_update: "map_of kl k = Some xs \<Longrightarrow> mset ys = mset xs \<Longrightarrow> shape (AList.update k ys kl) = shape kl"
  by (induction kl) (auto simp: shape_def split: if_split_asm)

definition qwire :: "queue_t \<Rightarrow> addr multiset \<times> addr multiset \<times> addr multiset \<times> (bytes \<times> addr multiset) list" where
  "qwire qt = (mset (declared_clients qt), mset (subscribed_clients_msg qt), mset (subscribed_clients_notify qt), shape (qroutes qt))"

definition rwire :: "route_t \<Rightarrow> (bytes \<times> addr multiset) list" where
  "rwire rt = shape (keys rt)"

definition chwire :: "channel_t \<Rightarrow> (bytes \<times> addr multiset) list \<times> (bytes \<times> addr multiset) list" where
  "chwire ct = (shape (topics ct), shape (patterns ct))"

definition clwire :: "eagle_client \<Rightarrow> addr multiset \<times> addr multiset \<times> (addr \<times> bytes multiset) list \<times> (addr \<times> bytes multiset) list" where
  "clwire c = (mset (declared_queues c), mset (subscribed_queues c), shape (subscribed_topics c), shape (subscribed_patterns c))"

text \<open>
  \<open>wiring s\<close>: which structures exist, the lists they are in, and the pointers between them, up to the
  order of the lists that the round robin rotates. What it leaves out are the contents: messages,
  objects, names, flags, output.
\<close>

definition lists :: "server \<Rightarrow> addr list \<times> addr list \<times> addr list \<times> addr list \<times> addr list" where
  "lists s = (queues s, routes s, channels s, users s, clients s)"

definition wiring :: "server \<Rightarrow> (addr list \<times> addr list \<times> addr list \<times> addr list \<times> addr list) \<times> addr set \<times>
    (addr \<Rightarrow> (addr multiset \<times> addr multiset \<times> addr multiset \<times> (bytes \<times> addr multiset) list) option) \<times>
    (addr \<Rightarrow> (bytes \<times> addr multiset) list option) \<times>
    (addr \<Rightarrow> ((bytes \<times> addr multiset) list \<times> (bytes \<times> addr multiset) list) option) \<times>
    (addr \<Rightarrow> (addr multiset \<times> addr multiset \<times> (addr \<times> bytes multiset) list \<times> (addr \<times> bytes multiset) list) option)" where
  "wiring s = (lists s, dom (user_mem s), (\<lambda>a. map_option qwire (queue_mem s a)), (\<lambda>a. map_option rwire (route_mem s a)),
     (\<lambda>a. map_option chwire (channel_mem s a)), (\<lambda>a. map_option clwire (client_mem s a)))"

definition kept :: "server \<Rightarrow> server \<Rightarrow> bool" where
  "kept s s' \<longleftrightarrow> wiring s' = wiring s \<and> fresh s \<le> fresh s'"

lemma kept_refl: "kept s s"
  by (simp add: kept_def)

lemma kept_trans: "kept s s1 \<Longrightarrow> kept s1 s2 \<Longrightarrow> kept s s2"
  by (simp add: kept_def)

text \<open>Changes that keep the wiring.\<close>

lemma kept_simple:
  "kept s (s\<lparr>loop := l\<rparr>)" "kept s (s\<lparr>object_mem := om\<rparr>)" "kept s (s\<lparr>message_mem := mm\<rparr>)" "kept s (s\<lparr>msg_counter := n\<rparr>)"
  "kept s (s\<lparr>env := e\<rparr>)" "kept s (s\<lparr>now_time := i\<rparr>)" "kept s (s\<lparr>now_timems := i\<rparr>)" "kept s (s\<lparr>child_pid := p\<rparr>)"
  "kept s (s\<lparr>storage_file := f\<rparr>)" "kept s (s\<lparr>nomemory := b\<rparr>)" "kept s (s\<lparr>last_memcheck := i\<rparr>)" "kept s (s\<lparr>last_save := i\<rparr>)"
  "kept s (s\<lparr>fresh := Suc (fresh s)\<rparr>)" "kept s (s\<lparr>max_clients := k\<rparr>)"
  by (simp_all add: kept_def wiring_def lists_def)

lemma kept_upd:
  "queue_mem s q = Some qt \<Longrightarrow> qwire qt' = qwire qt \<Longrightarrow> kept s (s\<lparr>queue_mem := (queue_mem s)(q \<mapsto> qt')\<rparr>)"
  "route_mem s r = Some rt \<Longrightarrow> rwire rt' = rwire rt \<Longrightarrow> kept s (s\<lparr>route_mem := (route_mem s)(r \<mapsto> rt')\<rparr>)"
  "channel_mem s ch = Some ct \<Longrightarrow> chwire ct' = chwire ct \<Longrightarrow> kept s (s\<lparr>channel_mem := (channel_mem s)(ch \<mapsto> ct')\<rparr>)"
  "client_mem s c = Some cl \<Longrightarrow> clwire cl' = clwire cl \<Longrightarrow> kept s (s\<lparr>client_mem := (client_mem s)(c \<mapsto> cl')\<rparr>)"
  "user_mem s u = Some x \<Longrightarrow> kept s (s\<lparr>user_mem := (user_mem s)(u \<mapsto> x')\<rparr>)"
  by (auto simp: kept_def wiring_def lists_def fun_eq_iff)

section \<open>Operations that keep the wiring\<close>

text \<open>
  The contract of an invariant that only the wiring can break. Inside, the operations on contents:
  what is proved of them holds for every such invariant.
\<close>

locale wiring_invariant =
  fixes I :: "server \<Rightarrow> bool"
  assumes I_kept: "I s \<Longrightarrow> kept s s' \<Longrightarrow> I s'"
begin

lemmas I_simple = I_kept [OF _ kept_simple(1)] I_kept [OF _ kept_simple(2)] I_kept [OF _ kept_simple(3)] I_kept [OF _ kept_simple(4)]
  I_kept [OF _ kept_simple(5)] I_kept [OF _ kept_simple(6)] I_kept [OF _ kept_simple(7)] I_kept [OF _ kept_simple(8)]
  I_kept [OF _ kept_simple(9)] I_kept [OF _ kept_simple(10)] I_kept [OF _ kept_simple(11)] I_kept [OF _ kept_simple(12)]
  I_kept [OF _ kept_simple(13)] I_kept [OF _ kept_simple(14)]

text \<open>\<open>I\<close> after the operation; as a rule of \<open>keep_rules\<close>, whatever follows from \<open>I\<close> after it.\<close>

lemma keeps_upd_queue: "I s \<Longrightarrow> (\<And>x. queue_mem s q = Some x \<Longrightarrow> qwire (f x) = qwire x) \<Longrightarrow> ok (upd_queue q f s) I"
  unfolding upd_queue_def by (intro ok_rules keep_rules) (rule I_kept [OF _ kept_upd(1)]; simp)

lemma keeps_upd_route: "I s \<Longrightarrow> (\<And>x. route_mem s r = Some x \<Longrightarrow> rwire (f x) = rwire x) \<Longrightarrow> ok (upd_route r f s) I"
  unfolding upd_route_def by (intro ok_rules keep_rules) (rule I_kept [OF _ kept_upd(2)]; simp)

lemma keeps_upd_channel: "I s \<Longrightarrow> (\<And>x. channel_mem s ch = Some x \<Longrightarrow> chwire (f x) = chwire x) \<Longrightarrow> ok (upd_channel ch f s) I"
  unfolding upd_channel_def by (intro ok_rules keep_rules) (rule I_kept [OF _ kept_upd(3)]; simp)

lemma keeps_upd_client: "I s \<Longrightarrow> (\<And>x. client_mem s c = Some x \<Longrightarrow> clwire (f x) = clwire x) \<Longrightarrow> ok (upd_client c f s) I"
  unfolding upd_client_def by (intro ok_rules keep_rules) (rule I_kept [OF _ kept_upd(4)]; simp)

lemma keeps_upd_user: "I s \<Longrightarrow> ok (upd_user u f s) I"
  unfolding upd_user_def by (intro ok_rules keep_rules) (rule I_kept [OF _ kept_upd(5)]; simp)

lemma keeps_upd_object: "I s \<Longrightarrow> ok (upd_object a f s) I"
  unfolding upd_object_def by (intro ok_rules keep_rules I_simple)

lemma keeps_upd_message: "I s \<Longrightarrow> ok (upd_message a f s) I"
  unfolding upd_message_def by (intro ok_rules keep_rules I_simple)

lemma keeps_each: "I s \<Longrightarrow> (\<And>x s. I s \<Longrightarrow> ok (f x s) I) \<Longrightarrow> ok (for_each f xs s) I"
  by (rule ok_for_each [where P = I])

lemmas [keep_rules] = keeps_upd_queue [THEN ok_mono] keeps_upd_route [THEN ok_mono] keeps_upd_channel [THEN ok_mono]
  keeps_upd_client [THEN ok_mono] keeps_upd_user [THEN ok_mono] keeps_upd_object [THEN ok_mono] keeps_upd_message [THEN ok_mono]

lemma keeps_release_object: "I s \<Longrightarrow> ok (release_object a s) I"
  unfolding release_object_def by (intro ok_rules keep_rules I_simple)

lemma keeps_increment: "I s \<Longrightarrow> ok (increment_references_count a s) I"
  unfolding increment_references_count_def by (rule keeps_upd_object)

lemma keeps_reset: "I s \<Longrightarrow> ok (EG_OBJECT_RESET_REFCOUNT a s) I"
  unfolding EG_OBJECT_RESET_REFCOUNT_def by (rule keeps_upd_object)

lemmas [keep_rules] = keeps_release_object [THEN ok_mono] keeps_increment [THEN ok_mono] keeps_reset [THEN ok_mono]

lemma keeps_decrement: "I s \<Longrightarrow> ok (decrement_references_count a s) I"
  unfolding decrement_references_count_def by (intro ok_rules keep_rules)

lemma keeps_free_object: "I s \<Longrightarrow> ok (free_object_list_handler a s) I"
  unfolding free_object_list_handler_def by (rule keeps_decrement)

lemmas [keep_rules] = keeps_decrement [THEN ok_mono] keeps_free_object [THEN ok_mono]

lemma keeps_release_message: "I s \<Longrightarrow> ok (release_message a s) I"
  unfolding release_message_def by (intro ok_rules keep_rules I_simple)

lemma keeps_free_message: "I s \<Longrightarrow> ok (free_message_list_handler a s) I"
  unfolding free_message_list_handler_def by (rule keeps_release_message)

lemmas [keep_rules] = keeps_release_message [THEN ok_mono] keeps_free_message [THEN ok_mono]

end

end
