(* ===== verification/Contents.thy ===== *)
theory Contents
  imports Partial
begin

text \<open>
  The operations that leave the wiring alone - pushing, taking and confirming messages, publishing,
  answering, renaming, saving - and the handlers made of them, for any invariant of the wiring.
\<close>

lemma mset_rotate [simp]: "mset (seq_rotate xs) = mset xs"
  by (cases xs rule: rev_cases) (auto simp: seq_rotate_def)

context wiring_invariant
begin

lemma keeps_create: "I s \<Longrightarrow> I (fst (create_object d n s))" "I s \<Longrightarrow> I (fst (create_message a t e s))"
  unfolding create_object_def create_message_def Let_def fst_conv by (erule I_kept; simp add: kept_def wiring_def lists_def)+

lemma ok_create [keep_rules]:
  "I s \<Longrightarrow> (\<And>s' a. I s' \<Longrightarrow> ok (f s' a) Q) \<Longrightarrow> ok (case create_object d n s of (s, a) \<Rightarrow> f s a) Q"
  "I s \<Longrightarrow> (\<And>s' a. I s' \<Longrightarrow> ok (g s' a) Q) \<Longrightarrow> ok (case create_message b t e s of (s, a) \<Rightarrow> g s a) Q"
  using keeps_create by (simp_all add: case_prod_unfold)

lemma keeps_create_dup: "I s \<Longrightarrow> ok (create_dup_object p n s) (\<lambda>(s, a). I s)"
  unfolding create_dup_object_def by (intro ok_rules keep_rules) (simp add: case_prod_unfold keeps_create)

lemma keeps_set_write_event: "I s \<Longrightarrow> ok (set_write_event client s) (\<lambda>(r, s). I s)"
  unfolding set_write_event_def by (intro ok_rules keep_rules) (simp_all add: ok_def Let_def I_simple)

lemmas [keep_rules] = keeps_create_dup [THEN ok_mono1] keeps_set_write_event [THEN ok_mono2]

lemma responses_wire: "clwire (c\<lparr>responses := rs\<rparr>) = clwire c"
  by (simp add: clwire_def)

lemma keeps_add_response: "I s \<Longrightarrow> ok (add_response client d s) I"
  unfolding add_response_def by (intro ok_rules keep_rules responses_wire)

lemma keeps_add_object_response: "I s \<Longrightarrow> ok (add_object_response client b s) I"
  unfolding add_object_response_def by (intro ok_rules keep_rules responses_wire)

lemmas [keep_rules] = keeps_add_response [THEN ok_mono] keeps_add_object_response [THEN ok_mono]

lemma keeps_add_status_response: "I s \<Longrightarrow> ok (add_status_response client cmd st s) I"
  unfolding add_status_response_def by (intro ok_rules keep_rules)

lemma keeps_events:
  "I s \<Longrightarrow> ok (queue_client_event_notify client q s) I" "I s \<Longrightarrow> ok (queue_client_event_message client q m s) I"
  "I s \<Longrightarrow> ok (channel_client_event_message client ch t b s) I" "I s \<Longrightarrow> ok (channel_client_event_pattern_message client ch t p b s) I"
  unfolding queue_client_event_notify_def queue_client_event_message_def channel_client_event_message_def
    channel_client_event_pattern_message_def by (intro ok_rules keep_rules; assumption)+

lemmas [keep_rules] = keeps_add_status_response [THEN ok_mono] keeps_events [THEN ok_mono]

lemma keeps_pass_messages: "I s \<Longrightarrow> ok (process_subscribed_clients q m s) (\<lambda>(n, s). I s)"
  unfolding process_subscribed_clients_def
  by (intro ok_rules keep_rules keeps_each [THEN ok_mono]) (auto simp: qwire_def)

lemma keeps_delete_expire_node: "I s \<Longrightarrow> ok (delete_expire_node q n s) I"
  unfolding delete_expire_node_def by (intro ok_rules keep_rules okI) (auto simp: qwire_def)

lemmas [keep_rules] = keeps_pass_messages [THEN ok_mono2] keeps_delete_expire_node [THEN ok_mono]

lemma keeps_pop: "I s \<Longrightarrow> ok (pop_message_queue_t q t s) I"
  unfolding pop_message_queue_t_def by (intro ok_rules keep_rules okI [where m = "r :: addr option" for r]) (auto simp: qwire_def)

lemma keeps_enqueue: "I s \<Longrightarrow> ok (enqueue_message q m s) I"
  unfolding enqueue_message_def by (intro ok_rules keep_rules) (auto simp: qwire_def)

lemmas [keep_rules] = keeps_pop [THEN ok_mono] keeps_enqueue [THEN ok_mono]

lemma keeps_push: "I s \<Longrightarrow> ok (push_message_queue_t q d ex s) (\<lambda>(st, s). I s)"
  unfolding push_message_queue_t_def by (intro ok_rules keep_rules I_simple; (assumption | simp))

lemma keeps_confirm: "I s \<Longrightarrow> ok (confirm_message_queue_t q t s) (\<lambda>(st, s). I s)"
  unfolding confirm_message_queue_t_def by (intro ok_rules keep_rules) (auto simp: qwire_def)

lemma keeps_purge: "I s \<Longrightarrow> ok (purge_queue_t q s) I"
  unfolding purge_queue_t_def by (intro ok_rules keep_rules keeps_each) (auto simp: qwire_def)

lemma keeps_expire_step: "I s \<Longrightarrow> ok (expire_step q t m s) I"
  unfolding expire_step_def by (intro ok_rules keep_rules keeps_each okI [where m = "data1 m" for m]) (auto simp: qwire_def)

lemma keeps_unconfirmed_step: "I s \<Longrightarrow> ok (unconfirmed_step q t m s) I"
  unfolding unconfirmed_step_def by (intro ok_rules keep_rules) (auto simp: qwire_def)

lemma keeps_process_messages:
  "I s \<Longrightarrow> ok (process_expired_messages_queue_t q t s) I" "I s \<Longrightarrow> ok (process_unconfirmed_messages_queue_t q t s) I"
  unfolding process_expired_messages_queue_t_def process_unconfirmed_messages_queue_t_def
  by (intro ok_rules keep_rules keeps_each keeps_expire_step keeps_unconfirmed_step; assumption)+

lemmas [keep_rules] = keeps_push [THEN ok_mono2] keeps_confirm [THEN ok_mono2] keeps_purge [THEN ok_mono] keeps_process_messages [THEN ok_mono]

lemma keeps_push_queues: "I s \<Longrightarrow> ok (push_queues qs b ex st s) (\<lambda>(st, s). I s)"
proof (induction qs arbitrary: st s)
  case Nil
  then show ?case by (simp add: ok_def)
next
  case (Cons q qs)
  show ?case unfolding push_queues.simps by (intro ok_rules keep_rules Cons.IH Cons.prems; assumption)
qed

lemma keeps_push_route: "I s \<Longrightarrow> ok (push_message_route_t r k b ex s) (\<lambda>(st, s). I s)"
  unfolding push_message_route_t_def
  by (intro ok_rules keep_rules keeps_push_queues) (auto simp: rwire_def shape_update)

lemma keeps_publish_topic: "I s \<Longrightarrow> ok (publish_topic ch t b s) I"
  unfolding publish_topic_def
  by (intro ok_rules keep_rules keeps_each) (auto simp: chwire_def shape_update)

lemma keeps_publish_patterns: "I s \<Longrightarrow> ok (publish_patterns ch t b s) I"
  unfolding publish_patterns_def
  by (intro ok_rules keep_rules keeps_each; (simp only: case_prod_unfold)?; (intro ok_rules keep_rules keeps_each)?; assumption?)

lemma keeps_publish: "I s \<Longrightarrow> ok (publish_message_channel_t ch t b s) I"
  unfolding publish_message_channel_t_def by (intro ok_rules keep_rules keeps_publish_topic [THEN ok_mono] keeps_publish_patterns)

lemma keeps_renames:
  "I s \<Longrightarrow> ok (rename_queue_t q n s) I" "I s \<Longrightarrow> ok (rename_route_t r n s) I" "I s \<Longrightarrow> ok (rename_channel_t ch n s) I"
  "I s \<Longrightarrow> ok (rename_user u n s) I" "I s \<Longrightarrow> ok (set_user_perm u p s) I"
  unfolding rename_queue_t_def rename_route_t_def rename_channel_t_def rename_user_def set_user_perm_def
  by (intro ok_rules keep_rules; simp add: qwire_def rwire_def chwire_def)+

lemmas [keep_rules] = keeps_push_route [THEN ok_mono2] keeps_publish [THEN ok_mono] keeps_renames [THEN ok_mono]

lemma keeps_save: "I s \<Longrightarrow> ok (storage_save s) (\<lambda>(st, s). I s)"
  unfolding storage_save_def by (rule okI) (auto simp: I_simple Let_def bind_eq_Some_conv split: if_split_asm)

lemma keeps_save_background: "I s \<Longrightarrow> I (snd (storage_save_background s))"
  by (simp add: storage_save_background_def I_simple)

lemma keeps_save_either: "I s \<Longrightarrow> ok (if b then Some (storage_save_background s) else storage_save s) (\<lambda>(st, s). I s)"
  using keeps_save keeps_save_background by (auto simp: case_prod_unfold intro: ok_rules keep_rules)

lemma keeps_list_response: "I s \<Longrightarrow> ok (list_response client cmd n es s) I"
  unfolding list_response_def by (intro ok_rules keep_rules)

lemma keeps_send_message: "I s \<Longrightarrow> ok (send_message client cmd m s) I"
  unfolding send_message_def by (intro ok_rules keep_rules)

lemmas [keep_rules] = keeps_save_either [THEN ok_mono2] keeps_list_response [THEN ok_mono] keeps_send_message [THEN ok_mono]

text \<open>What a handler does before its body.\<close>

lemma keeps_guarded:
  assumes "I s" "\<And>c cmd. client_mem s client = Some c \<Longrightarrow> ok (body c cmd s) I"
  shows "ok (guarded client n ps body s) I" "ok (sized client n body s) I"
  unfolding guarded_def sized_def by (intro ok_rules keep_rules assms; assumption)+

lemma keeps_with_declared:
  assumes "I s" "\<And>q name. find_queue_t (declared_queues c) name s = Some (Some q) \<Longrightarrow> cstr buf = Some name \<Longrightarrow> ok (body q s) I"
  shows "ok (with_declared client c cmd buf body s) I"
  unfolding with_declared_def by (intro ok_rules keep_rules assms; (assumption | simp))

lemma keeps_with_binding:
  assumes "I s" "\<And>r q key. ok (body r q key s) I"
  shows "ok (with_binding client c st cmd body s) I"
  unfolding with_binding_def by (intro ok_rules keep_rules assms; assumption)

lemma keeps_with_channel:
  assumes "I s" "\<And>ch key. ok (body ch key s) I" "\<And>b n. ok (valid b n) (\<lambda>_. True)"
  shows "ok (with_channel client c st f valid cmd body s) I"
  unfolding with_channel_def by (intro ok_rules keep_rules assms; assumption)

text \<open>The handlers that leave the wiring alone.\<close>

lemma keeps_handlers_plain:
  "I s \<Longrightarrow> ok (auth_command_handler client s) I"
  "I s \<Longrightarrow> ok (stat_command_handler client s) I"
  "I s \<Longrightarrow> ok (save_command_handler client s) I"
  "I s \<Longrightarrow> ok (user_list_command_handler client s) I"
  "I s \<Longrightarrow> ok (user_rename_command_handler client s) I"
  "I s \<Longrightarrow> ok (user_set_perm_command_handler client s) I"
  "I s \<Longrightarrow> ok (queue_exist_command_handler client s) I"
  "I s \<Longrightarrow> ok (queue_list_command_handler client s) I"
  "I s \<Longrightarrow> ok (queue_rename_command_handler client s) I"
  "I s \<Longrightarrow> ok (queue_size_command_handler client s) I"
  "I s \<Longrightarrow> ok (queue_push_command_handler client s) I"
  "I s \<Longrightarrow> ok (route_exist_command_handler client s) I"
  "I s \<Longrightarrow> ok (route_list_command_handler client s) I"
  "I s \<Longrightarrow> ok (route_keys_command_handler client s) I"
  "I s \<Longrightarrow> ok (route_rename_command_handler client s) I"
  "I s \<Longrightarrow> ok (route_push_command_handler client s) I"
  "I s \<Longrightarrow> ok (channel_exist_command_handler client s) I"
  "I s \<Longrightarrow> ok (channel_list_command_handler client s) I"
  "I s \<Longrightarrow> ok (channel_rename_command_handler client s) I"
  "I s \<Longrightarrow> ok (ping_command_handler client s) I"
  unfolding auth_command_handler_def stat_command_handler_def save_command_handler_def user_list_command_handler_def
    user_rename_command_handler_def user_set_perm_command_handler_def queue_exist_command_handler_def queue_list_command_handler_def
    queue_rename_command_handler_def queue_size_command_handler_def queue_push_command_handler_def route_exist_command_handler_def
    route_list_command_handler_def route_keys_command_handler_def route_rename_command_handler_def route_push_command_handler_def
    channel_exist_command_handler_def channel_list_command_handler_def channel_rename_command_handler_def ping_command_handler_def
  by (intro keeps_guarded ok_rules keep_rules; (assumption | simp add: clwire_def))+

lemma keeps_handlers_declared:
  "I s \<Longrightarrow> ok (queue_get_command_handler client s) I"
  "I s \<Longrightarrow> ok (queue_pop_command_handler client s) I"
  "I s \<Longrightarrow> ok (queue_confirm_command_handler client s) I"
  "I s \<Longrightarrow> ok (queue_purge_command_handler client s) I"
  unfolding queue_get_command_handler_def queue_pop_command_handler_def queue_confirm_command_handler_def queue_purge_command_handler_def
  by (intro keeps_guarded keeps_with_declared ok_rules keep_rules; assumption)+

lemma keeps_handler_publish: "I s \<Longrightarrow> ok (channel_publish_command_handler client s) I"
  unfolding channel_publish_command_handler_def by (intro keeps_guarded keeps_with_channel ok_rules keep_rules; (assumption | simp))

lemmas content_rules = keep_rules

end

end
