(* ===== verification/Wiring.thy ===== *)
theory Wiring
  imports Contents
begin

text \<open>
  The invariant of the server, \<open>wired\<close>: both sides of every tie between a client and a queue or channel, and
  of every binding, agree, and the lists of the server hold exactly what is in memory. It only depends on
  the wiring, so the operations of Contents keep it.
\<close>

section \<open>Ties\<close>

text \<open>What a client can be tied to; the client and the queue or channel both record the tie.\<close>

datatype tie = Declared addr | Subscribed addr | Topic addr bytes | Pattern addr bytes

fun cl_tie :: "eagle_client \<Rightarrow> tie \<Rightarrow> bool" where
  "cl_tie c (Declared q) = (q \<in> set (declared_queues c))"
| "cl_tie c (Subscribed q) = (q \<in> set (subscribed_queues c))"
| "cl_tie c (Topic ch k) = ((ch, k) \<in> entries (subscribed_topics c))"
| "cl_tie c (Pattern ch k) = ((ch, k) \<in> entries (subscribed_patterns c))"

definition tied :: "server \<Rightarrow> tie \<Rightarrow> addr set" where
  "tied s t = {a. \<exists>c. client_mem s a = Some c \<and> cl_tie c t}"

definition q_clients :: "queue_t option \<Rightarrow> (queue_t \<Rightarrow> addr set) \<Rightarrow> addr set" where
  "q_clients m f = (case m of None \<Rightarrow> {} | Some qt \<Rightarrow> f qt)"

definition ch_clients :: "channel_t option \<Rightarrow> (channel_t \<Rightarrow> addr set) \<Rightarrow> addr set" where
  "ch_clients m f = (case m of None \<Rightarrow> {} | Some ct \<Rightarrow> f ct)"

fun held :: "server \<Rightarrow> tie \<Rightarrow> addr set" where
  "held s (Declared q) = q_clients (queue_mem s q) (\<lambda>qt. set (declared_clients qt))"
| "held s (Subscribed q) = q_clients (queue_mem s q) (\<lambda>qt. set (subscribed_clients_msg qt) \<union> set (subscribed_clients_notify qt))"
| "held s (Topic ch k) = ch_clients (channel_mem s ch) (\<lambda>ct. {a. (k, a) \<in> entries (topics ct)})"
| "held s (Pattern ch k) = ch_clients (channel_mem s ch) (\<lambda>ct. {a. (k, a) \<in> entries (patterns ct)})"

lemma clients_simps [simp]:
  "q_clients None f = {}" "q_clients (Some qt) f = f qt" "ch_clients None g = {}" "ch_clients (Some ct) g = g ct"
  by (simp_all add: q_clients_def ch_clients_def)

definition q_ok :: "queue_t \<Rightarrow> bool" where
  "q_ok qt \<longleftrightarrow> distinct (declared_clients qt) \<and> distinct (subscribed_clients_msg qt @ subscribed_clients_notify qt)"

definition ch_ok :: "channel_t \<Rightarrow> bool" where
  "ch_ok ct \<longleftrightarrow> wf_keyed (topics ct) \<and> wf_keyed (patterns ct)"

definition cl_ok :: "eagle_client \<Rightarrow> bool" where
  "cl_ok c \<longleftrightarrow> distinct (declared_queues c) \<and> distinct (subscribed_queues c) \<and> wf_keyed (subscribed_topics c) \<and>
     wf_keyed (subscribed_patterns c)"

definition wf_ties :: "server \<Rightarrow> bool" where
  "wf_ties s \<longleftrightarrow> (\<forall>q qt. queue_mem s q = Some qt \<longrightarrow> q_ok qt) \<and> (\<forall>ch ct. channel_mem s ch = Some ct \<longrightarrow> ch_ok ct) \<and>
     (\<forall>a c. client_mem s a = Some c \<longrightarrow> cl_ok c)"

definition bounded_addrs :: "server \<Rightarrow> bool" where
  "bounded_addrs s \<longleftrightarrow> dom (queue_mem s) \<union> dom (route_mem s) \<union> dom (channel_mem s) \<union> dom (user_mem s) \<union> dom (client_mem s) \<subseteq> {..<fresh s}"

text \<open>
  The invariant of the wiring: both sides of every binding and of every tie agree, nothing is listed
  twice, and no address beyond \<open>fresh\<close> is in use.
\<close>

definition core :: "server \<Rightarrow> bool" where
  "core s \<longleftrightarrow> linked s \<and> wf_ties s \<and> held s = tied s \<and> bounded_addrs s"

text \<open>The lists of the server hold each structure of their kind exactly once; \<open>E\<close> are exceptions.\<close>

definition listed :: "addr list \<Rightarrow> addr set \<Rightarrow> addr set \<Rightarrow> bool" where
  "listed xs D E \<longleftrightarrow> distinct xs \<and> D = set xs \<union> E \<and> set xs \<inter> E = {}"

text \<open>
  \<open>wired\<close> with the queues, routes, channels and users that are in memory but not in the lists: those
  being created or deleted.
\<close>

definition wired_but :: "addr set \<Rightarrow> addr set \<Rightarrow> addr set \<Rightarrow> addr set \<Rightarrow> server \<Rightarrow> bool" where
  "wired_but Q R C U s \<longleftrightarrow> core s \<and> listed (queues s) (dom (queue_mem s)) Q \<and> listed (routes s) (dom (route_mem s)) R \<and>
     listed (channels s) (dom (channel_mem s)) C \<and> listed (users s) (dom (user_mem s)) U \<and> listed (clients s) (dom (client_mem s)) {}"

abbreviation wired :: "server \<Rightarrow> bool" where
  "wired \<equiv> wired_but {} {} {} {}"

section \<open>The wiring determines the invariant\<close>

lemma wire_facts:
  "qwire x = qwire y \<Longrightarrow> q_ok x = q_ok y" "chwire a = chwire b \<Longrightarrow> ch_ok a = ch_ok b" "clwire c = clwire d \<Longrightarrow> cl_ok c = cl_ok d"
  "clwire c = clwire d \<Longrightarrow> cl_tie c t = cl_tie d t" "qwire x = qwire y \<Longrightarrow> wf_keyed (qroutes x) = wf_keyed (qroutes y)"
  "qwire x = qwire y \<Longrightarrow> entries (qroutes x) = entries (qroutes y)" "rwire u = rwire v \<Longrightarrow> wf_keyed (keys u) = wf_keyed (keys v)"
  "rwire u = rwire v \<Longrightarrow> entries (keys u) = entries (keys v)"
  "qwire x = qwire y \<Longrightarrow> set (declared_clients x) = set (declared_clients y)"
  "qwire x = qwire y \<Longrightarrow> set (subscribed_clients_msg x) \<union> set (subscribed_clients_notify x) = set (subscribed_clients_msg y) \<union> set (subscribed_clients_notify y)"
  "chwire a = chwire b \<Longrightarrow> entries (topics a) = entries (topics b)" "chwire a = chwire b \<Longrightarrow> entries (patterns a) = entries (patterns b)"
proof -
  note ms = mset_eq_setD and di = mset_eq_imp_distinct_iff and sh = shape_keyed
  show "q_ok x = q_ok y" "wf_keyed (qroutes x) = wf_keyed (qroutes y)" "entries (qroutes x) = entries (qroutes y)"
    "set (declared_clients x) = set (declared_clients y)"
    "set (subscribed_clients_msg x) \<union> set (subscribed_clients_notify x) = set (subscribed_clients_msg y) \<union> set (subscribed_clients_notify y)"
    if w: "qwire x = qwire y"
  proof -
    have e: "mset (declared_clients x) = mset (declared_clients y)" "mset (subscribed_clients_msg x) = mset (subscribed_clients_msg y)"
        "mset (subscribed_clients_notify x) = mset (subscribed_clients_notify y)" "shape (qroutes x) = shape (qroutes y)"
      using w by (simp_all add: qwire_def)
    show "q_ok x = q_ok y"
      unfolding q_ok_def distinct_append di [OF e(1)] di [OF e(2)] di [OF e(3)] ms [OF e(2)] ms [OF e(3)] ..
    show "wf_keyed (qroutes x) = wf_keyed (qroutes y)" "entries (qroutes x) = entries (qroutes y)" by (fact sh [OF e(4)])+
    show "set (declared_clients x) = set (declared_clients y)" by (fact ms [OF e(1)])
    show "set (subscribed_clients_msg x) \<union> set (subscribed_clients_notify x) = set (subscribed_clients_msg y) \<union> set (subscribed_clients_notify y)"
      unfolding ms [OF e(2)] ms [OF e(3)] ..
  qed
  show "ch_ok a = ch_ok b" "entries (topics a) = entries (topics b)" "entries (patterns a) = entries (patterns b)"
    if w: "chwire a = chwire b"
  proof -
    have e: "shape (topics a) = shape (topics b)" "shape (patterns a) = shape (patterns b)" using w by (simp_all add: chwire_def)
    show "ch_ok a = ch_ok b" unfolding ch_ok_def sh [OF e(1)] sh [OF e(2)] ..
    show "entries (topics a) = entries (topics b)" "entries (patterns a) = entries (patterns b)" by (fact sh [OF e(1)] sh [OF e(2)])+
  qed
  show "cl_ok c = cl_ok d" "cl_tie c t = cl_tie d t" if w: "clwire c = clwire d"
  proof -
    have e: "mset (declared_queues c) = mset (declared_queues d)" "mset (subscribed_queues c) = mset (subscribed_queues d)"
        "shape (subscribed_topics c) = shape (subscribed_topics d)" "shape (subscribed_patterns c) = shape (subscribed_patterns d)"
      using w by (simp_all add: clwire_def)
    show "cl_ok c = cl_ok d" unfolding cl_ok_def di [OF e(1)] di [OF e(2)] sh [OF e(3)] sh [OF e(4)] ..
    show "cl_tie c t = cl_tie d t"
      by (cases t) (simp_all only: cl_tie.simps ms [OF e(1)] ms [OF e(2)] sh [OF e(3)] sh [OF e(4)])
  qed
  show "wf_keyed (keys u) = wf_keyed (keys v)" "entries (keys u) = entries (keys v)" if "rwire u = rwire v"
    using sh [OF that [unfolded rwire_def]] by blast+
qed

lemma keptD:
  assumes "kept s s'"
  shows "map_option qwire (queue_mem s' a) = map_option qwire (queue_mem s a)" "map_option rwire (route_mem s' a) = map_option rwire (route_mem s a)"
    "map_option chwire (channel_mem s' a) = map_option chwire (channel_mem s a)" "map_option clwire (client_mem s' a) = map_option clwire (client_mem s a)"
    "lists s' = lists s" "dom (user_mem s') = dom (user_mem s)" "fresh s \<le> fresh s'"
  using assms by (auto simp: kept_def wiring_def fun_eq_iff)

lemma kept_dom:
  assumes "kept s s'"
  shows "dom (queue_mem s') = dom (queue_mem s)" "dom (route_mem s') = dom (route_mem s)" "dom (channel_mem s') = dom (channel_mem s)"
    "dom (client_mem s') = dom (client_mem s)"
proof -
  have *: "dom m' = dom m" if "\<And>a. map_option f (m' a) = map_option f (m a)" for f :: "'x \<Rightarrow> 'y" and m m' :: "addr \<rightharpoonup> 'x"
  proof -
    have "m' a = None \<longleftrightarrow> m a = None" for a using that [of a] by (metis map_option_is_None)
    then show ?thesis by (simp add: dom_def)
  qed
  show "dom (queue_mem s') = dom (queue_mem s)" "dom (route_mem s') = dom (route_mem s)" "dom (channel_mem s') = dom (channel_mem s)"
    "dom (client_mem s') = dom (client_mem s)"
    by (rule * [OF keptD(1) [OF assms]] * [OF keptD(2) [OF assms]] * [OF keptD(3) [OF assms]] * [OF keptD(4) [OF assms]])+
qed

lemma kept_binds:
  assumes "kept s s'"
  shows "binds s' = binds s" "links s' = links s" "wf_routes s' = wf_routes s"
proof -
  note v = keptD(1,2) [OF assms] and w = wire_facts(5-8)
  have "(k, q) \<in> entries (keys x) \<longleftrightarrow> (k, q) \<in> entries (keys y)" if "rwire x = rwire y" for x y k q using w(4) [OF that] by simp
  from same_view(2) [OF v(2) this] show "binds s' = binds s" by (simp add: binds_def)
  have "(k, q) \<in> entries (qroutes x) \<longleftrightarrow> (k, q) \<in> entries (qroutes y)" if "qwire x = qwire y" for x y k q using w(2) [OF that] by simp
  from same_view(2) [OF v(1) this] show "links s' = links s" by (simp add: links_def)
  show "wf_routes s' = wf_routes s" unfolding wf_routes_def using same_view(1) [OF v(1) w(1)] same_view(1) [OF v(2) w(3)] by simp
qed

lemma kept_ties:
  assumes "kept s s'"
  shows "tied s' = tied s" "held s' = held s" "wf_ties s' = wf_ties s"
proof -
  note v = keptD(1-4) [OF assms]
  have "tied s' t = tied s t" for t unfolding tied_def using same_view(2) [OF v(4) wire_facts(4)] by simp
  then show "tied s' = tied s" by blast
  have q: "q_clients (queue_mem s' q) f = q_clients (queue_mem s q) f" if f: "\<And>x y. qwire x = qwire y \<Longrightarrow> f x = f y" for q f
  proof (cases "queue_mem s q")
    case None
    then show ?thesis using v(1) [of q] by simp
  next
    case (Some x)
    then obtain y where y: "queue_mem s' q = Some y" "qwire y = qwire x" using v(1) [of q] by (cases "queue_mem s' q") auto
    show ?thesis using Some y(1) f [OF y(2)] by simp
  qed
  have c: "ch_clients (channel_mem s' ch) f = ch_clients (channel_mem s ch) f" if f: "\<And>x y. chwire x = chwire y \<Longrightarrow> f x = f y" for ch f
  proof (cases "channel_mem s ch")
    case None
    then show ?thesis using v(3) [of ch] by simp
  next
    case (Some x)
    then obtain y where y: "channel_mem s' ch = Some y" "chwire y = chwire x" using v(3) [of ch] by (cases "channel_mem s' ch") auto
    show ?thesis using Some y(1) f [OF y(2)] by simp
  qed
  have "held s' t = held s t" for t
  proof (cases t)
    case (Declared q)
    then show ?thesis using q [where f = "\<lambda>qt. set (declared_clients qt)", OF wire_facts(9)] by simp
  next
    case (Subscribed q)
    then show ?thesis using q [where f = "\<lambda>qt. set (subscribed_clients_msg qt) \<union> set (subscribed_clients_notify qt)", OF wire_facts(10)] by simp
  next
    case (Topic ch k)
    have "{a. (k, a) \<in> entries (topics x)} = {a. (k, a) \<in> entries (topics y)}" if "chwire x = chwire y" for x y
      using wire_facts(11) [OF that] by simp
    from c [where f = "\<lambda>ct. {a. (k, a) \<in> entries (topics ct)}", OF this] show ?thesis using Topic by simp
  next
    case (Pattern ch k)
    have "{a. (k, a) \<in> entries (patterns x)} = {a. (k, a) \<in> entries (patterns y)}" if "chwire x = chwire y" for x y
      using wire_facts(12) [OF that] by simp
    from c [where f = "\<lambda>ct. {a. (k, a) \<in> entries (patterns ct)}", OF this] show ?thesis using Pattern by simp
  qed
  then show "held s' = held s" by blast
  show "wf_ties s' = wf_ties s"
    unfolding wf_ties_def using same_view(1) [OF v(1) wire_facts(1)] same_view(1) [OF v(3) wire_facts(2)] same_view(1) [OF v(4) wire_facts(3)] by simp
qed

lemma kept_core: "core s \<Longrightarrow> kept s s' \<Longrightarrow> core s'"
  using kept_dom [of s s'] keptD(6,7) [of s s'] by (auto simp: core_def linked_def kept_binds kept_ties bounded_addrs_def)

lemma kept_wired: "wired_but Q R C U s \<Longrightarrow> kept s s' \<Longrightarrow> wired_but Q R C U s'"
  using kept_core [of s s'] kept_dom [of s s'] keptD(5,6) [of s s'] by (auto simp: wired_but_def lists_def)

interpretation kc: wiring_invariant core
  by unfold_locales (rule kept_core)

interpretation kw: wiring_invariant "wired_but NQ NR NC NU" for NQ NR NC NU
  by unfold_locales (rule kept_wired)

interpretation kk: wiring_invariant "kept s0" for s0
  by unfold_locales (rule kept_trans)

text \<open>The rules of these are used by name.\<close>

declare kc.content_rules [keep_rules del] kw.content_rules [keep_rules del] kk.content_rules [keep_rules del]

end
