(* ===== verification/Ties.thy ===== *)
theory Ties
  imports Wiring
begin

text \<open>
  What one more or one less tie does to the invariant, and declaring a queue.
\<close>

section \<open>One tie more or less\<close>

definition regs :: "server \<Rightarrow> (addr list \<times> addr list \<times> addr list \<times> addr list \<times> addr list) \<times> addr set \<times> addr set \<times> addr set \<times> addr set \<times> addr set \<times> addr" where
  "regs s = (lists s, dom (queue_mem s), dom (route_mem s), dom (channel_mem s), dom (user_mem s), dom (client_mem s), fresh s)"

lemma wired_regs: "wired_but Q R C U s \<Longrightarrow> core s' \<Longrightarrow> regs s' = regs s \<Longrightarrow> wired_but Q R C U s'"
  by (simp add: wired_but_def regs_def lists_def)

text \<open>The clients of a tie after the client \<open>a\<close> has joined (\<open>b\<close>) or left.\<close>

definition set_member :: "bool \<Rightarrow> 'a \<Rightarrow> 'a set \<Rightarrow> 'a set" where
  "set_member b a A = (if b then insert a A else A - {a})"

lemma set_client_tied:
  assumes "client_mem s a = Some c" "client_mem s' = (client_mem s)(a \<mapsto> c')" "cl_tie c' = (cl_tie c)(t := b)"
  shows "tied s' = (tied s)(t := set_member b a (tied s t))"
proof
  fix t'
  have "tied s' t' = {x. if x = a then cl_tie c' t' else x \<in> tied s t'}" using assms(2) by (auto simp: tied_def)
  moreover have "a \<in> tied s t' \<longleftrightarrow> cl_tie c t'" using assms(1) by (simp add: tied_def)
  ultimately show "tied s' t' = ((tied s)(t := set_member b a (tied s t))) t'" using assms(3) by (auto simp: set_member_def)
qed

lemma set_queue_held:
  assumes "queue_mem s' = (queue_mem s)(q \<mapsto> qt)" "channel_mem s' = channel_mem s"
  shows "held s' = (held s)(Declared q := set (declared_clients qt),
    Subscribed q := set (subscribed_clients_msg qt) \<union> set (subscribed_clients_notify qt))"
proof
  show "held s' t = ((held s)(Declared q := set (declared_clients qt),
      Subscribed q := set (subscribed_clients_msg qt) \<union> set (subscribed_clients_notify qt))) t" for t
    using assms by (cases t) auto
qed

lemma linked_set_queue:
  assumes "queue_mem s q = Some qt" "queue_mem s' = (queue_mem s)(q \<mapsto> qt')" "qroutes qt' = qroutes qt" "route_mem s' = route_mem s"
  shows "linked s' = linked s" "binds s' = binds s"
proof -
  have "links s' = links s" using assms by (auto simp: links_def)
  moreover have b: "binds s' = binds s" using assms(4) by (simp add: binds_def)
  moreover have "wf_routes s' = wf_routes s" using assms by (auto simp: wf_routes_def)
  ultimately show "linked s' = linked s" "binds s' = binds s" by (simp_all add: linked_def)
qed

lemma linked_same:
  assumes "queue_mem s' = queue_mem s" "route_mem s' = route_mem s"
  shows "linked s' = linked s" "binds s' = binds s"
  using assms by (simp_all add: linked_def links_def binds_def wf_routes_def)

lemma tie_step:
  assumes "core s" "regs s' = regs s" "client_mem s a = Some c" "client_mem s' = (client_mem s)(a \<mapsto> c')"
    and "cl_tie c' = (cl_tie c)(t := b)" "cl_ok c'" "held s' = (held s)(t := set_member b a (held s t))" "linked s' = linked s"
    and "\<And>q qt. queue_mem s' q = Some qt \<Longrightarrow> q_ok qt" "\<And>ch ct. channel_mem s' ch = Some ct \<Longrightarrow> ch_ok ct"
  shows "core s' \<and> regs s' = regs s \<and> tied s' = (tied s)(t := set_member b a (tied s t))"
proof -
  have t: "tied s' = (tied s)(t := set_member b a (tied s t))" by (rule set_client_tied [OF assms(3-5)])
  have "held s = tied s" "linked s" "bounded_addrs s" "\<And>x cl. client_mem s x = Some cl \<Longrightarrow> cl_ok cl"
    using assms(1) by (simp_all add: core_def wf_ties_def)
  moreover have "bounded_addrs s' = bounded_addrs s" using assms(2) by (simp add: bounded_addrs_def regs_def)
  ultimately show ?thesis using t assms(2,4,6-10) by (auto simp: core_def wf_ties_def)
qed

lemma core_ok:
  assumes "core s"
  shows "queue_mem s q = Some qt \<Longrightarrow> q_ok qt" "channel_mem s ch = Some ct \<Longrightarrow> ch_ok ct" "client_mem s a = Some c \<Longrightarrow> cl_ok c"
  using assms by (auto simp: core_def wf_ties_def)

text \<open>Changing a queue and a client at once.\<close>

lemma queue_tie_step:
  assumes "core s" "client_mem s a = Some c" "queue_mem s q = Some qt" "s' = s\<lparr>client_mem := (client_mem s)(a \<mapsto> c'), queue_mem := (queue_mem s)(q \<mapsto> qt')\<rparr>"
    and "cl_tie c' = (cl_tie c)(t := b)" "cl_ok c'" "q_ok qt'" "qroutes qt' = qroutes qt"
    and "t = Declared q \<and> set (declared_clients qt') = set_member b a (set (declared_clients qt)) \<and>
        set (subscribed_clients_msg qt') = set (subscribed_clients_msg qt) \<and> set (subscribed_clients_notify qt') = set (subscribed_clients_notify qt) \<or>
      t = Subscribed q \<and> set (declared_clients qt') = set (declared_clients qt) \<and>
        set (subscribed_clients_msg qt') \<union> set (subscribed_clients_notify qt') =
          set_member b a (set (subscribed_clients_msg qt) \<union> set (subscribed_clients_notify qt))"
  shows "core s' \<and> regs s' = regs s \<and> tied s' = (tied s)(t := set_member b a (tied s t))"
proof (rule tie_step [OF assms(1) _ assms(2) _ assms(5,6)])
  show "regs s' = regs s" using assms(2-4) by (auto simp: regs_def lists_def)
  show "client_mem s' = (client_mem s)(a \<mapsto> c')" by (simp add: assms(4))
  show "linked s' = linked s" by (rule linked_set_queue(1) [OF assms(3) _ assms(8)]) (simp_all add: assms(4))
  have "held s' = (held s)(Declared q := set (declared_clients qt'),
      Subscribed q := set (subscribed_clients_msg qt') \<union> set (subscribed_clients_notify qt'))"
    by (rule set_queue_held) (simp_all add: assms(4))
  then show "held s' = (held s)(t := set_member b a (held s t))"
    using assms(3,9) by (auto simp: fun_eq_iff)
  show "q_ok x" if "queue_mem s' p = Some x" for p x using that assms(4,7) core_ok(1) [OF assms(1)] by (auto split: if_split_asm)
  show "ch_ok x" if "channel_mem s' p = Some x" for p x using that assms(4) core_ok(2) [OF assms(1)] by auto
qed

lemma core_tied: "core s \<Longrightarrow> client_mem s a = Some c \<Longrightarrow> a \<in> held s t \<longleftrightarrow> cl_tie c t"
  by (simp add: core_def tied_def)

lemma declare_core:
  assumes "core s" "client_mem s a = Some c" "q \<notin> set (declared_queues c)"
  shows "ok (declare_client_queue_t q a s) (\<lambda>s'. core s' \<and> regs s' = regs s \<and> tied s' = (tied s)(Declared q := set_member True a (tied s (Declared q))))"
proof (rule okI)
  fix s'
  assume "declare_client_queue_t q a s = Some s'"
  then obtain qt where q: "queue_mem s q = Some qt" and s': "s' = s\<lparr>client_mem := (client_mem s)(a \<mapsto> c\<lparr>declared_queues := declared_queues c @ [q]\<rparr>),
      queue_mem := (queue_mem s)(q \<mapsto> qt\<lparr>declared_clients := declared_clients qt @ [a]\<rparr>)\<rparr>"
    using assms(2) by (auto simp: declare_client_queue_t_def upd_client_def upd_queue_def bind_eq_Some_conv)
  have n: "a \<notin> set (declared_clients qt)" using core_tied [OF assms(1,2), of "Declared q"] assms(3) q by simp
  show "core s' \<and> regs s' = regs s \<and> tied s' = (tied s)(Declared q := set_member True a (tied s (Declared q)))"
  proof (rule queue_tie_step [OF assms(1,2) q s'])
    show "cl_tie (c\<lparr>declared_queues := declared_queues c @ [q]\<rparr>) = (cl_tie c)(Declared q := True)"
    proof
      show "cl_tie (c\<lparr>declared_queues := declared_queues c @ [q]\<rparr>) t = ((cl_tie c)(Declared q := True)) t" for t by (cases t) auto
    qed
  qed (use core_ok(1) [OF assms(1) q] core_ok(3) [OF assms(1,2)] assms(3) n in \<open>auto simp: q_ok_def cl_ok_def set_member_def\<close>)
qed

lemma undeclare_core:
  assumes "core s"
  shows "ok (undeclare_client_queue_t q a s) (\<lambda>s'. core s' \<and> regs s' = regs s \<and> tied s' = (tied s)(Declared q := set_member False a (tied s (Declared q))))"
proof (rule okI)
  fix s'
  assume "undeclare_client_queue_t q a s = Some s'"
  then obtain qt c where q: "client_mem s a = Some c" "queue_mem s q = Some qt" and s': "s' = s\<lparr>client_mem := (client_mem s)(a \<mapsto> c\<lparr>declared_queues := remove1 q (declared_queues c)\<rparr>),
      queue_mem := (queue_mem s)(q \<mapsto> qt\<lparr>declared_clients := remove1 a (declared_clients qt)\<rparr>)\<rparr>"
    by (auto simp: undeclare_client_queue_t_def upd_client_def upd_queue_def bind_eq_Some_conv seq_delete_def remove1_idem)
  note w = core_ok(1) [OF assms q(2)] core_ok(3) [OF assms q(1)]
  show "core s' \<and> regs s' = regs s \<and> tied s' = (tied s)(Declared q := set_member False a (tied s (Declared q)))"
  proof (rule queue_tie_step [OF assms q s'])
    show "cl_tie (c\<lparr>declared_queues := remove1 q (declared_queues c)\<rparr>) = (cl_tie c)(Declared q := False)"
    proof
      show "cl_tie (c\<lparr>declared_queues := remove1 q (declared_queues c)\<rparr>) t = ((cl_tie c)(Declared q := False)) t" for t
        using w(2) by (cases t) (auto simp: cl_ok_def)
    qed
  qed (use w in \<open>auto simp: q_ok_def cl_ok_def set_member_def\<close>)
qed

end
