(* ===== verification/QueueTies.thy ===== *)
theory QueueTies
  imports Ties
begin

text \<open>
  Subscribing to a queue, leaving it, and ejecting every client from it.
\<close>

lemma subscribe_core:
  assumes "core s" "client_mem s a = Some c" "q \<notin> set (subscribed_queues c)"
  shows "ok (subscribe_client_queue_t q a fl s) (\<lambda>s'. core s' \<and> regs s' = regs s \<and> tied s' = (tied s)(Subscribed q := set_member True a (tied s (Subscribed q))))"
proof (rule okI)
  fix s'
  assume r: "subscribe_client_queue_t q a fl s = Some s'"
  define f where "f = (\<lambda>qt :: queue_t. if \<not> BIT_CHECK fl EG_QUEUE_CLIENT_NOTIFY_FLAG then qt\<lparr>subscribed_clients_msg := subscribed_clients_msg qt @ [a]\<rparr>
     else qt\<lparr>subscribed_clients_notify := subscribed_clients_notify qt @ [a]\<rparr>)"
  from r obtain qt where q: "queue_mem s q = Some qt" and s': "s' = s\<lparr>client_mem := (client_mem s)(a \<mapsto> c\<lparr>subscribed_queues := subscribed_queues c @ [q]\<rparr>),
      queue_mem := (queue_mem s)(q \<mapsto> f qt)\<rparr>"
    using assms(2) by (auto simp: subscribe_client_queue_t_def upd_client_def upd_queue_def bind_eq_Some_conv f_def split: if_split_asm)
  have n: "a \<notin> set (subscribed_clients_msg qt) \<union> set (subscribed_clients_notify qt)"
    using core_tied [OF assms(1,2), of "Subscribed q"] assms(3) q by simp
  show "core s' \<and> regs s' = regs s \<and> tied s' = (tied s)(Subscribed q := set_member True a (tied s (Subscribed q)))"
  proof (rule queue_tie_step [OF assms(1,2) q s'])
    show "cl_tie (c\<lparr>subscribed_queues := subscribed_queues c @ [q]\<rparr>) = (cl_tie c)(Subscribed q := True)"
    proof
      show "cl_tie (c\<lparr>subscribed_queues := subscribed_queues c @ [q]\<rparr>) t = ((cl_tie c)(Subscribed q := True)) t" for t by (cases t) auto
    qed
  qed (use core_ok(1) [OF assms(1) q] core_ok(3) [OF assms(1,2)] assms(3) n in \<open>auto simp: q_ok_def cl_ok_def set_member_def f_def\<close>)
qed

text \<open>The effect of an unsubscription, however the queue's lists are searched.\<close>

lemma unsubscribe_step:
  assumes "core s" "client_mem s a = Some c" "queue_mem s q = Some qt"
    and "s' = s\<lparr>client_mem := (client_mem s)(a \<mapsto> c\<lparr>subscribed_queues := remove1 q (subscribed_queues c)\<rparr>), queue_mem := (queue_mem s)(q \<mapsto> qt')\<rparr>"
    and "qt' = (if a \<in> set (subscribed_clients_msg qt) then qt\<lparr>subscribed_clients_msg := remove1 a (subscribed_clients_msg qt)\<rparr>
      else qt\<lparr>subscribed_clients_notify := remove1 a (subscribed_clients_notify qt)\<rparr>)"
  shows "core s' \<and> regs s' = regs s \<and> tied s' = (tied s)(Subscribed q := set_member False a (tied s (Subscribed q)))"
proof (rule queue_tie_step [OF assms(1-4)])
  note w = core_ok(1) [OF assms(1,3)] core_ok(3) [OF assms(1,2)]
  show "cl_tie (c\<lparr>subscribed_queues := remove1 q (subscribed_queues c)\<rparr>) = (cl_tie c)(Subscribed q := False)"
  proof
    show "cl_tie (c\<lparr>subscribed_queues := remove1 q (subscribed_queues c)\<rparr>) t = ((cl_tie c)(Subscribed q := False)) t" for t
      using w(2) by (cases t) (auto simp: cl_ok_def)
  qed
  show "cl_ok (c\<lparr>subscribed_queues := remove1 q (subscribed_queues c)\<rparr>)" using w(2) by (simp add: cl_ok_def)
  show "q_ok qt'" using w(1) notin_set_remove1 by (auto simp: q_ok_def assms(5))
  show "qroutes qt' = qroutes qt" by (simp add: assms(5))
qed (use core_ok(1) [OF assms(1,3)] in \<open>auto simp: q_ok_def set_member_def assms(5)\<close>)

lemma unsubscribe_core:
  assumes "core s"
  shows "ok (unsubscribe_client_queue_t q a s) (\<lambda>s'. core s' \<and> regs s' = regs s \<and> tied s' = (tied s)(Subscribed q := set_member False a (tied s (Subscribed q))))"
proof (rule okI)
  fix s'
  assume r: "unsubscribe_client_queue_t q a s = Some s'"
  then obtain c qt where q: "client_mem s a = Some c" "queue_mem s q = Some qt"
    by (auto simp: unsubscribe_client_queue_t_def upd_client_def upd_queue_def bind_eq_Some_conv split: if_split_asm)
  have "filter (\<lambda>x. x \<noteq> a) (subscribed_clients_notify qt) = remove1 a (subscribed_clients_notify qt)"
    using core_ok(1) [OF assms q(2)] by (simp add: q_ok_def distinct_remove1_removeAll removeAll_filter_not_eq neq_commute)
  then have "s' = s\<lparr>client_mem := (client_mem s)(a \<mapsto> c\<lparr>subscribed_queues := remove1 q (subscribed_queues c)\<rparr>), queue_mem := (queue_mem s)(q \<mapsto>
      if a \<in> set (subscribed_clients_msg qt) then qt\<lparr>subscribed_clients_msg := remove1 a (subscribed_clients_msg qt)\<rparr>
      else qt\<lparr>subscribed_clients_notify := remove1 a (subscribed_clients_notify qt)\<rparr>)\<rparr>"
    using r q by (auto simp: unsubscribe_client_queue_t_def upd_client_def upd_queue_def seq_delete_def remove1_idem)
  then show "core s' \<and> regs s' = regs s \<and> tied s' = (tied s)(Subscribed q := set_member False a (tied s (Subscribed q)))"
    by (rule unsubscribe_step [OF assms q _ refl])
qed

section \<open>Ties that go\<close>

text \<open>\<open>sheds T s s'\<close>: no new tie appears, and those of \<open>T\<close> are gone.\<close>

definition sheds :: "(tie \<times> addr) set \<Rightarrow> server \<Rightarrow> server \<Rightarrow> bool" where
  "sheds T s s' \<longleftrightarrow> (\<forall>t. tied s' t \<subseteq> tied s t - {a. (t, a) \<in> T})"

lemma sheds_refl: "sheds {} s s"
  by (simp add: sheds_def)

lemma sheds_trans: "sheds T s s1 \<Longrightarrow> sheds T' s1 s2 \<Longrightarrow> sheds (T \<union> T') s s2"
  by (fastforce simp: sheds_def)

lemma sheds_mono: "sheds T s s' \<Longrightarrow> T' \<subseteq> T \<Longrightarrow> sheds T' s s'"
  by (fastforce simp: sheds_def)

lemma sheds_member: "tied s' = (tied s)(t := set_member False a (tied s t)) \<Longrightarrow> sheds {(t, a)} s s'"
  by (auto simp: sheds_def set_member_def)

lemma sheds_same: "tied s' = tied s \<Longrightarrow> sheds {} s s'"
  by (simp add: sheds_def)

lemma ok_each_sheds:
  assumes "\<And>x s. x \<in> set xs \<Longrightarrow> P s \<Longrightarrow> ok (f x s) (\<lambda>s'. P s' \<and> sheds (T x) s s')" "P s"
  shows "ok (for_each f xs s) (\<lambda>s'. P s' \<and> sheds (\<Union>x \<in> set xs. T x) s s')"
  using assms
proof (induction xs arbitrary: s)
  case Nil
  then show ?case by (simp add: ok_def sheds_refl)
next
  case (Cons x xs)
  show ?case unfolding for_each.simps
  proof (rule ok_bind, rule ok_mono)
    show "ok (f x s) (\<lambda>s'. P s' \<and> sheds (T x) s s')" using Cons.prems by simp
    fix s1 assume s1: "P s1 \<and> sheds (T x) s s1"
    then have "ok (for_each f xs s1) (\<lambda>s'. P s' \<and> sheds (\<Union>x \<in> set xs. T x) s1 s')" using Cons.IH [of s1] Cons.prems(1) by simp
    then show "ok (for_each f xs s1) (\<lambda>s'. P s' \<and> sheds (\<Union>x \<in> set (x # xs). T x) s s')"
      by (rule ok_mono) (use s1 sheds_trans in fastforce)
  qed
qed

text \<open>A loop that takes the clients of \<open>xs\<close> out of a queue one by one.\<close>

lemma eject_loop:
  assumes step: "\<And>a s c qt. core s \<Longrightarrow> client_mem s a = Some c \<Longrightarrow> queue_mem s q = Some qt \<Longrightarrow> a \<in> set (xs qt) \<Longrightarrow>
      ok (f a s) (\<lambda>s'. core s' \<and> regs s' = regs s \<and> sheds {(t, a)} s s' \<and> (\<exists>qt'. queue_mem s' q = Some qt' \<and> xs qt' = remove1 a (xs qt) \<and> P qt qt'))"
    and P: "\<And>x. P x x" "\<And>x y z. P x y \<Longrightarrow> P y z \<Longrightarrow> P x z"
    and cl: "\<And>a s qt. core s \<Longrightarrow> queue_mem s q = Some qt \<Longrightarrow> a \<in> set (xs qt) \<Longrightarrow> client_mem s a \<noteq> None"
    and "core s" "queue_mem s q = Some qt"
  shows "ok (for_each f (xs qt) s) (\<lambda>s'. core s' \<and> regs s' = regs s \<and> sheds ({t} \<times> set (xs qt)) s s' \<and>
    (\<exists>qt'. queue_mem s' q = Some qt' \<and> xs qt' = [] \<and> P qt qt'))"
proof -
  define as where "as = xs qt"
  have "ok (for_each f as s) (\<lambda>s'. core s' \<and> regs s' = regs s \<and> sheds ({t} \<times> set as) s s' \<and>
      (\<exists>qt'. queue_mem s' q = Some qt' \<and> xs qt' = [] \<and> P qt qt'))"
    using assms(5,6) as_def [symmetric]
  proof (induction as arbitrary: s qt)
    case Nil
    then show ?case using P(1) by (auto simp: ok_def sheds_refl)
  next
    case (Cons a as)
    from Cons.prems have m: "a \<in> set (xs qt)" by simp
    obtain c where c: "client_mem s a = Some c" using cl [OF Cons.prems(1,2) m] by blast
    show ?case unfolding for_each.simps
    proof (rule ok_bind, rule ok_mono [OF step [OF Cons.prems(1) c Cons.prems(2) m]])
      fix s1 assume s1: "core s1 \<and> regs s1 = regs s \<and> sheds {(t, a)} s s1 \<and> (\<exists>qt'. queue_mem s1 q = Some qt' \<and> xs qt' = remove1 a (xs qt) \<and> P qt qt')"
      then obtain qt1 where q1: "queue_mem s1 q = Some qt1" "xs qt1 = as" "P qt qt1" using Cons.prems(3) by auto
      have "ok (for_each f as s1) (\<lambda>s'. core s' \<and> regs s' = regs s1 \<and> sheds ({t} \<times> set as) s1 s' \<and>
          (\<exists>qt'. queue_mem s' q = Some qt' \<and> xs qt' = [] \<and> P qt1 qt'))"
        using Cons.IH [of s1 qt1] s1 q1 by simp
      then show "ok (for_each f as s1) (\<lambda>s'. core s' \<and> regs s' = regs s \<and> sheds ({t} \<times> set (a # as)) s s' \<and>
          (\<exists>qt'. queue_mem s' q = Some qt' \<and> xs qt' = [] \<and> P qt qt'))"
      proof (rule ok_mono)
        fix s2 assume s2: "core s2 \<and> regs s2 = regs s1 \<and> sheds ({t} \<times> set as) s1 s2 \<and>
          (\<exists>qt'. queue_mem s2 q = Some qt' \<and> xs qt' = [] \<and> P qt1 qt')"
        then have "sheds ({(t, a)} \<union> {t} \<times> set as) s s2" using s1 sheds_trans by blast
        moreover have "{(t, a)} \<union> {t} \<times> set as = {t} \<times> set (a # as)" by auto
        ultimately show "core s2 \<and> regs s2 = regs s \<and> sheds ({t} \<times> set (a # as)) s s2 \<and>
          (\<exists>qt'. queue_mem s2 q = Some qt' \<and> xs qt' = [] \<and> P qt qt')" using s1 s2 P(2) [OF q1(3)] by auto
      qed
    qed
  qed
  then show ?thesis by (simp add: as_def)
qed

lemma client_of_tie: "core s \<Longrightarrow> a \<in> held s t \<Longrightarrow> client_mem s a \<noteq> None"
  by (auto simp: core_def tied_def)

lemma eject_clients_core:
  assumes "core s"
  shows "ok (eject_clients_queue_t q s) (\<lambda>s'. core s' \<and> regs s' = regs s \<and> sheds {} s s' \<and> tied s' (Declared q) = {} \<and> tied s' (Subscribed q) = {})"
proof (rule okI)
  fix s'
  assume r: "eject_clients_queue_t q s = Some s'"
  define un where "un = (\<lambda>(f :: addr \<Rightarrow> queue_t \<Rightarrow> queue_t) a s. do {
      s \<leftarrow> upd_client a (\<lambda>c. c\<lparr>subscribed_queues := snd (seq_delete q (subscribed_queues c))\<rparr>) s; upd_queue q (f a) s })"
  define um where "um = un (\<lambda>a x. x\<lparr>subscribed_clients_msg := remove1 a (subscribed_clients_msg x)\<rparr>)"
  define uf where "uf = un (\<lambda>a x. x\<lparr>subscribed_clients_notify := remove1 a (subscribed_clients_notify x)\<rparr>)"
  from r obtain qt s1 qt1 s2 qt2 where st: "queue_mem s q = Some qt" "for_each (undeclare_client_queue_t q) (declared_clients qt) s = Some s1"
      "queue_mem s1 q = Some qt1" "for_each um (subscribed_clients_msg qt1) s1 = Some s2"
      "queue_mem s2 q = Some qt2" "for_each uf (subscribed_clients_notify qt2) s2 = Some s'"
    by (auto simp: eject_clients_queue_t_def bind_eq_Some_conv um_def uf_def un_def)
  have "core s1 \<and> regs s1 = regs s \<and> sheds ({Declared q} \<times> set (declared_clients qt)) s s1 \<and>
      (\<exists>qt'. queue_mem s1 q = Some qt' \<and> declared_clients qt' = [] \<and> True)"
  proof (rule okD [OF _ st(2)], rule eject_loop [where xs = declared_clients and P = "\<lambda>_ _. True"])
    fix a s c qt
    assume a: "core s" "client_mem s a = Some c" "queue_mem s q = Some qt" "a \<in> set (declared_clients qt)"
    have "undeclare_client_queue_t q a s = Some x \<Longrightarrow> queue_mem x q = Some (qt\<lparr>declared_clients := remove1 a (declared_clients qt)\<rparr>)" for x
      using a(3) by (auto simp: undeclare_client_queue_t_def upd_client_def upd_queue_def bind_eq_Some_conv seq_delete_def remove1_idem)
    then show "ok (undeclare_client_queue_t q a s) (\<lambda>s'. core s' \<and> regs s' = regs s \<and> sheds {(Declared q, a)} s s' \<and>
        (\<exists>qt'. queue_mem s' q = Some qt' \<and> declared_clients qt' = remove1 a (declared_clients qt) \<and> True))"
      using undeclare_core [OF a(1), of q a] by (auto simp: ok_def sheds_member)
  next
    show "client_mem s a \<noteq> None" if "core s" "queue_mem s q = Some qt" "a \<in> set (declared_clients qt)" for a s qt
      using client_of_tie [OF that(1), of a "Declared q"] that by simp
  qed (use assms st in simp_all)
  then have s1: "core s1" "regs s1 = regs s" "sheds ({Declared q} \<times> set (declared_clients qt)) s s1" "declared_clients qt1 = []"
    using st(3) by auto
  have step: "ok (un f a s) (\<lambda>s'. core s' \<and> regs s' = regs s \<and> sheds {(Subscribed q, a)} s s' \<and> queue_mem s' q = Some (f a qt))"
    if a: "core s" "client_mem s a = Some c" "queue_mem s q = Some qt"
      and f: "f a qt = (if a \<in> set (subscribed_clients_msg qt) then qt\<lparr>subscribed_clients_msg := remove1 a (subscribed_clients_msg qt)\<rparr>
        else qt\<lparr>subscribed_clients_notify := remove1 a (subscribed_clients_notify qt)\<rparr>)" for f a s c qt
  proof -
    have "un f a s = Some (s\<lparr>client_mem := (client_mem s)(a \<mapsto> c\<lparr>subscribed_queues := remove1 q (subscribed_queues c)\<rparr>), queue_mem := (queue_mem s)(q \<mapsto> f a qt)\<rparr>)"
      using a by (simp add: un_def upd_Some seq_delete_def remove1_idem)
    then show ?thesis using unsubscribe_step [OF a refl f] by (auto simp: ok_def sheds_member)
  qed
  have cl: "client_mem s a \<noteq> None" if "core s" "queue_mem s q = Some qt" "a \<in> set (subscribed_clients_msg qt) \<union> set (subscribed_clients_notify qt)" for a s qt
    using client_of_tie [OF that(1), of a "Subscribed q"] that by simp
  have "core s2 \<and> regs s2 = regs s1 \<and> sheds ({Subscribed q} \<times> set (subscribed_clients_msg qt1)) s1 s2 \<and>
      (\<exists>qt'. queue_mem s2 q = Some qt' \<and> subscribed_clients_msg qt' = [] \<and> declared_clients qt' = declared_clients qt1)"
    by (rule okD [OF _ st(4)], rule eject_loop [where xs = subscribed_clients_msg and P = "\<lambda>x y. declared_clients y = declared_clients x"])
      (use s1(1) st(3) cl in \<open>auto simp: um_def intro!: step [THEN ok_mono]\<close>)
  then have s2: "core s2" "regs s2 = regs s1" "sheds ({Subscribed q} \<times> set (subscribed_clients_msg qt1)) s1 s2"
      "subscribed_clients_msg qt2 = []" "declared_clients qt2 = []" using st(5) s1(4) by auto
  have "core s' \<and> regs s' = regs s2 \<and> sheds ({Subscribed q} \<times> set (subscribed_clients_notify qt2)) s2 s' \<and>
      (\<exists>qt'. queue_mem s' q = Some qt' \<and> subscribed_clients_notify qt' = [] \<and> declared_clients qt' = declared_clients qt2 \<and>
        subscribed_clients_msg qt' = subscribed_clients_msg qt2)"
  proof (rule okD [OF _ st(6)], rule eject_loop [where xs = subscribed_clients_notify and
      P = "\<lambda>x y. declared_clients y = declared_clients x \<and> subscribed_clients_msg y = subscribed_clients_msg x"])
    fix a s c qt
    assume a: "core s" "client_mem s a = Some c" "queue_mem s q = Some qt" "a \<in> set (subscribed_clients_notify qt)"
    then have "a \<notin> set (subscribed_clients_msg qt)" using core_ok(1) [OF a(1,3)] by (auto simp: q_ok_def)
    then show "ok (uf a s) (\<lambda>s'. core s' \<and> regs s' = regs s \<and> sheds {(Subscribed q, a)} s s' \<and> (\<exists>qt'. queue_mem s' q = Some qt' \<and>
        subscribed_clients_notify qt' = remove1 a (subscribed_clients_notify qt) \<and> declared_clients qt' = declared_clients qt \<and>
        subscribed_clients_msg qt' = subscribed_clients_msg qt))"
      unfolding uf_def by (intro step [OF a(1-3), THEN ok_mono]) auto
  qed (use s2(1) st(5) cl in auto)
  then obtain qt3 where s3: "core s'" "regs s' = regs s2" "sheds ({Subscribed q} \<times> set (subscribed_clients_notify qt2)) s2 s'"
      "queue_mem s' q = Some qt3" "subscribed_clients_notify qt3 = []" "declared_clients qt3 = []" "subscribed_clients_msg qt3 = []"
    using s2(4,5) by auto
  have "tied s' = held s'" using s3(1) by (simp add: core_def)
  then have "tied s' (Declared q) = {}" "tied s' (Subscribed q) = {}" using s3(4-7) by simp_all
  moreover have "sheds {} s s'" using sheds_trans [OF sheds_trans [OF s1(3) s2(3)] s3(3)] sheds_mono by blast
  ultimately show "core s' \<and> regs s' = regs s \<and> sheds {} s s' \<and> tied s' (Declared q) = {} \<and> tied s' (Subscribed q) = {}"
    using s1(2) s2(2) s3(1,2) by simp
qed

end
