(* ===== verification/ChannelTies.thy ===== *)
theory ChannelTies
  imports QueueTies
begin

text \<open>
  Subscribing to a channel and leaving it, with the channel that deletes itself.
\<close>

section \<open>Ties to channels\<close>

lemma seq_delete_snd: "snd (seq_delete x xs) = remove1 x xs"
  by (simp add: seq_delete_def remove1_idem)

lemma add_subscriber_keyed:
  assumes "wf_keyed kl" "add_subscriber k a kl = Some kl'"
  shows "wf_keyed kl' \<and> entries kl' = insert (k, a) (entries kl)"
proof -
  have "(k, a) \<notin> entries kl" "kl' = (case map_of kl k of None \<Rightarrow> AList.update k [a] kl | Some xs \<Rightarrow> AList.update k (xs @ [a]) kl)"
    using assms(2) by (auto simp: add_subscriber_def entries_def split: option.split_asm if_split_asm simp del: map_of_eq_Some_iff)
  then show ?thesis using keyed_add [OF assms(1), of k a] by simp
qed

lemma remove_subscriber_keyed:
  assumes "wf_keyed kl" "map_of kl k = Some cs"
  shows "wf_keyed (remove_subscriber k cs a kl) \<and> entries (remove_subscriber k cs a kl) = entries kl - {(k, a)}"
  unfolding remove_subscriber_def Let_def seq_delete_snd by (rule keyed_remove [OF assms])

lemma add_keylist_keyed:
  assumes "wf_keyed kl"
  shows "wf_keyed (add_keylist_channel_t kl ch n) \<and> entries (add_keylist_channel_t kl ch n) = insert (ch, n) (entries kl)"
proof (cases "(ch, n) \<in> entries kl")
  case True
  then have "add_keylist_channel_t kl ch n = kl"
    by (auto simp: add_keylist_channel_t_def entries_def split: option.split simp del: map_of_eq_Some_iff)
  then show ?thesis using assms True by auto
next
  case False
  then have "add_keylist_channel_t kl ch n = (case map_of kl ch of None \<Rightarrow> AList.update ch [n] kl | Some xs \<Rightarrow> AList.update ch (xs @ [n]) kl)"
    by (auto simp: add_keylist_channel_t_def entries_def split: option.split simp del: map_of_eq_Some_iff)
  then show ?thesis using keyed_add [OF assms False] by simp
qed

lemma remove_keylist_keyed:
  assumes "wf_keyed kl"
  shows "wf_keyed (snd (remove_keylist_channel_t kl ch n)) \<and> entries (snd (remove_keylist_channel_t kl ch n)) = entries kl - {(ch, n)}"
proof (cases "map_of kl ch")
  case None
  then show ?thesis using assms keyed_absent [of kl ch n] by (simp add: remove_keylist_channel_t_def)
next
  case (Some ns)
  then show ?thesis using keyed_remove [OF assms Some, of n] by (simp add: remove_keylist_channel_t_def seq_delete_snd Let_def)
qed

lemma set_channel_held:
  assumes "channel_mem s' = (channel_mem s)(ch \<mapsto> ct)" "queue_mem s' = queue_mem s"
  shows "held s' (Topic c k) = (if c = ch then {a. (k, a) \<in> entries (topics ct)} else held s (Topic c k))"
    "held s' (Pattern c k) = (if c = ch then {a. (k, a) \<in> entries (patterns ct)} else held s (Pattern c k))"
    "held s' (Declared q) = held s (Declared q)" "held s' (Subscribed q) = held s (Subscribed q)"
  using assms by auto

lemma channel_tie_step:
  assumes "core s" "client_mem s a = Some c" "channel_mem s ch = Some ct"
    and "s' = s\<lparr>client_mem := (client_mem s)(a \<mapsto> c'), channel_mem := (channel_mem s)(ch \<mapsto> ct')\<rparr>"
    and "cl_tie c' = (cl_tie c)(t := b)" "cl_ok c'" "ch_ok ct'"
    and "t = Topic ch k \<and> entries (topics ct') = set_member b (k, a) (entries (topics ct)) \<and> patterns ct' = patterns ct \<or>
      t = Pattern ch k \<and> entries (patterns ct') = set_member b (k, a) (entries (patterns ct)) \<and> topics ct' = topics ct"
  shows "core s' \<and> regs s' = regs s \<and> tied s' = (tied s)(t := set_member b a (tied s t))"
proof (rule tie_step [OF assms(1) _ assms(2) _ assms(5,6)])
  show "regs s' = regs s" using assms(2-4) by (auto simp: regs_def lists_def)
  show "client_mem s' = (client_mem s)(a \<mapsto> c')" by (simp add: assms(4))
  show "linked s' = linked s" by (rule linked_same(1)) (simp_all add: assms(4))
  note h = set_channel_held [of s' s ch ct']
  show "held s' = (held s)(t := set_member b a (held s t))"
  proof
    fix t'
    show "held s' t' = ((held s)(t := set_member b a (held s t))) t'"
      using assms(3,4,8) h by (cases t'; cases t) (auto simp: set_member_def split: if_split_asm)
  qed
  show "q_ok x" if "queue_mem s' p = Some x" for p x using that assms(4) core_ok(1) [OF assms(1)] by auto
  show "ch_ok x" if "channel_mem s' p = Some x" for p x using that assms(4,7) core_ok(2) [OF assms(1)] by (auto split: if_split_asm)
qed

lemma cl_tie_channels:
  "entries kl = set_member b (ch, k) (entries (subscribed_topics c)) \<Longrightarrow> cl_tie (c\<lparr>subscribed_topics := kl\<rparr>) = (cl_tie c)(Topic ch k := b)"
  "entries kl = set_member b (ch, k) (entries (subscribed_patterns c)) \<Longrightarrow> cl_tie (c\<lparr>subscribed_patterns := kl\<rparr>) = (cl_tie c)(Pattern ch k := b)"
proof -
  show "cl_tie (c\<lparr>subscribed_topics := kl\<rparr>) = (cl_tie c)(Topic ch k := b)" if "entries kl = set_member b (ch, k) (entries (subscribed_topics c))"
  proof
    show "cl_tie (c\<lparr>subscribed_topics := kl\<rparr>) t = ((cl_tie c)(Topic ch k := b)) t" for t using that by (cases t) (auto simp: set_member_def)
  qed
  show "cl_tie (c\<lparr>subscribed_patterns := kl\<rparr>) = (cl_tie c)(Pattern ch k := b)" if "entries kl = set_member b (ch, k) (entries (subscribed_patterns c))"
  proof
    show "cl_tie (c\<lparr>subscribed_patterns := kl\<rparr>) t = ((cl_tie c)(Pattern ch k := b)) t" for t using that by (cases t) (auto simp: set_member_def)
  qed
qed

lemma subscribe_channel_core:
  assumes "core s"
  shows "ok (subscribe_channel_t ch a k s) (\<lambda>s'. core s' \<and> regs s' = regs s)" "ok (psubscribe_channel_t ch a k s) (\<lambda>s'. core s' \<and> regs s' = regs s)"
proof -
  show "ok (subscribe_channel_t ch a k s) (\<lambda>s'. core s' \<and> regs s' = regs s)"
  proof (rule okI)
    fix s' assume r: "subscribe_channel_t ch a k s = Some s'"
    then obtain ct where ct: "channel_mem s ch = Some ct" by (auto simp: subscribe_channel_t_def bind_eq_Some_conv)
    show "core s' \<and> regs s' = regs s"
    proof (cases "add_subscriber k a (topics ct)")
      case None
      then show ?thesis using r ct assms by (simp add: subscribe_channel_t_def)
    next
      case (Some kl)
      then obtain c where c: "client_mem s a = Some c" using r ct by (auto simp: subscribe_channel_t_def upd_channel_def upd_client_def bind_eq_Some_conv)
      note w = core_ok(2) [OF assms ct] core_ok(3) [OF assms c]
      have kl: "wf_keyed kl" "entries kl = insert (k, a) (entries (topics ct))"
        using add_subscriber_keyed [OF _ Some] w(1) by (simp_all add: ch_ok_def)
      let ?kl = "add_keylist_channel_t (subscribed_topics c) ch k"
      have al: "wf_keyed ?kl" "entries ?kl = insert (ch, k) (entries (subscribed_topics c))"
        using add_keylist_keyed [of "subscribed_topics c" ch k] w(2) by (simp_all add: cl_ok_def)
      have s': "s' = s\<lparr>client_mem := (client_mem s)(a \<mapsto> c\<lparr>subscribed_topics := ?kl\<rparr>), channel_mem := (channel_mem s)(ch \<mapsto> ct\<lparr>topics := kl\<rparr>)\<rparr>"
        by (rule server.equality) (use r ct Some c in \<open>auto simp: subscribe_channel_t_def upd_channel_def upd_client_def\<close>)
      have "cl_tie (c\<lparr>subscribed_topics := ?kl\<rparr>) = (cl_tie c)(Topic ch k := True)" by (rule cl_tie_channels(1)) (simp add: al set_member_def)
      from channel_tie_step [OF assms c ct s' this] show ?thesis
        using w al kl by (simp add: set_member_def cl_ok_def ch_ok_def)
    qed
  qed
  show "ok (psubscribe_channel_t ch a k s) (\<lambda>s'. core s' \<and> regs s' = regs s)"
  proof (rule okI)
    fix s' assume r: "psubscribe_channel_t ch a k s = Some s'"
    then obtain ct where ct: "channel_mem s ch = Some ct" by (auto simp: psubscribe_channel_t_def bind_eq_Some_conv)
    show "core s' \<and> regs s' = regs s"
    proof (cases "add_subscriber k a (patterns ct)")
      case None
      then show ?thesis using r ct assms by (simp add: psubscribe_channel_t_def)
    next
      case (Some kl)
      then obtain c where c: "client_mem s a = Some c" using r ct by (auto simp: psubscribe_channel_t_def upd_channel_def upd_client_def bind_eq_Some_conv)
      note w = core_ok(2) [OF assms ct] core_ok(3) [OF assms c]
      have kl: "wf_keyed kl" "entries kl = insert (k, a) (entries (patterns ct))"
        using add_subscriber_keyed [OF _ Some] w(1) by (simp_all add: ch_ok_def)
      let ?kl = "add_keylist_channel_t (subscribed_patterns c) ch k"
      have al: "wf_keyed ?kl" "entries ?kl = insert (ch, k) (entries (subscribed_patterns c))"
        using add_keylist_keyed [of "subscribed_patterns c" ch k] w(2) by (simp_all add: cl_ok_def)
      have s': "s' = s\<lparr>client_mem := (client_mem s)(a \<mapsto> c\<lparr>subscribed_patterns := ?kl\<rparr>), channel_mem := (channel_mem s)(ch \<mapsto> ct\<lparr>patterns := kl\<rparr>)\<rparr>"
        by (rule server.equality) (use r ct Some c in \<open>auto simp: psubscribe_channel_t_def upd_channel_def upd_client_def\<close>)
      have "cl_tie (c\<lparr>subscribed_patterns := ?kl\<rparr>) = (cl_tie c)(Pattern ch k := True)" by (rule cl_tie_channels(2)) (simp add: al set_member_def)
      from channel_tie_step [OF assms c ct s' this] show ?thesis
        using w al kl by (simp add: set_member_def cl_ok_def ch_ok_def)
    qed
  qed
qed

section \<open>Leaving a channel\<close>

text \<open>All registers but those of the channels, and a channel list that stays exact.\<close>

definition but_channels :: "server \<Rightarrow> (addr list \<times> addr list \<times> addr list \<times> addr list) \<times> addr set \<times> addr set \<times> addr set \<times> addr set \<times> addr" where
  "but_channels s = ((queues s, routes s, users s, clients s), dom (queue_mem s), dom (route_mem s), dom (user_mem s), dom (client_mem s), fresh s)"

definition channels_kept :: "server \<Rightarrow> server \<Rightarrow> bool" where
  "channels_kept s s' \<longleftrightarrow> but_channels s' = but_channels s \<and>
     (\<forall>C. listed (channels s) (dom (channel_mem s)) C \<longrightarrow> listed (channels s') (dom (channel_mem s')) C)"

lemma channels_kept_trans: "channels_kept s s1 \<Longrightarrow> channels_kept s1 s2 \<Longrightarrow> channels_kept s s2"
  by (simp add: channels_kept_def)

lemma regs_channels_kept: "regs s' = regs s \<Longrightarrow> channels_kept s s'"
  by (simp add: channels_kept_def but_channels_def regs_def lists_def)

lemma wired_channels_kept: "wired_but Q R C U s \<Longrightarrow> core s' \<Longrightarrow> channels_kept s s' \<Longrightarrow> wired_but Q R C U s'"
  by (simp add: wired_but_def channels_kept_def but_channels_def)

text \<open>A channel nobody is tied to can go.\<close>

lemma drop_channel:
  assumes "core s" "\<And>k. held s (Topic ch k) = {}" "\<And>k. held s (Pattern ch k) = {}"
    and s': "s' = s\<lparr>channels := xs, channel_mem := (channel_mem s)(ch := None)\<rparr>"
  shows "core s' \<and> tied s' = tied s \<and> but_channels s' = but_channels s \<and> dom (channel_mem s') = dom (channel_mem s) - {ch}"
proof -
  have "held s' t = held s t" for t using assms(2,3) s' by (cases t) auto
  then have "held s' = held s" by blast
  moreover have "tied s' = tied s" by (simp add: s' tied_def fun_eq_iff)
  moreover have "linked s' = linked s" by (rule linked_same(1)) (simp_all add: s')
  moreover have "bounded_addrs s \<Longrightarrow> bounded_addrs s'" by (auto simp: bounded_addrs_def s')
  moreover have "wf_ties s \<Longrightarrow> wf_ties s'" by (auto simp: wf_ties_def s')
  ultimately show ?thesis using assms(1) by (auto simp: core_def but_channels_def s')
qed

lemma auto_delete_core:
  assumes "core s"
  shows "ok (auto_delete_channel ch s) (\<lambda>s'. core s' \<and> tied s' = tied s \<and> channels_kept s s')"
proof (rule okI)
  fix s' assume r: "auto_delete_channel ch s = Some s'"
  then obtain ct where ct: "channel_mem s ch = Some ct" by (auto simp: auto_delete_channel_def bind_eq_Some_conv)
  show "core s' \<and> tied s' = tied s \<and> channels_kept s s'"
  proof (cases "chauto_delete ct \<and> topics ct = [] \<and> patterns ct = [] \<and> ch \<in> set (channels s)")
    case True
    then have "s' = s\<lparr>channels := remove1 ch (channels s), channel_mem := (channel_mem s)(ch := None)\<rparr>"
      using r ct by (simp add: auto_delete_channel_def)
    from drop_channel [OF assms _ _ this] show ?thesis
      using True ct by (auto simp: entries_def channels_kept_def listed_def \<open>s' = _\<close>)
  next
    case False
    then show ?thesis using r ct assms by (auto simp: auto_delete_channel_def channels_kept_def)
  qed
qed

lemma unsubscribe_channel_core:
  assumes "core s"
  shows "ok (unsubscribe_channel_t ch a k s) (\<lambda>(st, s'). core s' \<and> sheds {(Topic ch k, a)} s s' \<and> channels_kept s s')"
    "ok (punsubscribe_channel_t ch a k s) (\<lambda>(st, s'). core s' \<and> sheds {(Pattern ch k, a)} s s' \<and> channels_kept s s')"
proof -
  have agree: "held s = tied s" using assms by (simp add: core_def)
  have fin: "core s3 \<and> sheds {(t, a)} s s3 \<and> channels_kept s s3"
    if "core s2 \<and> regs s2 = regs s \<and> tied s2 = (tied s)(t := set_member False a (tied s t))" "auto_delete_channel ch s2 = Some s3" for t s2 s3
  proof -
    have "core s3 \<and> tied s3 = tied s2 \<and> channels_kept s2 s3" by (rule okD [OF auto_delete_core that(2)]) (use that(1) in simp)
    moreover have "channels_kept s s2" using that(1) by (simp add: regs_channels_kept)
    ultimately show ?thesis using that(1) channels_kept_trans [of s s2 s3] by (simp add: sheds_member)
  qed
  show "ok (unsubscribe_channel_t ch a k s) (\<lambda>(st, s'). core s' \<and> sheds {(Topic ch k, a)} s s' \<and> channels_kept s s')"
  proof (rule okI, clarify)
    fix st s' assume r: "unsubscribe_channel_t ch a k s = Some (st, s')"
    then obtain ct where ct: "channel_mem s ch = Some ct" by (auto simp: unsubscribe_channel_t_def bind_eq_Some_conv)
    show "core s' \<and> sheds {(Topic ch k, a)} s s' \<and> channels_kept s s'"
    proof (cases "map_of (topics ct) k")
      case None
      then have "tied s (Topic ch k) = {}" using ct keyed_absent [OF None] by (simp add: agree [symmetric])
      then show ?thesis using None r ct assms by (auto simp: unsubscribe_channel_t_def sheds_def channels_kept_def)
    next
      case (Some cs)
      then obtain c where c: "client_mem s a = Some c" using r ct by (auto simp: unsubscribe_channel_t_def upd_client_def bind_eq_Some_conv)
      note w = core_ok(2) [OF assms ct] core_ok(3) [OF assms c]
      let ?kl = "snd (remove_keylist_channel_t (subscribed_topics c) ch k)"
      have rk: "wf_keyed ?kl \<and> entries ?kl = entries (subscribed_topics c) - {(ch, k)}" using remove_keylist_keyed w(2) by (simp add: cl_ok_def)
      then have tie: "cl_tie (c\<lparr>subscribed_topics := ?kl\<rparr>) = (cl_tie c)(Topic ch k := False)" by (intro cl_tie_channels(1)) (simp add: set_member_def)
      define s2 where "s2 = s\<lparr>client_mem := (client_mem s)(a \<mapsto> c\<lparr>subscribed_topics := ?kl\<rparr>),
        channel_mem := (channel_mem s)(ch \<mapsto> ct\<lparr>topics := remove_subscriber k cs a (topics ct)\<rparr>)\<rparr>"
      have "auto_delete_channel ch s2 = Some s'"
        using r ct Some c by (auto simp: unsubscribe_channel_t_def upd_client_def upd_channel_def bind_eq_Some_conv s2_def)
      moreover have "core s2 \<and> regs s2 = regs s \<and> tied s2 = (tied s)(Topic ch k := set_member False a (tied s (Topic ch k)))"
        using channel_tie_step [OF assms c ct s2_def tie] w rk remove_subscriber_keyed [OF _ Some, of a]
        by (simp add: set_member_def cl_ok_def ch_ok_def)
      ultimately show ?thesis using fin by blast
    qed
  qed
  show "ok (punsubscribe_channel_t ch a k s) (\<lambda>(st, s'). core s' \<and> sheds {(Pattern ch k, a)} s s' \<and> channels_kept s s')"
  proof (rule okI, clarify)
    fix st s' assume r: "punsubscribe_channel_t ch a k s = Some (st, s')"
    then obtain ct where ct: "channel_mem s ch = Some ct" by (auto simp: punsubscribe_channel_t_def bind_eq_Some_conv)
    show "core s' \<and> sheds {(Pattern ch k, a)} s s' \<and> channels_kept s s'"
    proof (cases "map_of (patterns ct) k")
      case None
      then have "tied s (Pattern ch k) = {}" using ct keyed_absent [OF None] by (simp add: agree [symmetric])
      then show ?thesis using None r ct assms by (auto simp: punsubscribe_channel_t_def sheds_def channels_kept_def)
    next
      case (Some cs)
      then obtain c where c: "client_mem s a = Some c" using r ct by (auto simp: punsubscribe_channel_t_def upd_client_def bind_eq_Some_conv)
      note w = core_ok(2) [OF assms ct] core_ok(3) [OF assms c]
      let ?kl = "snd (remove_keylist_channel_t (subscribed_patterns c) ch k)"
      have rk: "wf_keyed ?kl \<and> entries ?kl = entries (subscribed_patterns c) - {(ch, k)}" using remove_keylist_keyed w(2) by (simp add: cl_ok_def)
      then have tie: "cl_tie (c\<lparr>subscribed_patterns := ?kl\<rparr>) = (cl_tie c)(Pattern ch k := False)" by (intro cl_tie_channels(2)) (simp add: set_member_def)
      define s2 where "s2 = s\<lparr>client_mem := (client_mem s)(a \<mapsto> c\<lparr>subscribed_patterns := ?kl\<rparr>),
        channel_mem := (channel_mem s)(ch \<mapsto> ct\<lparr>patterns := remove_subscriber k cs a (patterns ct)\<rparr>)\<rparr>"
      have "auto_delete_channel ch s2 = Some s'"
        using r ct Some c by (auto simp: punsubscribe_channel_t_def upd_client_def upd_channel_def bind_eq_Some_conv s2_def)
      moreover have "core s2 \<and> regs s2 = regs s \<and> tied s2 = (tied s)(Pattern ch k := set_member False a (tied s (Pattern ch k)))"
        using channel_tie_step [OF assms c ct s2_def tie] w rk remove_subscriber_keyed [OF _ Some, of a]
        by (simp add: set_member_def cl_ok_def ch_ok_def)
      ultimately show ?thesis using fin by blast
    qed
  qed
qed

end
