(* ===== verification/Shrinks.thy ===== *)
theory Shrinks
  imports ChannelTies
begin

text \<open>
  The operations that only take away, and what they do to routes and bindings.
\<close>

section \<open>Steps that only take away\<close>

text \<open>
  \<open>shrinks T s s'\<close>: the invariant still holds, the lists of the server stay exact, nothing is added
  and the ties \<open>T\<close> are gone.
\<close>

definition regs_kept :: "server \<Rightarrow> server \<Rightarrow> bool" where
  "regs_kept s s' \<longleftrightarrow> users s' = users s \<and> clients s' = clients s \<and> dom (user_mem s') = dom (user_mem s) \<and>
     dom (client_mem s') = dom (client_mem s) \<and>
     (\<forall>Q. listed (queues s) (dom (queue_mem s)) Q \<longrightarrow> listed (queues s') (dom (queue_mem s')) Q) \<and>
     (\<forall>R. listed (routes s) (dom (route_mem s)) R \<longrightarrow> listed (routes s') (dom (route_mem s')) R) \<and>
     (\<forall>C. listed (channels s) (dom (channel_mem s)) C \<longrightarrow> listed (channels s') (dom (channel_mem s')) C)"

definition shrinks :: "(tie \<times> addr) set \<Rightarrow> server \<Rightarrow> server \<Rightarrow> bool" where
  "shrinks T s s' \<longleftrightarrow> core s' \<and> regs_kept s s' \<and> sheds T s s'"

lemma shrinks_refl: "core s \<Longrightarrow> shrinks {} s s"
  by (simp add: shrinks_def regs_kept_def sheds_def)

lemma shrinks_trans: "shrinks T s s1 \<Longrightarrow> shrinks T' s1 s2 \<Longrightarrow> shrinks (T \<union> T') s s2"
  using sheds_trans [of T s s1 T' s2] by (simp add: shrinks_def regs_kept_def)

lemma shrinks_weaken: "shrinks T s s' \<Longrightarrow> shrinks {} s s'"
  using sheds_mono by (auto simp: shrinks_def)

lemma shrinks_core: "shrinks T s s' \<Longrightarrow> core s'"
  by (simp add: shrinks_def)

lemma wired_shrinks: "wired_but Q R C U s \<Longrightarrow> shrinks T s s' \<Longrightarrow> wired_but Q R C U s'"
  by (simp add: wired_but_def shrinks_def regs_kept_def)

lemma kept_shrinks: "core s \<Longrightarrow> kept s s' \<Longrightarrow> shrinks {} s s'"
  using kept_core [of s s'] kept_dom [of s s'] keptD(5-7) [of s s'] kept_ties(1) [of s s']
  by (simp add: shrinks_def regs_kept_def lists_def sheds_def)

lemma regs_shrinks: "core s' \<Longrightarrow> regs s' = regs s \<Longrightarrow> sheds T s s' \<Longrightarrow> shrinks T s s'"
  by (simp add: shrinks_def regs_kept_def regs_def lists_def)

lemma channels_shrinks: "core s' \<Longrightarrow> channels_kept s s' \<Longrightarrow> sheds T s s' \<Longrightarrow> shrinks T s s'"
  by (simp add: shrinks_def regs_kept_def channels_kept_def but_channels_def)

text \<open>What follows an operation that shrinks, from a point of view further back.\<close>

lemma ok_shrinks_trans: "shrinks T s0 s \<Longrightarrow> ok m (shrinks T' s) \<Longrightarrow> (\<And>s'. shrinks (T \<union> T') s0 s' \<Longrightarrow> Q s') \<Longrightarrow> ok m Q"
  using shrinks_trans by (fastforce simp: ok_def)

lemma shrinks_leave_queue:
  assumes "core s"
  shows "ok (undeclare_client_queue_t q a s) (shrinks {(Declared q, a)} s)" "ok (unsubscribe_client_queue_t q a s) (shrinks {(Subscribed q, a)} s)"
    "ok (eject_clients_queue_t q s) (\<lambda>s'. shrinks {} s s' \<and> tied s' (Declared q) = {} \<and> tied s' (Subscribed q) = {} \<and> regs s' = regs s)"
  using undeclare_core [OF assms, of q a] unsubscribe_core [OF assms, of q a] eject_clients_core [OF assms, of q]
  by (auto simp: ok_def intro: regs_shrinks sheds_member)

lemma shrinks_leave_channel:
  assumes "core s"
  shows "ok (unsubscribe_channel_t ch a k s) (\<lambda>(st, s'). shrinks {(Topic ch k, a)} s s')"
    "ok (punsubscribe_channel_t ch a k s) (\<lambda>(st, s'). shrinks {(Pattern ch k, a)} s s')"
  using unsubscribe_channel_core [OF assms, of ch a k] by (auto simp: ok_def intro: channels_shrinks)

lemma shrinks_each:
  assumes "\<And>x s. core s \<Longrightarrow> x \<in> set xs \<Longrightarrow> ok (f x s) (shrinks (T x) s)" "core s"
  shows "ok (for_each f xs s) (shrinks (\<Union>x \<in> set xs. T x) s)"
  using assms
proof (induction xs arbitrary: s)
  case Nil
  then show ?case by (simp add: ok_def shrinks_refl)
next
  case (Cons x xs)
  show ?case unfolding for_each.simps
  proof (rule ok_bind, rule ok_mono)
    show "ok (f x s) (shrinks (T x) s)" using Cons.prems by simp
    fix s1 assume s1: "shrinks (T x) s s1"
    have "ok (for_each f xs s1) (shrinks (\<Union>x \<in> set xs. T x) s1)" using Cons.IH Cons.prems(1) shrinks_core [OF s1] by simp
    then show "ok (for_each f xs s1) (shrinks (\<Union>x \<in> set (x # xs). T x) s)"
      by (rule ok_mono) (use shrinks_trans [OF s1] in fastforce)
  qed
qed

section \<open>Routes\<close>

definition but_routes :: "server \<Rightarrow> (addr list \<times> addr list \<times> addr list \<times> addr list) \<times> addr \<times> (addr \<Rightarrow> queue_t option) \<times>
    (addr \<Rightarrow> channel_t option) \<times> (addr \<Rightarrow> eagle_user option) \<times> (addr \<Rightarrow> eagle_client option)" where
  "but_routes s = ((queues s, channels s, users s, clients s), fresh s, (\<lambda>q. map_option (\<lambda>qt. qt\<lparr>qroutes := []\<rparr>) (queue_mem s q)),
     channel_mem s, user_mem s, client_mem s)"

definition routes_same :: "server \<Rightarrow> server \<Rightarrow> bool" where
  "routes_same s s' \<longleftrightarrow> but_routes s' = but_routes s \<and> routes s' = routes s \<and> dom (route_mem s') = dom (route_mem s)"

definition routes_kept :: "server \<Rightarrow> server \<Rightarrow> bool" where
  "routes_kept s s' \<longleftrightarrow> but_routes s' = but_routes s \<and> dom (route_mem s') \<subseteq> dom (route_mem s) \<and>
     (\<forall>R. listed (routes s) (dom (route_mem s)) R \<longrightarrow> listed (routes s') (dom (route_mem s')) R)"

lemma routes_same_kept: "routes_same s s' \<Longrightarrow> routes_kept s s'"
  by (simp add: routes_same_def routes_kept_def)

lemma routes_refl: "routes_same s s" "routes_kept s s"
  by (simp_all add: routes_same_def routes_kept_def)

lemma routes_trans: "routes_same s s1 \<Longrightarrow> routes_same s1 s2 \<Longrightarrow> routes_same s s2" "routes_kept s s1 \<Longrightarrow> routes_kept s1 s2 \<Longrightarrow> routes_kept s s2"
proof -
  show "routes_same s s1 \<Longrightarrow> routes_same s1 s2 \<Longrightarrow> routes_same s s2" by (simp add: routes_same_def)
  assume a: "routes_kept s s1" "routes_kept s1 s2"
  then have "dom (route_mem s2) \<subseteq> dom (route_mem s)" unfolding routes_kept_def by (elim conjE) (rule subset_trans)
  then show "routes_kept s s2" using a by (simp add: routes_kept_def)
qed

lemma same_qroutes:
  "(case map_of (qroutes x) k of None \<Rightarrow> x | Some rs \<Rightarrow> (let rs' = snd (seq_delete r rs) in
     if rs' = [] then x\<lparr>qroutes := AList.delete k (qroutes x)\<rparr> else x\<lparr>qroutes := AList.update k rs' (qroutes x)\<rparr>))\<lparr>qroutes := []\<rparr> = x\<lparr>qroutes := []\<rparr>"
  "(case map_of (qroutes x) k of None \<Rightarrow> x\<lparr>qroutes := AList.update k [r] (qroutes x)\<rparr>
     | Some rs \<Rightarrow> (if r \<in> set rs then x else x\<lparr>qroutes := AList.update k (rs @ [r]) (qroutes x)\<rparr>))\<lparr>qroutes := []\<rparr> = x\<lparr>qroutes := []\<rparr>"
  by (cases "map_of (qroutes x) k"; simp add: Let_def)+

lemma same_unlink: "routes_same s0 s \<Longrightarrow> ok (unlink_queue_route_t q r k s) (routes_same s0)"
  "routes_same s0 s \<Longrightarrow> ok (link_queue_route_t q r k s) (routes_same s0)"
proof -
  have *: "routes_same s0 (s\<lparr>queue_mem := (queue_mem s)(q \<mapsto> qt')\<rparr>)"
    if "routes_same s0 s" "queue_mem s q = Some qt" "qt'\<lparr>qroutes := []\<rparr> = qt\<lparr>qroutes := []\<rparr>" for qt qt'
  proof -
    have "but_routes (s\<lparr>queue_mem := (queue_mem s)(q \<mapsto> qt')\<rparr>) = but_routes s" using that(2,3) by (simp add: but_routes_def fun_eq_iff)
    then show ?thesis using that(1) by (simp add: routes_same_def)
  qed
  show "routes_same s0 s \<Longrightarrow> ok (unlink_queue_route_t q r k s) (routes_same s0)"
    unfolding unlink_queue_route_t_def upd_queue_def by (intro ok_rules, erule *, assumption) (rule same_qroutes)
  show "routes_same s0 s \<Longrightarrow> ok (link_queue_route_t q r k s) (routes_same s0)"
    unfolding link_queue_route_t_def upd_queue_def by (intro ok_rules, erule *, assumption) (rule same_qroutes)
qed

lemma same_upd_route: "routes_same s0 s \<Longrightarrow> ok (upd_route r f s) (routes_same s0)"
proof -
  have *: "routes_same s0 s \<Longrightarrow> route_mem s r = Some rt \<Longrightarrow> routes_same s0 (s\<lparr>route_mem := (route_mem s)(r \<mapsto> rt')\<rparr>)" for rt rt'
  proof -
    assume a: "routes_same s0 s" "route_mem s r = Some rt"
    have "dom ((route_mem s)(r \<mapsto> rt')) = dom (route_mem s)" using a(2) by auto
    then show ?thesis using a(1) by (simp add: routes_same_def but_routes_def del: dom_fun_upd)
  qed
  show "routes_same s0 s \<Longrightarrow> ok (upd_route r f s) (routes_same s0)"
    unfolding upd_route_def by (intro ok_rules) (erule (1) *)
qed

lemma same_unbind_queues: "routes_same s0 s \<Longrightarrow> ok (unbind_queues_route_t r s) (routes_same s0)"
  unfolding unbind_queues_route_t_def unbind_queues_key_route_t_def
  by (intro ok_rules ok_for_each [where P = "routes_same s0"]; (simp only: case_prod_unfold)?; (intro ok_for_each [where P = "routes_same s0"] same_unlink)?; assumption?)

lemma kept_delete_value:
  assumes "routes_kept s0 s"
  shows "ok (routes_delete_value r s) (\<lambda>(st, s'). routes_kept s0 s')"
proof (rule okI, clarify)
  fix st s' assume r: "routes_delete_value r s = Some (st, s')"
  show "routes_kept s0 s'"
  proof (cases "r \<in> set (routes s)")
    case False
    then show ?thesis using r assms by (simp add: routes_delete_value_def)
  next
    case True
    let ?s = "s\<lparr>routes := remove1 r (routes s)\<rparr>"
    obtain s1 where s1: "unbind_queues_route_t r ?s = Some s1" "s' = s1\<lparr>route_mem := (route_mem s1)(r := None)\<rparr>"
      using r True by (auto simp: routes_delete_value_def delete_route_t_def bind_eq_Some_conv)
    have "routes_same ?s s1" by (rule okD [OF same_unbind_queues s1(1)]) (rule routes_refl)
    then have v: "but_routes s1 = but_routes ?s" "routes s1 = remove1 r (routes s)" "dom (route_mem s1) = dom (route_mem s)"
      by (simp_all add: routes_same_def)
    have "but_routes s' = but_routes s" using v(1) by (simp add: but_routes_def s1(2))
    moreover have "dom (route_mem s') = dom (route_mem s) - {r}" using v(3) by (simp add: s1(2))
    moreover have "routes s' = remove1 r (routes s)" using v(2) by (simp add: s1(2))
    ultimately have "routes_kept s s'" using True by (auto simp: routes_kept_def listed_def)
    then show ?thesis using assms routes_trans(2) by blast
  qed
qed

lemma kept_unbind:
  assumes "routes_kept s0 s"
  shows "ok (unbind_route_t r q k s) (\<lambda>(st, s'). routes_kept s0 s')"
proof -
  have a: "routes_kept s0 x \<Longrightarrow> ok (upd_route r f x) (routes_kept s0)" for x f
    using same_upd_route [OF routes_refl(1) [of x], of r f] routes_same_kept routes_trans(2) by (fastforce simp: ok_def)
  have b: "routes_kept s0 x \<Longrightarrow> ok (unlink_queue_route_t q r k x) (routes_kept s0)" for x
    using same_unlink(1) [OF routes_refl(1) [of x], of q r k] routes_same_kept routes_trans(2) by (fastforce simp: ok_def)
  show ?thesis unfolding unbind_route_t_def
    by (intro ok_rules assms a [THEN ok_mono] b [THEN ok_mono] kept_delete_value [THEN ok_mono2]) (simp_all add: assms)
qed

lemma kept_eject_routes: "routes_kept s0 s \<Longrightarrow> ok (eject_routes_queue_t q s) (routes_kept s0)"
  unfolding eject_routes_queue_t_def eject_routes_key_queue_t_def
  by (intro ok_rules ok_for_each [where P = "routes_kept s0"] kept_unbind [THEN ok_mono2]; assumption)

lemma same_bind: "ok (bind_route_t r q k s) (routes_same s)"
  unfolding bind_route_t_def
  by (intro ok_rules same_upd_route [where ?s0.0 = s, THEN ok_mono] same_unlink routes_refl)

lemma but_routes_ties:
  assumes "but_routes s' = but_routes s"
  shows "held s' = held s" "tied s' = tied s" "wf_ties s' = wf_ties s" "dom (queue_mem s') = dom (queue_mem s)"
proof -
  have q: "map_option (\<lambda>qt. qt\<lparr>qroutes := []\<rparr>) (queue_mem s' q) = map_option (\<lambda>qt. qt\<lparr>qroutes := []\<rparr>) (queue_mem s q)" for q
    using assms by (simp add: but_routes_def fun_eq_iff)
  have oth: "channel_mem s' = channel_mem s" "client_mem s' = client_mem s" using assms by (simp_all add: but_routes_def fun_eq_iff)
  have f: "declared_clients x = declared_clients y \<and> subscribed_clients_msg x = subscribed_clients_msg y \<and> subscribed_clients_notify x = subscribed_clients_notify y"
    if "x\<lparr>qroutes := []\<rparr> = y\<lparr>qroutes := []\<rparr>" for x y :: queue_t
    using arg_cong [OF that, of declared_clients] arg_cong [OF that, of subscribed_clients_msg] arg_cong [OF that, of subscribed_clients_notify] by simp
  show "tied s' = tied s" using oth by (simp add: tied_def fun_eq_iff)
  have c: "q_clients (queue_mem s' q) g = q_clients (queue_mem s q) g" if g: "\<And>x y. x\<lparr>qroutes := []\<rparr> = y\<lparr>qroutes := []\<rparr> \<Longrightarrow> g x = g y" for q g
  proof (cases "queue_mem s q")
    case None
    then show ?thesis using q [of q] by simp
  next
    case (Some x)
    then obtain y where y: "queue_mem s' q = Some y" "y\<lparr>qroutes := []\<rparr> = x\<lparr>qroutes := []\<rparr>" using q [of q] by (cases "queue_mem s' q") auto
    show ?thesis using Some y(1) g [OF y(2)] by simp
  qed
  have "held s' t = held s t" for t
  proof (cases t)
    case (Declared q)
    have "set (declared_clients x) = set (declared_clients y)" if "x\<lparr>qroutes := []\<rparr> = y\<lparr>qroutes := []\<rparr>" for x y :: queue_t using f [OF that] by simp
    from c [where g = "\<lambda>qt. set (declared_clients qt)", OF this] show ?thesis using Declared by simp
  next
    case (Subscribed q)
    have "set (subscribed_clients_msg x) \<union> set (subscribed_clients_notify x) = set (subscribed_clients_msg y) \<union> set (subscribed_clients_notify y)"
      if "x\<lparr>qroutes := []\<rparr> = y\<lparr>qroutes := []\<rparr>" for x y :: queue_t using f [OF that] by simp
    from c [where g = "\<lambda>qt. set (subscribed_clients_msg qt) \<union> set (subscribed_clients_notify qt)", OF this] show ?thesis using Subscribed by simp
  qed (simp_all add: oth)
  then show "held s' = held s" by blast
  have "q_ok x = q_ok y" if "x\<lparr>qroutes := []\<rparr> = y\<lparr>qroutes := []\<rparr>" for x y :: queue_t using f [OF that] by (simp add: q_ok_def)
  from same_view(1) [OF q this] show "wf_ties s' = wf_ties s" unfolding wf_ties_def using oth by simp
  have "queue_mem s' q = None \<longleftrightarrow> queue_mem s q = None" for q using q [of q] by (metis map_option_is_None)
  then show "dom (queue_mem s') = dom (queue_mem s)" by (simp add: dom_def)
qed

lemma routes_core:
  assumes "core s" "routes_kept s s'" "linked s'"
  shows "shrinks {} s s'"
proof -
  have b: "but_routes s' = but_routes s" "dom (route_mem s') \<subseteq> dom (route_mem s)" using assms(2) by (simp_all add: routes_kept_def)
  then have oth: "queues s' = queues s" "channels s' = channels s" "users s' = users s" "clients s' = clients s" "fresh s' = fresh s"
      "channel_mem s' = channel_mem s" "user_mem s' = user_mem s" "client_mem s' = client_mem s" by (simp_all add: but_routes_def)
  note t = but_routes_ties [OF b(1)]
  have "dom (route_mem s) \<subseteq> {..<fresh s}" using assms(1) by (simp add: core_def bounded_addrs_def)
  from subset_trans [OF b(2) this] have "core s'" using assms(1,3) t oth by (simp add: core_def bounded_addrs_def)
  then show ?thesis using assms(2) t oth by (simp add: shrinks_def regs_kept_def routes_kept_def sheds_def)
qed

lemma core_linked: "core s \<Longrightarrow> linked s"
  by (simp add: core_def)

lemma shrinks_bind:
  assumes "core s"
  shows "ok (bind_route_t r q k s) (shrinks {} s)"
proof (rule okI)
  fix s' assume s': "bind_route_t r q k s = Some s'"
  have sm: "routes_same s s'" by (rule okD [OF same_bind s'])
  obtain rt where rt: "route_mem s r = Some rt" using s' by (auto simp: bind_route_t_def bind_eq_Some_conv)
  show "shrinks {} s s'"
  proof (cases "queue_mem s q")
    case None
    have "\<exists>qs. map_of (keys rt) k = Some qs \<and> q \<in> set qs"
    proof (rule ccontr)
      assume "\<not> ?thesis"
      then have "bind_route_t r q k s = None" using rt None
        by (auto simp: bind_route_t_def upd_Some link_queue_route_t_def upd_queue_def split: option.split)
      then show False using s' by simp
    qed
    then have "s' = s" using s' rt by (auto simp: bind_route_t_def)
    then show ?thesis using assms shrinks_refl by simp
  next
    case (Some qt)
    then have "linked s'" using bind_route_keeps [OF core_linked [OF assms] rt, of q qt k] s' by auto
    then show ?thesis using routes_core [OF assms routes_same_kept [OF sm]] by simp
  qed
qed

end
