(* ===== verification/Deletion.thy ===== *)
theory Deletion
  imports Shrinks
begin

text \<open>
  Deleting routes, queues and channels.
\<close>

section \<open>Deleting a route or a queue\<close>

lemma shrinks_unbind:
  assumes "core s"
  shows "ok (unbind_route_t r q k s) (\<lambda>(st, s'). shrinks {} s s')"
proof (rule okI, clarify)
  fix st s' assume s': "unbind_route_t r q k s = Some (st, s')"
  have kp: "routes_kept s s'" using okD [OF kept_unbind [OF routes_refl(2)] s'] by simp
  obtain rt where rt: "route_mem s r = Some rt" using s' by (auto simp: unbind_route_t_def bind_eq_Some_conv)
  show "shrinks {} s s'"
  proof (cases "queue_mem s q")
    case None
    have "map_of (keys rt) k = None"
    proof (rule ccontr)
      assume "map_of (keys rt) k \<noteq> None"
      then have "unbind_route_t r q k s = None" using rt None
        by (auto simp: unbind_route_t_def upd_Some unlink_queue_route_t_def upd_queue_def Let_def simp del: map_of_eq_Some_iff)
      then show False using s' by simp
    qed
    then have "s' = s" using s' rt by (simp add: unbind_route_t_def)
    then show ?thesis using assms shrinks_refl by simp
  next
    case (Some qt)
    then have "linked s'" using unbind_route_keeps [OF core_linked [OF assms] rt, of q qt k] s' by auto
    then show ?thesis using routes_core [OF assms kp] by simp
  qed
qed

text \<open>The lists do not matter to the invariant of the pointers.\<close>

lemma core_lists [simp]:
  "core (s\<lparr>queues := xs\<rparr>) = core s" "core (s\<lparr>routes := xs\<rparr>) = core s" "core (s\<lparr>channels := xs\<rparr>) = core s" "core (s\<lparr>users := xs\<rparr>) = core s"
  "core (s\<lparr>clients := xs\<rparr>) = core s"
proof -
  have *: "core s' = core s" if "queue_mem s' = queue_mem s" "route_mem s' = route_mem s" "channel_mem s' = channel_mem s" "user_mem s' = user_mem s"
      "client_mem s' = client_mem s" "fresh s' = fresh s" for s'
  proof -
    have "held s' t = held s t" for t using that by (cases t) simp_all
    then have "held s' = held s" by blast
    moreover have "tied s' = tied s" using that by (simp add: tied_def fun_eq_iff)
    ultimately show ?thesis using that linked_same(1) [of s' s] by (simp add: core_def wf_ties_def bounded_addrs_def)
  qed
  show "core (s\<lparr>queues := xs\<rparr>) = core s" "core (s\<lparr>routes := xs\<rparr>) = core s" "core (s\<lparr>channels := xs\<rparr>) = core s" "core (s\<lparr>users := xs\<rparr>) = core s"
    "core (s\<lparr>clients := xs\<rparr>) = core s" by (rule *; simp)+
qed

lemma delete_route_core:
  assumes "core s"
  shows "ok (delete_route_t r s) (\<lambda>s'. linked s' \<and> but_routes s' = but_routes s \<and> routes s' = routes s \<and> dom (route_mem s') = dom (route_mem s) - {r})"
proof (rule okI)
  fix s' assume r: "delete_route_t r s = Some s'"
  then obtain s1 rt where s1: "unbind_queues_route_t r s = Some s1" "s' = s1\<lparr>route_mem := (route_mem s1)(r := None)\<rparr>" "route_mem s r = Some rt"
    by (auto simp: delete_route_t_def unbind_queues_route_t_def bind_eq_Some_conv)
  have "routes_same s s1" by (rule okD [OF same_unbind_queues s1(1)]) (rule routes_refl)
  moreover have "linked s'" using delete_route_keeps [OF core_linked [OF assms] s1(3)] r by auto
  ultimately show "linked s' \<and> but_routes s' = but_routes s \<and> routes s' = routes s \<and> dom (route_mem s') = dom (route_mem s) - {r}"
    by (simp add: s1(2) routes_same_def but_routes_def)
qed

lemma shrinks_delete_route:
  assumes "core s"
  shows "ok (routes_delete_value r s) (\<lambda>(st, s'). shrinks {} s s')"
proof (rule okI, clarify)
  fix st s' assume s': "routes_delete_value r s = Some (st, s')"
  have kp: "routes_kept s s'" using okD [OF kept_delete_value [OF routes_refl(2)] s'] by simp
  have "linked s'"
  proof (cases "r \<in> set (routes s)")
    case True
    then have "delete_route_t r (s\<lparr>routes := remove1 r (routes s)\<rparr>) = Some s'" using s' by (auto simp: routes_delete_value_def bind_eq_Some_conv)
    from okD [OF delete_route_core this] show ?thesis using assms by simp
  next
    case False
    then show ?thesis using s' core_linked [OF assms] by (simp add: routes_delete_value_def)
  qed
  then show "shrinks {} s s'" by (rule routes_core [OF assms kp])
qed

lemma eject_routes_core:
  assumes "core s"
  shows "ok (eject_routes_queue_t q s) (\<lambda>s'. shrinks {} s s' \<and> routes_kept s s' \<and> (\<forall>r k. (r, k, q) \<notin> binds s'))"
proof (rule okI)
  fix s' assume s': "eject_routes_queue_t q s = Some s'"
  then obtain qt where qt: "queue_mem s q = Some qt" by (auto simp: eject_routes_queue_t_def bind_eq_Some_conv)
  have "linked s'" "binds s' = {(r, k, p) \<in> binds s. p \<noteq> q}" using eject_routes [OF core_linked [OF assms] qt] s' by auto
  moreover have kp: "routes_kept s s'" by (rule okD [OF kept_eject_routes s']) (rule routes_refl)
  ultimately show "shrinks {} s s' \<and> routes_kept s s' \<and> (\<forall>r k. (r, k, q) \<notin> binds s')" using routes_core [OF assms kp] by simp
qed

lemma drop_queue:
  assumes "core s" "held s (Declared q) = {}" "held s (Subscribed q) = {}" "\<And>r k. (r, k, q) \<notin> binds s"
    and s': "s' = s\<lparr>queue_mem := (queue_mem s)(q := None)\<rparr>"
  shows "core s' \<and> tied s' = tied s"
proof -
  have "held s' t = held s t" for t using assms(2,3) s' by (cases t) auto
  then have h: "held s' = held s" by blast
  have t: "tied s' = tied s" by (simp add: s' tied_def fun_eq_iff)
  have w: "wf_routes s" "binds s = links s" using assms(1) by (simp_all add: core_def linked_def)
  have "links s' = {(r, k, p) \<in> links s. p \<noteq> q}" by (auto simp: links_def s')
  then have "links s' = links s" using assms(4) w(2) by auto
  moreover have "binds s' = binds s" by (simp add: binds_def s')
  moreover have "wf_routes s'" using w(1) by (auto simp: wf_routes_def s')
  ultimately have "linked s'" using w by (simp add: linked_def)
  moreover have "bounded_addrs s \<Longrightarrow> bounded_addrs s'" by (auto simp: bounded_addrs_def s')
  moreover have "wf_ties s \<Longrightarrow> wf_ties s'" by (auto simp: wf_ties_def s')
  ultimately show ?thesis using assms(1) h t by (simp add: core_def)
qed

lemma kept_free_messages: "for_each free_message_list_handler ms s = Some s' \<Longrightarrow> kept s s'"
  by (rule okD [OF kk.keeps_each [OF kept_refl kk.keeps_free_message]])

text \<open>What the deletion of a queue leaves of the lists.\<close>

definition queue_gone :: "addr \<Rightarrow> server \<Rightarrow> server \<Rightarrow> bool" where
  "queue_gone q s s' \<longleftrightarrow> queues s' = queues s \<and> dom (queue_mem s') = dom (queue_mem s) - {q} \<and> users s' = users s \<and> clients s' = clients s \<and>
     dom (user_mem s') = dom (user_mem s) \<and> dom (client_mem s') = dom (client_mem s) \<and>
     channels s' = channels s \<and> dom (channel_mem s') = dom (channel_mem s) \<and>
     (\<forall>R. listed (routes s) (dom (route_mem s)) R \<longrightarrow> listed (routes s') (dom (route_mem s')) R)"

lemma delete_queue_core:
  assumes "core s"
  shows "ok (delete_queue_t q s) (\<lambda>s'. core s' \<and> sheds {} s s' \<and> queue_gone q s s')"
proof (rule okI)
  fix s' assume "delete_queue_t q s = Some s'"
  then obtain s1 s2 freed s3 where st: "eject_clients_queue_t q s = Some s1" "eject_routes_queue_t q s1 = Some s2"
      "for_each free_message_list_handler freed s2 = Some s3" "s' = s3\<lparr>queue_mem := (queue_mem s3)(q := None)\<rparr>"
    by (auto simp: delete_queue_t_def bind_eq_Some_conv)
  have s1: "core s1" "regs s1 = regs s" "sheds {} s s1" "tied s1 (Declared q) = {}" "tied s1 (Subscribed q) = {}"
    using okD [OF eject_clients_core [OF assms] st(1)] by simp_all
  have s2: "shrinks {} s1 s2" "routes_kept s1 s2" "\<forall>r k. (r, k, q) \<notin> binds s2" using okD [OF eject_routes_core [OF s1(1)] st(2)] by simp_all
  have k: "kept s2 s3" by (rule kept_free_messages [OF st(3)])
  have s3: "core s3" "tied s3 = tied s2" "binds s3 = binds s2" using kept_core [OF shrinks_core [OF s2(1)] k] kept_ties(1) [OF k] kept_binds(1) [OF k] by simp_all
  have h: "held s3 = tied s3" using s3(1) by (simp add: core_def)
  have "tied s3 (Declared q) = {}" "tied s3 (Subscribed q) = {}" using s1(4,5) s2(1) s3(2) by (auto simp: shrinks_def sheds_def)
  then have fin: "core s' \<and> tied s' = tied s3" using drop_queue [OF s3(1) _ _ _ st(4)] h s2(3) s3(3) by simp
  have "sheds {} s s'" using sheds_trans [OF s1(3), of "{}" s2] s2(1) s3(2) fin by (simp add: shrinks_def sheds_def)
  moreover have "but_routes s2 = but_routes s1" using s2(2) by (simp add: routes_kept_def)
  ultimately show "core s' \<and> sheds {} s s' \<and> queue_gone q s s'"
    using fin s1(2) s2(2) but_routes_ties(4) [of s2 s1] kept_dom [OF k] keptD(5,6) [OF k]
    by (simp add: queue_gone_def st(4) regs_def lists_def but_routes_def routes_kept_def)
qed

lemma shrinks_delete_queue:
  assumes "core s"
  shows "ok (queues_delete_value q s) (\<lambda>(st, s'). shrinks {} s s')"
proof (rule okI, clarify)
  fix st s' assume s': "queues_delete_value q s = Some (st, s')"
  show "shrinks {} s s'"
  proof (cases "q \<in> set (queues s)")
    case True
    then have d: "delete_queue_t q (s\<lparr>queues := remove1 q (queues s)\<rparr>) = Some s'" using s' by (auto simp: queues_delete_value_def bind_eq_Some_conv)
    have *: "core s'" "sheds {} (s\<lparr>queues := remove1 q (queues s)\<rparr>) s'" "queue_gone q (s\<lparr>queues := remove1 q (queues s)\<rparr>) s'"
      using okD [OF delete_queue_core d] assms by simp_all
    then show ?thesis using True by (auto simp: shrinks_def sheds_def tied_def queue_gone_def regs_kept_def listed_def)
  next
    case False
    then show ?thesis using s' assms shrinks_refl by (simp add: queues_delete_value_def)
  qed
qed

lemma shrinks_process_queue:
  assumes "core s"
  shows "ok (process_queue_t q s) (shrinks {} s)"
  unfolding process_queue_t_def
  by (intro ok_rules shrinks_delete_queue [OF assms, THEN ok_mono2] shrinks_refl assms)

section \<open>Deleting a channel\<close>

lemma shrinks_gone: "shrinks T s s' \<Longrightarrow> (t, a) \<in> T \<Longrightarrow> a \<notin> tied s' t"
  by (auto simp: shrinks_def sheds_def)

lemma sheds_all: "sheds ({t} \<times> A) s s' \<Longrightarrow> tied s t \<subseteq> A \<Longrightarrow> sheds ({t} \<times> UNIV) s s'"
  by (auto simp: sheds_def)

lemma shrinks_all: "shrinks ({t} \<times> A) s s' \<Longrightarrow> tied s t \<subseteq> A \<Longrightarrow> shrinks ({t} \<times> UNIV) s s'"
  using sheds_all by (auto simp: shrinks_def)

lemma eject_topic:
  assumes "core s"
  shows "ok (do { ct \<leftarrow> channel_mem s ch; cs \<leftarrow> map_of (topics ct) k;
      for_each (\<lambda>client s. do { (_, s) \<leftarrow> unsubscribe_channel_t ch client k s; Some s }) cs s }) (shrinks ({Topic ch k} \<times> UNIV) s)"
    "ok (do { ct \<leftarrow> channel_mem s ch; cs \<leftarrow> map_of (patterns ct) k;
      for_each (\<lambda>client s. do { (_, s) \<leftarrow> punsubscribe_channel_t ch client k s; Some s }) cs s }) (shrinks ({Pattern ch k} \<times> UNIV) s)"
proof -
  have agree: "held s = tied s" using assms by (simp add: core_def)
  have u: "ok (do { (_, s) \<leftarrow> unsubscribe_channel_t ch a k s; Some s }) (shrinks {(Topic ch k, a)} s)"
      "ok (do { (_, s) \<leftarrow> punsubscribe_channel_t ch a k s; Some s }) (shrinks {(Pattern ch k, a)} s)" if "core s" for a s
    using shrinks_leave_channel [OF that] by (intro ok_rules; fastforce simp: ok_def)+
  show "ok (do { ct \<leftarrow> channel_mem s ch; cs \<leftarrow> map_of (topics ct) k;
      for_each (\<lambda>client s. do { (_, s) \<leftarrow> unsubscribe_channel_t ch client k s; Some s }) cs s }) (shrinks ({Topic ch k} \<times> UNIV) s)"
  proof (intro ok_rules, rule ok_mono)
    fix ct cs assume c: "channel_mem s ch = Some ct" "map_of (topics ct) k = Some cs"
    show "ok (for_each (\<lambda>client s. do { (_, s) \<leftarrow> unsubscribe_channel_t ch client k s; Some s }) cs s)
        (shrinks (\<Union>a \<in> set cs. {(Topic ch k, a)}) s)" by (rule shrinks_each [OF u(1) assms])
    have "tied s (Topic ch k) = set cs" using c unfolding agree [symmetric] by (simp add: entries_def del: map_of_eq_Some_iff)
    moreover have "(\<Union>a \<in> set cs. {(Topic ch k, a)}) = {Topic ch k} \<times> set cs" by auto
    ultimately show "shrinks ({Topic ch k} \<times> UNIV) s x" if "shrinks (\<Union>a \<in> set cs. {(Topic ch k, a)}) s x" for x
      using that shrinks_all by auto
  qed
  show "ok (do { ct \<leftarrow> channel_mem s ch; cs \<leftarrow> map_of (patterns ct) k;
      for_each (\<lambda>client s. do { (_, s) \<leftarrow> punsubscribe_channel_t ch client k s; Some s }) cs s }) (shrinks ({Pattern ch k} \<times> UNIV) s)"
  proof (intro ok_rules, rule ok_mono)
    fix ct cs assume c: "channel_mem s ch = Some ct" "map_of (patterns ct) k = Some cs"
    show "ok (for_each (\<lambda>client s. do { (_, s) \<leftarrow> punsubscribe_channel_t ch client k s; Some s }) cs s)
        (shrinks (\<Union>a \<in> set cs. {(Pattern ch k, a)}) s)" by (rule shrinks_each [OF u(2) assms])
    have "tied s (Pattern ch k) = set cs" using c unfolding agree [symmetric] by (simp add: entries_def del: map_of_eq_Some_iff)
    moreover have "(\<Union>a \<in> set cs. {(Pattern ch k, a)}) = {Pattern ch k} \<times> set cs" by auto
    ultimately show "shrinks ({Pattern ch k} \<times> UNIV) s x" if "shrinks (\<Union>a \<in> set cs. {(Pattern ch k, a)}) s x" for x
      using that shrinks_all by auto
  qed
qed

lemma eject_channel_core:
  assumes "core s"
  shows "ok (eject_clients_channel_t ch s) (\<lambda>s'. shrinks {} s s' \<and> (\<forall>k. tied s' (Topic ch k) = {} \<and> tied s' (Pattern ch k) = {}))"
proof (rule okI)
  fix s' assume r: "eject_clients_channel_t ch s = Some s'"
  then obtain ct s1 ct1 where st: "channel_mem s ch = Some ct" "for_each (\<lambda>k s. do { ct \<leftarrow> channel_mem s ch; cs \<leftarrow> map_of (topics ct) k;
      for_each (\<lambda>client s. do { (_, s) \<leftarrow> unsubscribe_channel_t ch client k s; Some s }) cs s }) (map fst (topics ct)) s = Some s1"
    "channel_mem s1 ch = Some ct1" "for_each (\<lambda>k s. do { ct \<leftarrow> channel_mem s ch; cs \<leftarrow> map_of (patterns ct) k;
      for_each (\<lambda>client s. do { (_, s) \<leftarrow> punsubscribe_channel_t ch client k s; Some s }) cs s }) (map fst (patterns ct1)) s1 = Some s'"
    unfolding eject_clients_channel_t_def by (auto simp: bind_eq_Some_conv)
  have s1: "shrinks (\<Union>k \<in> set (map fst (topics ct)). {Topic ch k} \<times> UNIV) s s1"
    by (rule okD [OF shrinks_each [OF eject_topic(1) assms] st(2)])
  have s2: "shrinks (\<Union>k \<in> set (map fst (patterns ct1)). {Pattern ch k} \<times> UNIV) s1 s'"
    by (rule okD [OF shrinks_each [OF eject_topic(2) shrinks_core [OF s1]] st(4)])
  have agree: "held s = tied s" "held s1 = tied s1" using assms shrinks_core [OF s1] by (simp_all add: core_def)
  have key: "k \<in> set (map fst kl)" if "(k, a) \<in> entries kl" for k a and kl :: "(bytes \<times> addr list) list"
    using that by (auto simp: entries_def dest: map_of_SomeD intro: rev_image_eqI)
  have "a \<notin> tied s1 (Topic ch k)" for a k
  proof
    assume a: "a \<in> tied s1 (Topic ch k)"
    then have "a \<in> tied s (Topic ch k)" using s1 by (auto simp: shrinks_def sheds_def)
    then have "k \<in> set (map fst (topics ct))" using st(1) key unfolding agree(1) [symmetric] by simp
    then have "(Topic ch k, a) \<in> (\<Union>k \<in> set (map fst (topics ct)). {Topic ch k} \<times> UNIV)" by blast
    then show False using a shrinks_gone [OF s1] by simp
  qed
  moreover have "a \<notin> tied s' (Pattern ch k)" for a k
  proof
    assume a: "a \<in> tied s' (Pattern ch k)"
    then have "a \<in> tied s1 (Pattern ch k)" using s2 by (auto simp: shrinks_def sheds_def)
    then have "k \<in> set (map fst (patterns ct1))" using st(3) key unfolding agree(2) [symmetric] by simp
    then have "(Pattern ch k, a) \<in> (\<Union>k \<in> set (map fst (patterns ct1)). {Pattern ch k} \<times> UNIV)" by blast
    then show False using a shrinks_gone [OF s2] by simp
  qed
  moreover have "tied s' (Topic ch k) \<subseteq> tied s1 (Topic ch k)" for k using s2 by (auto simp: shrinks_def sheds_def)
  moreover have "shrinks {} s s'" using shrinks_weaken [OF shrinks_trans [OF s1 s2]] .
  ultimately show "shrinks {} s s' \<and> (\<forall>k. tied s' (Topic ch k) = {} \<and> tied s' (Pattern ch k) = {})" by blast
qed

end
