(* ===== verification/FreeClient.thy ===== *)
theory FreeClient
  imports Deletion
begin

text \<open>
  \<open>free_client\<close>: a connection ends, and the client leaves its queues and channels.
\<close>

lemma shrinks_delete_channel:
  assumes "core s"
  shows "ok (channels_delete_value ch s) (\<lambda>(st, s'). shrinks {} s s')"
proof (rule okI, clarify)
  fix st s' assume s': "channels_delete_value ch s = Some (st, s')"
  show "shrinks {} s s'"
  proof (cases "ch \<in> set (channels s)")
    case True
    define s0 where "s0 = s\<lparr>channels := remove1 ch (channels s)\<rparr>"
    have c0: "core s0" using assms by (simp add: s0_def)
    obtain s1 where s1: "eject_clients_channel_t ch s0 = Some s1" "s' = s1\<lparr>channel_mem := (channel_mem s1)(ch := None)\<rparr>"
      using s' True by (auto simp: channels_delete_value_def delete_channel_t_def bind_eq_Some_conv s0_def)
    have e: "shrinks {} s0 s1" "\<forall>k. tied s1 (Topic ch k) = {} \<and> tied s1 (Pattern ch k) = {}"
      using okD [OF eject_channel_core [OF c0] s1(1)] by simp_all
    have "held s1 = tied s1" using shrinks_core [OF e(1)] by (simp add: core_def)
    moreover have "s' = s1\<lparr>channels := channels s1, channel_mem := (channel_mem s1)(ch := None)\<rparr>" by (simp add: s1(2))
    ultimately have d: "core s'" "tied s' = tied s1" "but_channels s' = but_channels s1" "dom (channel_mem s') = dom (channel_mem s1) - {ch}"
      using drop_channel [OF shrinks_core [OF e(1)]] e(2) by metis+
    have sh: "sheds {} s s'" using e(1) d(2) by (simp add: shrinks_def sheds_def s0_def tied_def)
    have "listed (channels s') (dom (channel_mem s')) C" if "listed (channels s) (dom (channel_mem s)) C" for C
    proof -
      have "listed (channels s0) (dom (channel_mem s0)) (insert ch C)" using that True by (auto simp: s0_def listed_def)
      then have "listed (channels s1) (dom (channel_mem s1)) (insert ch C)" using e(1) by (simp add: shrinks_def regs_kept_def)
      moreover have "ch \<notin> C" using that True by (auto simp: listed_def)
      ultimately have "listed (channels s1) (dom (channel_mem s1) - {ch}) C" by (auto simp: listed_def)
      then show ?thesis using d(4) by (simp add: s1(2))
    qed
    then show ?thesis using d(1,3) sh e(1) by (simp add: shrinks_def regs_kept_def but_channels_def s0_def)
  next
    case False
    then show ?thesis using s' assms shrinks_refl by (simp add: channels_delete_value_def)
  qed
qed

section \<open>The end of a connection\<close>

lemma eject_queue_client_core:
  assumes "core s"
  shows "ok (eject_queue_client a s) (\<lambda>s'. shrinks {} s s' \<and> (\<forall>q. a \<notin> tied s' (Declared q) \<and> a \<notin> tied s' (Subscribed q)))"
proof (rule okI)
  fix s' assume "eject_queue_client a s = Some s'"
  then obtain c s1 c1 where st: "client_mem s a = Some c" "for_each (\<lambda>q. unsubscribe_client_queue_t q a) (subscribed_queues c) s = Some s1"
      "client_mem s1 a = Some c1" "for_each (\<lambda>q s. do { s \<leftarrow> undeclare_client_queue_t q a s; process_queue_t q s }) (declared_queues c1) s1 = Some s'"
    by (auto simp: eject_queue_client_def bind_eq_Some_conv)
  have s1: "shrinks (\<Union>q \<in> set (subscribed_queues c). {(Subscribed q, a)}) s s1"
    by (rule okD [OF shrinks_each [OF shrinks_leave_queue(2) assms] st(2)])
  have body: "ok (do { s \<leftarrow> undeclare_client_queue_t q a s; process_queue_t q s }) (shrinks {(Declared q, a)} s)" if "core s" for q s
  proof (rule ok_bind, rule ok_mono [OF shrinks_leave_queue(1) [OF that]])
    fix x assume x: "shrinks {(Declared q, a)} s x"
    show "ok (process_queue_t q x) (shrinks {(Declared q, a)} s)"
      by (rule ok_shrinks_trans [OF x shrinks_process_queue [OF shrinks_core [OF x]]]) simp
  qed
  have s2: "shrinks (\<Union>q \<in> set (declared_queues c1). {(Declared q, a)}) s1 s'"
    by (rule okD [OF shrinks_each [OF body shrinks_core [OF s1]] st(4)])
  have "a \<notin> tied s1 (Subscribed q)" for q
  proof
    assume t: "a \<in> tied s1 (Subscribed q)"
    then have "a \<in> tied s (Subscribed q)" using s1 by (auto simp: shrinks_def sheds_def)
    then have "q \<in> set (subscribed_queues c)" using st(1) by (simp add: tied_def)
    then have "(Subscribed q, a) \<in> (\<Union>q \<in> set (subscribed_queues c). {(Subscribed q, a)})" by blast
    then show False using t shrinks_gone [OF s1] by blast
  qed
  moreover have "a \<notin> tied s' (Declared q)" for q
  proof
    assume t: "a \<in> tied s' (Declared q)"
    then have "a \<in> tied s1 (Declared q)" using s2 by (auto simp: shrinks_def sheds_def)
    then have "q \<in> set (declared_queues c1)" using st(3) by (simp add: tied_def)
    then have "(Declared q, a) \<in> (\<Union>q \<in> set (declared_queues c1). {(Declared q, a)})" by blast
    then show False using t shrinks_gone [OF s2] by blast
  qed
  moreover have "tied s' t \<subseteq> tied s1 t" for t using s2 by (auto simp: shrinks_def sheds_def)
  moreover have "shrinks {} s s'" using shrinks_weaken [OF shrinks_trans [OF s1 s2]] .
  ultimately show "shrinks {} s s' \<and> (\<forall>q. a \<notin> tied s' (Declared q) \<and> a \<notin> tied s' (Subscribed q))" by blast
qed

lemma leave_channel_keys:
  assumes "core s"
  shows "ok (do { c \<leftarrow> client_mem s a; ns \<leftarrow> map_of (subscribed_topics c) ch;
      for_each (\<lambda>k s. do { (_, s) \<leftarrow> unsubscribe_channel_t ch a k s; Some s }) ns s }) (shrinks ((\<lambda>k. (Topic ch k, a)) ` UNIV) s)"
    "ok (do { c \<leftarrow> client_mem s a; ns \<leftarrow> map_of (subscribed_patterns c) ch;
      for_each (\<lambda>k s. do { (_, s) \<leftarrow> punsubscribe_channel_t ch a k s; Some s }) ns s }) (shrinks ((\<lambda>k. (Pattern ch k, a)) ` UNIV) s)"
proof -
  have u: "ok (do { (_, s) \<leftarrow> unsubscribe_channel_t ch a k s; Some s }) (shrinks {(Topic ch k, a)} s)"
      "ok (do { (_, s) \<leftarrow> punsubscribe_channel_t ch a k s; Some s }) (shrinks {(Pattern ch k, a)} s)" if "core s" for k s
    using shrinks_leave_channel [OF that] by (intro ok_rules; fastforce simp: ok_def)+
  show "ok (do { c \<leftarrow> client_mem s a; ns \<leftarrow> map_of (subscribed_topics c) ch;
      for_each (\<lambda>k s. do { (_, s) \<leftarrow> unsubscribe_channel_t ch a k s; Some s }) ns s }) (shrinks ((\<lambda>k. (Topic ch k, a)) ` UNIV) s)"
  proof (intro ok_rules, rule ok_mono)
    fix c ns assume c: "client_mem s a = Some c" "map_of (subscribed_topics c) ch = Some ns"
    show "ok (for_each (\<lambda>k s. do { (_, s) \<leftarrow> unsubscribe_channel_t ch a k s; Some s }) ns s)
        (shrinks (\<Union>k \<in> set ns. {(Topic ch k, a)}) s)" by (rule shrinks_each [OF u(1) assms])
    have "a \<in> tied s (Topic ch k) \<Longrightarrow> k \<in> set ns" for k using c by (simp add: tied_def entries_def del: map_of_eq_Some_iff)
    then show "shrinks ((\<lambda>k. (Topic ch k, a)) ` UNIV) s x" if "shrinks (\<Union>k \<in> set ns. {(Topic ch k, a)}) s x" for x
      using that by (fastforce simp: shrinks_def sheds_def)
  qed
  show "ok (do { c \<leftarrow> client_mem s a; ns \<leftarrow> map_of (subscribed_patterns c) ch;
      for_each (\<lambda>k s. do { (_, s) \<leftarrow> punsubscribe_channel_t ch a k s; Some s }) ns s }) (shrinks ((\<lambda>k. (Pattern ch k, a)) ` UNIV) s)"
  proof (intro ok_rules, rule ok_mono)
    fix c ns assume c: "client_mem s a = Some c" "map_of (subscribed_patterns c) ch = Some ns"
    show "ok (for_each (\<lambda>k s. do { (_, s) \<leftarrow> punsubscribe_channel_t ch a k s; Some s }) ns s)
        (shrinks (\<Union>k \<in> set ns. {(Pattern ch k, a)}) s)" by (rule shrinks_each [OF u(2) assms])
    have "a \<in> tied s (Pattern ch k) \<Longrightarrow> k \<in> set ns" for k using c by (simp add: tied_def entries_def del: map_of_eq_Some_iff)
    then show "shrinks ((\<lambda>k. (Pattern ch k, a)) ` UNIV) s x" if "shrinks (\<Union>k \<in> set ns. {(Pattern ch k, a)}) s x" for x
      using that by (fastforce simp: shrinks_def sheds_def)
  qed
qed

lemma eject_channel_client_core:
  assumes "core s"
  shows "ok (eject_channel_client a s) (\<lambda>s'. shrinks {} s s' \<and> (\<forall>ch k. a \<notin> tied s' (Topic ch k) \<and> a \<notin> tied s' (Pattern ch k)))"
proof (rule okI)
  fix s' assume "eject_channel_client a s = Some s'"
  then obtain c s1 c1 where st: "client_mem s a = Some c" "for_each (\<lambda>ch s. do { c \<leftarrow> client_mem s a; ns \<leftarrow> map_of (subscribed_topics c) ch;
      for_each (\<lambda>k s. do { (_, s) \<leftarrow> unsubscribe_channel_t ch a k s; Some s }) ns s }) (map fst (subscribed_topics c)) s = Some s1"
    "client_mem s1 a = Some c1" "for_each (\<lambda>ch s. do { c \<leftarrow> client_mem s a; ns \<leftarrow> map_of (subscribed_patterns c) ch;
      for_each (\<lambda>k s. do { (_, s) \<leftarrow> punsubscribe_channel_t ch a k s; Some s }) ns s }) (map fst (subscribed_patterns c1)) s1 = Some s'"
    unfolding eject_channel_client_def by (auto simp: bind_eq_Some_conv)
  have s1: "shrinks (\<Union>ch \<in> set (map fst (subscribed_topics c)). (\<lambda>k. (Topic ch k, a)) ` UNIV) s s1"
    by (rule okD [OF shrinks_each [OF leave_channel_keys(1) assms] st(2)])
  have s2: "shrinks (\<Union>ch \<in> set (map fst (subscribed_patterns c1)). (\<lambda>k. (Pattern ch k, a)) ` UNIV) s1 s'"
    by (rule okD [OF shrinks_each [OF leave_channel_keys(2) shrinks_core [OF s1]] st(4)])
  have key: "ch \<in> set (map fst kl)" if "(ch, k) \<in> entries kl" for ch k and kl :: "(addr \<times> bytes list) list"
    using that by (auto simp: entries_def dest: map_of_SomeD intro: rev_image_eqI)
  have "a \<notin> tied s1 (Topic ch k)" for ch k
  proof
    assume t: "a \<in> tied s1 (Topic ch k)"
    then have "a \<in> tied s (Topic ch k)" using s1 by (auto simp: shrinks_def sheds_def)
    then have "ch \<in> set (map fst (subscribed_topics c))" using st(1) key by (simp add: tied_def)
    then have "(Topic ch k, a) \<in> (\<Union>ch \<in> set (map fst (subscribed_topics c)). (\<lambda>k. (Topic ch k, a)) ` UNIV)" by blast
    then show False using t shrinks_gone [OF s1] by blast
  qed
  moreover have "a \<notin> tied s' (Pattern ch k)" for ch k
  proof
    assume t: "a \<in> tied s' (Pattern ch k)"
    then have "a \<in> tied s1 (Pattern ch k)" using s2 by (auto simp: shrinks_def sheds_def)
    then have "ch \<in> set (map fst (subscribed_patterns c1))" using st(3) key by (simp add: tied_def)
    then have "(Pattern ch k, a) \<in> (\<Union>ch \<in> set (map fst (subscribed_patterns c1)). (\<lambda>k. (Pattern ch k, a)) ` UNIV)" by blast
    then show False using t shrinks_gone [OF s2] by blast
  qed
  moreover have "tied s' t \<subseteq> tied s1 t" for t using s2 by (auto simp: shrinks_def sheds_def)
  moreover have "shrinks {} s s'" using shrinks_weaken [OF shrinks_trans [OF s1 s2]] .
  ultimately show "shrinks {} s s' \<and> (\<forall>ch k. a \<notin> tied s' (Topic ch k) \<and> a \<notin> tied s' (Pattern ch k))" by blast
qed

text \<open>A client without ties can go.\<close>

lemma drop_client:
  assumes "wired_but Q R C U s" "\<And>t. a \<notin> tied s t" "client_mem s a \<noteq> None"
    and s': "s' = s\<lparr>loop := l, clients := remove1 a (clients s), client_mem := (client_mem s)(a := None)\<rparr>"
  shows "wired_but Q R C U s'"
proof -
  have c: "core s" "listed (clients s) (dom (client_mem s)) {}" using assms(1) by (simp_all add: wired_but_def)
  have "tied s' t = tied s t - {a}" for t by (auto simp: tied_def s')
  then have "tied s' = tied s" using assms(2) by (simp add: fun_eq_iff)
  moreover have "held s' t = held s t" for t by (cases t) (simp_all add: s')
  then have "held s' = held s" by blast
  moreover have "linked s' = linked s" by (rule linked_same(1)) (simp_all add: s')
  moreover have "bounded_addrs s \<Longrightarrow> bounded_addrs s'" by (auto simp: bounded_addrs_def s')
  moreover have "wf_ties s \<Longrightarrow> wf_ties s'" by (auto simp: wf_ties_def s')
  ultimately have "core s'" using c(1) by (simp add: core_def)
  moreover have "listed (clients s') (dom (client_mem s')) {}" using c(2) by (auto simp: s' listed_def)
  ultimately show ?thesis using assms(1) by (simp add: wired_but_def s')
qed

lemma wired_free_client:
  assumes w: "wired_but Q R C U s"
  shows "ok (free_client a s) (wired_but Q R C U)"
proof (rule okI)
  fix s' assume "free_client a s = Some s'"
  then obtain s1 s2 c s3 l where st: "eject_queue_client a s = Some s1" "eject_channel_client a s1 = Some s2" "client_mem s2 a = Some c"
      "for_each free_object_list_handler (responses c) s2 = Some s3"
      "s' = s3\<lparr>loop := l, clients := remove1 a (clients s3), client_mem := (client_mem s3)(a := None)\<rparr>"
    by (auto simp: free_client_def bind_eq_Some_conv seq_delete_snd)
  have c: "core s" using w by (simp add: wired_but_def)
  have s1: "shrinks {} s s1" "\<forall>q. a \<notin> tied s1 (Declared q) \<and> a \<notin> tied s1 (Subscribed q)"
    using okD [OF eject_queue_client_core [OF c] st(1)] by simp_all
  have s2: "shrinks {} s1 s2" "\<forall>ch k. a \<notin> tied s2 (Topic ch k) \<and> a \<notin> tied s2 (Pattern ch k)"
    using okD [OF eject_channel_client_core [OF shrinks_core [OF s1(1)]] st(2)] by simp_all
  have sub: "tied s2 t \<subseteq> tied s1 t" for t using s2(1) by (simp add: shrinks_def sheds_def)
  have "a \<notin> tied s2 t" for t
  proof (cases t)
    case (Declared q)
    then show ?thesis using s1(2) sub [of t] by auto
  next
    case (Subscribed q)
    then show ?thesis using s1(2) sub [of t] by auto
  qed (use s2(2) in auto)
  moreover have k: "kept s2 s3" by (rule okD [OF kk.keeps_each [OF kept_refl kk.keeps_free_object] st(4)])
  moreover have "wired_but Q R C U s3" using wired_shrinks [OF wired_shrinks [OF w s1(1)] s2(1)] k by (rule kept_wired)
  moreover have "client_mem s3 a \<noteq> None" using kept_dom(4) [OF k] st(3) by (metis domIff option.distinct(1))
  ultimately show "wired_but Q R C U s'" using drop_client [OF _ _ _ st(5)] kept_ties(1) [OF k] by metis
qed

end
