(* ===== verification/WiredHandlers.thy ===== *)
theory WiredHandlers
  imports FreeClient
begin

text \<open>
  The invariant for what creates, and for the handlers that change the wiring.
\<close>

section \<open>The invariant of the server\<close>

lemma wired_core: "wired_but Q R C U s \<Longrightarrow> core s"
  by (simp add: wired_but_def)

lemma wired_ok: "wired_but Q R C U s \<Longrightarrow> (core s \<Longrightarrow> ok m (shrinks T s)) \<Longrightarrow> ok m (wired_but Q R C U)"
  using wired_shrinks wired_core by (fastforce simp: ok_def)

lemma wired_ok2: "wired_but Q R C U s \<Longrightarrow> (core s \<Longrightarrow> ok m (\<lambda>(st, s'). shrinks T s s')) \<Longrightarrow> ok m (\<lambda>(st, s'). wired_but Q R C U s')"
  using wired_shrinks wired_core by (fastforce simp: ok_def)

lemma wired_regs_ok: "wired_but Q R C U s \<Longrightarrow> (core s \<Longrightarrow> ok m (\<lambda>s'. core s' \<and> regs s' = regs s \<and> P s')) \<Longrightarrow> ok m (wired_but Q R C U)"
proof (rule okI)
  fix s' assume a: "wired_but Q R C U s" "core s \<Longrightarrow> ok m (\<lambda>s'. core s' \<and> regs s' = regs s \<and> P s')" "m = Some s'"
  have "core s' \<and> regs s' = regs s \<and> P s'" by (rule okD [OF a(2) [OF wired_core [OF a(1)]] a(3)])
  then show "wired_but Q R C U s'" using wired_regs [OF a(1)] by blast
qed

text \<open>Leaving and deleting, as rules for whatever comes after.\<close>

named_theorems wired_rules \<open>what the operations on the wiring do to the invariant\<close>

lemma wired_takes:
  assumes "wired_but Q R C U s"
  shows "ok (undeclare_client_queue_t q a s) (wired_but Q R C U)" "ok (unsubscribe_client_queue_t q a s) (wired_but Q R C U)"
    "ok (process_queue_t q s) (wired_but Q R C U)" "ok (bind_route_t r q k s) (wired_but Q R C U)"
    "ok (subscribe_channel_t ch a k s) (wired_but Q R C U)" "ok (psubscribe_channel_t ch a k s) (wired_but Q R C U)"
    "ok (unsubscribe_channel_t ch a k s) (\<lambda>(st, s'). wired_but Q R C U s')" "ok (punsubscribe_channel_t ch a k s) (\<lambda>(st, s'). wired_but Q R C U s')"
    "ok (unbind_route_t r q k s) (\<lambda>(st, s'). wired_but Q R C U s')" "ok (queues_delete_value q s) (\<lambda>(st, s'). wired_but Q R C U s')"
    "ok (routes_delete_value r s) (\<lambda>(st, s'). wired_but Q R C U s')" "ok (channels_delete_value ch s) (\<lambda>(st, s'). wired_but Q R C U s')"
proof -
  show "ok (undeclare_client_queue_t q a s) (wired_but Q R C U)" by (rule wired_ok [OF assms shrinks_leave_queue(1)])
  show "ok (unsubscribe_client_queue_t q a s) (wired_but Q R C U)" by (rule wired_ok [OF assms shrinks_leave_queue(2)])
  show "ok (process_queue_t q s) (wired_but Q R C U)" by (rule wired_ok [OF assms shrinks_process_queue])
  show "ok (bind_route_t r q k s) (wired_but Q R C U)" by (rule wired_ok [OF assms shrinks_bind])
  show "ok (subscribe_channel_t ch a k s) (wired_but Q R C U)" "ok (psubscribe_channel_t ch a k s) (wired_but Q R C U)"
    by (rule wired_regs_ok [OF assms, where P = "\<lambda>_. True"], simp add: subscribe_channel_core)+
  show "ok (unsubscribe_channel_t ch a k s) (\<lambda>(st, s'). wired_but Q R C U s')" by (rule wired_ok2 [OF assms shrinks_leave_channel(1)])
  show "ok (punsubscribe_channel_t ch a k s) (\<lambda>(st, s'). wired_but Q R C U s')" by (rule wired_ok2 [OF assms shrinks_leave_channel(2)])
  show "ok (unbind_route_t r q k s) (\<lambda>(st, s'). wired_but Q R C U s')" by (rule wired_ok2 [OF assms shrinks_unbind])
  show "ok (queues_delete_value q s) (\<lambda>(st, s'). wired_but Q R C U s')" by (rule wired_ok2 [OF assms shrinks_delete_queue])
  show "ok (routes_delete_value r s) (\<lambda>(st, s'). wired_but Q R C U s')" by (rule wired_ok2 [OF assms shrinks_delete_route])
  show "ok (channels_delete_value ch s) (\<lambda>(st, s'). wired_but Q R C U s')" by (rule wired_ok2 [OF assms shrinks_delete_channel])
qed

lemma wired_users_delete:
  assumes "wired_but Q R C U s"
  shows "ok (users_delete_value u s) (\<lambda>(st, s'). wired_but Q R C U s')"
proof (rule okI, clarify)
  fix st s' assume r: "users_delete_value u s = Some (st, s')"
  show "wired_but Q R C U s'"
  proof (cases "u \<in> set (users s)")
    case True
    then have s': "s' = s\<lparr>users := remove1 u (users s), user_mem := (user_mem s)(u := None)\<rparr>"
      using r by (auto simp: users_delete_value_def delete_user_def bind_eq_Some_conv)
    have "held s' t = held s t" for t by (cases t) (simp_all add: s')
    then have "held s' = held s" by blast
    moreover have "tied s' = tied s" by (simp add: s' tied_def fun_eq_iff)
    moreover have "linked s' = linked s" by (rule linked_same(1)) (simp_all add: s')
    moreover have "bounded_addrs s \<Longrightarrow> bounded_addrs s'" by (auto simp: bounded_addrs_def s')
    moreover have "wf_ties s' = wf_ties s" by (simp add: wf_ties_def s')
    ultimately have "core s'" using wired_core [OF assms] by (simp add: core_def)
    moreover have "listed (users s') (dom (user_mem s')) U" using assms True by (auto simp: wired_but_def listed_def s')
    ultimately show ?thesis using assms by (simp add: wired_but_def s')
  qed (use r assms in \<open>simp add: users_delete_value_def\<close>)
qed

lemmas [wired_rules] = wired_takes(1-6) [THEN ok_mono] wired_takes(7-12) [THEN ok_mono2] wired_users_delete [THEN ok_mono2]
  wired_free_client [THEN ok_mono]

section \<open>Creating\<close>

text \<open>A new structure has a new address and no ties.\<close>

lemma fresh_unused:
  assumes "core s"
  shows "queue_mem s (fresh s) = None" "route_mem s (fresh s) = None" "channel_mem s (fresh s) = None" "user_mem s (fresh s) = None"
    "client_mem s (fresh s) = None"
  using assms unfolding core_def bounded_addrs_def by (auto simp: subset_iff domIff)

lemma core_same:
  assumes "core s" "held s' = held s" "tied s' = tied s" "binds s' = binds s" "links s' = links s" "wf_routes s'" "wf_ties s'" "bounded_addrs s'"
  shows "core s'"
  using assms by (simp add: core_def linked_def)

lemma bounded_create:
  assumes "core s" "fresh s' = Suc (fresh s)" "dom (queue_mem s') \<subseteq> insert (fresh s) (dom (queue_mem s))"
    "dom (route_mem s') \<subseteq> insert (fresh s) (dom (route_mem s))" "dom (channel_mem s') \<subseteq> insert (fresh s) (dom (channel_mem s))"
    "dom (user_mem s') \<subseteq> insert (fresh s) (dom (user_mem s))" "dom (client_mem s') \<subseteq> insert (fresh s) (dom (client_mem s))"
  shows "bounded_addrs s'"
proof -
  have "insert (fresh s) D \<subseteq> {..<Suc (fresh s)}" if "D \<subseteq> {..<fresh s}" for D using that by (auto intro: less_SucI)
  then show ?thesis using assms unfolding core_def bounded_addrs_def Un_subset_iff by (metis (no_types) subset_trans)
qed

lemma core_create_queue:
  assumes "core s" "qroutes qt = []" "declared_clients qt = []" "subscribed_clients_msg qt = []" "subscribed_clients_notify qt = []"
    and s': "s' = s\<lparr>queue_mem := (queue_mem s)(fresh s \<mapsto> qt), fresh := Suc (fresh s)\<rparr>"
  shows "core s'"
proof (rule core_same [OF assms(1)])
  note f = fresh_unused [OF assms(1)]
  have "held s' t = held s t" for t using f(1) assms(3-5) by (cases t) (auto simp: s')
  then show "held s' = held s" by blast
  show "tied s' = tied s" by (simp add: s' tied_def fun_eq_iff)
  show "binds s' = binds s" by (simp add: s' binds_def)
  show "links s' = links s" using f(1) assms(2) by (auto simp: s' links_def entries_def split: if_split_asm)
  show "wf_routes s'" using core_linked [OF assms(1)] assms(2) by (auto simp: s' linked_def wf_routes_def wf_keyed_def)
  show "wf_ties s'" using core_ok [OF assms(1)] assms(3-5) by (auto simp: s' wf_ties_def q_ok_def)
  show "bounded_addrs s'" by (rule bounded_create [OF assms(1)]) (auto simp: s')
qed

lemma core_create_route:
  assumes "core s" "keys rt = []" and s': "s' = s\<lparr>route_mem := (route_mem s)(fresh s \<mapsto> rt), fresh := Suc (fresh s)\<rparr>"
  shows "core s'"
proof (rule core_same [OF assms(1)])
  note f = fresh_unused [OF assms(1)]
  have "held s' t = held s t" for t by (cases t) (auto simp: s')
  then show "held s' = held s" by blast
  show "tied s' = tied s" by (simp add: s' tied_def fun_eq_iff)
  show "binds s' = binds s" using f(2) assms(2) by (auto simp: s' binds_def entries_def split: if_split_asm)
  show "links s' = links s" by (simp add: s' links_def)
  show "wf_routes s'" using core_linked [OF assms(1)] assms(2) by (auto simp: s' linked_def wf_routes_def wf_keyed_def)
  show "wf_ties s'" using core_ok [OF assms(1)] by (auto simp: s' wf_ties_def)
  show "bounded_addrs s'" by (rule bounded_create [OF assms(1)]) (auto simp: s')
qed

lemma core_create_channel:
  assumes "core s" "topics ct = []" "patterns ct = []" and s': "s' = s\<lparr>channel_mem := (channel_mem s)(fresh s \<mapsto> ct), fresh := Suc (fresh s)\<rparr>"
  shows "core s'"
proof (rule core_same [OF assms(1)])
  note f = fresh_unused [OF assms(1)]
  have "held s' t = held s t" for t using f(3) assms(2,3) by (cases t) (auto simp: s' entries_def)
  then show "held s' = held s" by blast
  show "tied s' = tied s" by (simp add: s' tied_def fun_eq_iff)
  show "binds s' = binds s" "links s' = links s" by (simp_all add: s' binds_def links_def)
  show "wf_routes s'" using core_linked [OF assms(1)] by (simp add: s' linked_def wf_routes_def)
  show "wf_ties s'" using core_ok [OF assms(1)] assms(2,3) by (auto simp: s' wf_ties_def ch_ok_def wf_keyed_def)
  show "bounded_addrs s'" by (rule bounded_create [OF assms(1)]) (auto simp: s')
qed

lemma core_create_user:
  assumes "core s" and s': "s' = s\<lparr>user_mem := (user_mem s)(fresh s \<mapsto> u), fresh := Suc (fresh s)\<rparr>"
  shows "core s'"
proof (rule core_same [OF assms(1)])
  have "held s' t = held s t" for t by (cases t) (auto simp: s')
  then show "held s' = held s" by blast
  show "tied s' = tied s" by (simp add: s' tied_def fun_eq_iff)
  show "binds s' = binds s" "links s' = links s" by (simp_all add: s' binds_def links_def)
  show "wf_routes s'" using core_linked [OF assms(1)] by (simp add: s' linked_def wf_routes_def)
  show "wf_ties s'" using core_ok [OF assms(1)] by (auto simp: s' wf_ties_def)
  show "bounded_addrs s'" by (rule bounded_create [OF assms(1)]) (auto simp: s')
qed

lemma core_create_client:
  assumes "core s" "cl_ok c" "\<And>t. \<not> cl_tie c t"
    and s': "s' = s\<lparr>fresh := Suc (fresh s), loop := l, client_mem := (client_mem s)(fresh s \<mapsto> c), clients := cs\<rparr>"
  shows "core s'"
proof (rule core_same [OF assms(1)])
  note f = fresh_unused [OF assms(1)]
  have "held s' t = held s t" for t by (cases t) (auto simp: s')
  then show "held s' = held s" by blast
  show "tied s' = tied s" using f(5) assms(3) by (auto simp: s' tied_def fun_eq_iff)
  show "binds s' = binds s" "links s' = links s" by (simp_all add: s' binds_def links_def)
  show "wf_routes s'" using core_linked [OF assms(1)] by (simp add: s' linked_def wf_routes_def)
  show "wf_ties s'" using core_ok [OF assms(1)] assms(2) by (auto simp: s' wf_ties_def)
  show "bounded_addrs s'" by (rule bounded_create [OF assms(1)]) (auto simp: s')
qed

lemma listed_new: "listed xs D E \<Longrightarrow> a \<notin> D \<Longrightarrow> listed xs (insert a D) (insert a E)"
  by (auto simp: listed_def)

lemma listed_add: "listed xs D (insert a E) \<Longrightarrow> a \<notin> E \<Longrightarrow> listed (xs @ [a]) D E"
  by (auto simp: listed_def)

lemma wired_create:
  assumes "wired_but Q R C U s"
  shows "ok (create_queue_t n mm ms fl s) (\<lambda>(s', a). wired_but (insert a Q) R C U s' \<and> a \<notin> Q)"
    "ok (create_route_t n fl s) (\<lambda>(s', a). wired_but Q (insert a R) C U s' \<and> a \<notin> R)"
    "ok (create_channel_t n fl s) (\<lambda>(s', a). wired_but Q R (insert a C) U s' \<and> a \<notin> C)"
    "ok (create_user n pw p s) (\<lambda>(s', a). wired_but Q R C (insert a U) s' \<and> a \<notin> U)"
proof -
  note c = wired_core [OF assms] and f = fresh_unused [OF wired_core [OF assms]]
  have l: "listed (queues s) (dom (queue_mem s)) Q" "listed (routes s) (dom (route_mem s)) R" "listed (channels s) (dom (channel_mem s)) C"
      "listed (users s) (dom (user_mem s)) U" "listed (clients s) (dom (client_mem s)) {}" using assms by (simp_all add: wired_but_def)
  have n: "fresh s \<notin> dom (queue_mem s)" "fresh s \<notin> dom (route_mem s)" "fresh s \<notin> dom (channel_mem s)" "fresh s \<notin> dom (user_mem s)"
    using f by (simp_all add: domIff)
  have m: "fresh s \<notin> Q" "fresh s \<notin> R" "fresh s \<notin> C" "fresh s \<notin> U" using l n by (auto simp: listed_def)
  show "ok (create_queue_t n mm ms fl s) (\<lambda>(s', a). wired_but (insert a Q) R C U s' \<and> a \<notin> Q)"
    unfolding create_queue_t_def Let_def using core_create_queue [OF c _ _ _ _ refl] l listed_new [OF l(1) n(1)] m
    by (intro ok_rules) (simp add: wired_but_def)
  show "ok (create_route_t n fl s) (\<lambda>(s', a). wired_but Q (insert a R) C U s' \<and> a \<notin> R)"
    unfolding create_route_t_def Let_def using core_create_route [OF c _ refl] l listed_new [OF l(2) n(2)] m
    by (intro ok_rules) (simp add: wired_but_def)
  show "ok (create_channel_t n fl s) (\<lambda>(s', a). wired_but Q R (insert a C) U s' \<and> a \<notin> C)"
    unfolding create_channel_t_def Let_def using core_create_channel [OF c _ _ refl] l listed_new [OF l(3) n(3)] m
    by (intro ok_rules) (simp add: wired_but_def)
  show "ok (create_user n pw p s) (\<lambda>(s', a). wired_but Q R C (insert a U) s' \<and> a \<notin> U)"
    unfolding create_user_def Let_def using core_create_user [OF c refl] l listed_new [OF l(4) n(4)] m
    by (intro ok_rules) (simp add: wired_but_def)
qed

lemma wired_list:
  "wired_but (insert a Q) R C U s \<Longrightarrow> a \<notin> Q \<Longrightarrow> wired_but Q R C U (s\<lparr>queues := queues s @ [a]\<rparr>)"
  "wired_but Q (insert a R) C U s \<Longrightarrow> a \<notin> R \<Longrightarrow> wired_but Q R C U (s\<lparr>routes := routes s @ [a]\<rparr>)"
  "wired_but Q R (insert a C) U s \<Longrightarrow> a \<notin> C \<Longrightarrow> wired_but Q R C U (s\<lparr>channels := channels s @ [a]\<rparr>)"
  "wired_but Q R C (insert a U) s \<Longrightarrow> a \<notin> U \<Longrightarrow> wired_but Q R C U (s\<lparr>users := users s @ [a]\<rparr>)"
  using listed_add by (simp_all add: wired_but_def)

lemma wired_create_client:
  assumes "wired_but Q R C U s"
  shows "ok (create_client d s) (\<lambda>(r, s'). wired_but Q R C U s')"
proof -
  have err: "wired_but Q R C U (s\<lparr>fresh := Suc (fresh s), loop := l\<rparr>)" for l
    by (rule kept_wired [OF assms]) (simp add: kept_def wiring_def lists_def)
  have new: "wired_but Q R C U (s\<lparr>fresh := Suc (fresh s), loop := l, client_mem := (client_mem s)(fresh s \<mapsto> c), clients := clients s @ [fresh s]\<rparr>)"
    if "declared_queues c = []" "subscribed_queues c = []" "subscribed_topics c = []" "subscribed_patterns c = []" for l c
  proof -
    have "\<not> cl_tie c t" for t using that by (cases t) (simp_all add: entries_def)
    moreover have "cl_ok c" using that by (simp add: cl_ok_def wf_keyed_def)
    ultimately have "core (s\<lparr>fresh := Suc (fresh s), loop := l, client_mem := (client_mem s)(fresh s \<mapsto> c), clients := clients s @ [fresh s]\<rparr>)"
      using core_create_client [OF wired_core [OF assms] _ _ refl] by blast
    moreover have "fresh s \<notin> dom (client_mem s)" using fresh_unused(5) [OF wired_core [OF assms]] by (simp add: domIff)
    then have "fresh s \<notin> set (clients s)" using assms by (auto simp: wired_but_def listed_def)
    ultimately show ?thesis using assms by (simp add: wired_but_def listed_def)
  qed
  show ?thesis unfolding create_client_def by (intro ok_rules; simp add: err new)
qed

text \<open>The pattern of the handlers and the loader that create something: it goes to the end of its list.\<close>

lemma ok_listed:
  assumes "ok m (\<lambda>(s, a). P s a)" "\<And>s a. P s a \<Longrightarrow> I (g s a)" "\<And>s'. I s' \<Longrightarrow> ok (f s') X"
  shows "ok (Option.bind m (\<lambda>(s, a). f (g s a))) X"
proof (rule ok_bind, rule ok_mono [OF assms(1)])
  show "ok (case x of (s, a) \<Rightarrow> f (g s a)) X" if "case x of (s, a) \<Rightarrow> P s a" for x
    using that assms(2,3) by (cases x) simp
qed

lemma ok_create_listed [wired_rules]:
  assumes w: "wired_but Q R C U s"
  shows "(\<And>s'. wired_but Q R C U s' \<Longrightarrow> ok (f s') X) \<Longrightarrow> ok (Option.bind (create_queue_t n mm ms fl s) (\<lambda>(s, a). f (s\<lparr>queues := queues s @ [a]\<rparr>))) X"
    "(\<And>s'. wired_but Q R C U s' \<Longrightarrow> ok (f s') X) \<Longrightarrow> ok (Option.bind (create_route_t n fl s) (\<lambda>(s, a). f (s\<lparr>routes := routes s @ [a]\<rparr>))) X"
    "(\<And>s'. wired_but Q R C U s' \<Longrightarrow> ok (f s') X) \<Longrightarrow> ok (Option.bind (create_channel_t n fl s) (\<lambda>(s, a). f (s\<lparr>channels := channels s @ [a]\<rparr>))) X"
    "(\<And>s'. wired_but Q R C U s' \<Longrightarrow> ok (f s') X) \<Longrightarrow> ok (Option.bind (create_user n pw p s) (\<lambda>(s, a). f (s\<lparr>users := users s @ [a]\<rparr>))) X"
  by (rule ok_listed [OF wired_create(1) [OF w]], erule conjE, erule (1) wired_list(1), assumption)
    (rule ok_listed [OF wired_create(2) [OF w]], erule conjE, erule (1) wired_list(2), assumption,
     rule ok_listed [OF wired_create(3) [OF w]], erule conjE, erule (1) wired_list(3), assumption,
     rule ok_listed [OF wired_create(4) [OF w]], erule conjE, erule (1) wired_list(4), assumption)

section \<open>The handlers\<close>

lemmas wired_steps = wired_rules [of "{}" "{}" "{}" "{}"] kw.content_rules [where NQ = "{}" and NR = "{}" and NC = "{}" and NU = "{}"]

lemmas wired_guarded = kw.keeps_guarded [where NQ = "{}" and NR = "{}" and NC = "{}" and NU = "{}"]
lemmas wired_with_binding = kw.keeps_with_binding [where NQ = "{}" and NR = "{}" and NC = "{}" and NU = "{}"]
lemmas wired_with_channel = kw.keeps_with_channel [where NQ = "{}" and NR = "{}" and NC = "{}" and NU = "{}"]
lemmas wired_with_declared = kw.keeps_with_declared [where NQ = "{}" and NR = "{}" and NC = "{}" and NU = "{}"]
lemmas wired_each = kw.keeps_each [where NQ = "{}" and NR = "{}" and NC = "{}" and NU = "{}"]

lemma wired_handlers_create:
  assumes "wired s"
  shows "ok (user_create_command_handler a s) wired" "ok (queue_create_command_handler a s) wired" "ok (route_create_command_handler a s) wired"
    "ok (channel_create_command_handler a s) wired"
  unfolding user_create_command_handler_def queue_create_command_handler_def route_create_command_handler_def channel_create_command_handler_def Let_def
  by (intro wired_guarded wired_steps ok_rules assms; assumption?)+

lemma wired_handlers_plain:
  assumes "wired s"
  shows "ok (user_delete_command_handler a s) wired" "ok (queue_delete_command_handler a s) wired" "ok (route_delete_command_handler a s) wired"
    "ok (channel_delete_command_handler a s) wired" "ok (disconnect_command_handler a s) wired"
  unfolding user_delete_command_handler_def queue_delete_command_handler_def route_delete_command_handler_def channel_delete_command_handler_def
    disconnect_command_handler_def
  by (intro wired_guarded wired_steps ok_rules assms; assumption?)+

lemma wired_handlers_bind:
  assumes "wired s"
  shows "ok (route_bind_command_handler a s) wired" "ok (route_unbind_command_handler a s) wired"
  unfolding route_bind_command_handler_def route_unbind_command_handler_def
  by (intro wired_guarded wired_with_binding wired_steps ok_rules assms; assumption?)+

lemma wired_handlers_channel:
  assumes "wired s"
  shows "ok (channel_subscribe_command_handler a s) wired" "ok (channel_psubscribe_command_handler a s) wired"
    "ok (channel_unsubscribe_command_handler a s) wired" "ok (channel_punsubscribe_command_handler a s) wired"
  unfolding channel_subscribe_command_handler_def channel_psubscribe_command_handler_def channel_unsubscribe_command_handler_def
    channel_punsubscribe_command_handler_def
  by (intro wired_guarded wired_with_channel wired_steps ok_rules assms; (assumption | rule TrueI)?)+

lemma find_queue_miss:
  assumes "find_queue_t qs name s = Some None" "find_queue_t xs name s = Some (Some q)"
  shows "q \<notin> set qs"
  using find_by_hit [OF assms(2) [unfolded find_queue_t_def]] assms(1) by (auto simp: find_queue_t_def find_by_miss)

lemma wired_declare: "wired_but Q R C U s \<Longrightarrow> client_mem s a = Some c \<Longrightarrow> q \<notin> set (declared_queues c) \<Longrightarrow> ok (declare_client_queue_t q a s) (wired_but Q R C U)"
  by (rule wired_regs_ok [OF _ declare_core])

lemma wired_subscribe: "wired_but Q R C U s \<Longrightarrow> client_mem s a = Some c \<Longrightarrow> q \<notin> set (subscribed_queues c) \<Longrightarrow> ok (subscribe_client_queue_t q a fl s) (wired_but Q R C U)"
  by (rule wired_regs_ok [OF _ subscribe_core])

lemma wired_handlers_queue:
  assumes "wired s"
  shows "ok (queue_declare_command_handler a s) wired" "ok (queue_subscribe_command_handler a s) wired" "ok (queue_unsubscribe_command_handler a s) wired"
proof -
  show "ok (queue_declare_command_handler a s) wired"
    unfolding queue_declare_command_handler_def
    by (intro wired_guarded wired_steps ok_rules assms wired_declare [of "{}" "{}" "{}" "{}", THEN ok_mono]; (assumption | rule find_queue_miss; simp)?)
  show "ok (queue_subscribe_command_handler a s) wired"
    unfolding queue_subscribe_command_handler_def
    by (intro wired_guarded wired_with_declared wired_steps ok_rules assms wired_subscribe [of "{}" "{}" "{}" "{}", THEN ok_mono]; (assumption | rule find_queue_miss; simp)?)
  show "ok (queue_unsubscribe_command_handler a s) wired"
    unfolding queue_unsubscribe_command_handler_def
    by (intro wired_guarded wired_with_declared wired_steps ok_rules assms; assumption?)
qed

lemma wired_delete_all:
  assumes "wired s"
  shows "ok (delete_users s) wired" "ok (delete_queues s) wired" "ok (delete_routes s) wired" "ok (delete_channels s) wired"
  unfolding delete_users_def delete_queues_def delete_routes_def delete_channels_def delete_node_ok_def
  by (intro wired_each wired_steps ok_rules assms; assumption?)+

lemmas wired_flushes = wired_delete_all [THEN ok_mono]

lemma wired_flush: "wired s \<Longrightarrow> ok (flush_command_handler a s) wired"
  unfolding flush_command_handler_def by (intro wired_guarded wired_flushes wired_steps ok_rules; assumption?)

end
