(* ===== verification/WiredRequests.thy ===== *)
theory WiredRequests
  imports WiredHandlers EagleServer
begin

text \<open>
  The invariant for every command, for the loop that cuts requests, and for reading, sending, accepting and
  the periodic work.
\<close>

section \<open>Commands and requests\<close>

lemmas wired_content = kw.content_rules [where NQ = "{}" and NR = "{}" and NC = "{}" and NU = "{}"]

lemmas wired_handlers = wired_handlers_create wired_handlers_plain wired_handlers_bind wired_handlers_channel wired_handlers_queue wired_flush
  kw.keeps_handlers_plain [where NQ = "{}" and NR = "{}" and NC = "{}" and NU = "{}"]
  kw.keeps_handlers_declared [where NQ = "{}" and NR = "{}" and NC = "{}" and NU = "{}"]
  kw.keeps_handler_publish [where NQ = "{}" and NR = "{}" and NC = "{}" and NU = "{}"]

lemma wired_command: "wired s \<Longrightarrow> ok (init_commands cmd a s) wired"
  by (cases cmd; simp only: init_commands.simps; intro wired_handlers; assumption)

lemma wired_parse_command:
  assumes "wired s"
  shows "ok (parse_command a s) wired"
  unfolding parse_command_def commands_def
  by (intro ok_rules wired_content assms)
    (auto simp: clwire_def intro: wired_command)

lemma wired_upd_client:
  assumes "wired s" "client_mem s a = Some c" "clwire c' = clwire c"
  shows "ok (upd_client a (\<lambda>_. c') s) wired"
  using assms by (intro wired_content) auto

lemma wired_status: "wired s \<Longrightarrow> ok (add_status_response a cmd st s) wired"
  by (intro wired_content; assumption)

lemma frame_step_clwire:
  assumes "frame_step c = Some f"
  shows "clwire (case f of Bad c' \<Rightarrow> c' | Wait c' \<Rightarrow> c' | Dispatch c' \<Rightarrow> c') = clwire c"
  using assms by (auto simp: frame_step_def frame_first_def frame_rest_def clwire_def bind_eq_Some_conv Let_def split: if_split_asm)

lemma wired_process_request:
  assumes "wired s"
  shows "ok (process_request a s) wired"
proof (rule okI)
  fix s' assume run: "process_request a s = Some s'"
  show "wired s'"
  proof (rule process_request.raw_induct [where P = "\<lambda>a s s'. wired s \<longrightarrow> wired s'", THEN mp, OF _ run assms], rule impI)
    fix f client s s'
    assume 1: "\<And>a s s'. f a s = Some s' \<Longrightarrow> wired s \<longrightarrow> wired s'"
      "Option.bind (client_mem s client) (\<lambda>c. Option.bind (frame_step c) (\<lambda>fr. case fr of
          Bad c' \<Rightarrow> Option.bind (upd_client client (\<lambda>_. c') s) (add_status_response client 0 EG_PROTOCOL_STATUS_ERROR_PACKET)
        | Wait c' \<Rightarrow> upd_client client (\<lambda>_. c') s
        | Dispatch c' \<Rightarrow> Option.bind (upd_client client (\<lambda>_. c') s) (\<lambda>s. Option.bind (parse_command client s) (\<lambda>s.
             Option.bind (client_mem s client) (\<lambda>c. if nread c \<ge> sizeof ProtocolRequestHeader then f client s else Some s))))) = Some s'"
      "wired s"
    have rec: "ok (f client s) wired" if "wired s" for s
      using 1(1) that by (auto intro: okI)
    have u: "ok (upd_client client (\<lambda>_. c') s) (\<lambda>s. ok (g s) wired)"
      if "client_mem s client = Some c" "clwire c' = clwire c" "\<And>s. wired s \<Longrightarrow> ok (g s) wired" for c c' g
      using wired_upd_client [OF 1(3) that(1,2)] that(3) by (rule ok_mono)
    show "wired s'"
    proof (rule okD [OF _ 1(2)], intro ok_bind okI [where m = "client_mem s client"] okI [where m = "frame_step c" for c])
      fix c fr assume c: "client_mem s client = Some c" "frame_step c = Some fr"
      note w = frame_step_clwire [OF c(2)]
      show "ok (case fr of Bad c' \<Rightarrow> Option.bind (upd_client client (\<lambda>_. c') s) (add_status_response client 0 EG_PROTOCOL_STATUS_ERROR_PACKET)
          | Wait c' \<Rightarrow> upd_client client (\<lambda>_. c') s
          | Dispatch c' \<Rightarrow> Option.bind (upd_client client (\<lambda>_. c') s) (\<lambda>s. Option.bind (parse_command client s) (\<lambda>s.
             Option.bind (client_mem s client) (\<lambda>c. if nread c \<ge> sizeof ProtocolRequestHeader then f client s else Some s)))) wired"
      proof (cases fr)
        case (Bad c')
        have "ok (Option.bind (upd_client client (\<lambda>_. c') s) (add_status_response client 0 EG_PROTOCOL_STATUS_ERROR_PACKET)) wired"
          by (rule ok_bind, rule u [OF c(1) _ wired_status], rule w [unfolded Bad, simplified])
        then show ?thesis using Bad by simp
      next
        case (Wait c')
        then show ?thesis using w wired_upd_client [OF 1(3) c(1)] by simp
      next
        case (Dispatch c')
        have step: "ok (Option.bind (parse_command client s) (\<lambda>s. Option.bind (client_mem s client)
            (\<lambda>c. if nread c \<ge> sizeof ProtocolRequestHeader then f client s else Some s))) wired" if "wired s" for s
          by (rule ok_bind, rule ok_mono [OF wired_parse_command [OF that]]) (intro ok_rules rec; assumption)
        have "ok (Option.bind (upd_client client (\<lambda>_. c') s) (\<lambda>s. Option.bind (parse_command client s) (\<lambda>s.
            Option.bind (client_mem s client) (\<lambda>c. if nread c \<ge> sizeof ProtocolRequestHeader then f client s else Some s)))) wired"
          by (rule ok_bind, rule u [OF c(1) _ step], rule w [unfolded Dispatch, simplified])
        then show ?thesis using Dispatch by simp
      qed
    qed
  qed
qed

lemma wired_read_request:
  assumes "wired s"
  shows "ok (read_request_handler r a s) wired"
proof -
  have "ok (upd_client a (\<lambda>_. c1\<lparr>last_action := t\<rparr>) s) (\<lambda>s. ok (process_request a s) wired)"
    if "client_mem s a = Some c" "receive data c = Some c1" for c c1 data t
    by (rule ok_mono [OF wired_upd_client [OF assms that(1)] wired_process_request])
      (use that(2) in \<open>auto simp: receive_def clwire_def bind_eq_Some_conv\<close>)
  then show ?thesis
    unfolding read_request_handler_def using assms
    by (cases r) (auto intro!: ok_rules okI [where m = "receive data c" for data c] wired_free_client)
qed

section \<open>The rest of a turn of the loop\<close>

lemma wired_simple: "wired s \<Longrightarrow> kept s s' \<Longrightarrow> wired s'"
  by (rule kept_wired)

lemma ok_bind_known: "ok m P \<Longrightarrow> (\<And>x. m = Some x \<Longrightarrow> P x \<Longrightarrow> ok (f x) Q) \<Longrightarrow> ok (Option.bind m f) Q"
  by (cases m) (simp_all add: ok_def)

lemma wired_client_out:
  assumes "wired s"
  shows "ok (upd_client a (\<lambda>c. c\<lparr>responses := f c\<rparr>) s) wired" "ok (upd_client a (\<lambda>c. c\<lparr>sentlen := g c\<rparr>) s) wired"
    "ok (upd_client a (\<lambda>c. c\<lparr>last_action := h c\<rparr>) s) wired" "ok (free_object_list_handler ob s) wired"
  using assms by (intro wired_content; simp add: clwire_def)+

lemma wired_sentlen: "wired s \<Longrightarrow> client_mem s a = Some c \<Longrightarrow> ok (upd_client a (\<lambda>_. c\<lparr>sentlen := n\<rparr>) s) wired"
  by (rule wired_upd_client) (simp_all add: clwire_def)

lemma ok_write_result:
  "(\<And>n. w = Wrote n \<Longrightarrow> ok (f n) Q) \<Longrightarrow> ok y Q \<Longrightarrow> ok z Q \<Longrightarrow> ok (case w of Wrote n \<Rightarrow> f n | Write_again \<Rightarrow> y | Write_failed \<Rightarrow> z) Q"
  by (cases w) simp_all

lemma wired_sent:
  assumes "wired s"
  shows "ok (if b then Option.bind (upd_client a (\<lambda>c. c\<lparr>responses := rest\<rparr>) s)
      (\<lambda>s. Option.bind (free_object_list_handler ob s) (upd_client a (\<lambda>c. c\<lparr>sentlen := 0\<rparr>))) else Some s) wired"
  using assms by (intro ok_rules wired_content; simp add: clwire_def)

lemma ok_out: "ok m (\<lambda>x. wired (snd (snd x))) \<Longrightarrow> ok (Option.bind m (\<lambda>(out, r, s). Some (g out, r, s))) (\<lambda>x. wired (snd (snd x)))"
  by (cases m) (auto simp: ok_def)

lemma wired_send_loop: "wired s \<Longrightarrow> ok (send_loop ws a s) (\<lambda>x. wired (snd (snd x)))"
proof (induction ws a s rule: send_loop.induct)
  case (1 ws client s)
  note rules = okI [where m = "client_mem s c" for s c, THEN ok_bind] okI [where m = "object_mem s c" for s c, THEN ok_bind] ok_if ok_list
    ok_write_result ok_None ok_out wired_client_out [THEN ok_bind_known] wired_sent [THEN ok_bind_known] wired_sentlen [THEN ok_bind_known]
  show ?case
    by (subst send_loop.simps, simp only: Let_def, intro rules 1(3)) (assumption | rule 1(1); assumption | rule 1(2); (assumption | rule refl | simp; fail) | simp add: 1(3) ok_Some; fail)+
qed

lemma wired_send_response:
  assumes "wired s"
  shows "ok (send_response_handler ws a s) (\<lambda>(out, s). wired s)"
proof -
  have l: "wired (s\<lparr>loop := l\<rparr>)" if "wired s" for s l
    by (rule wired_simple [OF that kept_simple(1)])
  show ?thesis
    unfolding send_response_handler_def
    by (rule ok_bind, rule ok_mono [OF wired_send_loop [OF assms]], simp only: case_prod_unfold,
        intro ok_rules wired_free_client [THEN ok_mono] wired_client_out [THEN ok_mono]; simp add: l ok_def)
qed

lemma wired_accept:
  assumes "wired s"
  shows "ok (accept_common_handler d s) wired"
  unfolding accept_common_handler_def
  by (rule ok_bind, rule ok_mono [OF wired_create_client [OF assms]]) (auto intro!: ok_rules wired_free_client)

lemma wired_client_timeout:
  assumes "wired s"
  shows "ok (client_timeout_check s) wired"
  unfolding client_timeout_check_def
  by (intro ok_rules ok_for_each [where P = wired] wired_free_client assms; assumption)

lemma wired_process_queues:
  assumes "wired s"
  shows "ok (process_queues_messages s) wired"
  unfolding process_queues_messages_def
  by (intro ok_rules ok_for_each [where P = wired] wired_content assms; assumption)

lemma wired_server_updater:
  assumes "wired s"
  shows "ok (server_updater_handler s) (\<lambda>(r, s). wired s)"
proof -
  have m: "wired (check_memory (s\<lparr>now_time := a, now_timems := b, msg_counter := 0\<rparr>))" for a b
    by (rule wired_simple [OF assms]) (simp add: check_memory_def kept_def wiring_def lists_def)
  have t: "wired (storage_timeout_check s)" if "wired s" for s
    by (rule wired_simple [OF that]) (simp add: storage_timeout_check_def storage_save_background_def kept_def wiring_def lists_def Let_def)
  have l: "wired (s\<lparr>loop := l\<rparr>)" if "wired s" for s l
    by (rule wired_simple [OF that]) (simp add: kept_def wiring_def lists_def)
  show ?thesis
    unfolding server_updater_handler_def Let_def
    by (rule ok_bind, rule ok_mono [OF wired_client_timeout [OF m]], rule ok_bind, rule ok_mono [OF wired_process_queues], assumption)
      (simp add: ok_def t l)
qed

end
