(* ===== verification/WiredEvents.thy ===== *)
theory WiredEvents
  imports WiredRequests
begin

text \<open>
  The invariant for a turn of the event loop and for loading a storage.
\<close>

section \<open>Events\<close>

lemma wired_loop: "wired s \<Longrightarrow> wired (s\<lparr>loop := l\<rparr>)"
  by (rule wired_simple [OF _ kept_simple(1)])

lemma wired_run_handler:
  assumes "wired s"
  shows "ok (run_file_handler t h d data s) wired"
proof -
  have "ok (if b then Some s else accept_common_handler n s) wired" for b n
    by (simp add: ok_Some assms wired_accept)
  moreover have "ok (Option.bind data (\<lambda>a. read_request_handler r a s)) wired" for r
    using wired_read_request [OF assms] by (cases data) (simp_all add: ok_None)
  moreover have "ok (Option.bind (send_response_handler ws a s) (\<lambda>(_, s). Some s)) wired" for ws a
    by (rule ok_bind, rule ok_mono [OF wired_send_response [OF assms]]) (auto intro: ok_Some)
  then have "ok (Option.bind data (\<lambda>a. Option.bind (send_response_handler ws a s) (\<lambda>(_, s). Some s))) wired" for ws
    by (cases data) (simp_all add: ok_None)
  ultimately show ?thesis unfolding run_file_handler_def by (cases h) simp_all
qed

lemma wired_fire:
  assumes "wired s"
  shows "ok (fire_event t f s) wired"
proof -
  have r: "ok (if b then Option.bind h (\<lambda>h. run_file_handler t h d x s) else Some s) wired" if "wired s" for b h d x s
    using wired_run_handler [OF that] that by (cases h) (simp_all add: ok_def)
  show ?thesis
    unfolding fire_event_def Let_def case_prod_unfold
    by (intro ok_bind okI [where m = "event_at l d" for l d] ok_mono [OF r [OF assms]] r; assumption)
qed

lemma wired_reschedule: "wired s \<Longrightarrow> wired (reschedule i k s)"
  by (simp add: reschedule_def wired_loop case_prod_unfold)

lemma wired_timers_from:
  assumes run: "timers_from i tes n s = Some x" and w: "wired s"
  shows "wired (snd x)"
proof (rule timers_from.raw_induct [where P = "\<lambda>i tes n s x. wired s \<longrightarrow> wired (snd x)", THEN mp, OF _ run w], rule impI)
  fix f i tes n s x
  assume 1: "\<And>i tes n s x. f i tes n s = Some x \<Longrightarrow> wired s \<longrightarrow> wired (snd x)"
    "(case tes of [] \<Rightarrow> Some (n, s)
      | te # tes' \<Rightarrow> if tid te > i then f i tes' n s
          else if timer_due te (env s) then
            Option.bind (run_timer (thandler te) s) (\<lambda>(retval, s').
              let s'' = reschedule (tid te) retval s' in f i (time_events (loop s'')) (n + 1) s'')
          else f i tes' n s) = Some x" "wired s"
  have rec: "ok (f i tes n s) (\<lambda>x. wired (snd x))" if "wired s" for i tes n s
    using 1(1) that by (auto intro: okI)
  have up: "ok (run_timer h s) (\<lambda>(r, s'). wired s')" for h
    using wired_server_updater [OF 1(3)] by (cases h) (simp add: run_timer_def)
  have "ok (Option.bind (run_timer h s) (\<lambda>(retval, s').
      let s'' = reschedule j retval s' in f i (time_events (loop s'')) (n + 1) s'')) (\<lambda>x. wired (snd x))" for h j
    by (rule ok_bind, rule ok_mono [OF up]) (simp only: case_prod_unfold Let_def, rule rec, erule wired_reschedule)
  note step = this [unfolded Let_def case_prod_unfold]
  show "wired (snd x)"
    by (rule okD [OF _ 1(2)], cases tes) (simp_all add: ok_Some rec 1(3) step Let_def case_prod_unfold)
qed

lemma wired_timers: "wired s \<Longrightarrow> ok (process_time_events s) (\<lambda>(n, s). wired s)"
  using wired_timers_from by (fastforce simp: process_time_events_def ok_def)

lemma wired_events:
  assumes "wired s"
  shows "ok (process_events t flags s) (\<lambda>(n, s). wired s)"
proof -
  have f: "ok (Option.bind (for_each (fire_event t) xs s) (\<lambda>s. Some (k, s))) (\<lambda>(n, s). wired s)" for xs and k :: nat
    by (intro ok_rules ok_for_each [where P = wired] wired_fire assms; simp add: ok_def)
  have tm: "ok (Option.bind (process_time_events s) (\<lambda>(n, s). Some (k + n, s))) (\<lambda>(n, s). wired s)" if "wired s" for s k
    using wired_timers [OF that] by (auto simp: ok_def bind_eq_Some_conv)
  have m: "ok (if b then Option.bind (for_each (fire_event t) xs s) (\<lambda>s. Some (k, s)) else Some (0, s)) (\<lambda>(n, s). wired s)" for b xs and k :: nat
    using f assms by (simp add: ok_Some)
  have e: "ok (if b then Option.bind (process_time_events s) (\<lambda>(n, s). Some (k + n, s)) else Some (k, s)) (\<lambda>(n, s). wired s)" if "wired s" for b s k
    using tm [OF that] that by (simp add: ok_Some)
  show ?thesis
    unfolding process_events_def Let_def
    by (rule ok_if, simp add: ok_Some assms) (rule ok_bind, rule ok_mono [OF m], auto intro: e)
qed

section \<open>Loading a storage\<close>

text \<open>A loader that reports success keeps the invariant; after an error the process ends.\<close>

definition loads :: "(server \<Rightarrow> bool) \<Rightarrow> loader \<Rightarrow> bool" where
  "loads I l \<longleftrightarrow> (\<forall>s f. I s \<longrightarrow> ok (l s f) (\<lambda>(st, s', f'). st = EG_STATUS_OK \<longrightarrow> I s'))"

lemma loadsI: "(\<And>s f. I s \<Longrightarrow> ok (l s f) (\<lambda>(st, s', f'). st = EG_STATUS_OK \<longrightarrow> I s')) \<Longrightarrow> loads I l"
  by (simp add: loads_def)

lemma loadsD: "loads I l \<Longrightarrow> I s \<Longrightarrow> ok (l s f) (\<lambda>(st, s', f'). st = EG_STATUS_OK \<longrightarrow> I s')"
  by (simp add: loads_def)

lemma ok_reading: "(\<And>f. ok (e f) Q) \<Longrightarrow> (\<And>x f. ok (k x f) Q) \<Longrightarrow> ok (reading r e k) Q"
  by (auto simp: reading_def split: prod.split option.split)

lemma ok_field: "(\<And>f. Q (EG_STATUS_ERR, s, f)) \<Longrightarrow> (\<And>x f. ok (k x f) Q) \<Longrightarrow> ok (load_field n s f k) Q"
  unfolding load_field_def by (intro ok_bind okI [where m = "storage_read_data n f"] ok_reading ok_Some)

lemma ok_failed: "(\<And>s f. Q (EG_STATUS_ERR, s, f)) \<Longrightarrow> ok (Option.bind m (\<lambda>s. Some (EG_STATUS_ERR, s, f))) Q"
  by (cases m) (simp_all add: ok_def)

lemmas load_rules = ok_reading ok_field ok_failed ok_if ok_Some ok_None ok_option ok_let ok_pair
  okI [where m = "cstr b" for b, THEN ok_bind] okI [where m = "rd32 b i" for b i, THEN ok_bind] okI [where m = "rd64 b i" for b i, THEN ok_bind]
  okI [where m = "find_queue_t qs n s" for qs n s, THEN ok_bind]

lemma loads_times:
  assumes "loads I l"
  shows "loads I (load_times n l)"
proof (induction n)
  case 0
  then show ?case by (simp add: loads_def ok_Some)
next
  case (Suc n)
  have "ok (if st \<noteq> EG_STATUS_OK then Some (EG_STATUS_ERR, s, f) else load_times n l s f) (\<lambda>(st, s', f'). st = EG_STATUS_OK \<longrightarrow> I s')"
    if "st = EG_STATUS_OK \<longrightarrow> I s" for st s f
    using that loadsD [OF Suc] by (simp add: ok_Some)
  then show ?case
    by (intro loadsI, unfold load_times.simps, intro ok_bind ok_mono [OF loadsD [OF assms]]) auto
qed

lemma loads_user: "loads wired storage_load_user"
  unfolding storage_load_user_def
  by (intro loadsI load_rules ok_create_listed(4) [where Q = "{}" and R = "{}" and C = "{}" and U = "{}"]; simp)

lemma loads_channel: "loads wired storage_load_channel"
  unfolding storage_load_channel_def
  by (intro loadsI load_rules ok_create_listed(3) [where Q = "{}" and R = "{}" and C = "{}" and U = "{}"]; simp)

lemma wired_but_object: "wired_but Q R C U s \<Longrightarrow> wired_but Q R C U (fst (create_object d n s))"
  by (rule kept_wired) (auto simp: create_object_def kept_def wiring_def lists_def Let_def)

lemma read_object_keeps:
  assumes "wired_but Q R C U s"
  shows "ok (storage_read_data_object s f) (\<lambda>(r, f). \<forall>s' ob. r = Some (s', ob) \<longrightarrow> wired_but Q R C U s')"
  unfolding storage_read_data_object_def case_prod_unfold
  by (intro ok_reading ok_if ok_bind okI [where m = "lzf_decompress a b c" for a b c] ok_Some)
    (use wired_but_object [OF assms] in \<open>auto simp: prod_eq_iff\<close>)

lemma loads_message: "loads (wired_but Q R C U) (storage_load_queue_message q)"
proof -
  have p: "ok (Option.bind (push_message_queue_t q ob ex s) (\<lambda>(_, s). Some (EG_STATUS_OK, s, f))) (\<lambda>(st, s', f'). st = EG_STATUS_OK \<longrightarrow> wired_but Q R C U s')"
    if "wired_but Q R C U s" for s ob ex f
    by (rule ok_bind, rule ok_mono [OF kw.keeps_push [OF that]]) (auto simp: ok_Some)
  have r: "ok (reading r (\<lambda>f. Some (EG_STATUS_ERR, s, f)) (\<lambda>(s, ob) f. Option.bind (push_message_queue_t q ob ex s) (\<lambda>(_, s). Some (EG_STATUS_OK, s, f))))
      (\<lambda>(st, s', f'). st = EG_STATUS_OK \<longrightarrow> wired_but Q R C U s')"
    if "case r of (r, f) \<Rightarrow> \<forall>s' ob. r = Some (s', ob) \<longrightarrow> wired_but Q R C U s'" for r s ex
    using that p by (auto simp: reading_def ok_Some split: prod.split option.split)
  show ?thesis
    unfolding storage_load_queue_message_def
    by (intro loadsI load_rules ok_bind ok_mono [OF read_object_keeps] r; simp)
qed

lemma loads_key_queues: "loads (wired_but Q R C U) (storage_load_route_key_queues r k)"
proof -
  have "ok (Option.bind (bind_route_t r q key s) (\<lambda>s. Some (EG_STATUS_OK, s, f))) (\<lambda>(st, s', f'). st = EG_STATUS_OK \<longrightarrow> wired_but Q R C U s')"
    if "wired_but Q R C U s" for q key s f
    by (rule ok_bind, rule ok_mono [OF wired_takes(4) [OF that]]) (simp add: ok_Some)
  then show ?thesis
    unfolding storage_load_route_key_queues_def by (intro loadsI load_rules; simp)
qed

lemma loads_key: "loads (wired_but Q R C U) (storage_load_route_key r)"
  unfolding storage_load_route_key_def
  by (intro loadsI load_rules loadsD [OF loads_times [OF loads_key_queues]]; simp)

lemma loads_queue: "loads wired storage_load_queue"
proof -
  have t: "ok (Option.bind (load_times n (storage_load_queue_message q) s f) (\<lambda>(st, s, f).
      if st \<noteq> EG_STATUS_OK then do { s \<leftarrow> delete_queue_t q s; Some (EG_STATUS_ERR, s, f) }
      else Some (EG_STATUS_OK, s\<lparr>queues := queues s @ [q]\<rparr>, f))) (\<lambda>(st, s', f'). st = EG_STATUS_OK \<longrightarrow> wired s')"
    if "wired_but {q} {} {} {} s" for n q s f
    by (rule ok_bind, rule ok_mono [OF loadsD [OF loads_times [OF loads_message] that]]) (auto simp: ok_Some wired_list(1) intro!: ok_failed)
  show ?thesis
    unfolding storage_load_queue_def
    by (intro loadsI load_rules ok_bind ok_mono [OF wired_create(1)]) (auto intro!: t)
qed

lemma loads_route: "loads wired storage_load_route"
proof -
  have t: "ok (Option.bind (load_times n (storage_load_route_key r) s f) (\<lambda>(st, s, f).
      if st \<noteq> EG_STATUS_OK then do { s \<leftarrow> delete_route_t r s; Some (EG_STATUS_ERR, s, f) }
      else Some (EG_STATUS_OK, s\<lparr>routes := routes s @ [r]\<rparr>, f))) (\<lambda>(st, s', f'). st = EG_STATUS_OK \<longrightarrow> wired s')"
    if "wired_but {} {r} {} {} s" for n r s f
    by (rule ok_bind, rule ok_mono [OF loadsD [OF loads_times [OF loads_key] that]]) (auto simp: ok_Some wired_list(2) intro!: ok_failed)
  show ?thesis
    unfolding storage_load_route_def
    by (intro loadsI load_rules ok_bind ok_mono [OF wired_create(2)]) (auto intro!: t)
qed

end
