(* ===== verification/Reach.thy ===== *)
theory Reach
  imports WiredEvents
begin

text \<open>
  The states a server can be in between two turns of its loop, from the start of the process on: the
  invariant holds in all of them, so no pointer of the broker dangles.
\<close>

section \<open>Starting\<close>

lemma loads_record: "load_record type = Some l \<Longrightarrow> loads wired l"
  using loads_user loads_queue loads_route loads_channel by (auto simp: load_record_def split: if_split_asm)

lemma wired_load_loop:
  assumes run: "load_loop s f = Some x" and w: "wired s"
  shows "case x of Loaded s \<Rightarrow> wired s | _ \<Rightarrow> True"
proof (rule load_loop.raw_induct [where P = "\<lambda>s f x. wired s \<longrightarrow> (case x of Loaded s \<Rightarrow> wired s | _ \<Rightarrow> True)", THEN mp, OF _ run w], rule impI)
  fix g s f x
  assume 1: "\<And>s f x. g s f = Some x \<Longrightarrow> wired s \<longrightarrow> (case x of Loaded s \<Rightarrow> wired s | _ \<Rightarrow> True)"
    "(case storage_read_type f of (r, f1) \<Rightarrow> (case r of
       None \<Rightarrow> Some Exited
     | Some type \<Rightarrow>
         if type = EG_STORAGE_EOF then Some (Loaded s)
         else (case load_record type of
             None \<Rightarrow> Some Exited
           | Some l \<Rightarrow> Option.bind (l s f1) (\<lambda>(st, s', f').
               if st \<noteq> EG_STATUS_OK then Some Exited else g s' f')))) = Some x" "wired s"
  show "case x of Loaded s \<Rightarrow> wired s | _ \<Rightarrow> True"
  proof (cases "\<exists>l f1 s' f'. load_record (the (fst (storage_read_type f))) = Some l \<and> l s f1 = Some (EG_STATUS_OK, s', f') \<and> g s' f' = Some x")
    case True
    then obtain l f1 s' f' where "load_record (the (fst (storage_read_type f))) = Some l" "l s f1 = Some (EG_STATUS_OK, s', f')" "g s' f' = Some x" by blast
    then have "wired s'" using okD [OF loadsD [OF loads_record 1(3)]] by blast
    then show ?thesis using 1(1) \<open>g s' f' = Some x\<close> by blast
  next
    case False
    then show ?thesis using 1(2,3) by (auto simp: bind_eq_Some_conv split: prod.split_asm option.split_asm if_split_asm)
  qed
qed

lemma wired_storage_load: "storage_load s = Some (Loaded s') \<Longrightarrow> wired s \<Longrightarrow> wired s'"
  using wired_load_loop by (fastforce simp: storage_load_def split: option.split_asm prod.split_asm if_split_asm)

lemma wired_init_storage:
  assumes "init_storage s = Some (Loaded s')" "wired s"
  shows "wired s'"
proof -
  obtain s1 r where s1: "(if storage_file s = None then do { (_, s) \<leftarrow> storage_save s; Some s } else Some s) = Some s1"
      "storage_load s1 = Some r" "(case r of Not_opened \<Rightarrow> Loaded s1 | _ \<Rightarrow> r) = Loaded s'"
    using assms(1) by (auto simp: init_storage_def bind_eq_Some_conv)
  have "wired s1" using okD [OF kw.keeps_save [OF assms(2)]] s1(1) assms(2) by (auto simp: bind_eq_Some_conv split: if_split_asm)
  then show ?thesis using s1(2,3) wired_storage_load by (cases r) auto
qed

lemma wired_init_admin: "wired s \<Longrightarrow> init_admin st s = Some s' \<Longrightarrow> wired s'"
  unfolding init_admin_def using okD [OF wired_create(4)] wired_list(4) by (fastforce simp: bind_eq_Some_conv)

lemma wired_init_config: "wired (init_server_config e st l sf)"
proof -
  let ?s = "init_server_config e st l sf"
  have m: "queue_mem ?s = Map.empty" "route_mem ?s = Map.empty" "channel_mem ?s = Map.empty" "client_mem ?s = Map.empty" "user_mem ?s = Map.empty"
      "queues ?s = []" "routes ?s = []" "channels ?s = []" "clients ?s = []" "users ?s = []"
    by (simp_all add: init_server_config_def)
  have "held ?s t = tied ?s t" for t by (cases t) (simp_all add: m tied_def)
  then have "core ?s" by (auto simp: core_def linked_def wf_routes_def binds_def links_def wf_ties_def bounded_addrs_def m)
  then show ?thesis by (simp add: wired_but_def listed_def m)
qed

lemma wired_init_server:
  assumes "wired s" "init_server ctl os st s n = Some (s', n')"
  shows "wired s'"
proof -
  have "kept s (unblock_open_files_limit s)" by (simp add: unblock_open_files_limit_def kept_simple kept_refl Let_def split: option.split)
  then have "wired (unblock_open_files_limit s)" by (rule wired_simple [OF assms(1)])
  note l = wired_loop [OF this]
  have "ok (init_server ctl os st s n) (\<lambda>(s', n'). wired s')"
    unfolding init_server_def Let_def
    by (intro ok_if ok_None ok_bind okI [where m = "open_tcp a b c" for a b c] okI [where m = "open_unix a b c" for a b c]
        okI [where m = "listen_on a b c" for a b c] ok_Some) (simp add: l)
  from okD [OF this assms(2)] show ?thesis by simp
qed

lemma wired_boot:
  assumes "boot ctl os e st sf n = Some (Loaded s, n')"
  shows "wired s"
proof -
  obtain s1 n1 s2 where "init_server ctl os st (init_server_config e st (create_event_loop ctl 0) sf) (n\<lparr>srv_fd := 0, srv_sfd := 0\<rparr>) = Some (s1, n1)"
      "init_admin st s1 = Some s2" "init_storage s2 = Some (Loaded s)"
    using assms unfolding boot_def bind_eq_Some_conv case_prod_unfold by auto
  then show ?thesis using wired_init_server [OF wired_init_config] wired_init_admin wired_init_storage by blast
qed

section \<open>Every state of the server\<close>

text \<open>
  The states between the turns of the main loop of any run of the program: whatever the settings, the
  storage file, the operating system and the clients do.
\<close>

inductive reachable :: "server \<Rightarrow> bool" where
  started: "boot ctl os e st sf n = Some (Loaded s, n') \<Longrightarrow> reachable (s\<lparr>loop := (loop s)\<lparr>stop := False\<rparr>\<rparr>)"
| turned: "reachable s \<Longrightarrow> \<not> stop (loop s) \<Longrightarrow> process_events t EG_EVENTS_ALL (begin_turn t s) = Some (k, s') \<Longrightarrow> reachable s'"

text \<open>A run of the main loop from such a state ends in one.\<close>

lemma main_loop_reachable: "main_loop ts s = Some s' \<Longrightarrow> reachable s \<Longrightarrow> reachable s'"
proof (induction ts arbitrary: s)
  case (Cons t ts)
  then show ?case using turned by (auto simp: bind_eq_Some_conv split: if_split_asm)
qed simp

text \<open>
  No pointer of the broker dangles: clients name only queues and channels of the server, queues and
  channels only clients and routes of the server, and routes only its queues.
\<close>

definition no_dangling :: "server \<Rightarrow> bool" where
  "no_dangling s \<longleftrightarrow>
     (\<forall>a \<in> set (clients s). \<exists>c. client_mem s a = Some c \<and> set (declared_queues c) \<union> set (subscribed_queues c) \<subseteq> set (queues s) \<and>
        fst ` (entries (subscribed_topics c) \<union> entries (subscribed_patterns c)) \<subseteq> set (channels s)) \<and>
     (\<forall>q \<in> set (queues s). \<exists>qt. queue_mem s q = Some qt \<and>
        set (declared_clients qt) \<union> set (subscribed_clients_msg qt) \<union> set (subscribed_clients_notify qt) \<subseteq> set (clients s) \<and>
        snd ` entries (qroutes qt) \<subseteq> set (routes s)) \<and>
     (\<forall>r \<in> set (routes s). \<exists>rt. route_mem s r = Some rt \<and> snd ` entries (keys rt) \<subseteq> set (queues s)) \<and>
     (\<forall>ch \<in> set (channels s). \<exists>ct. channel_mem s ch = Some ct \<and> snd ` (entries (topics ct) \<union> entries (patterns ct)) \<subseteq> set (clients s)) \<and>
     (\<forall>u \<in> set (users s). user_mem s u \<noteq> None)"

lemma wired_tie:
  assumes "wired s"
  shows "client_mem s a = Some c \<Longrightarrow> cl_tie c t \<Longrightarrow> a \<in> held s t" "a \<in> held s t \<Longrightarrow> \<exists>c. client_mem s a = Some c \<and> cl_tie c t"
proof -
  have "held s t = tied s t" using assms by (simp add: wired_but_def core_def)
  then show "client_mem s a = Some c \<Longrightarrow> cl_tie c t \<Longrightarrow> a \<in> held s t" "a \<in> held s t \<Longrightarrow> \<exists>c. client_mem s a = Some c \<and> cl_tie c t"
    by (auto simp: tied_def)
qed

lemma wired_dom:
  assumes "wired s"
  shows "dom (queue_mem s) = set (queues s)" "dom (route_mem s) = set (routes s)" "dom (channel_mem s) = set (channels s)"
    "dom (user_mem s) = set (users s)" "dom (client_mem s) = set (clients s)"
  using assms by (simp_all add: wired_but_def listed_def)

lemma wired_queue_tie:
  assumes "wired s" "client_mem s a = Some c" "q \<in> set (declared_queues c) \<union> set (subscribed_queues c)"
  shows "q \<in> set (queues s)"
proof -
  have "a \<in> held s (Declared q) \<or> a \<in> held s (Subscribed q)"
    using wired_tie(1) [OF assms(1,2), of "Declared q"] wired_tie(1) [OF assms(1,2), of "Subscribed q"] assms(3) by auto
  then have "queue_mem s q \<noteq> None" by (auto simp: q_clients_def split: option.split_asm)
  then show ?thesis using wired_dom(1) [OF assms(1)] by auto
qed

lemma wired_channel_tie:
  assumes "wired s" "client_mem s a = Some c" "(ch, k) \<in> entries (subscribed_topics c) \<union> entries (subscribed_patterns c)"
  shows "ch \<in> set (channels s)"
proof -
  have "a \<in> held s (Topic ch k) \<or> a \<in> held s (Pattern ch k)"
    using wired_tie(1) [OF assms(1,2), of "Topic ch k"] wired_tie(1) [OF assms(1,2), of "Pattern ch k"] assms(3) by auto
  then have "channel_mem s ch \<noteq> None" by (auto simp: ch_clients_def split: option.split_asm)
  then show ?thesis using wired_dom(3) [OF assms(1)] by auto
qed

lemma wired_client_tie: "wired s \<Longrightarrow> a \<in> held s t \<Longrightarrow> a \<in> set (clients s)"
  using wired_tie(2) wired_dom(5) by blast

lemma wired_bind:
  assumes "wired s"
  shows "route_mem s r = Some rt \<Longrightarrow> (k, q) \<in> entries (keys rt) \<Longrightarrow> q \<in> set (queues s)"
    "queue_mem s q = Some qt \<Longrightarrow> (k, r) \<in> entries (qroutes qt) \<Longrightarrow> r \<in> set (routes s)"
proof -
  have "binds s = links s" using assms by (simp add: wired_but_def core_def linked_def)
  then have b: "(r, k, q) \<in> binds s \<longleftrightarrow> (r, k, q) \<in> links s" by simp
  show "route_mem s r = Some rt \<Longrightarrow> (k, q) \<in> entries (keys rt) \<Longrightarrow> q \<in> set (queues s)"
    using b wired_dom(1) [OF assms] by (auto simp: binds_def links_def)
  show "queue_mem s q = Some qt \<Longrightarrow> (k, r) \<in> entries (qroutes qt) \<Longrightarrow> r \<in> set (routes s)"
    using b wired_dom(2) [OF assms] by (auto simp: binds_def links_def)
qed

lemma wired_no_dangling:
  assumes "wired s"
  shows "no_dangling s"
proof -
  note d = wired_dom [OF assms]
  have 1: "\<exists>c. client_mem s a = Some c \<and> set (declared_queues c) \<union> set (subscribed_queues c) \<subseteq> set (queues s) \<and>
        fst ` (entries (subscribed_topics c) \<union> entries (subscribed_patterns c)) \<subseteq> set (channels s)" if "a \<in> set (clients s)" for a
    using that wired_queue_tie [OF assms] wired_channel_tie [OF assms] unfolding d(5) [symmetric] by fastforce
  have 2: "\<exists>qt. queue_mem s q = Some qt \<and> set (declared_clients qt) \<union> set (subscribed_clients_msg qt) \<union> set (subscribed_clients_notify qt) \<subseteq> set (clients s) \<and>
        snd ` entries (qroutes qt) \<subseteq> set (routes s)" if q: "q \<in> set (queues s)" for q
  proof -
    obtain qt where qt: "queue_mem s q = Some qt" using q d(1) by blast
    have "a \<in> set (clients s)" if "a \<in> set (declared_clients qt) \<union> set (subscribed_clients_msg qt) \<union> set (subscribed_clients_notify qt)" for a
      using that wired_client_tie [OF assms, of a "Declared q"] wired_client_tie [OF assms, of a "Subscribed q"] qt by auto
    then show ?thesis using qt wired_bind(2) [OF assms qt] by auto
  qed
  have 3: "\<exists>rt. route_mem s r = Some rt \<and> snd ` entries (keys rt) \<subseteq> set (queues s)" if "r \<in> set (routes s)" for r
    using that wired_bind(1) [OF assms] unfolding d(2) [symmetric] by fastforce
  have 4: "\<exists>ct. channel_mem s ch = Some ct \<and> snd ` (entries (topics ct) \<union> entries (patterns ct)) \<subseteq> set (clients s)" if ch: "ch \<in> set (channels s)" for ch
  proof -
    obtain ct where ct: "channel_mem s ch = Some ct" using ch d(3) by blast
    have "a \<in> set (clients s)" if "(k, a) \<in> entries (topics ct) \<union> entries (patterns ct)" for k a
      using that wired_client_tie [OF assms, of a "Topic ch k"] wired_client_tie [OF assms, of a "Pattern ch k"] ct by auto
    then have "snd ` (entries (topics ct) \<union> entries (patterns ct)) \<subseteq> set (clients s)" by force
    then show ?thesis using ct by simp
  qed
  have 5: "user_mem s u \<noteq> None" if "u \<in> set (users s)" for u using that d(4) by auto
  show ?thesis unfolding no_dangling_def by (intro conjI ballI 1 2 3 4 5)
qed

lemma wired_begin_turn: "wired s \<Longrightarrow> wired (begin_turn t s)"
  by (erule wired_simple) (simp add: begin_turn_def sigterm_handler_def kept_def wiring_def lists_def)

lemma reachable_invariant: "reachable s \<Longrightarrow> wired s"
proof (induction rule: reachable.induct)
  case (started ctl os e st sf n s n')
  then show ?case using wired_boot wired_loop by blast
next
  case (turned s t k s')
  then show ?case using okD [OF wired_events turned.hyps(3)] wired_begin_turn by simp
qed

end
