(* ===== verification/Shutdown.thy ===== *)
theory Shutdown
  imports Reach
begin

text \<open>
  The end of the process: \<open>destroy_server\<close> and \<open>destroy_server_config\<close> of src/eagle.c, and \<open>main\<close> as a whole.
  What was opened at the start is closed, and the release of the lists frees every structure - except that
  a channel which deletes itself is released twice.
\<close>

section \<open>The end of the process\<close>

text \<open>The temporary file of the child that saves in the background.\<close>

definition temp_file :: "int \<Rightarrow> bytes" where
  "temp_file pid = take 31 (ascii ''eaglemq-'' @ decimal (nat pid) @ ascii ''.dat'')"

definition remove_temp_file :: "int \<Rightarrow> process \<Rightarrow> process" where
  "remove_temp_file pid n = unlink_path (temp_file pid) n"

definition destroy_server :: "settings \<Rightarrow> server \<Rightarrow> process \<Rightarrow> process" where
  "destroy_server st s n =
     (let n = (case child_pid s of None \<Rightarrow> n | Some pid \<Rightarrow> remove_temp_file pid (n\<lparr>killed := killed n @ [pid]\<rparr>));
          n = (if srv_fd n > 0 then close_sock (srv_fd n) n else n);
          n = (if srv_sfd n > 0 then close_sock (srv_sfd n) n else n);
          n = (case pidfile_opt st of None \<Rightarrow> n | Some p \<Rightarrow> unlink_path p n)
      in (case unix_socket_opt st of None \<Rightarrow> n | Some p \<Rightarrow> unlink_path p n))"

text \<open>
  \<open>list_release\<close> of a list of the server: its free method for each element, while the elements are still
  in the list. The list of the clients has none.
\<close>

definition release_users :: "server \<Rightarrow> server option" where
  "release_users s = do { s \<leftarrow> for_each delete_user (users s) s; Some (s\<lparr>users := []\<rparr>) }"

definition release_queues :: "server \<Rightarrow> server option" where
  "release_queues s = do { s \<leftarrow> for_each delete_queue_t (queues s) s; Some (s\<lparr>queues := []\<rparr>) }"

definition release_routes :: "server \<Rightarrow> server option" where
  "release_routes s = do { s \<leftarrow> for_each delete_route_t (routes s) s; Some (s\<lparr>routes := []\<rparr>) }"

definition release_channels :: "server \<Rightarrow> server option" where
  "release_channels s = do { s \<leftarrow> for_each delete_channel_t (channels s) s; Some (s\<lparr>channels := []\<rparr>) }"

definition destroy_server_config :: "server \<Rightarrow> server option" where
  "destroy_server_config s = do {
     s \<leftarrow> release_users (s\<lparr>clients := []\<rparr>);
     s \<leftarrow> release_queues s;
     s \<leftarrow> release_routes s;
     release_channels s }"

definition delete_event_loop :: "event_loop \<Rightarrow> event_loop" where
  "delete_event_loop l = l\<lparr>interest := Map.empty, events := []\<rparr>"

text \<open>
  The whole of \<open>main\<close>, for as many turns as are given: the process is still running, has ended, or has not
  started its loop. \<open>files\<close> are the files it finds. The identifier of the updater, \<open>server->ufd\<close>, is 0: it
  is the first timer.
\<close>

datatype outcome = Running server process | Ended server process | Not_started

definition main ::
    "(epoll_op \<Rightarrow> int \<Rightarrow> u32 \<Rightarrow> bool) \<Rightarrow> os \<Rightarrow> environment \<Rightarrow> (bytes \<Rightarrow> bytes option) \<Rightarrow> bytes list \<Rightarrow> process \<Rightarrow> turn list \<Rightarrow> outcome option" where
  "main ctl os e files argv n ts = do {
     r \<leftarrow> parse_args files argv default_settings;
     (case r of
        Settled st \<Rightarrow> do {
          (l, n) \<leftarrow> boot ctl os e st (files (storage_opt st)) n;
          (case l of
             Loaded s \<Rightarrow> do {
               s \<leftarrow> start_main_loop ts s;
               if stop (loop s) then do {
                 let s = s\<lparr>loop := delete_event_loop (snd (delete_time_event 0 (loop s)))\<rparr>;
                 let n = destroy_server st s n;
                 s \<leftarrow> destroy_server_config s;
                 Some (Ended s n) }
               else Some (Running s n) }
           | _ \<Rightarrow> Some Not_started) }
      | _ \<Rightarrow> Some Not_started) }"

section \<open>Nothing is left behind\<close>

lemma release_list:
  assumes "\<And>x s. core s \<and> I s \<Longrightarrow> ok (f x s) (\<lambda>s'. (core s' \<and> I s') \<and> D s' \<subseteq> D s - {x})" "core s \<and> I s"
  shows "ok (for_each f xs s) (\<lambda>s'. (core s' \<and> I s') \<and> D s' \<subseteq> D s - set xs)"
  using assms(2)
proof (induction xs arbitrary: s)
  case (Cons x xs)
  show ?case
  proof (rule okI)
    fix s' assume "for_each f (x # xs) s = Some s'"
    then obtain s1 where s1: "f x s = Some s1" "for_each f xs s1 = Some s'" by (auto simp: bind_eq_Some_conv)
    from okD [OF assms(1) [OF Cons.prems] s1(1)] have a: "core s1 \<and> I s1" "D s1 \<subseteq> D s - {x}" by blast+
    from okD [OF Cons.IH [OF a(1)] s1(2)] a(2) show "(core s' \<and> I s') \<and> D s' \<subseteq> D s - set (x # xs)" by auto
  qed
qed (simp add: ok_Some)

lemma delete_user_step:
  assumes "core s"
  shows "ok (delete_user u s) (\<lambda>s'. core s' \<and> (\<exists>m. s' = s\<lparr>user_mem := m\<rparr>) \<and> dom (user_mem s') \<subseteq> dom (user_mem s) - {u})"
proof -
  have "core (s\<lparr>user_mem := (user_mem s)(u := None)\<rparr>)"
  proof -
    let ?s = "s\<lparr>user_mem := (user_mem s)(u := None)\<rparr>"
    have "held ?s t = held s t" for t by (cases t) simp_all
    then have "held ?s = held s" by blast
    moreover have "tied ?s = tied s" by (simp add: tied_def fun_eq_iff)
    moreover have "linked ?s = linked s" by (simp add: linked_def binds_def links_def wf_routes_def)
    ultimately show ?thesis using assms by (auto simp: core_def wf_ties_def bounded_addrs_def)
  qed
  then show ?thesis unfolding delete_user_def by (intro ok_rules) auto
qed

lemma delete_route_step:
  assumes "core s"
  shows "ok (delete_route_t r s) (\<lambda>s'. core s' \<and> but_routes s' = but_routes s \<and> dom (route_mem s') = dom (route_mem s) - {r})"
proof (rule okI)
  fix s' assume r: "delete_route_t r s = Some s'"
  from okD [OF delete_route_core [OF assms] r] have d: "linked s'" "but_routes s' = but_routes s" "dom (route_mem s') = dom (route_mem s) - {r}" by blast+
  note t = but_routes_ties [OF d(2)]
  have "dom (channel_mem s') = dom (channel_mem s)" "dom (user_mem s') = dom (user_mem s)" "dom (client_mem s') = dom (client_mem s)" "fresh s' = fresh s"
    using d(2) by (simp_all add: but_routes_def)
  then have "core s'" using assms d(1,3) t by (auto simp: core_def bounded_addrs_def)
  then show "core s' \<and> but_routes s' = but_routes s \<and> dom (route_mem s') = dom (route_mem s) - {r}" using d by blast
qed

definition channel_frame :: "server \<Rightarrow> server \<Rightarrow> bool" where
  "channel_frame s s' \<longleftrightarrow> but_channels s' = but_channels s \<and> dom (channel_mem s') \<subseteq> dom (channel_mem s)"

lemma channel_frame_trans: "channel_frame s s1 \<Longrightarrow> channel_frame s1 s2 \<Longrightarrow> channel_frame s s2"
  by (simp add: channel_frame_def) blast

lemma channel_frame_refl: "channel_frame s s"
  by (simp add: channel_frame_def)

lemma channel_frame_from: "channel_frame s0 s \<Longrightarrow> ok m (channel_frame s) \<Longrightarrow> ok m (channel_frame s0)"
  using channel_frame_trans by (auto simp: ok_def)

lemma upd_frame:
  assumes "channel_frame s0 s"
  shows "ok (upd_client a f s) (channel_frame s0)" "ok (upd_channel ch g s) (channel_frame s0)" "ok (auto_delete_channel ch s) (channel_frame s0)"
proof -
  have 1: "channel_frame s (s\<lparr>client_mem := (client_mem s)(a \<mapsto> x)\<rparr>)" if "client_mem s a = Some c" for c x
    using domI [of "client_mem s" a] that by (simp add: channel_frame_def but_channels_def insert_absorb)
  have 2: "channel_frame s (s\<lparr>channel_mem := (channel_mem s)(ch \<mapsto> x)\<rparr>)" if "channel_mem s ch = Some c" for c x
    using domI [of "channel_mem s" ch] that by (simp add: channel_frame_def but_channels_def insert_absorb)
  have 3: "channel_frame s (s\<lparr>channels := xs, channel_mem := (channel_mem s)(ch := None)\<rparr>)" for xs
    by (simp add: channel_frame_def but_channels_def)
  show "ok (upd_client a f s) (channel_frame s0)" "ok (upd_channel ch g s) (channel_frame s0)" "ok (auto_delete_channel ch s) (channel_frame s0)"
    unfolding upd_client_def upd_channel_def auto_delete_channel_def
    by (intro ok_rules channel_frame_trans [OF assms] 1 2 3 channel_frame_refl; assumption)+
qed

lemma unsubscribe_frame:
  assumes "channel_frame s0 s"
  shows "ok (unsubscribe_channel_t ch a k s) (\<lambda>(st, s'). channel_frame s0 s')" "ok (punsubscribe_channel_t ch a k s) (\<lambda>(st, s'). channel_frame s0 s')"
  unfolding unsubscribe_channel_t_def punsubscribe_channel_t_def
  by (intro ok_rules upd_frame [THEN ok_mono]; (assumption | simp add: assms)?)+

lemma eject_channel_frame: "ok (eject_clients_channel_t ch s) (channel_frame s)"
  unfolding eject_clients_channel_t_def
  by (intro ok_bind okI [where m = "channel_mem s ch" for s] okI [where m = "map_of kl k" for kl k] ok_for_each [where P = "channel_frame s"]
      unsubscribe_frame [THEN ok_mono2] channel_frame_refl ok_Some ok_pair; (assumption | simp add: ok_Some)?)

lemma delete_channel_step:
  assumes "core s"
  shows "ok (delete_channel_t ch s) (\<lambda>s'. core s' \<and> but_channels s' = but_channels s \<and> dom (channel_mem s') \<subseteq> dom (channel_mem s) - {ch})"
proof (rule okI)
  fix s' assume "delete_channel_t ch s = Some s'"
  then obtain s1 where s1: "eject_clients_channel_t ch s = Some s1" "s' = s1\<lparr>channels := channels s1, channel_mem := (channel_mem s1)(ch := None)\<rparr>"
    by (auto simp: delete_channel_t_def bind_eq_Some_conv)
  have e: "core s1" "\<forall>k. tied s1 (Topic ch k) = {} \<and> tied s1 (Pattern ch k) = {}"
    using okD [OF eject_channel_core [OF assms] s1(1)] shrinks_core by blast+
  have "held s1 = tied s1" using e(1) by (simp add: core_def)
  then have "core s' \<and> but_channels s' = but_channels s1 \<and> dom (channel_mem s') = dom (channel_mem s1) - {ch}"
    using drop_channel [OF e(1) _ _ s1(2)] e(2) by metis
  then show "core s' \<and> but_channels s' = but_channels s \<and> dom (channel_mem s') \<subseteq> dom (channel_mem s) - {ch}"
    using okD [OF eject_channel_frame s1(1)] by (auto simp: channel_frame_def)
qed

lemma released_users:
  assumes "core s"
  shows "ok (release_users s) (\<lambda>s'. core s' \<and> (\<exists>m. s' = s\<lparr>user_mem := m, users := []\<rparr>) \<and> dom (user_mem s') \<subseteq> dom (user_mem s) - set (users s))"
proof -
  have "ok (for_each delete_user (users s) s) (\<lambda>s'. (core s' \<and> (\<exists>m. s' = s\<lparr>user_mem := m\<rparr>)) \<and> dom (user_mem s') \<subseteq> dom (user_mem s) - set (users s))"
  proof (rule release_list)
    show "core s \<and> (\<exists>m. s = s\<lparr>user_mem := m\<rparr>)" using assms by (simp add: exI [of _ "user_mem s"])
    show "ok (delete_user x t) (\<lambda>s'. (core s' \<and> (\<exists>m. s' = s\<lparr>user_mem := m\<rparr>)) \<and> dom (user_mem s') \<subseteq> dom (user_mem t) - {x})"
      if "core t \<and> (\<exists>m. t = s\<lparr>user_mem := m\<rparr>)" for x t
      by (rule ok_mono [OF delete_user_step]) (use that in auto)
  qed
  then show ?thesis unfolding release_users_def
    by (intro ok_bind) (erule ok_mono, rule ok_Some, elim conjE exE, simp, (rule exI, rule refl)?)
qed

text \<open>What the release of the queues, and then that of the routes, leaves as it is.\<close>

definition no_users :: "server \<Rightarrow> bool" where
  "no_users s \<longleftrightarrow> users s = [] \<and> clients s = [] \<and> dom (user_mem s) = {}"

lemma released_queues:
  assumes "core s" "no_users s" "listed (queues s) (dom (queue_mem s)) {}" "listed (routes s) (dom (route_mem s)) {}"
    "listed (channels s) (dom (channel_mem s)) {}"
  shows "ok (release_queues s) (\<lambda>s'. core s' \<and> no_users s' \<and> queues s' = [] \<and> dom (queue_mem s') = {} \<and>
    listed (routes s') (dom (route_mem s')) {} \<and> listed (channels s') (dom (channel_mem s')) {})"
proof -
  let ?I = "\<lambda>s'. no_users s' \<and> listed (routes s') (dom (route_mem s')) {} \<and> listed (channels s') (dom (channel_mem s')) {}"
  have "ok (for_each delete_queue_t (queues s) s) (\<lambda>s'. (core s' \<and> ?I s') \<and> dom (queue_mem s') \<subseteq> dom (queue_mem s) - set (queues s))"
    by (rule release_list, rule ok_mono [OF delete_queue_core]) (use assms in \<open>auto simp: queue_gone_def no_users_def\<close>)
  moreover have e: "dom (queue_mem s) - set (queues s) = {}" using assms(3) by (simp add: listed_def)
  ultimately show ?thesis unfolding release_queues_def e
    by (intro ok_bind) (erule ok_mono, rule ok_Some, simp add: no_users_def)
qed

lemma released_routes:
  assumes "core s" "no_users s" "queues s = []" "dom (queue_mem s) = {}" "listed (routes s) (dom (route_mem s)) {}"
    "listed (channels s) (dom (channel_mem s)) {}"
  shows "ok (release_routes s) (\<lambda>s'. core s' \<and> no_users s' \<and> queues s' = [] \<and> dom (queue_mem s') = {} \<and> routes s' = [] \<and>
    dom (route_mem s') = {} \<and> listed (channels s') (dom (channel_mem s')) {})"
proof -
  let ?I = "\<lambda>s'. no_users s' \<and> queues s' = [] \<and> dom (queue_mem s') = {} \<and> listed (channels s') (dom (channel_mem s')) {}"
  have st: "ok (delete_route_t x t) (\<lambda>s'. (core s' \<and> ?I s') \<and> dom (route_mem s') \<subseteq> dom (route_mem t) - {x})" if "core t \<and> ?I t" for x t
  proof (rule okI)
    fix s' assume "delete_route_t x t = Some s'"
    from okD [OF delete_route_step this] have d: "core s'" "but_routes s' = but_routes t" "dom (route_mem s') = dom (route_mem t) - {x}" using that by blast+
    have "queues s' = queues t" "channels s' = channels t" "users s' = users t" "clients s' = clients t" "channel_mem s' = channel_mem t"
      "user_mem s' = user_mem t" using d(2) by (simp_all add: but_routes_def)
    then show "(core s' \<and> ?I s') \<and> dom (route_mem s') \<subseteq> dom (route_mem t) - {x}" using that d(1,3) but_routes_ties(4) [OF d(2)] by (simp add: no_users_def)
  qed
  have "ok (for_each delete_route_t (routes s) s) (\<lambda>s'. (core s' \<and> ?I s') \<and> dom (route_mem s') \<subseteq> dom (route_mem s) - set (routes s))"
    by (rule release_list [OF st]) (use assms in auto)
  moreover have e: "dom (route_mem s) - set (routes s) = {}" using assms(5) by (simp add: listed_def)
  ultimately show ?thesis unfolding release_routes_def e
    by (intro ok_bind) (erule ok_mono, rule ok_Some, simp add: no_users_def)
qed

lemma released_channels:
  assumes "core s" "no_users s" "queues s = []" "dom (queue_mem s) = {}" "routes s = []" "dom (route_mem s) = {}"
    "listed (channels s) (dom (channel_mem s)) {}"
  shows "ok (release_channels s) (\<lambda>s'. no_users s' \<and> queues s' = [] \<and> dom (queue_mem s') = {} \<and> routes s' = [] \<and>
    dom (route_mem s') = {} \<and> channels s' = [] \<and> dom (channel_mem s') = {})"
proof -
  let ?I = "\<lambda>s'. no_users s' \<and> queues s' = [] \<and> dom (queue_mem s') = {} \<and> routes s' = [] \<and> dom (route_mem s') = {}"
  have st: "ok (delete_channel_t x t) (\<lambda>s'. (core s' \<and> ?I s') \<and> dom (channel_mem s') \<subseteq> dom (channel_mem t) - {x})" if "core t \<and> ?I t" for x t
  proof (rule okI)
    fix s' assume "delete_channel_t x t = Some s'"
    from okD [OF delete_channel_step this] have d: "core s'" "but_channels s' = but_channels t" "dom (channel_mem s') \<subseteq> dom (channel_mem t) - {x}" using that by blast+
    then show "(core s' \<and> ?I s') \<and> dom (channel_mem s') \<subseteq> dom (channel_mem t) - {x}" using that by (simp add: but_channels_def no_users_def)
  qed
  have "ok (for_each delete_channel_t (channels s) s) (\<lambda>s'. (core s' \<and> ?I s') \<and> dom (channel_mem s') \<subseteq> dom (channel_mem s) - set (channels s))"
    by (rule release_list [OF st]) (use assms in auto)
  moreover have e: "dom (channel_mem s) - set (channels s) = {}" using assms(7) by (simp add: listed_def)
  ultimately show ?thesis unfolding release_channels_def e
    by (intro ok_bind) (erule ok_mono, rule ok_Some, simp add: no_users_def)
qed

lemma destroy_config_releases:
  assumes "wired s"
  shows "ok (destroy_server_config s) (\<lambda>s'. no_users s' \<and> queues s' = [] \<and> dom (queue_mem s') = {} \<and> routes s' = [] \<and>
    dom (route_mem s') = {} \<and> channels s' = [] \<and> dom (channel_mem s') = {})"
proof -
  have l: "listed (queues s) (dom (queue_mem s)) {}" "listed (routes s) (dom (route_mem s)) {}" "listed (channels s) (dom (channel_mem s)) {}"
    "dom (user_mem (s\<lparr>clients := []\<rparr>)) - set (users (s\<lparr>clients := []\<rparr>)) = {}" "core (s\<lparr>clients := []\<rparr>)" using assms by (auto simp: wired_but_def listed_def)
  have u: "ok (release_users (s\<lparr>clients := []\<rparr>)) (\<lambda>s'. core s' \<and> no_users s' \<and> listed (queues s') (dom (queue_mem s')) {} \<and>
      listed (routes s') (dom (route_mem s')) {} \<and> listed (channels s') (dom (channel_mem s')) {})"
    by (rule ok_mono [OF released_users [OF l(5), unfolded l(4)]]) (use l(1-3) in \<open>auto simp: no_users_def\<close>)
  have c: "ok (Option.bind (release_routes t) release_channels) (\<lambda>s'. no_users s' \<and> queues s' = [] \<and> dom (queue_mem s') = {} \<and> routes s' = [] \<and>
      dom (route_mem s') = {} \<and> channels s' = [] \<and> dom (channel_mem s') = {})"
    if "core t \<and> no_users t \<and> queues t = [] \<and> dom (queue_mem t) = {} \<and> listed (routes t) (dom (route_mem t)) {} \<and> listed (channels t) (dom (channel_mem t)) {}" for t
  proof -
    have "ok (release_routes t) (\<lambda>s'. core s' \<and> no_users s' \<and> queues s' = [] \<and> dom (queue_mem s') = {} \<and> routes s' = [] \<and>
      dom (route_mem s') = {} \<and> listed (channels s') (dom (channel_mem s')) {})" by (rule released_routes) (use that in blast)+
    then show ?thesis by (intro ok_bind) (erule ok_mono, rule released_channels, blast+)
  qed
  have q: "ok (Option.bind (release_queues t) (\<lambda>s. Option.bind (release_routes s) release_channels)) (\<lambda>s'. no_users s' \<and> queues s' = [] \<and>
      dom (queue_mem s') = {} \<and> routes s' = [] \<and> dom (route_mem s') = {} \<and> channels s' = [] \<and> dom (channel_mem s') = {})"
    if "core t \<and> no_users t \<and> listed (queues t) (dom (queue_mem t)) {} \<and> listed (routes t) (dom (route_mem t)) {} \<and> listed (channels t) (dom (channel_mem t)) {}" for t
  proof -
    have "ok (release_queues t) (\<lambda>s'. core s' \<and> no_users s' \<and> queues s' = [] \<and> dom (queue_mem s') = {} \<and>
      listed (routes s') (dom (route_mem s')) {} \<and> listed (channels s') (dom (channel_mem s')) {})" by (rule released_queues) (use that in blast)+
    then show ?thesis by (intro ok_bind) (erule ok_mono, erule c)
  qed
  show ?thesis
    unfolding destroy_server_config_def by (rule ok_bind, rule ok_mono [OF u q])
qed

section \<open>Sockets and files\<close>

lemma net_keeps [simp]:
  "srv_fd (unlink_path p n) = srv_fd n" "srv_sfd (unlink_path p n) = srv_sfd n" "killed (unlink_path p n) = killed n"
  "socks (unlink_path p n) = socks n" "paths (unlink_path p n) = paths n - {p}"
  by (simp_all add: unlink_path_def)

lemma net_create_keeps:
  "srv_fd (snd (net_create_socket os dm n)) = srv_fd n" "srv_sfd (snd (net_create_socket os dm n)) = srv_sfd n" "killed (snd (net_create_socket os dm n)) = killed n"
  by (simp_all add: net_create_socket_def Let_def split: sum.split option.split)

lemma net_listen_keeps:
  "srv_fd (snd (net_listen os d sa n)) = srv_fd n" "srv_sfd (snd (net_listen os d sa n)) = srv_sfd n" "killed (snd (net_listen os d sa n)) = killed n"
  by (simp_all add: net_listen_def Let_def split: option.split sockaddr.split)

lemmas net_keep = net_create_keeps net_listen_keeps

lemma net_server_keeps:
  "srv_fd (snd (net_tcp_server os ad port n)) = srv_fd n" "srv_sfd (snd (net_tcp_server os ad port n)) = srv_sfd n"
  "killed (snd (net_tcp_server os ad port n)) = killed n" "srv_fd (snd (net_unix_server os path n)) = srv_fd n"
  "srv_sfd (snd (net_unix_server os path n)) = srv_sfd n" "killed (snd (net_unix_server os path n)) = killed n"
  unfolding net_tcp_server_def net_unix_server_def Let_def case_prod_unfold by (simp_all add: net_keep split: option.split)

lemma open_tcp_result:
  assumes "open_tcp os st n = Some n1" "fresh_descriptor os AF_INET n" "os_socket os AF_INET \<noteq> Inr 0" "srv_fd n = 0"
  shows "srv_sfd n1 = srv_sfd n \<and> killed n1 = killed n \<and> paths n1 = paths n \<and>
    (srv_fd n1 = 0 \<and> socks n1 = socks n \<or>
     0 < srv_fd n1 \<and> os_socket os AF_INET = Inr (srv_fd n1) \<and> socks n (srv_fd n1) = None \<and> (\<exists>k. socks n1 = (socks n)(srv_fd n1 \<mapsto> k)))"
proof (cases "port_opt st = 0")
  case True
  then show ?thesis using assms(1,4) by (auto simp: open_tcp_def)
next
  case False
  obtain d m where m: "net_tcp_server os (Some (addr_opt st)) (port_opt st) n = (d, m)" by (cases "net_tcp_server os (Some (addr_opt st)) (port_opt st) n")
  have n1: "d \<noteq> EG_NET_ERR" "n1 = m\<lparr>srv_fd := d\<rparr>" using assms(1) False m by (auto simp: open_tcp_def split: if_split_asm)
  have k: "srv_sfd m = srv_sfd n" "killed m = killed n" using net_server_keeps(2,3) [of os "Some (addr_opt st)" "port_opt st" n] m by simp_all
  have r: "0 \<le> d" "os_socket os AF_INET = Inr d" "socks n d = None" "paths m = paths n" "\<exists>k. socks m = (socks n)(d \<mapsto> k)"
    using net_tcp_server_result [OF assms(2) m] n1(1) by auto
  then have "0 < d" using assms(3) by (cases "d = 0") auto
  then show ?thesis using k r n1(2) by auto
qed

lemma open_unix_result:
  assumes "open_unix os st n = Some n1" "fresh_descriptor os AF_LOCAL n" "os_socket os AF_LOCAL \<noteq> Inr 0" "srv_sfd n = 0"
    and short: "\<forall>p. unix_socket_opt st = Some p \<longrightarrow> length p < SUN_PATH_LEN"
  shows "srv_fd n1 = srv_fd n \<and> killed n1 = killed n \<and> paths n1 = paths n \<union> {p. unix_socket_opt st = Some p} \<and>
    (srv_sfd n1 = 0 \<and> socks n1 = socks n \<or>
     0 < srv_sfd n1 \<and> socks n (srv_sfd n1) = None \<and> (\<exists>k. socks n1 = (socks n)(srv_sfd n1 \<mapsto> k)))"
proof (cases "unix_socket_opt st")
  case None
  then show ?thesis using assms(1,4) by (auto simp: open_unix_def)
next
  case (Some p)
  let ?n = "unlink_path p n"
  obtain d m where m: "net_unix_server os p ?n = (d, m)" by (cases "net_unix_server os p ?n")
  have n1: "d \<noteq> EG_NET_ERR" "n1 = m\<lparr>srv_sfd := d\<rparr>" using assms(1) Some m by (auto simp: open_unix_def split: if_split_asm)
  have k: "srv_fd m = srv_fd n" "killed m = killed n" using net_server_keeps(4,6) [of os p ?n] m by simp_all
  have fr: "fresh_descriptor os AF_LOCAL ?n" using assms(2) by (simp add: fresh_descriptor_def)
  have r: "0 \<le> d" "socks n d = None" "paths m = insert p (paths n)" "\<exists>k. socks m = (socks n)(d \<mapsto> k)"
    using net_unix_server_result [OF fr m] n1(1) short Some by (auto simp: SUN_PATH_LEN_def)
  have "d \<noteq> 0"
  proof
    assume "d = 0"
    then have "fst (net_create_socket os AF_LOCAL ?n) = 0" using m n1(1)
      by (auto simp: net_unix_server_def Let_def case_prod_unfold EG_NET_ERR_def split: if_split_asm)
    then have "os_socket os AF_LOCAL = Inr 0"
      by (auto simp: net_create_socket_def Let_def EG_NET_ERR_def split: sum.split_asm option.split_asm)
    then show False using assms(3) by simp
  qed
  then have "0 < d" using r(1) by simp
  then show ?thesis using k r n1(2) Some by auto
qed

lemma boot_process:
  assumes "boot ctl os e st sf n = Some (r, n1)"
  shows "\<exists>m. open_tcp os st (case pidfile_opt st of None \<Rightarrow> n\<lparr>srv_fd := 0, srv_sfd := 0\<rparr> | Some p \<Rightarrow> create_pid_file os p (n\<lparr>srv_fd := 0, srv_sfd := 0\<rparr>)) = Some m \<and>
    open_unix os st m = Some n1"
  using assms unfolding boot_def init_server_def Let_def case_prod_unfold by (auto simp: bind_eq_Some_conv split: if_split_asm)

lemma create_pid_simps:
  "srv_fd (create_pid_file os p n) = srv_fd n" "srv_sfd (create_pid_file os p n) = srv_sfd n" "killed (create_pid_file os p n) = killed n"
  "socks (create_pid_file os p n) = socks n" "paths (create_pid_file os p n) \<union> {p} = paths n \<union> {p}"
  by (auto simp: create_pid_file_def)

lemma destroy_sockets:
  assumes "boot ctl os e st sf n = Some (r, n1)" "fresh_descriptors os n" "\<forall>dm. os_socket os dm \<noteq> Inr 0"
    "\<forall>p. unix_socket_opt st = Some p \<longrightarrow> length p < SUN_PATH_LEN"
  shows "socks (destroy_server st s n1) = socks n \<and>
    paths (destroy_server st s n1) = paths n - ({p. pidfile_opt st = Some p \<or> unix_socket_opt st = Some p} \<union> temp_file ` {pid. child_pid s = Some pid}) \<and>
    killed (destroy_server st s n1) = killed n @ (case child_pid s of None \<Rightarrow> [] | Some pid \<Rightarrow> [pid])"
proof -
  define n0 where "n0 = (case pidfile_opt st of None \<Rightarrow> n\<lparr>srv_fd := 0, srv_sfd := 0\<rparr> | Some p \<Rightarrow> create_pid_file os p (n\<lparr>srv_fd := 0, srv_sfd := 0\<rparr>))"
  have n0: "srv_fd n0 = 0" "srv_sfd n0 = 0" "killed n0 = killed n" "socks n0 = socks n"
    by (simp_all add: n0_def create_pid_simps split: option.split)
  have p0: "paths n0 - {p. pidfile_opt st = Some p} = paths n - {p. pidfile_opt st = Some p}"
    by (auto simp: n0_def create_pid_file_def split: option.split)
  obtain m where m: "open_tcp os st n0 = Some m" "open_unix os st m = Some n1"
    using boot_process [OF assms(1)] by (auto simp: n0_def)
  have fr: "fresh_descriptor os AF_INET n0" "os_socket os AF_INET = Inr d \<Longrightarrow> os_socket os AF_LOCAL \<noteq> Inr d" for d
    using assms(2) n0(4) by (auto simp: fresh_descriptors_def fresh_descriptor_def)
  have t: "srv_sfd m = 0 \<and> killed m = killed n \<and> paths m = paths n0 \<and> (srv_fd m = 0 \<and> socks m = socks n \<or>
     0 < srv_fd m \<and> os_socket os AF_INET = Inr (srv_fd m) \<and> socks n (srv_fd m) = None \<and> (\<exists>k. socks m = (socks n)(srv_fd m \<mapsto> k)))"
    using open_tcp_result [OF m(1) fr(1) _ n0(1)] assms(3) n0 by simp
  then have "fresh_descriptor os AF_LOCAL m"
    using assms(2) fr(2) by (auto simp: fresh_descriptors_def fresh_descriptor_def)
  then have u: "srv_fd n1 = srv_fd m \<and> killed n1 = killed n \<and> paths n1 = paths n0 \<union> {p. unix_socket_opt st = Some p} \<and>
    (srv_sfd n1 = 0 \<and> socks n1 = socks m \<or> 0 < srv_sfd n1 \<and> socks m (srv_sfd n1) = None \<and> (\<exists>k. socks n1 = (socks m)(srv_sfd n1 \<mapsto> k)))"
    using open_unix_result [OF m(2)] assms(3,4) t by auto
  let ?n = "case child_pid s of None \<Rightarrow> n1 | Some pid \<Rightarrow> remove_temp_file pid (n1\<lparr>killed := killed n1 @ [pid]\<rparr>)"
  have c: "srv_fd ?n = srv_fd n1" "srv_sfd ?n = srv_sfd n1" "socks ?n = socks n1" "paths ?n = paths n1 - temp_file ` {pid. child_pid s = Some pid}"
      "killed ?n = killed n @ (case child_pid s of None \<Rightarrow> [] | Some pid \<Rightarrow> [pid])"
    using u by (auto simp: remove_temp_file_def split: option.split)
  have d: "socks (destroy_server st s n1) = (let f = (if srv_fd n1 > 0 then (socks n1)(srv_fd n1 := None) else socks n1) in if srv_sfd n1 > 0 then f(srv_sfd n1 := None) else f)"
      "paths (destroy_server st s n1) = paths ?n - {p. pidfile_opt st = Some p} - {p. unix_socket_opt st = Some p}"
      "killed (destroy_server st s n1) = killed ?n"
    using c(1-3) unfolding destroy_server_def by (simp_all add: Let_def split: option.split)
  have "socks (destroy_server st s n1) = socks n"
    using t u unfolding d(1) Let_def by (auto simp: fun_eq_iff split: if_split_asm) metis
  moreover have "paths (destroy_server st s n1) = paths n - ({p. pidfile_opt st = Some p \<or> unix_socket_opt st = Some p} \<union> temp_file ` {pid. child_pid s = Some pid})"
    using p0 u unfolding d(2) c(4) by blast
  ultimately show ?thesis using c(5) d(3) by simp
qed

section \<open>A channel that is released twice\<close>

text \<open>
  A channel that deletes itself with its last subscriber is still in the list while the list is released,
  so ejecting its subscribers frees it under the hands of its own deletion.
\<close>

definition pending :: "addr \<Rightarrow> server \<Rightarrow> bool" where
  "pending ch s \<longleftrightarrow> ch \<in> set (channels s) \<and>
     (\<exists>ct. channel_mem s ch = Some ct \<and> chauto_delete ct \<and> (topics ct \<noteq> [] \<or> patterns ct \<noteq> []))"

text \<open>Either the channel still has a subscriber, or it is gone.\<close>

definition pending_or_gone :: "addr \<Rightarrow> server \<Rightarrow> bool" where
  "pending_or_gone ch s \<longleftrightarrow> pending ch s \<or> channel_mem s ch = None"

lemma auto_delete_pending:
  assumes "ch \<in> set (channels s)" "channel_mem s ch = Some ct" "chauto_delete ct"
  shows "ok (auto_delete_channel ch s) (pending_or_gone ch)"
  using assms by (auto simp: ok_def auto_delete_channel_def pending_or_gone_def pending_def split: if_split_asm)

lemma auto_delete_pending_other:
  assumes "x \<noteq> ch" "pending ch s"
  shows "ok (auto_delete_channel x s) (pending ch)"
  using assms by (auto simp: ok_def auto_delete_channel_def pending_def bind_eq_Some_conv split: if_split_asm)

lemma ok_bind_eq: "(\<And>x. m = Some x \<Longrightarrow> ok (f x) Q) \<Longrightarrow> ok (Option.bind m f) Q"
  by (cases m) (simp_all add: ok_def)

lemma unsubscribe_pending:
  assumes "pending_or_gone ch s"
  shows "ok (unsubscribe_channel_t ch a k s) (\<lambda>(st, s'). pending_or_gone ch s')" "ok (punsubscribe_channel_t ch a k s) (\<lambda>(st, s'). pending_or_gone ch s')"
proof -
  have d: "pending_or_gone ch s4"
    if "auto_delete_channel ch s3 = Some s4" "upd_channel ch g s2 = Some s3" "upd_client a f s = Some s2" "channel_mem s ch = Some ct0"
      "\<And>ct. chauto_delete (g ct) = chauto_delete ct" for f g s2 s3 s4 ct0
  proof -
    have p: "pending ch s" using assms that(4) by (simp add: pending_or_gone_def)
    have "channels s3 = channels s" "\<exists>ct. channel_mem s ch = Some ct \<and> channel_mem s3 ch = Some (g ct)"
      using that(2,3) by (auto simp: upd_client_def upd_channel_def bind_eq_Some_conv)
    then have "ok (auto_delete_channel ch s3) (pending_or_gone ch)"
      using p that(5) by (elim exE conjE, intro auto_delete_pending) (auto simp: pending_def)
    from okD [OF this that(1)] show ?thesis .
  qed
  show "ok (unsubscribe_channel_t ch a k s) (\<lambda>(st, s'). pending_or_gone ch s')" "ok (punsubscribe_channel_t ch a k s) (\<lambda>(st, s'). pending_or_gone ch s')"
    unfolding unsubscribe_channel_t_def punsubscribe_channel_t_def
    by (intro ok_bind_eq ok_option ok_Some; simp add: assms; erule (3) d; simp)+
qed

lemma eject_pending: "pending_or_gone ch s \<Longrightarrow> ok (eject_clients_channel_t ch s) (pending_or_gone ch)"
  unfolding eject_clients_channel_t_def
  by (intro ok_bind okI [where m = "channel_mem s ch" for s] okI [where m = "map_of kl k" for kl k] ok_for_each [where P = "pending_or_gone ch"]
      unsubscribe_pending [THEN ok_mono2] ok_Some ok_pair; (assumption | simp add: ok_Some)?)

lemma delete_pending:
  assumes "core s" "pending ch s"
  shows "delete_channel_t ch s = None"
proof (rule ccontr)
  assume "delete_channel_t ch s \<noteq> None"
  then obtain s1 ct where s1: "eject_clients_channel_t ch s = Some s1" "channel_mem s1 ch = Some ct"
    by (auto simp: delete_channel_t_def bind_eq_Some_conv)
  have p: "pending ch s1" using okD [OF eject_pending s1(1)] assms(2) s1(2) by (simp add: pending_or_gone_def)
  have e: "core s1" "\<forall>k. tied s1 (Topic ch k) = {} \<and> tied s1 (Pattern ch k) = {}"
    using okD [OF eject_channel_core [OF assms(1)] s1(1)] shrinks_core by blast+
  have "held s1 = tied s1" "ch_ok ct" using e(1) s1(2) by (auto simp: core_def wf_ties_def)
  then have h: "held s1 (Topic ch k) = {}" "held s1 (Pattern ch k) = {}" for k using e(2) by metis+
  have en: "entries (topics ct) = {}" "entries (patterns ct) = {}" using h s1(2) by auto
  have "kl = []" if "wf_keyed kl" "entries kl = {}" for kl :: "(bytes \<times> addr list) list"
  proof (cases kl)
    case (Cons x xs)
    then have "map_of kl (fst x) = Some (snd x)" by (cases x) simp
    then have "snd x \<noteq> []" using that(1) unfolding wf_keyed_def by blast
    then have "(fst x, hd (snd x)) \<in> entries kl" using \<open>map_of kl (fst x) = Some (snd x)\<close> by (auto simp: entries_def)
    then show ?thesis using that(2) by simp
  qed
  then have "topics ct = []" "patterns ct = []" using en \<open>ch_ok ct\<close> by (auto simp: ch_ok_def)
  then show False using p s1(2) by (simp add: pending_def)
qed

lemma eject_pending_other:
  assumes "x \<noteq> ch"
  shows "pending ch s \<Longrightarrow> ok (delete_channel_t x s) (pending ch)"
proof -
  have c: "pending ch s \<Longrightarrow> ok (upd_client a f s) (pending ch)" for a f s
    by (auto simp: ok_def upd_client_def bind_eq_Some_conv pending_def)
  have u: "pending ch s \<Longrightarrow> ok (upd_channel x g s) (pending ch)" for g s
    using assms by (auto simp: ok_def upd_channel_def bind_eq_Some_conv pending_def)
  have un: "pending ch s \<Longrightarrow> ok (unsubscribe_channel_t x a k s) (\<lambda>(st, s'). pending ch s')" "pending ch s \<Longrightarrow> ok (punsubscribe_channel_t x a k s) (\<lambda>(st, s'). pending ch s')" for a k s
    unfolding unsubscribe_channel_t_def punsubscribe_channel_t_def
    by (intro ok_rules c [THEN ok_mono] u [THEN ok_mono] auto_delete_pending_other [OF assms, THEN ok_mono]; (assumption | simp)?)+
  have e: "pending ch s \<Longrightarrow> ok (eject_clients_channel_t x s) (pending ch)" for s
    unfolding eject_clients_channel_t_def
    by (intro ok_bind okI [where m = "channel_mem s x" for s] okI [where m = "map_of kl k" for kl k] ok_for_each [where P = "pending ch"]
      un [THEN ok_mono2] ok_Some ok_pair; (assumption | simp add: ok_Some)?)
  have f: "pending ch s \<Longrightarrow> pending ch (s\<lparr>channel_mem := (channel_mem s)(x := None)\<rparr>)" for s using assms by (simp add: pending_def)
  show "pending ch s \<Longrightarrow> ok (delete_channel_t x s) (pending ch)"
    unfolding delete_channel_t_def by (intro ok_rules e [THEN ok_mono]) (assumption, simp add: f)
qed

lemma release_pending:
  assumes "core s" "pending ch s" "ch \<in> set xs"
  shows "for_each delete_channel_t xs s = None"
  using assms
proof (induction xs arbitrary: s)
  case (Cons x xs)
  show ?case
  proof (cases "x = ch")
    case True
    then show ?thesis using delete_pending [OF Cons.prems(1,2)] by simp
  next
    case False
    then have "ch \<in> set xs" using Cons.prems(3) by simp
    moreover have "core s1 \<and> pending ch s1" if "delete_channel_t x s = Some s1" for s1
      using okD [OF delete_channel_step [OF Cons.prems(1)] that] okD [OF eject_pending_other [OF False Cons.prems(2)] that] by simp
    ultimately show ?thesis using Cons.IH by (cases "delete_channel_t x s") auto
  qed
qed simp

lemma release_channels_twice:
  assumes "core s" "pending ch s"
  shows "release_channels s = None"
  using release_pending [OF assms] assms(2) by (simp add: release_channels_def pending_def)

end
