(* ===== verification/Spec2Isabelle.thy ===== *)
theory Spec2Isabelle
  imports Access Framing QueueSpec Select Xmalloc Shutdown
begin

text \<open>
  EagleMQ: a message broker written in C. A client connects over TCP or a unix socket and sends
  binary requests; the broker keeps users with permissions, queues of messages, routes that bind keys
  to queues, and channels with subscribers, and can save the durable part of them in a compressed
  file. This library models the broker as it is in src/src, operation by operation, and proves what
  makes it correct.

  The parts, and how they interact. A turn of the event loop (event.c over event_epoll.c or
  event_select.c) reports ready descriptors. A readable client is read by \<open>read_request\<close>, which cuts
  the bytes into requests (\<open>process_request\<close>) and dispatches each through the command table of
  eagle.c to a handler of handlers.c. The handler checks the size, the permission and the names of the
  request (utils.c), works on queues (queue_t.c), routes (route_t.c), channels (channel_t.c) and users
  (user.c), and appends responses to the client, which \<open>send_response\<close> writes later. These structures
  live in lists (list.c), FIFO queues (queue.c) and keylists (keylist.c); messages share
  reference-counted objects (object.c, message.c). A timer of the loop runs \<open>server_updater\<close>: clocks,
  memory limit, client time-outs, expired and unconfirmed messages, and the periodic save. storage.c
  writes the broker to a file, record by record, through the LZF compressor (lzf_c.c, lzf_d.c), and
  loads it when the process starts with the settings of config.c and of the command line. \<open>main\<close> of eagle.c
  opens the sockets (network.c), loads the file, runs the loop until SIGTERM and gives everything back.

  Where what is modelled.
    \<^item> Prelude: the option monad, bytes, words in little-endian order, loops over lists.
    \<^item> Dll, SeqIface, ListLib, QueueLib, KeylistLib: list.c, queue.c and keylist.c on an explicit store
      of nodes, where a null or freed pointer is a fault. Locales state what their clients may rely on
      (sequences, FIFO queues, maps); the C operations interpret them. From State on, the lists of the
      server are HOL lists and association lists, which those interpretations justify; the message
      queue of a \<open>Queue_t\<close> stays the linked one, as its defects matter.
    \<^item> Utils: the input checks, \<open>make_message_tag\<close> and \<open>pattern_match\<close> of utils.c.
    \<^item> State: the structures of eagle.h, user.h, message.h, object.h and event.h as records, and the
      server as one record with a store per kind of structure. An operation maps the server to an
      option: None is a fault (a use of freed memory, an access outside of a buffer).
    \<^item> Objects, QueueT, RouteT, ChannelT, Users: object.c, message.c, queue_t.c, route_t.c, channel_t.c,
      user.c. QueueSpec is the specification of message queues, Links that of bindings.
    \<^item> Protocol: the codes, flags, sizes and offsets of protocol.h. Events, Output, Clients, Requests,
      HandlersSys, HandlersQueue, HandlersRoute, HandlersChannel: all of handlers.c, with the command
      table of eagle.c in Requests. Access shows what permissions guarantee, Framing that requests are
      cut from the stream as they were sent.
    \<^item> Timers, EagleServer: the time events and the turns of event.c, event_epoll.c, the periodic work
      and the start of eagle.c. Frame shows what the operations of a client leave alone. Select is
      event_select.c and its equivalence with the epoll backend.
    \<^item> Config: config.c, \<open>memtoll\<close> and the command line of eagle.c.
    \<^item> Lzf, LzfRoundtrip: lzf_c.c and lzf_d.c in the configuration of lzfP.h, with explicit buffers, and
      the round trip. Storage, StorageRecords, StorageSpec, StorageLoad: storage.c, the bytes of each
      record, what saving writes and what loading makes of it.
    \<^item> Xmalloc: xmalloc.c, the count of the memory in use that the memory limit of eagle.c compares.
    \<^item> Network: network.c on the open descriptors of the process; what the system calls answer is a record.
    \<^item> Partial, Contents, Wiring, Ties, QueueTies, ChannelTies, Shrinks, Deletion, FreeClient, WiredHandlers,
      WiredRequests, WiredEvents, Reach: the invariant of the whole server, operation by operation, up to
      every state a run of the program can be in. Partial has the calculus for results of operations and
      the locale of the invariants that only depend on the wiring, which Contents serves at once for all
      operations that work on contents; the theories after it do the operations that change the wiring.
    \<^item> Shutdown: the end of the process and \<open>main\<close>.
    \<^item> This theory: a restart, from saving a server to the process that starts on its file; every reachable
      state; a run from start to end.

  What the lemmas show. The whole server: in every state between two turns of the loop, whatever clients,
  files and the system do, all pointers of the broker are mutual and none dangles; a process that ends gives
  back its sockets, files and structures. Sockets: an error closes what was half made, an interrupted \<open>accept\<close>
  is repeated. Containers: each C operation implements its operation on sequences, queues or
  maps, and releasing frees every node once. Bindings: both sides of every binding agree, so deletions
  leave nothing dangling. Queues: bounds, order, redelivery and confirmation against a specification
  with plain lists. Requests: framing, and that a refused command changes nothing. Loop: the table and
  the kernel agree, timers run when due, a shutdown ends the loop, a freed client gets no event.
  Memory: the count of the bytes in use is exact. Storage: the round trip of the whole broker, and that a failed save leaves the file alone.
  Some theorems record where the code does not do what it means to; each says so.

  Loops and bounds. Loops over data recurse on it. Loops that need not end (walks through linked nodes,
  the pattern matcher, the compressor, the request loop, saving and loading, the pass over the timers)
  are \<open>partial_function (option)\<close>: not to return is None, and the theorems show that a value is
  returned. The main loop takes the list of its turns, of any length. Integers have the width of the C type wherever it can matter: lengths, masks, counters, times
  of messages and everything on the wire are words; times and descriptors are integers. Buffers have
  the sizes of the code (512 bytes for a line of the configuration, \<open>EG_BUF_SIZE\<close> for a read).

  What the outside world does is a parameter: the clocks, the resources, the disk (whether the file
  opens, how many bytes it takes, whether the rename works), \<open>fork\<close>, the results of \<open>read\<close>, \<open>write\<close> and
  \<open>accept\<close>, what \<open>epoll_ctl\<close> accepts and \<open>epoll_wait\<close> or \<open>select\<close> report, and the bytes of
  uninitialised memory. The clock stands still within a turn of the loop.

  Not modelled: daemonizing, the logs, the warning about overcommitted memory and the version banner (pure
  I/O); other signals than one SIGTERM, which is noticed at the start of a turn; the allocators under
  \<open>xmalloc\<close> (the C library, or the jemalloc under src/deps), and that an operation of the broker runs out
  of memory, which ends the process; the resident set size, read from /proc; the results of \<open>fflush\<close> and
  \<open>fsync\<close>, which the code ignores; the child that \<open>fork\<close> makes for a background save, which runs the
  modelled \<open>storage_save\<close> on its copy; the client libraries and the tools of the repository, which are other
  programs. The invariant of the server speaks of the states a run reaches without a fault; the theorems on
  single operations say where a fault can occur.
\<close>

section \<open>Starting the server\<close>

lemma listen_on_ok:
  assumes "0 < d" "d < int (length (events l))" "\<And>op m. epoll_ctl l op d m"
  shows "\<exists>l'. listen_on d h l = Some l' \<and> time_events l' = time_events l \<and> time_event_id l' = time_event_id l"
  using assms by (simp add: listen_on_def create_file_event_def event_api_add_def event_at_def Let_def)

text \<open>
  A process can listen on the TCP port of its settings as the descriptor \<open>d\<close>: no call fails, the limit of
  open files suffices for the clients, and \<open>epoll_ctl\<close> accepts the socket.
\<close>

definition can_listen :: "(epoll_op \<Rightarrow> int \<Rightarrow> u32 \<Rightarrow> bool) \<Rightarrow> os \<Rightarrow> environment \<Rightarrow> settings \<Rightarrow> int \<Rightarrow> bool" where
  "can_listen ctl os e st d \<longleftrightarrow> port_opt st \<noteq> 0 \<and> unix_socket_opt st = None \<and> os_socket os AF_INET = Inr d \<and> 0 < d \<and>
     d \<le> int (max_clients_opt st) \<and> max_clients_opt st + 1 < 2 ^ 31 \<and> os_reuseaddr os d = None \<and> inet_aton os (addr_opt st) \<noteq> None \<and>
     (\<forall>sa. os_bind os sa = None) \<and> os_listen os d = None \<and> (\<forall>op m. ctl op d m) \<and>
     (\<exists>lim. nofile_limit e = Some lim \<and> 1024 \<le> lim \<and> max_clients_opt st + 32 \<le> lim)"

text \<open>The loop of a server that has just started has the timer of \<open>server_updater\<close> only.\<close>

definition first_timer :: "environment \<Rightarrow> event_loop \<Rightarrow> bool" where
  "first_timer e l \<longleftrightarrow> (case add_milliseconds_to_now 1 e of (sec, ms) \<Rightarrow>
     time_events l = [\<lparr>tid = 0, tsec = sec, tms = ms, thandler = server_updater\<rparr>] \<and> time_event_id l = 1)"

lemma init_server_ok:
  assumes "can_listen ctl os (env s) st d" "max_clients s = max_clients_opt st" "srv_sfd n = 0"
  shows "\<exists>l n'. init_server ctl os st s n = Some (s\<lparr>loop := l\<rparr>, n') \<and> first_timer (env s) l"
proof -
  note c = assms(1) [unfolded can_listen_def]
  let ?l = "create_event_loop ctl (Suc (max_clients s))"
  have u: "unblock_open_files_limit s = s" using c assms(2) by (auto simp: unblock_open_files_limit_def Let_def)
  have sz: "sint (of_nat (max_clients s + 1) :: u32) = int (Suc (max_clients s))" using sint_of_nat32 [of "max_clients s + 1"] c assms(2) by simp
  obtain l where l: "listen_on d accept_tcp_handler ?l = Some l" "time_events l = []" "time_event_id l = 0"
    using listen_on_ok [of d ?l] c assms(2) by (fastforce simp: create_event_loop_def simp del: replicate_Suc)
  define m where "m = (case pidfile_opt st of None \<Rightarrow> n | Some p \<Rightarrow> create_pid_file os p n)"
  have "srv_sfd m = 0" using assms(3) by (simp add: m_def create_pid_file_def split: option.split)
  then obtain n' where n': "open_tcp os st m = Some n'" "srv_fd n' = d" "srv_sfd n' = 0"
    using c by (auto simp: open_tcp_def net_tcp_server_def net_create_socket_def net_listen_def EG_NET_ERR_def EG_NET_OK_def Let_def)
  have "listen_on 0 accept_unix_handler l = Some l" by (simp add: listen_on_def)
  then have "init_server ctl os st s n = Some (s\<lparr>loop := snd (create_time_event 1 server_updater (env s) l)\<rparr>, n')"
    using c l n' u sz by (simp add: init_server_def m_def [symmetric] open_unix_def Let_def del: of_nat_Suc)
  moreover have "first_timer (env s) (snd (create_time_event 1 server_updater (env s) l))"
    using l(2,3) by (simp add: first_timer_def create_time_event_def Let_def split: prod.split)
  ultimately show ?thesis by blast
qed

text \<open>The server before it opens its storage, with its loop \<open>l\<close>.\<close>

definition fresh_server :: "environment \<Rightarrow> settings \<Rightarrow> bytes option \<Rightarrow> event_loop \<Rightarrow> server" where
  "fresh_server e st sf l = (init_server_config e st l sf)\<lparr>user_mem := [0 \<mapsto> \<lparr>uname = name_opt st, upassword = password_opt st, uperm = EG_USER_SUPER_PERM\<rparr>],
     fresh := Suc 0, users := [0]\<rparr>"

lemma fresh_server_starting: "starting (fresh_server e st sf l)"
  by (simp add: fresh_server_def starting_def bounded_def init_server_config_def EG_USER_SUPER_PERM_def BIT_CHECK_iff_bit)

lemma boot_storage:
  assumes "can_listen ctl os e st d" "length (name_opt st) < 32" "length (password_opt st) < 32"
  shows "\<exists>l n'. boot ctl os e st sf n = map_option (\<lambda>r. (r, n')) (init_storage (fresh_server e st sf l)) \<and> first_timer e l"
proof -
  let ?s = "init_server_config e st (create_event_loop ctl 0) sf"
  have m: "max_clients ?s = max_clients_opt st" "env ?s = e" by (simp_all add: init_server_config_def)
  obtain l n' where l: "init_server ctl os st ?s (n\<lparr>srv_fd := 0, srv_sfd := 0\<rparr>) = Some (?s\<lparr>loop := l\<rparr>, n')" "first_timer e l"
    using init_server_ok [of ctl os ?s st d "n\<lparr>srv_fd := 0, srv_sfd := 0\<rparr>"] assms(1) m by auto
  have "init_admin st (?s\<lparr>loop := l\<rparr>) = Some (fresh_server e st sf l)"
    using assms(2,3) by (simp add: init_admin_def create_user_def copy_name_def fresh_server_def init_server_config_def Let_def)
  then show ?thesis using l by (intro exI [of _ l] exI [of _ n']) (cases "init_storage (fresh_server e st sf l)"; simp add: boot_def)
qed

section \<open>Restarting the server\<close>

lemma restarted:
  assumes "storable s im" "distinct (map (queue_name s) (queues s))" "storage_save s = Some (EG_STATUS_OK, s1)"
    and "can_listen ctl os e st d" "length (name_opt st) < 32" "length (password_opt st) < 32"
  shows "\<exists>s2 n'. boot ctl os e st (storage_file s1) n = Some (Loaded s2, n') \<and> durable_image s (restored im) \<and> durable_image s2 (restored im)"
proof -
  obtain l n' where b: "boot ctl os e st (storage_file s1) n = map_option (\<lambda>r. (r, n')) (init_storage (fresh_server e st (storage_file s1) l))"
    using boot_storage [of ctl os e st d "storage_file s1" n] assms(4-6) by blast
  define s0 where "s0 = fresh_server e st (storage_file s1) l"
  have f: "starting s0" "storage_file s0 = storage_file s1"
    unfolding s0_def by (rule fresh_server_starting) (simp add: fresh_server_def init_server_config_def)
  obtain bs where "storage_file s1 = Some bs" using storage_save_image [OF assms(1)] assms(3) by (auto split: if_split_asm)
  then have "init_storage s0 = Option.bind (storage_load s0) (\<lambda>r. Some (case r of Not_opened \<Rightarrow> Loaded s0 | _ \<Rightarrow> r))"
    using f(2) by (simp add: init_storage_def)
  then show ?thesis using save_load [OF assms(1-3) f] b [folded s0_def] by auto
qed



section \<open>Every state of the server\<close>



section \<open>From the start to the end of the process\<close>



end
